(* ===== verification/Kernis_Prelude.thy ===== *)
theory Kernis_Prelude
  imports
    Main
    "HOL-Library.Word"
    "HOL-Library.FSet"
    "HOL-Library.Finite_Map"
    "HOL-Library.List_Lexorder"
    "HOL-Library.Char_ord"
begin

text \<open>
  Shared vocabulary of the development.
  \<^item> \<open>res\<close>: Rust's \<open>Result\<close> with one more constructor, \<open>Panic\<close>, the outcome of a failed
    \<open>expect\<close>, an \<open>unreachable!\<close> or an overflowing \<open>next()\<close>.  A function that cannot fail has a
    plain result type.
  \<^item> \<open>act\<close>: a method taking \<open>&mut self\<close>: it maps the object to the result and the object left
    behind, also when the result is an error.
  \<^item> \<open>u64\<close> arithmetic at its width, the interface \<open>u64_counter\<close> that every newtype counter of the
    program implements.
  \<^item> \<open>BTreeMap\<close> and \<open>BTreeSet\<close> as finite maps and finite sets; iteration in key order is
    \<open>bt_keys\<close>, \<open>bt_values\<close> and \<open>bs_list\<close>.
  \<^item> decimal printing of counters, with its injectivity.
\<close>

subsection \<open>Named collections\<close>

named_theorems kernis_eval \<open>equations that evaluate closed model terms\<close>

subsection \<open>Results and state passing\<close>

datatype ('a, 'e) res = Ok 'a | Err 'e | Panic

type_synonym ('s, 'a, 'e) act = "'s \<Rightarrow> ('a, 'e) res \<times> 's"

fun res_bind :: "('a, 'e) res \<Rightarrow> ('a \<Rightarrow> ('b, 'e) res) \<Rightarrow> ('b, 'e) res" where
  "res_bind (Ok a) f = f a"
| "res_bind (Err e) f = Err e"
| "res_bind Panic f = Panic"

fun map_err :: "('e \<Rightarrow> 'f) \<Rightarrow> ('a, 'e) res \<Rightarrow> ('a, 'f) res" where
  "map_err g (Ok a) = Ok a"
| "map_err g (Err e) = Err (g e)"
| "map_err g Panic = Panic"

definition ok_or :: "'a option \<Rightarrow> 'e \<Rightarrow> ('a, 'e) res" where
  "ok_or x e = (case x of None \<Rightarrow> Err e | Some a \<Rightarrow> Ok a)"

definition act_bind ::
  "('s, 'a, 'e) act \<Rightarrow> ('a \<Rightarrow> ('s, 'b, 'e) act) \<Rightarrow> ('s, 'b, 'e) act" where
  "act_bind m f s =
     (case m s of
        (Ok a, s') \<Rightarrow> f a s'
      | (Err e, s') \<Rightarrow> (Err e, s')
      | (Panic, s') \<Rightarrow> (Panic, s'))"

fun is_ok :: "('a, 'e) res \<Rightarrow> bool" where
  "is_ok (Ok a) = True"
| "is_ok (Err e) = False"
| "is_ok Panic = False"

lemma res_bind_eq_Ok [simp]:
  "res_bind r f = Ok b \<longleftrightarrow> (\<exists>a. r = Ok a \<and> f a = Ok b)"
  by (cases r) auto

lemma res_bind_eq_Panic:
  "res_bind r f = Panic \<longleftrightarrow> r = Panic \<or> (\<exists>a. r = Ok a \<and> f a = Panic)"
  by (cases r) auto

lemma res_bind_eq_Err: "res_bind r f = Err e \<longleftrightarrow> r = Err e \<or> (\<exists>a. r = Ok a \<and> f a = Err e)"
  by (cases r) auto

lemma map_err_eq_Ok [simp]: "map_err g r = Ok a \<longleftrightarrow> r = Ok a"
  by (cases r) auto

lemma map_err_eq_Panic [simp]: "map_err g r = Panic \<longleftrightarrow> r = Panic"
  by (cases r) auto

lemma map_err_eq_Err: "map_err g r = Err e \<longleftrightarrow> (\<exists>e'. r = Err e' \<and> e = g e')"
  by (cases r) auto

lemma ok_or_simps [simp]:
  "ok_or None e = Err e"
  "ok_or (Some a) e = Ok a"
  by (simp_all add: ok_or_def)

lemma ok_or_eq_Ok [simp]: "ok_or x e = Ok a \<longleftrightarrow> x = Some a"
  by (cases x) auto

lemma ok_or_not_Panic [simp]: "ok_or x e \<noteq> Panic"
  by (cases x) auto

lemma is_ok_iff: "is_ok r \<longleftrightarrow> (\<exists>a. r = Ok a)"
  by (cases r) auto

lemma act_bind_eq_Ok:
  "act_bind m f s = (Ok b, t) \<longleftrightarrow> (\<exists>a s'. m s = (Ok a, s') \<and> f a s' = (Ok b, t))"
  by (auto simp: act_bind_def split: prod.splits res.splits)

lemma act_bind_Ok: "m s = (Ok a, s') \<Longrightarrow> act_bind m f s = f a s'"
  by (simp add: act_bind_def)

lemma act_bind_Err: "m s = (Err e, s') \<Longrightarrow> act_bind m f s = (Err e, s')"
  by (simp add: act_bind_def)

subsection \<open>Machine integers\<close>

type_synonym u64 = "64 word"
type_synonym u8 = "8 word"

text \<open>\<open>u64::checked_add(1)\<close>.\<close>

definition u64_checked_succ :: "u64 \<Rightarrow> u64 option" where
  "u64_checked_succ w = (if unat w + 1 < 2 ^ 64 then Some (w + 1) else None)"

lemma unat_u64_less: "unat (w :: u64) < 2 ^ 64"
  using unsigned_less [of w, where ?'a = nat] by simp

lemma unat_u64_succ: "unat w + 1 < 2 ^ 64 \<Longrightarrow> unat (w + 1 :: u64) = unat w + 1"
  by (simp add: unat_plus_if')

lemma unat_u64_inject: "unat (v :: u64) = unat w \<longleftrightarrow> v = w"
  by (simp add: word_unat_eq_iff)

lemma u64_checked_succ_Some:
  "u64_checked_succ w = Some v \<longleftrightarrow> unat w + 1 < 2 ^ 64 \<and> unat v = unat w + 1"
  unfolding u64_checked_succ_def
  by (metis option.distinct(1) option.inject unat_u64_inject unat_u64_succ)

lemma unat_max_u64: "unat (- 1 :: u64) = 2 ^ 64 - 1"
  by (simp add: unsigned_minus_1_eq_mask mask_eq_exp_minus_1)

lemma u64_checked_succ_None: "u64_checked_succ w = None \<longleftrightarrow> w = - 1"
proof -
  have "u64_checked_succ w = None \<longleftrightarrow> unat w = 2 ^ 64 - 1"
    using unat_u64_less [of w] by (auto simp: u64_checked_succ_def)
  then show ?thesis
    using unat_u64_inject [of w "- 1"] by (simp add: unat_max_u64)
qed

text \<open>
  The interface of the program's newtype counters (\<open>Revision\<close>, \<open>StoreRevision\<close>, \<open>Sequence\<close>,
  \<open>Generation\<close>): a wrapper around \<open>u64\<close> whose \<open>checked_next\<close> is \<open>checked_add(1)\<close>.  What a
  client may rely on is that the counter advances by exactly one, never wraps, and stops only at
  the largest value.
\<close>

fun iter_opt :: "('a \<Rightarrow> 'a option) \<Rightarrow> nat \<Rightarrow> 'a \<Rightarrow> 'a option" where
  "iter_opt f 0 x = Some x"
| "iter_opt f (Suc n) x = (case f x of None \<Rightarrow> None | Some y \<Rightarrow> iter_opt f n y)"

locale u64_counter =
  fixes raw :: "'c \<Rightarrow> u64"
    and mk :: "u64 \<Rightarrow> 'c"
    and next_opt :: "'c \<Rightarrow> 'c option"
  assumes raw_mk: "raw (mk w) = w"
    and mk_raw: "mk (raw c) = c"
    and next_opt_raw: "next_opt c = map_option mk (u64_checked_succ (raw c))"
begin

definition val :: "'c \<Rightarrow> nat" where
  "val c = unat (raw c)"

lemma val_inject: "val c = val d \<longleftrightarrow> c = d"
  by (metis val_def unat_u64_inject mk_raw)

lemma val_less: "val c < 2 ^ 64"
  unfolding val_def by (rule unat_u64_less)

lemma next_Some: "next_opt c = Some d \<longleftrightarrow> val c + 1 < 2 ^ 64 \<and> val d = val c + 1"
  by (auto simp: next_opt_raw val_def u64_checked_succ_Some raw_mk)
    (metis mk_raw u64_checked_succ_Some)

lemma next_None: "next_opt c = None \<longleftrightarrow> c = mk (- 1)"
  by (auto simp: next_opt_raw u64_checked_succ_None raw_mk) (metis mk_raw)

lemma next_less: "next_opt c = Some d \<Longrightarrow> val c < val d"
  by (simp add: next_Some)

lemma next_neq: "next_opt c = Some d \<Longrightarrow> d \<noteq> c"
  using next_less by fastforce

lemma next_inject: "next_opt c = Some d \<Longrightarrow> next_opt c' = Some d \<Longrightarrow> c = c'"
  by (simp add: next_Some flip: val_inject)

lemma iter_next: "iter_opt next_opt n c = Some d \<longleftrightarrow> val c + n < 2 ^ 64 \<and> val d = val c + n"
proof (induction n arbitrary: c)
  case 0
  then show ?case using val_inject val_less by auto
next
  case (Suc n)
  show ?case
  proof (cases "next_opt c")
    case None
    then have "val c = 2 ^ 64 - 1"
      by (simp add: next_None val_def raw_mk unat_max_u64)
    with None show ?thesis by simp
  next
    case (Some e)
    then have "val e = val c + 1" "val c + 1 < 2 ^ 64" by (simp_all add: next_Some)
    then show ?thesis unfolding iter_opt.simps Some option.case Suc.IH by auto
  qed
qed

end

subsection \<open>Ordered maps and sets\<close>

abbreviation bs_list :: "'a::linorder fset \<Rightarrow> 'a list" where
  "bs_list \<equiv> sorted_list_of_fset"

abbreviation has_key :: "('k, 'v) fmap \<Rightarrow> 'k \<Rightarrow> bool" where
  "has_key m k \<equiv> fmlookup m k \<noteq> None"

definition bt_keys :: "('k::linorder, 'v) fmap \<Rightarrow> 'k list" where
  "bt_keys m = sorted_list_of_fset (fmdom m)"

definition bt_values :: "('k::linorder, 'v) fmap \<Rightarrow> 'v list" where
  "bt_values m = map (\<lambda>k. the (fmlookup m k)) (bt_keys m)"

lemma sorted_bs_list [simp]: "sorted (bs_list A)"
  by (simp add: sorted_list_of_fset.rep_eq)

lemma distinct_bs_list [simp]: "distinct (bs_list A)"
  by (simp add: sorted_list_of_fset.rep_eq)

lemma bs_list_empty [simp]: "bs_list {||} = []"
  by (simp add: sorted_list_of_fset.rep_eq)

lemma bs_list_inject [simp]: "bs_list A = bs_list B \<longleftrightarrow> A = B"
  by (metis sorted_list_of_fset_simps(2))

lemma bs_list_finsert [kernis_eval]: "bs_list (finsert x A) = insort x (remove1 x (bs_list A))"
  by (simp add: sorted_list_of_fset.rep_eq sorted_list_of_set_insert_remove
      sorted_list_of_set_remove)

lemma set_bt_keys [simp]: "set (bt_keys m) = fset (fmdom m)"
  by (simp add: bt_keys_def)

lemma distinct_bt_keys [simp]: "distinct (bt_keys m)"
  by (simp add: bt_keys_def)

lemma sorted_bt_keys [simp]: "sorted (bt_keys m)"
  by (simp add: bt_keys_def)

lemma bt_keys_empty [simp]: "bt_keys fmempty = []"
  by (simp add: bt_keys_def)

lemma bt_keys_fmupd [kernis_eval]: "bt_keys (fmupd k v m) = insort k (remove1 k (bt_keys m))"
  by (simp add: bt_keys_def bs_list_finsert)

lemma bt_values_empty [simp]: "bt_values fmempty = []"
  by (simp add: bt_values_def)

lemma set_bt_values: "set (bt_values m) = fmran' m"
  by (force simp: bt_values_def fmlookup_dom_iff fmlookup_ran'_iff image_iff)

lemma in_bt_values: "v \<in> set (bt_values m) \<longleftrightarrow> (\<exists>k. fmlookup m k = Some v)"
  by (simp add: set_bt_values fmlookup_ran'_iff)

lemma in_fmdom_iff: "k |\<in>| fmdom m \<longleftrightarrow> has_key m k"
  by (auto simp: fmlookup_dom_iff)

lemma fmupd_same: "fmlookup m k = Some v \<Longrightarrow> fmupd k v m = m"
  by (rule fmap_ext) auto

subsection \<open>Sequences\<close>

text \<open>Rust's \<open>iter().position(..)\<close>.\<close>

fun position :: "('a \<Rightarrow> bool) \<Rightarrow> 'a list \<Rightarrow> nat option" where
  "position P [] = None"
| "position P (x # xs) = (if P x then Some 0 else map_option Suc (position P xs))"

lemma position_None: "position P xs = None \<longleftrightarrow> (\<forall>x \<in> set xs. \<not> P x)"
  by (induction xs) auto

lemma position_Some:
  "position P xs = Some i \<Longrightarrow> i < length xs \<and> P (xs ! i) \<and> (\<forall>j < i. \<not> P (xs ! j))"
proof (induction xs arbitrary: i)
  case (Cons x xs)
  then show ?case
    by (cases i) (auto split: if_splits simp: less_Suc_eq_0_disj nth_Cons')
qed simp

text \<open>Rust's \<open>last()\<close> of a slice or an iterator.\<close>

definition last_opt :: "'a list \<Rightarrow> 'a option" where
  "last_opt xs = (if xs = [] then None else Some (last xs))"

lemma last_opt_simps [simp]:
  "last_opt [] = None"
  "last_opt (xs @ [x]) = Some x"
  "last_opt xs = None \<longleftrightarrow> xs = []"
  by (simp_all add: last_opt_def)

lemma last_opt_Some: "last_opt xs = Some x \<Longrightarrow> x \<in> set xs"
  by (auto simp: last_opt_def split: if_splits)

subsection \<open>Printing\<close>

fun join_with :: "string \<Rightarrow> string list \<Rightarrow> string" where
  "join_with sep [] = []"
| "join_with sep [x] = x"
| "join_with sep (x # y # zs) = x @ sep @ join_with sep (y # zs)"

definition digit_char :: "nat \<Rightarrow> char" where
  "digit_char d = char_of (48 + d)"

fun show_nat :: "nat \<Rightarrow> string" where
  "show_nat n = (if n < 10 then [digit_char n] else show_nat (n div 10) @ [digit_char (n mod 10)])"

declare show_nat.simps [simp del]
lemmas show_nat_unfold [kernis_eval] = show_nat.simps

definition show_u64 :: "u64 \<Rightarrow> string" where
  "show_u64 w = show_nat (unat w)"

lemma digit_char_inject: "a < 10 \<Longrightarrow> b < 10 \<Longrightarrow> digit_char a = digit_char b \<longleftrightarrow> a = b"
proof -
  assume "a < 10" "b < 10"
  then have "(48 + a) mod 256 = 48 + a" "(48 + b) mod 256 = 48 + b" by simp_all
  then show ?thesis
    unfolding digit_char_def by (metis add_left_cancel of_char_of)
qed

lemma show_nat_ne: "show_nat n \<noteq> []"
  by (subst show_nat.simps) simp

lemma show_nat_inject: "show_nat m = show_nat n \<longleftrightarrow> m = n"
proof (induction m arbitrary: n rule: show_nat.induct)
  case (1 m)
  show ?case
  proof (cases "m < 10 \<or> n < 10")
    case True
    then show ?thesis
      by (subst (1 2) show_nat.simps) (auto simp: digit_char_inject show_nat_ne dest: sym [of "[]"])
  next
    case False
    then have "show_nat m = show_nat n \<longleftrightarrow>
        show_nat (m div 10) = show_nat (n div 10) \<and> digit_char (m mod 10) = digit_char (n mod 10)"
      by (subst (1 2) show_nat.simps) simp
    also have "\<dots> \<longleftrightarrow> m div 10 = n div 10 \<and> m mod 10 = n mod 10"
      using "1.IH" False by (simp add: digit_char_inject)
    also have "\<dots> \<longleftrightarrow> m = n"
      by (metis div_mult_mod_eq)
    finally show ?thesis .
  qed
qed

lemma show_u64_inject: "show_u64 v = show_u64 w \<longleftrightarrow> v = w"
  by (simp add: show_u64_def show_nat_inject unat_u64_inject)

end
