(* ===== verification/Core_Primitives.thy ===== *)
theory Core_Primitives
  imports Kernis_Prelude
begin

text \<open>
  The crate \<open>crates/core\<close>: the non-empty textual identifier \<open>Id\<close> with its blank check, and the
  revision counter of versioned structures.  A \<open>String\<close> is its sequence of UTF-8 bytes, so the
  derived \<open>Ord\<close> of \<open>Id\<close> is the lexicographic order on bytes, and \<open>str::trim\<close> removes the byte
  sequences that encode code points with the Unicode property \<open>White_Space\<close>.
\<close>

subsection \<open>Identifiers\<close>

datatype ident = Id string

datatype invalid_id = InvalidId

primrec ident_as_str :: "ident \<Rightarrow> string" where
  "ident_as_str (Id s) = s"

text \<open>The White\_Space code points that take three bytes: U+1680, U+2000 to U+200A, U+2028,
  U+2029, U+202F, U+205F and U+3000.\<close>

definition blank3 :: "nat \<Rightarrow> nat \<Rightarrow> nat \<Rightarrow> bool" where
  "blank3 a b c \<longleftrightarrow>
     a = 0xE1 \<and> b = 0x9A \<and> c = 0x80 \<or>
     a = 0xE2 \<and> b = 0x80 \<and> (0x80 \<le> c \<and> c \<le> 0x8A \<or> c = 0xA8 \<or> c = 0xA9 \<or> c = 0xAF) \<or>
     a = 0xE2 \<and> b = 0x81 \<and> c = 0x9F \<or>
     a = 0xE3 \<and> b = 0x80 \<and> c = 0x80"

text \<open>\<open>value.trim().is_empty()\<close>: nothing but white space.\<close>

fun blank_bytes :: "nat list \<Rightarrow> bool" where
  "blank_bytes [] = True"
| "blank_bytes (a # xs) =
     (if 9 \<le> a \<and> a \<le> 13 \<or> a = 32 then blank_bytes xs
      else case xs of
        [] \<Rightarrow> False
      | b # ys \<Rightarrow>
          if a = 0xC2 \<and> (b = 0x85 \<or> b = 0xA0) then blank_bytes ys
          else case ys of
            [] \<Rightarrow> False
          | c # zs \<Rightarrow> if blank3 a b c then blank_bytes zs else False)"

definition trim_is_empty :: "string \<Rightarrow> bool" where
  "trim_is_empty s = blank_bytes (map of_char s)"

definition id_new :: "string \<Rightarrow> (ident, invalid_id) res" where
  "id_new s = (if trim_is_empty s then Err InvalidId else Ok (Id s))"

text \<open>\<open>Display\<close> of an identifier and of the error.\<close>

definition show_ident :: "ident \<Rightarrow> string" where
  "show_ident i = ident_as_str i"

definition show_invalid_id :: "invalid_id \<Rightarrow> string" where
  "show_invalid_id e = ''identifier must not be empty''"

lemma show_ident_Id [simp]: "show_ident (Id s) = s"
  by (simp add: show_ident_def)

lemma show_ident_inject [simp]: "show_ident i = show_ident j \<longleftrightarrow> i = j"
  by (cases i; cases j) simp

instantiation ident :: linorder
begin

definition less_eq_ident :: "ident \<Rightarrow> ident \<Rightarrow> bool" where
  "less_eq_ident i j \<longleftrightarrow> ident_as_str i \<le> ident_as_str j"

definition less_ident :: "ident \<Rightarrow> ident \<Rightarrow> bool" where
  "less_ident i j \<longleftrightarrow> ident_as_str i < ident_as_str j"

instance
proof
  fix i j k :: ident
  show "i < j \<longleftrightarrow> i \<le> j \<and> \<not> j \<le> i"
    by (auto simp: less_eq_ident_def less_ident_def)
  show "i \<le> i" by (simp add: less_eq_ident_def)
  show "i \<le> j \<Longrightarrow> j \<le> k \<Longrightarrow> i \<le> k" by (simp add: less_eq_ident_def)
  show "i \<le> j \<Longrightarrow> j \<le> i \<Longrightarrow> i = j"
    by (cases i; cases j) (simp add: less_eq_ident_def)
  show "i \<le> j \<or> j \<le> i" by (simp add: less_eq_ident_def linear)
qed

end

lemma ident_less_eq [simp, kernis_eval]: "Id s \<le> Id t \<longleftrightarrow> s \<le> t"
  by (simp add: less_eq_ident_def)

lemma ident_less [simp, kernis_eval]: "Id s < Id t \<longleftrightarrow> s < t"
  by (simp add: less_ident_def)

lemma blank_bytes_ascii:
  "9 \<le> a \<and> a \<le> 13 \<or> a = 32 \<Longrightarrow> blank_bytes (a # xs) = blank_bytes xs"
  by simp

lemma blank_bytes_visible:
  "32 < a \<Longrightarrow> a < 0x80 \<Longrightarrow> \<not> blank_bytes (a # xs)"
  by (auto simp: blank3_def split: list.splits)

text \<open>A string that starts with a visible ASCII character is an identifier.\<close>

lemma id_new_visible:
  "32 < (of_char c :: nat) \<Longrightarrow> (of_char c :: nat) < 0x80 \<Longrightarrow> id_new (c # s) = Ok (Id (c # s))"
  using blank_bytes_visible [of "of_char c" "map of_char s"]
  by (simp add: id_new_def trim_is_empty_def)

lemma id_new_Ok: "id_new s = Ok i \<longleftrightarrow> \<not> trim_is_empty s \<and> i = Id s"
  by (auto simp: id_new_def)

lemma id_new_Err: "id_new s = Err e \<longleftrightarrow> trim_is_empty s"
  by (cases e) (auto simp: id_new_def)

subsection \<open>Revisions\<close>

datatype revision = Revision u64

primrec revision_get :: "revision \<Rightarrow> u64" where
  "revision_get (Revision w) = w"

definition revision_zero :: revision where
  "revision_zero = Revision 0"

definition revision_max :: revision where
  "revision_max = Revision (- 1)"

definition revision_checked_next :: "revision \<Rightarrow> revision option" where
  "revision_checked_next r =
     (case u64_checked_succ (revision_get r) of
        Some n \<Rightarrow> Some (Revision n)
      | None \<Rightarrow> None)"

text \<open>\<open>next\<close> panics where \<open>checked_next\<close> has no successor.\<close>

definition revision_next :: "revision \<Rightarrow> (revision, unit) res" where
  "revision_next r = (case revision_checked_next r of Some n \<Rightarrow> Ok n | None \<Rightarrow> Panic)"

interpretation rev_ctr: u64_counter revision_get Revision revision_checked_next
proof
  fix w :: u64 and c :: revision
  show "revision_get (Revision w) = w" by simp
  show "Revision (revision_get c) = c" by (cases c) simp
  show "revision_checked_next c = map_option Revision (u64_checked_succ (revision_get c))"
    by (simp add: revision_checked_next_def split: option.split)
qed

lemma revision_next_panics: "revision_next r = Panic \<longleftrightarrow> r = revision_max"
  by (auto simp: revision_next_def revision_max_def rev_ctr.next_None split: option.splits)
    (metis option.distinct(1) rev_ctr.next_None)

end
