(* ===== verification/Digraph.thy ===== *)
theory Digraph
  imports Main
begin

text \<open>
  The program has two depth-first searches over a dependency relation: \<open>WorkflowTopology::visit\<close>,
  which looks for a cycle, and \<open>visit\<close> of the capability resolver, which also builds a
  construction order.  Both keep an active path and a set of finished nodes.  The locale
  \<open>dep_graph\<close> states, for a successor function, what such a search keeps true and what each of its
  moves (push, pop, back edge) does to it; each search interprets the locale on its own graph.
\<close>

definition succ_rel :: "('a \<Rightarrow> 'a list) \<Rightarrow> ('a \<times> 'a) set" where
  "succ_rel succs = {(x, y). y \<in> set (succs x)}"

text \<open>A path follows the successor function; a cycle is a path of at least one edge that returns to
  its start, written with the start repeated at the end, as the code reports it.\<close>

fun is_path :: "('a \<Rightarrow> 'a list) \<Rightarrow> 'a list \<Rightarrow> bool" where
  "is_path succs [] = True"
| "is_path succs [x] = True"
| "is_path succs (x # y # zs) = (y \<in> set (succs x) \<and> is_path succs (y # zs))"

definition is_cycle :: "('a \<Rightarrow> 'a list) \<Rightarrow> 'a list \<Rightarrow> bool" where
  "is_cycle succs p \<longleftrightarrow> is_path succs p \<and> 2 \<le> length p \<and> hd p = last p"

lemma is_path_append:
  "is_path succs (xs @ ys) \<longleftrightarrow> is_path succs xs \<and> is_path succs ys \<and>
     (xs \<noteq> [] \<and> ys \<noteq> [] \<longrightarrow> hd ys \<in> set (succs (last xs)))"
proof (induction xs rule: is_path.induct)
  case (2 succs x)
  then show ?case by (cases ys) auto
qed auto

lemma is_path_snoc:
  "is_path succs (xs @ [y]) \<longleftrightarrow> is_path succs xs \<and> (xs = [] \<or> y \<in> set (succs (last xs)))"
  by (auto simp: is_path_append)

lemma is_path_drop: "is_path succs xs \<Longrightarrow> is_path succs (drop n xs)"
  by (metis append_take_drop_id is_path_append)

lemma is_path_trancl:
  "is_path succs p \<Longrightarrow> 2 \<le> length p \<Longrightarrow> (hd p, last p) \<in> (succ_rel succs)\<^sup>+"
proof (induction p rule: is_path.induct)
  case (3 succs x y zs)
  then have xy: "(x, y) \<in> succ_rel succs" by (simp add: succ_rel_def)
  show ?case
  proof (cases zs)
    case Nil
    with xy show ?thesis by simp
  next
    case Cons
    with 3 have "(y, last zs) \<in> (succ_rel succs)\<^sup>+" by simp
    with xy Cons show ?thesis by (simp add: trancl_into_trancl2)
  qed
qed auto

lemma is_cycle_trancl: "is_cycle succs p \<Longrightarrow> (hd p, hd p) \<in> (succ_rel succs)\<^sup>+"
  unfolding is_cycle_def using is_path_trancl by fastforce

lemma is_cycle_not_acyclic: "is_cycle succs p \<Longrightarrow> \<not> acyclic (succ_rel succs)"
  unfolding acyclic_def by (blast dest: is_cycle_trancl)

text \<open>A list in which every member comes after all its successors: a completion log, or a
  construction order.\<close>

definition deps_first :: "('a \<Rightarrow> 'a list) \<Rightarrow> 'a list \<Rightarrow> bool" where
  "deps_first succs is \<longleftrightarrow> (\<forall>k < length is. set (succs (is ! k)) \<subseteq> set (take k is))"

lemma deps_first_Nil [simp]: "deps_first succs []"
  by (simp add: deps_first_def)

lemma deps_first_snoc:
  "deps_first succs (is @ [i]) \<longleftrightarrow> deps_first succs is \<and> set (succs i) \<subseteq> set is"
  by (auto simp: deps_first_def nth_append less_Suc_eq)

lemma deps_first_append:
  assumes "deps_first succs (is @ js)"
  shows "deps_first succs is"
  unfolding deps_first_def
proof (intro allI impI)
  fix k
  assume "k < length is"
  with assms show "set (succs (is ! k)) \<subseteq> set (take k is)"
    unfolding deps_first_def by (auto simp: nth_append dest!: spec [of _ k])
qed

lemma deps_first_cong:
  "(\<And>i. i \<in> set is \<Longrightarrow> set (succs i) = set (succs' i)) \<Longrightarrow> deps_first succs is = deps_first succs' is"
  by (auto simp: deps_first_def)

lemma deps_first_closed:
  assumes "deps_first succs is" and "i \<in> set is"
  shows "set (succs i) \<subseteq> set is"
proof -
  from assms(2) obtain k where "k < length is" "is ! k = i" by (auto simp: in_set_conv_nth)
  with assms(1) show ?thesis unfolding deps_first_def by (meson order_trans set_take_subset)
qed

locale dep_graph =
  fixes succs :: "'a \<Rightarrow> 'a list"
  assumes finite_nodes: "finite {x. succs x \<noteq> []}"
begin

text \<open>What a depth-first search keeps of its active path \<open>act\<close> and finished set \<open>don\<close>.\<close>

definition search_inv :: "'a list \<Rightarrow> 'a set \<Rightarrow> bool" where
  "search_inv act don \<longleftrightarrow>
     distinct act \<and> set act \<inter> don = {} \<and> is_path succs act \<and>
     (\<forall>x \<in> don. set (succs x) \<subseteq> don) \<and> (\<forall>x \<in> don. (x, x) \<notin> (succ_rel succs)\<^sup>+)"

lemma search_inv_start: "search_inv [] {}"
  by (simp add: search_inv_def)

lemma search_inv_push:
  "search_inv act don \<Longrightarrow> x \<notin> set act \<Longrightarrow> x \<notin> don \<Longrightarrow>
   act = [] \<or> x \<in> set (succs (last act)) \<Longrightarrow> search_inv (act @ [x]) don"
  by (auto simp: search_inv_def is_path_snoc)

lemma done_closed:
  assumes "search_inv act don" and "x \<in> don" and "(x, y) \<in> (succ_rel succs)\<^sup>+"
  shows "y \<in> don"
  using assms(3,2)
proof (induction rule: trancl.induct)
  case (r_into_trancl a b)
  then show ?case using assms(1) by (auto simp: search_inv_def succ_rel_def)
next
  case (trancl_into_trancl a b c)
  then show ?case using assms(1) by (auto simp: search_inv_def succ_rel_def)
qed

lemma search_inv_pop:
  assumes inv: "search_inv (act @ [x]) don" and succs: "set (succs x) \<subseteq> don"
  shows "search_inv act (insert x don)"
proof -
  have inv': "search_inv act don"
    using inv by (auto simp: search_inv_def is_path_append)
  have x: "x \<notin> don" "x \<notin> set act"
    using inv by (auto simp: search_inv_def)
  have "(x, x) \<notin> (succ_rel succs)\<^sup>+"
  proof
    assume "(x, x) \<in> (succ_rel succs)\<^sup>+"
    then obtain y where "(x, y) \<in> succ_rel succs" "y = x \<or> (y, x) \<in> (succ_rel succs)\<^sup>+"
      by (metis converse_tranclE)
    then have "x \<in> don"
      using succs done_closed [OF inv'] by (auto simp: succ_rel_def)
    with x show False by simp
  qed
  with inv' succs x show ?thesis
    by (auto simp: search_inv_def)
qed

lemma back_edge_cycle:
  assumes inv: "search_inv act don" and act: "act \<noteq> []" "y \<in> set (succs (last act))"
    and i: "i < length act" "act ! i = y"
  shows "is_cycle succs (drop i act @ [y])"
proof -
  have "is_path succs (drop i act)" using inv by (simp add: search_inv_def is_path_drop)
  moreover have "last (drop i act) = last act" using i by simp
  ultimately have "is_path succs (drop i act @ [y])" using act by (simp add: is_path_snoc)
  moreover have "hd (drop i act @ [y]) = y" using i by (simp add: hd_drop_conv_nth)
  ultimately show ?thesis using i by (simp add: is_cycle_def)
qed

text \<open>When every node with a successor is finished, the graph has no cycle.\<close>

lemma all_done_acyclic:
  assumes inv: "search_inv act don" and all: "\<And>x. succs x \<noteq> [] \<Longrightarrow> x \<in> don"
  shows "acyclic (succ_rel succs)"
proof (rule acyclicI, rule allI, rule notI)
  fix x
  assume cyc: "(x, x) \<in> (succ_rel succs)\<^sup>+"
  then have "succs x \<noteq> []"
    by (auto simp: succ_rel_def dest!: tranclD)
  with all inv cyc show False by (auto simp: search_inv_def)
qed

text \<open>In an acyclic graph a non-empty set that owns the edges leaving it has a member with no
  successor inside: what makes some task ready, and some capability constructible.\<close>

lemma finite_succ_rel: "finite (succ_rel succs)"
proof -
  have "succ_rel succs \<subseteq> (\<Union>x \<in> {x. succs x \<noteq> []}. {x} \<times> set (succs x))"
    by (auto simp: succ_rel_def)
  then show ?thesis by (rule finite_subset) (simp add: finite_nodes)
qed

lemma acyclic_minimal:
  assumes "acyclic (succ_rel succs)" and "S \<noteq> {}"
  shows "\<exists>x \<in> S. \<forall>y \<in> set (succs x). y \<notin> S"
proof -
  have "wf ((succ_rel succs)\<inverse>)"
    using finite_acyclic_wf_converse [OF finite_succ_rel assms(1)] .
  with assms(2) obtain x where "x \<in> S" "\<forall>y. (y, x) \<in> (succ_rel succs)\<inverse> \<longrightarrow> y \<notin> S"
    by (metis equals0I wfE_min)
  then show ?thesis by (auto simp: succ_rel_def)
qed

end

end
