(* ===== verification/Workflow_Topology.thy ===== *)
theory Workflow_Topology
  imports Core_Primitives Digraph
begin

text \<open>
  The mutable topology of a workflow (\<open>crates/workflow-graph/src/lib.rs\<close>, \<open>WorkflowTopology\<close>): its
  tasks, the incoming dependencies of each task, and the depth-first search \<open>cycle_path\<close> that every
  topology mutation is checked with.  The search is shown total, free of panics, sound (what it
  reports is a cycle) and complete (it reports one whenever there is one).
\<close>

subsection \<open>Tasks and topology\<close>

record task =
  tk_id :: ident
  tk_label :: string

record workflow_topology =
  wt_tasks :: "(ident, task) fmap"
  wt_deps :: "(ident, ident fset) fmap"

definition topo_empty :: workflow_topology where
  "topo_empty = \<lparr>wt_tasks = fmempty, wt_deps = fmempty\<rparr>"

definition topo_task :: "workflow_topology \<Rightarrow> ident \<Rightarrow> task option" where
  "topo_task t i = fmlookup (wt_tasks t) i"

definition topo_tasks :: "workflow_topology \<Rightarrow> task list" where
  "topo_tasks t = bt_values (wt_tasks t)"

definition topo_task_ids :: "workflow_topology \<Rightarrow> ident list" where
  "topo_task_ids t = bt_keys (wt_tasks t)"

definition topo_dependencies :: "workflow_topology \<Rightarrow> ident \<Rightarrow> ident list" where
  "topo_dependencies t i = (case fmlookup (wt_deps t) i of None \<Rightarrow> [] | Some ds \<Rightarrow> bs_list ds)"

definition topo_edges :: "workflow_topology \<Rightarrow> (ident \<times> ident) list" where
  "topo_edges t = concat (map (\<lambda>i. map (\<lambda>d. (i, d)) (topo_dependencies t i)) (bt_keys (wt_deps t)))"

definition contains_task :: "workflow_topology \<Rightarrow> ident \<Rightarrow> bool" where
  "contains_task t i \<longleftrightarrow> has_key (wt_tasks t) i"

subsection \<open>The search\<close>

datatype wf_visit_state = WfActive | WfComplete

type_synonym wf_marks = "(ident, wf_visit_state) fmap"

text \<open>
  \<open>visit_deps t i ds\<close> is the \<open>for\<close> loop of \<open>visit\<close> at the node \<open>i\<close> with the dependencies \<open>ds\<close> left,
  followed by the code after the loop.  The state is the pair of \<open>marks\<close> and \<open>stack\<close>; the result
  is \<open>Some path\<close> when a cycle was found; the search has no error of its own.  The failed \<open>expect\<close> on the stack position is \<open>Panic\<close>.
\<close>

function visit_deps ::
  "workflow_topology \<Rightarrow> ident \<Rightarrow> ident list \<Rightarrow> (wf_marks \<times> ident list, ident list option, unit) act"
where
  "visit_deps t i [] (m, s) = (Ok None, (fmupd i WfComplete m, butlast s))"
| "visit_deps t i (d # ds) (m, s) =
     (case fmlookup m d of
        None \<Rightarrow>
          (case visit_deps t d (topo_dependencies t d) (fmupd d WfActive m, s @ [d]) of
             (Ok None, ms) \<Rightarrow> visit_deps t i ds ms
           | (Ok (Some p), ms) \<Rightarrow> (Ok (Some p), ms)
           | (Err e, ms) \<Rightarrow> (Err e, ms)
           | (Panic, ms) \<Rightarrow> (Panic, ms))
      | Some WfActive \<Rightarrow>
          (case position (\<lambda>c. c = d) s of
             None \<Rightarrow> (Panic, (m, s))
           | Some k \<Rightarrow> (Ok (Some (drop k s @ [d])), (m, s)))
      | Some WfComplete \<Rightarrow> visit_deps t i ds (m, s))"
  by pat_completeness auto

lemma visit_deps_marks_grow:
  "visit_deps_dom (t, i, ds, ms) \<Longrightarrow> visit_deps t i ds ms = (Ok None, ms') \<Longrightarrow>
   fmdom (fst ms) |\<subseteq>| fmdom (fst ms')"
proof (induction arbitrary: ms' rule: visit_deps.pinduct)
  case (1 t i m s)
  then show ?case by (auto simp: visit_deps.psimps)
next
  case (2 t i d ds m s)
  note unfold = visit_deps.psimps(2) [OF "2.hyps"]
  show ?case
  proof (cases "fmlookup m d")
    case None
    with "2.prems" obtain ms1 where
      inner: "visit_deps t d (topo_dependencies t d) (fmupd d WfActive m, s @ [d]) = (Ok None, ms1)"
      and rest: "visit_deps t i ds ms1 = (Ok None, ms')"
      by (auto simp: unfold split: prod.splits res.splits option.splits)
    from "2.IH"(1) [OF None inner] "2.IH"(2) [OF None inner [symmetric] refl refl rest]
    show ?thesis by auto
  next
    case (Some v)
    with "2.prems" have "v = WfComplete" "visit_deps t i ds (m, s) = (Ok None, ms')"
      by (auto simp: unfold split: wf_visit_state.splits option.splits)
    with "2.IH"(3) [OF Some] show ?thesis by simp
  qed
qed

lemma unvisited_card_mono:
  assumes "fmdom m |\<subseteq>| fmdom m'"
  shows "card (fset A - fset (fmdom m')) \<le> card (fset A - fset (fmdom m))"
  by (rule card_mono) (use assms in \<open>auto simp: less_eq_fset.rep_eq\<close>)

lemma unvisited_card_less:
  assumes "x |\<in>| A" and "fmlookup m x = None"
  shows "card (fset A - insert x (fset (fmdom m))) < card (fset A - fset (fmdom m))"
proof (rule psubset_card_mono)
  have "x \<notin> fset (fmdom m)" using assms(2) by (rule fmdom_notI)
  with assms(1) show "fset A - insert x (fset (fmdom m)) \<subset> fset A - fset (fmdom m)" by blast
qed simp

termination visit_deps
proof (relation "measures [\<lambda>(t, i, ds, ms). card (fset (fmdom (wt_deps t)) - fset (fmdom (fst ms))),
    \<lambda>(t, i, ds, ms). length ds]", goal_cases)
  case 1
  show ?case by simp
next
  case (2 t i d ds m s)
  show ?case
  proof (cases "d |\<in>| fmdom (wt_deps t)")
    case True
    then show ?thesis using unvisited_card_less [OF True 2] by simp
  next
    case False
    then have "topo_dependencies t d = []"
      by (simp add: topo_dependencies_def fmdom_notD)
    moreover have "fset (fmdom (wt_deps t)) - insert d (fset (fmdom m))
        = fset (fmdom (wt_deps t)) - fset (fmdom m)"
      using False by auto
    ultimately show ?thesis by simp
  qed
next
  case (3 t i d ds m s x y x1)
  then have "visit_deps t d (topo_dependencies t d) (fmupd d WfActive m, s @ [d]) = (Ok None, y)"
    by simp
  from visit_deps_marks_grow [OF 3(5) this] have "fmdom m |\<subseteq>| fmdom (fst y)" by auto
  from unvisited_card_mono [OF this, of "fmdom (wt_deps t)"] show ?case by auto
next
  case (4 t i d ds m s x2)
  show ?case by simp
qed

declare visit_deps.simps [simp del]

text \<open>\<open>visit\<close> marks and stacks the node, then runs the loop; the recursive call of the loop is
  \<open>visit\<close> again.\<close>

definition visit_task ::
  "workflow_topology \<Rightarrow> ident \<Rightarrow> (wf_marks \<times> ident list, ident list option, unit) act" where
  "visit_task t i ms =
     visit_deps t i (topo_dependencies t i) (fmupd i WfActive (fst ms), snd ms @ [i])"

fun cycle_scan ::
  "workflow_topology \<Rightarrow> ident list \<Rightarrow> wf_marks \<times> ident list \<Rightarrow> (ident list option, unit) res" where
  "cycle_scan t [] ms = Ok None"
| "cycle_scan t (i # is) ms =
     (if has_key (fst ms) i then cycle_scan t is ms
      else case visit_task t i ms of
             (Ok None, ms') \<Rightarrow> cycle_scan t is ms'
           | (r, _) \<Rightarrow> r)"

definition cycle_path :: "workflow_topology \<Rightarrow> (ident list option, unit) res" where
  "cycle_path t = cycle_scan t (topo_task_ids t) (fmempty, [])"

subsection \<open>What the search decides\<close>

text \<open>A topology is well formed when only tasks have dependencies and only tasks are depended on:
  what \<open>AddDependency\<close> checks.\<close>

definition topo_wf :: "workflow_topology \<Rightarrow> bool" where
  "topo_wf t \<longleftrightarrow>
     (\<forall>i ds. fmlookup (wt_deps t) i = Some ds \<longrightarrow>
        contains_task t i \<and> ds \<noteq> {||} \<and> (\<forall>d. d |\<in>| ds \<longrightarrow> contains_task t d))"

abbreviation topo_rel :: "workflow_topology \<Rightarrow> (ident \<times> ident) set" where
  "topo_rel t \<equiv> succ_rel (topo_dependencies t)"

definition topo_acyclic :: "workflow_topology \<Rightarrow> bool" where
  "topo_acyclic t \<longleftrightarrow> acyclic (topo_rel t)"

lemma topo_dependencies_iff:
  "d \<in> set (topo_dependencies t i) \<longleftrightarrow> (\<exists>ds. fmlookup (wt_deps t) i = Some ds \<and> d |\<in>| ds)"
  by (cases "fmlookup (wt_deps t) i") (auto simp: topo_dependencies_def)

lemma topo_dependencies_ne: "topo_dependencies t i \<noteq> [] \<Longrightarrow> has_key (wt_deps t) i"
  by (auto simp: topo_dependencies_def split: option.splits)

interpretation topo: dep_graph "topo_dependencies t" for t
proof
  have "{i. topo_dependencies t i \<noteq> []} \<subseteq> fset (fmdom (wt_deps t))"
    by (auto dest: topo_dependencies_ne simp: in_fmdom_iff)
  then show "finite {i. topo_dependencies t i \<noteq> []}"
    by (rule finite_subset) simp
qed

definition finished :: "wf_marks \<Rightarrow> ident set" where
  "finished m = {i. fmlookup m i = Some WfComplete}"

definition visit_inv :: "workflow_topology \<Rightarrow> wf_marks \<Rightarrow> ident list \<Rightarrow> bool" where
  "visit_inv t m s \<longleftrightarrow>
     topo.search_inv t s (finished m) \<and> (\<forall>i. fmlookup m i = Some WfActive \<longleftrightarrow> i \<in> set s)"

lemma finished_fmupd [simp]:
  "finished (fmupd i WfComplete m) = insert i (finished m)"
  "fmlookup m i \<noteq> Some WfComplete \<Longrightarrow> finished (fmupd i WfActive m) = finished m"
  by (auto simp: finished_def)

lemma visit_inv_push:
  assumes "visit_inv t m s" and "fmlookup m d = None"
    and "s = [] \<or> d \<in> set (topo_dependencies t (last s))"
  shows "visit_inv t (fmupd d WfActive m) (s @ [d])"
proof -
  have "d \<notin> set s" "d \<notin> finished m"
    using assms(1,2) unfolding visit_inv_def finished_def by (metis option.distinct(1), simp)
  with assms topo.search_inv_push [of t s "finished m" d] show ?thesis
    by (auto simp: visit_inv_def)
qed

lemma visit_inv_pop:
  assumes "visit_inv t m (s @ [i])" and "set (topo_dependencies t i) \<subseteq> finished m"
  shows "visit_inv t (fmupd i WfComplete m) s"
proof -
  have "topo.search_inv t s (insert i (finished m))"
    using assms by (intro topo.search_inv_pop) (auto simp: visit_inv_def)
  moreover have "i \<notin> set s"
    using assms(1) by (auto simp: visit_inv_def topo.search_inv_def)
  ultimately show ?thesis
    using assms(1) by (auto simp: visit_inv_def)
qed

text \<open>The postcondition of one visit, for each way it can end.\<close>

definition visit_post ::
  "workflow_topology \<Rightarrow> ident \<Rightarrow> wf_marks \<Rightarrow> ident list \<Rightarrow>
   (ident list option, unit) res \<times> wf_marks \<times> ident list \<Rightarrow> bool" where
  "visit_post t i m s r \<longleftrightarrow>
     (case r of
        (Ok None, m', s') \<Rightarrow>
          s' = s \<and> visit_inv t m' s \<and> finished m \<subseteq> finished m' \<and> i \<in> finished m'
      | (Ok (Some p), _) \<Rightarrow> is_cycle (topo_dependencies t) p
      | _ \<Rightarrow> False)"

lemma visit_deps_post:
  assumes "visit_inv t m (s @ [i])"
    and "set ds \<subseteq> set (topo_dependencies t i)"
    and "set (topo_dependencies t i) \<subseteq> set ds \<union> finished m"
  shows "visit_post t i m s (visit_deps t i ds (m, s @ [i]))"
  using assms
proof (induction t i ds "(m, s @ [i])" arbitrary: m s rule: visit_deps.induct)
  case (1 t i m)
  then show ?case
    by (auto simp: visit_deps.simps visit_post_def intro: visit_inv_pop)
next
  case (2 t i d ds m)
  have d: "d \<in> set (topo_dependencies t i)" using "2.prems"(2) by simp
  show ?case
  proof (cases "fmlookup m d")
    case None
    have inv: "visit_inv t (fmupd d WfActive m) ((s @ [i]) @ [d])"
      using "2.prems"(1) None d by (intro visit_inv_push) auto
    let ?r = "visit_deps t d (topo_dependencies t d) (fmupd d WfActive m, (s @ [i]) @ [d])"
    have inner: "visit_post t d (fmupd d WfActive m) (s @ [i]) ?r"
      by (rule "2.hyps"(1) [OF None]) (use inv in simp_all)
    show ?thesis
    proof (cases "\<exists>ms. ?r = (Ok None, ms)")
      case True
      then obtain m1 s1 where r: "?r = (Ok None, m1, s1)" by (metis surj_pair)
      with inner None have s1: "s1 = s @ [i]" and inv1: "visit_inv t m1 (s @ [i])"
        and sub: "finished m \<subseteq> finished m1" "d \<in> finished m1"
        by (auto simp: visit_post_def)
      have r': "(Ok None, m1, s @ [i]) = ?r" using r s1 by simp
      have "visit_post t i m1 s (visit_deps t i ds (m1, s @ [i]))"
        by (rule "2.hyps"(2) [OF None r' refl refl]) (use inv1 sub "2.prems" None in auto)
      with sub have "visit_post t i m s (visit_deps t i ds (m1, s @ [i]))"
        by (auto simp: visit_post_def split: prod.splits res.splits option.splits)
      with r s1 None show ?thesis by (simp add: visit_deps.simps)
    next
      case False
      with inner None show ?thesis
        by (auto simp: visit_deps.simps visit_post_def split: prod.splits res.splits option.splits)
    qed
  next
    case (Some v)
    show ?thesis
    proof (cases v)
      case WfActive
      with Some "2.prems"(1) have "d \<in> set (s @ [i])" by (auto simp: visit_inv_def)
      then obtain k where k: "position (\<lambda>c. c = d) (s @ [i]) = Some k"
        by (metis (mono_tags, lifting) not_Some_eq position_None)
      from position_Some [OF k] have k': "k < length (s @ [i])" "(s @ [i]) ! k = d" by auto
      have "is_cycle (topo_dependencies t) (drop k (s @ [i]) @ [d])"
        by (rule topo.back_edge_cycle [OF _ _ _ k'])
          (use "2.prems"(1) d in \<open>auto simp: visit_inv_def\<close>)
      with Some WfActive k show ?thesis by (simp add: visit_deps.simps visit_post_def)
    next
      case WfComplete
      with Some have "d \<in> finished m" by (simp add: finished_def)
      then have "visit_post t i m s (visit_deps t i ds (m, s @ [i]))"
        by (intro "2.hyps"(3) [OF Some WfComplete]) (use "2.prems" in auto)
      with Some WfComplete show ?thesis by (simp add: visit_deps.simps)
    qed
  qed
qed

lemma visit_task_post:
  assumes "visit_inv t m s" and "fmlookup m i = None"
    and "s = [] \<or> i \<in> set (topo_dependencies t (last s))"
  shows "visit_post t i (fmupd i WfActive m) s (visit_task t i (m, s))"
  unfolding visit_task_def
  using visit_deps_post [OF visit_inv_push [OF assms], of "topo_dependencies t i"] by simp

lemma cycle_scan_result:
  assumes "visit_inv t m []"
  shows "(\<exists>m'. cycle_scan t is (m, []) = Ok None \<and> visit_inv t m' [] \<and>
            finished m \<union> set is \<subseteq> finished m') \<or>
         (\<exists>p. cycle_scan t is (m, []) = Ok (Some p) \<and> is_cycle (topo_dependencies t) p)"
  using assms
proof (induction "is" arbitrary: m)
  case Nil
  then show ?case by auto
next
  case (Cons i "is")
  show ?case
  proof (cases "fmlookup m i")
    case None
    have post: "visit_post t i (fmupd i WfActive m) [] (visit_task t i (m, []))"
      by (rule visit_task_post [OF Cons.prems None]) simp
    show ?thesis
    proof (cases "\<exists>ms. visit_task t i (m, []) = (Ok None, ms)")
      case True
      then obtain m1 s1 where r: "visit_task t i (m, []) = (Ok None, m1, s1)"
        by (metis surj_pair)
      with post None have "s1 = []" "visit_inv t m1 []" "insert i (finished m) \<subseteq> finished m1"
        by (auto simp: visit_post_def)
      moreover from this r None have "cycle_scan t (i # is) (m, []) = cycle_scan t is (m1, [])"
        by simp
      ultimately show ?thesis using Cons.IH [of m1] by fastforce
    next
      case False
      with post None show ?thesis
        by (auto simp: visit_post_def split: prod.splits res.splits option.splits)
    qed
  next
    case (Some v)
    with Cons.prems have "i \<in> finished m"
      by (cases v) (auto simp: visit_inv_def finished_def)
    with Cons.IH [OF Cons.prems] Some show ?thesis by auto
  qed
qed

lemma visit_inv_start: "visit_inv t fmempty []"
  by (simp add: visit_inv_def finished_def topo.search_inv_start)

lemma cycle_path_cases:
  assumes "topo_wf t"
  obtains (acyclic) "cycle_path t = Ok None" and "topo_acyclic t"
  | (cycle) p where "cycle_path t = Ok (Some p)" and "is_cycle (topo_dependencies t) p"
      and "\<not> topo_acyclic t"
proof (cases "\<exists>p. cycle_path t = Ok (Some p) \<and> is_cycle (topo_dependencies t) p")
  case True
  then show ?thesis
    using is_cycle_not_acyclic cycle unfolding topo_acyclic_def by blast
next
  case False
  with cycle_scan_result [OF visit_inv_start, of t "topo_task_ids t"] obtain m where
    none: "cycle_path t = Ok None" and inv: "visit_inv t m []"
    and all: "set (topo_task_ids t) \<subseteq> finished m"
    by (auto simp: cycle_path_def)
  have "topo_acyclic t"
    unfolding topo_acyclic_def
  proof (rule topo.all_done_acyclic)
    show "topo.search_inv t [] (finished m)" using inv by (simp add: visit_inv_def)
    fix i
    assume "topo_dependencies t i \<noteq> []"
    then have "contains_task t i"
      using assms by (fastforce simp: topo_wf_def dest: topo_dependencies_ne)
    then have "i \<in> set (topo_task_ids t)"
      by (simp add: topo_task_ids_def contains_task_def in_fmdom_iff)
    with all show "i \<in> finished m" by blast
  qed
  with none acyclic show ?thesis by blast
qed

lemma cycle_path_no_panic: "cycle_path t \<noteq> Panic"
  using cycle_scan_result [OF visit_inv_start, of t "topo_task_ids t"]
  by (auto simp: cycle_path_def)

end
