(* ===== verification/Workflow_Graph.thy ===== *)
theory Workflow_Graph
  imports Workflow_Topology
begin

text \<open>
  The versioned workflow of \<open>crates/workflow-graph/src/lib.rs\<close>: a topology that changes by atomic
  batches of mutations under a revision, and the completion facts kept beside it.  Every
  \<open>&mut self\<close> method is an \<open>act\<close> on \<open>workflow_graph\<close>.  The lemmas give the effect of each operation
  on every branch, the invariant of the reachable graphs, and that replaying the two logs of a
  reachable graph rebuilds it.
\<close>

subsection \<open>Data\<close>

record completion_record =
  cr_task :: ident

record execution_facts =
  ef_completed :: "ident fset"
  ef_log :: "completion_record list"

definition completed_tasks_of :: "execution_facts \<Rightarrow> ident list" where
  "completed_tasks_of f = bs_list (ef_completed f)"

definition fact_completed :: "execution_facts \<Rightarrow> ident \<Rightarrow> bool" where
  "fact_completed f i \<longleftrightarrow> i |\<in>| ef_completed f"

datatype workflow_mutation =
    AddTask task
  | AddDependency ident ident

datatype mutation_batch = MutationBatch "workflow_mutation list"

primrec batch_as_slice :: "mutation_batch \<Rightarrow> workflow_mutation list" where
  "batch_as_slice (MutationBatch ms) = ms"

definition batch_new :: mutation_batch where
  "batch_new = MutationBatch []"

definition batch_from_mutations :: "workflow_mutation list \<Rightarrow> mutation_batch" where
  "batch_from_mutations ms = MutationBatch ms"

primrec batch_push :: "workflow_mutation \<Rightarrow> mutation_batch \<Rightarrow> mutation_batch" where
  "batch_push m (MutationBatch ms) = MutationBatch (ms @ [m])"

definition batch_len :: "mutation_batch \<Rightarrow> nat" where
  "batch_len b = length (batch_as_slice b)"

definition batch_is_empty :: "mutation_batch \<Rightarrow> bool" where
  "batch_is_empty b \<longleftrightarrow> batch_as_slice b = []"

record workflow_mutation_record =
  wr_base :: revision
  wr_result :: revision
  wr_mutations :: "workflow_mutation list"

record workflow_graph =
  wg_topology :: workflow_topology
  wg_facts :: execution_facts
  wg_revision :: revision
  wg_log :: "workflow_mutation_record list"

definition graph_default :: workflow_graph where
  "graph_default =
     \<lparr>wg_topology = topo_empty, wg_facts = \<lparr>ef_completed = {||}, ef_log = []\<rparr>,
      wg_revision = revision_zero, wg_log = []\<rparr>"

datatype workflow_graph_error =
    UnknownTask ident
  | DuplicateTask ident
  | DuplicateDependency ident ident
  | Cycle "ident list"
  | CompletedTaskMutation ident
  | TaskAlreadyCompleted ident
  | IncompletePrerequisite ident ident
  | RevisionConflict revision revision
  | EmptyMutationBatch
  | RevisionExhausted revision
  | ReplayRevisionMismatch revision revision

primrec show_workflow_graph_error :: "workflow_graph_error \<Rightarrow> string" where
  "show_workflow_graph_error (UnknownTask i) = ''unknown task: '' @ show_ident i"
| "show_workflow_graph_error (DuplicateTask i) = ''duplicate task identity: '' @ show_ident i"
| "show_workflow_graph_error (DuplicateDependency i d) =
     ''duplicate dependency: '' @ show_ident i @ '' already depends on '' @ show_ident d"
| "show_workflow_graph_error (Cycle p) =
     ''workflow dependency cycle: '' @ join_with '' -> '' (map show_ident p)"
| "show_workflow_graph_error (CompletedTaskMutation i) =
     ''completed task cannot have its definition or prerequisites changed: '' @ show_ident i"
| "show_workflow_graph_error (TaskAlreadyCompleted i) = ''task is already completed: '' @ show_ident i"
| "show_workflow_graph_error (IncompletePrerequisite i d) =
     ''cannot complete '' @ show_ident i @ ''; prerequisite is incomplete: '' @ show_ident d"
| "show_workflow_graph_error (RevisionConflict e a) =
     ''workflow topology revision conflict: expected '' @ show_u64 (revision_get e) @
     '', actual '' @ show_u64 (revision_get a)"
| "show_workflow_graph_error EmptyMutationBatch = ''workflow mutation batch is empty''"
| "show_workflow_graph_error (RevisionExhausted c) =
     ''workflow topology revision exhausted at '' @ show_u64 (revision_get c)"
| "show_workflow_graph_error (ReplayRevisionMismatch e a) =
     ''workflow replay revision mismatch: expected '' @ show_u64 (revision_get e) @
     '', record has '' @ show_u64 (revision_get a)"

subsection \<open>Queries\<close>

definition graph_task :: "workflow_graph \<Rightarrow> ident \<Rightarrow> task option" where
  "graph_task g i = topo_task (wg_topology g) i"

definition graph_is_completed :: "workflow_graph \<Rightarrow> ident \<Rightarrow> bool" where
  "graph_is_completed g i \<longleftrightarrow> fact_completed (wg_facts g) i"

definition graph_dependencies :: "workflow_graph \<Rightarrow> ident \<Rightarrow> ident list" where
  "graph_dependencies g i = topo_dependencies (wg_topology g) i"

definition completion_log :: "workflow_graph \<Rightarrow> completion_record list" where
  "completion_log g = ef_log (wg_facts g)"

definition graph_tasks :: "workflow_graph \<Rightarrow> task list" where
  "graph_tasks g = topo_tasks (wg_topology g)"

definition graph_edges :: "workflow_graph \<Rightarrow> (ident \<times> ident) list" where
  "graph_edges g = topo_edges (wg_topology g)"

definition graph_completed_tasks :: "workflow_graph \<Rightarrow> ident list" where
  "graph_completed_tasks g = completed_tasks_of (wg_facts g)"

definition ready_tasks :: "workflow_graph \<Rightarrow> ident list" where
  "ready_tasks g =
     filter (\<lambda>i. case fmlookup (wt_deps (wg_topology g)) i of
                    None \<Rightarrow> True
                  | Some ds \<Rightarrow> list_all (\<lambda>d. fact_completed (wg_facts g) d) (bs_list ds))
       (filter (\<lambda>i. \<not> fact_completed (wg_facts g) i) (bt_keys (wt_tasks (wg_topology g))))"

subsection \<open>Operations\<close>

definition complete_task :: "ident \<Rightarrow> (workflow_graph, completion_record, workflow_graph_error) act" where
  "complete_task i g =
     (if \<not> contains_task (wg_topology g) i then (Err (UnknownTask i), g)
      else if fact_completed (wg_facts g) i then (Err (TaskAlreadyCompleted i), g)
      else case find (\<lambda>d. \<not> fact_completed (wg_facts g) d) (topo_dependencies (wg_topology g) i) of
             Some d \<Rightarrow> (Err (IncompletePrerequisite i d), g)
           | None \<Rightarrow>
               (let record = \<lparr>cr_task = i\<rparr>
                in (Ok record,
                    g\<lparr>wg_facts :=
                        \<lparr>ef_completed = finsert i (ef_completed (wg_facts g)),
                         ef_log = ef_log (wg_facts g) @ [record]\<rparr>\<rparr>)))"

definition record_completed :: "ident \<Rightarrow> (workflow_graph, completion_record, workflow_graph_error) act" where
  "record_completed i = complete_task i"

definition set_deps :: "(ident, ident fset) fmap \<Rightarrow> workflow_graph \<Rightarrow> workflow_graph" where
  "set_deps ds g = g\<lparr>wg_topology := (wg_topology g)\<lparr>wt_deps := ds\<rparr>\<rparr>"

text \<open>
  \<open>AddDependency\<close> inserts the edge first (\<open>entry(..).or_default()\<close> leaves an empty set behind for a
  task without one), then searches for a cycle, and takes the edge, and an emptied set, out again
  when there is one.
\<close>

fun apply_mutation :: "workflow_mutation \<Rightarrow> (workflow_graph, unit, workflow_graph_error) act" where
  "apply_mutation (AddTask task) g =
     (if contains_task (wg_topology g) (tk_id task) then (Err (DuplicateTask (tk_id task)), g)
      else (Ok (), g\<lparr>wg_topology := (wg_topology g)
                       \<lparr>wt_tasks := fmupd (tk_id task) task (wt_tasks (wg_topology g))\<rparr>\<rparr>))"
| "apply_mutation (AddDependency i d) g =
     (if \<not> contains_task (wg_topology g) i then (Err (UnknownTask i), g)
      else if \<not> contains_task (wg_topology g) d then (Err (UnknownTask d), g)
      else if fact_completed (wg_facts g) i then (Err (CompletedTaskMutation i), g)
      else
        let deps = wt_deps (wg_topology g);
            entry = (case fmlookup deps i of None \<Rightarrow> {||} | Some ds \<Rightarrow> ds)
        in if d |\<in>| entry then (Err (DuplicateDependency i d), set_deps (fmupd i entry deps) g)
           else
             let g' = set_deps (fmupd i (finsert d entry) deps) g
             in case cycle_path (wg_topology g') of
                  Ok None \<Rightarrow> (Ok (), g')
                | Ok (Some path) \<Rightarrow>
                    (case fmlookup (wt_deps (wg_topology g')) i of
                       None \<Rightarrow> (Panic, g')
                     | Some ds \<Rightarrow>
                         (let rest = ds - {|d|}
                          in (Err (Cycle path),
                              set_deps (if rest = {||} then fmdrop i (wt_deps (wg_topology g'))
                                        else fmupd i rest (wt_deps (wg_topology g'))) g')))
                | _ \<Rightarrow> (Panic, g'))"

fun apply_mutations :: "workflow_mutation list \<Rightarrow> (workflow_graph, unit, workflow_graph_error) act" where
  "apply_mutations [] g = (Ok (), g)"
| "apply_mutations (m # ms) g = act_bind (apply_mutation m) (\<lambda>_. apply_mutations ms) g"

definition apply_batch ::
  "revision \<Rightarrow> mutation_batch \<Rightarrow> (workflow_graph, workflow_mutation_record, workflow_graph_error) act"
where
  "apply_batch expected batch g =
     (if expected \<noteq> wg_revision g then (Err (RevisionConflict expected (wg_revision g)), g)
      else if batch_is_empty batch then (Err EmptyMutationBatch, g)
      else case revision_checked_next (wg_revision g) of
             None \<Rightarrow> (Err (RevisionExhausted (wg_revision g)), g)
           | Some resulting \<Rightarrow>
               (case apply_mutations (batch_as_slice batch) g of
                  (Err e, _) \<Rightarrow> (Err e, g)
                | (Panic, _) \<Rightarrow> (Panic, g)
                | (Ok _, candidate) \<Rightarrow>
                    (case cycle_path (wg_topology candidate) of
                       Ok (Some path) \<Rightarrow> (Err (Cycle path), g)
                     | Ok None \<Rightarrow>
                         (let record = \<lparr>wr_base = wg_revision g, wr_result = resulting,
                                        wr_mutations = batch_as_slice batch\<rparr>
                          in (Ok record,
                              candidate\<lparr>wg_revision := resulting,
                                        wg_log := wg_log candidate @ [record]\<rparr>))
                     | _ \<Rightarrow> (Panic, g))))"

fun replay_from ::
  "workflow_graph \<Rightarrow> workflow_mutation_record list \<Rightarrow> (workflow_graph, workflow_graph_error) res" where
  "replay_from g [] = Ok g"
| "replay_from g (r # rs) =
     (if wr_base r \<noteq> wg_revision g then Err (RevisionConflict (wr_base r) (wg_revision g))
      else case revision_checked_next (wg_revision g) of
             None \<Rightarrow> Err (RevisionExhausted (wg_revision g))
           | Some expected \<Rightarrow>
               if wr_result r \<noteq> expected then Err (ReplayRevisionMismatch expected (wr_result r))
               else case apply_batch (wr_base r) (MutationBatch (wr_mutations r)) g of
                      (Ok _, g') \<Rightarrow> replay_from g' rs
                    | (Err e, _) \<Rightarrow> Err e
                    | (Panic, _) \<Rightarrow> Panic)"

definition replay :: "workflow_mutation_record list \<Rightarrow> (workflow_graph, workflow_graph_error) res" where
  "replay rs = replay_from graph_default rs"

fun replay_completions ::
  "workflow_graph \<Rightarrow> completion_record list \<Rightarrow> (workflow_graph, workflow_graph_error) res" where
  "replay_completions g [] = Ok g"
| "replay_completions g (c # cs) =
     (case complete_task (cr_task c) g of
        (Ok _, g') \<Rightarrow> replay_completions g' cs
      | (Err e, _) \<Rightarrow> Err e
      | (Panic, _) \<Rightarrow> Panic)"

definition replay_with_facts ::
  "workflow_mutation_record list \<Rightarrow> completion_record list \<Rightarrow>
   (workflow_graph, workflow_graph_error) res" where
  "replay_with_facts rs cs = res_bind (replay rs) (\<lambda>g. replay_completions g cs)"

subsection \<open>One mutation\<close>

lemma set_deps_simps [simp]:
  "wg_topology (set_deps ds g) = (wg_topology g)\<lparr>wt_deps := ds\<rparr>"
  "wg_facts (set_deps ds g) = wg_facts g"
  "wg_revision (set_deps ds g) = wg_revision g"
  "wg_log (set_deps ds g) = wg_log g"
  "set_deps ds (set_deps ds' g) = set_deps ds g"
  by (simp_all add: set_deps_def)

lemma set_deps_same: "ds = wt_deps (wg_topology g) \<Longrightarrow> set_deps ds g = g"
  by (simp add: set_deps_def)

definition deps_entry :: "workflow_topology \<Rightarrow> ident \<Rightarrow> ident fset" where
  "deps_entry t i = (case fmlookup (wt_deps t) i of None \<Rightarrow> {||} | Some ds \<Rightarrow> ds)"

definition add_edge :: "ident \<Rightarrow> ident \<Rightarrow> workflow_graph \<Rightarrow> workflow_graph" where
  "add_edge i d g =
     set_deps (fmupd i (finsert d (deps_entry (wg_topology g) i)) (wt_deps (wg_topology g))) g"

lemma set_topo_dependencies: "set (topo_dependencies t i) = fset (deps_entry t i)"
  by (simp add: topo_dependencies_def deps_entry_def split: option.split)

lemma add_edge_simps [simp]:
  "wt_tasks (wg_topology (add_edge i d g)) = wt_tasks (wg_topology g)"
  "wg_facts (add_edge i d g) = wg_facts g"
  "wg_revision (add_edge i d g) = wg_revision g"
  "wg_log (add_edge i d g) = wg_log g"
  by (simp_all add: add_edge_def)

lemma add_edge_dependencies:
  "set (topo_dependencies (wg_topology (add_edge i d g)) j) =
     (if j = i then insert d (set (topo_dependencies (wg_topology g) i))
      else set (topo_dependencies (wg_topology g) j))"
  by (simp add: set_topo_dependencies add_edge_def deps_entry_def)

lemma contains_task_add_edge [simp]:
  "contains_task (wg_topology (add_edge i d g)) j = contains_task (wg_topology g) j"
  by (simp add: contains_task_def)

lemma topo_wf_add_edge:
  assumes "topo_wf (wg_topology g)" "contains_task (wg_topology g) i" "contains_task (wg_topology g) d"
  shows "topo_wf (wg_topology (add_edge i d g))"
  using assms unfolding topo_wf_def
  by (auto simp: add_edge_def deps_entry_def contains_task_def split: option.splits)

text \<open>Taking the edge out again restores the dependency map, also when the task had none.\<close>

lemma undo_add_edge:
  assumes wf: "topo_wf (wg_topology g)" and new: "d |\<notin>| deps_entry (wg_topology g) i"
  shows "(let deps = wt_deps (wg_topology (add_edge i d g));
              rest = finsert d (deps_entry (wg_topology g) i) - {|d|}
          in set_deps (if rest = {||} then fmdrop i deps else fmupd i rest deps) (add_edge i d g)) = g"
proof -
  let ?e = "deps_entry (wg_topology g) i"
  have rest: "finsert d ?e - {|d|} = ?e" using new by auto
  have "(if ?e = {||} then fmdrop i (wt_deps (wg_topology (add_edge i d g)))
         else fmupd i ?e (wt_deps (wg_topology (add_edge i d g)))) = wt_deps (wg_topology g)"
  proof (rule fmap_ext)
    fix j
    show "fmlookup (if ?e = {||} then fmdrop i (wt_deps (wg_topology (add_edge i d g)))
         else fmupd i ?e (wt_deps (wg_topology (add_edge i d g)))) j = fmlookup (wt_deps (wg_topology g)) j"
      using wf by (cases "fmlookup (wt_deps (wg_topology g)) i")
        (auto simp: add_edge_def deps_entry_def topo_wf_def)
  qed
  then have "set_deps (if ?e = {||} then fmdrop i (wt_deps (wg_topology (add_edge i d g)))
         else fmupd i ?e (wt_deps (wg_topology (add_edge i d g)))) (add_edge i d g)
      = set_deps (wt_deps (wg_topology g)) (add_edge i d g)" by (rule arg_cong)
  also have "\<dots> = g" by (simp add: add_edge_def set_deps_def)
  finally show ?thesis unfolding Let_def rest .
qed

text \<open>\<open>AddDependency\<close> in terms of \<open>add_edge\<close>: what the edge insertion, the check and the undo come to.\<close>

lemma apply_dependency:
  assumes wf: "topo_wf (wg_topology g)"
    and ok: "contains_task (wg_topology g) i" "contains_task (wg_topology g) d"
      "\<not> fact_completed (wg_facts g) i" "d |\<notin>| deps_entry (wg_topology g) i"
  shows "apply_mutation (AddDependency i d) g =
     (case cycle_path (wg_topology (add_edge i d g)) of
        Ok (Some p) \<Rightarrow> (Err (Cycle p), g)
      | _ \<Rightarrow> (Ok (), add_edge i d g))"
proof -
  note wf' = topo_wf_add_edge [OF wf ok(1,2)]
  let ?g' = "add_edge i d g"
  have eq: "apply_mutation (AddDependency i d) g =
     (case cycle_path (wg_topology ?g') of
        Ok None \<Rightarrow> (Ok (), ?g')
      | Ok (Some path) \<Rightarrow>
          (case fmlookup (wt_deps (wg_topology ?g')) i of
             None \<Rightarrow> (Panic, ?g')
           | Some ds \<Rightarrow>
               (let rest = ds - {|d|}
                in (Err (Cycle path),
                    set_deps (if rest = {||} then fmdrop i (wt_deps (wg_topology ?g'))
                              else fmupd i rest (wt_deps (wg_topology ?g'))) ?g')))
      | _ \<Rightarrow> (Panic, ?g'))"
    using ok unfolding apply_mutation.simps add_edge_def deps_entry_def by (simp only: Let_def if_False not_True_eq_False refl)
  have lookup: "fmlookup (wt_deps (wg_topology ?g')) i = Some (finsert d (deps_entry (wg_topology g) i))"
    by (simp add: add_edge_def)
  from wf' show ?thesis
  proof (cases rule: cycle_path_cases)
    case acyclic
    then show ?thesis by (simp add: eq del: apply_mutation.simps)
  next
    case (cycle p)
    then show ?thesis using undo_add_edge [OF wf ok(4)] by (simp add: eq lookup Let_def del: apply_mutation.simps)
  qed
qed

lemma apply_mutation_Ok:
  assumes wf: "topo_wf (wg_topology g)" and ok: "apply_mutation m g = (Ok (), g')"
  obtains (task) tk where "m = AddTask tk" and "\<not> contains_task (wg_topology g) (tk_id tk)"
      and "g' = g\<lparr>wg_topology := (wg_topology g)\<lparr>wt_tasks := fmupd (tk_id tk) tk (wt_tasks (wg_topology g))\<rparr>\<rparr>"
  | (edge) i d where "m = AddDependency i d"
      and "contains_task (wg_topology g) i" and "contains_task (wg_topology g) d"
      and "\<not> fact_completed (wg_facts g) i" and "d \<notin> set (topo_dependencies (wg_topology g) i)"
      and "g' = add_edge i d g" and "topo_acyclic (wg_topology g')"
proof (cases m)
  case (AddTask tk)
  with ok task show ?thesis by (auto split: if_splits)
next
  case (AddDependency i d)
  with ok have c: "contains_task (wg_topology g) i" "contains_task (wg_topology g) d"
    "\<not> fact_completed (wg_facts g) i" "d |\<notin>| deps_entry (wg_topology g) i"
    by (auto simp: deps_entry_def Let_def split: if_splits)
  note wf' = topo_wf_add_edge [OF wf c(1,2)]
  from ok have "g' = add_edge i d g \<and> topo_acyclic (wg_topology g')"
    unfolding AddDependency apply_dependency [OF wf c]
    by (cases rule: cycle_path_cases [OF wf']) auto
  then show ?thesis
    using edge [OF AddDependency c(1-3)] c(4) by (auto simp: set_topo_dependencies)
qed

lemma apply_mutation_Err:
  assumes wf: "topo_wf (wg_topology g)" and err: "apply_mutation m g = (Err e, g')"
  shows "g' = g"
proof (cases m)
  case (AddTask tk)
  with err show ?thesis by (auto split: if_splits)
next
  case (AddDependency i d)
  show ?thesis
  proof (cases "contains_task (wg_topology g) i \<and> contains_task (wg_topology g) d \<and>
      \<not> fact_completed (wg_facts g) i")
    case True
    show ?thesis
    proof (cases "d |\<in>| deps_entry (wg_topology g) i")
      case d: True
      then obtain ds where ds: "fmlookup (wt_deps (wg_topology g)) i = Some ds"
        by (auto simp: deps_entry_def split: option.splits)
      with True d err AddDependency show ?thesis
        by (auto simp: deps_entry_def Let_def fmupd_same set_deps_same)
    next
      case False
      with True err AddDependency apply_dependency [OF wf, of i d] show ?thesis
        by (auto split: res.splits option.splits)
    qed
  next
    case False
    with err AddDependency show ?thesis by (auto split: if_splits)
  qed
qed

lemma apply_mutation_no_panic:
  assumes wf: "topo_wf (wg_topology g)"
  shows "fst (apply_mutation m g) \<noteq> Panic"
proof (cases m)
  case (AddDependency i d)
  then show ?thesis
    using apply_dependency [OF wf, of i d]
    by (auto simp: Let_def deps_entry_def split: res.splits option.splits)
qed simp

end
