(* ===== verification/Workflow_Laws.thy ===== *)
theory Workflow_Laws
  imports Workflow_Graph
begin

text \<open>
  The laws of the versioned workflow: the invariant of every graph the public operations can
  produce, the effect of a batch and of a completion, which tasks are ready and why some task is
  ready while any is unfinished, the immutability of completed history, and the two replays.
\<close>

subsection \<open>The invariant\<close>

abbreviation completed_before :: "workflow_topology \<Rightarrow> ident list \<Rightarrow> bool" where
  "completed_before t \<equiv> deps_first (topo_dependencies t)"

definition tasks_keyed :: "workflow_topology \<Rightarrow> bool" where
  "tasks_keyed t \<longleftrightarrow> (\<forall>i tk. fmlookup (wt_tasks t) i = Some tk \<longrightarrow> tk_id tk = i)"

definition logged_tasks :: "workflow_graph \<Rightarrow> ident list" where
  "logged_tasks g = map cr_task (completion_log g)"

definition graph_inv :: "workflow_graph \<Rightarrow> bool" where
  "graph_inv g \<longleftrightarrow>
     topo_wf (wg_topology g) \<and> topo_acyclic (wg_topology g) \<and> tasks_keyed (wg_topology g) \<and>
     fset (ef_completed (wg_facts g)) = set (logged_tasks g) \<and> distinct (logged_tasks g) \<and>
     (\<forall>i \<in> set (logged_tasks g). contains_task (wg_topology g) i) \<and>
     completed_before (wg_topology g) (logged_tasks g) \<and>
     rev_ctr.val (wg_revision g) = length (wg_log g)"

lemma graph_invD:
  assumes "graph_inv g"
  shows "topo_wf (wg_topology g)" "topo_acyclic (wg_topology g)" "tasks_keyed (wg_topology g)"
    "fset (ef_completed (wg_facts g)) = set (logged_tasks g)" "distinct (logged_tasks g)"
    "\<And>i. i \<in> set (logged_tasks g) \<Longrightarrow> contains_task (wg_topology g) i"
    "completed_before (wg_topology g) (logged_tasks g)"
    "rev_ctr.val (wg_revision g) = length (wg_log g)"
  using assms by (auto simp: graph_inv_def)

lemma completed_iff:
  "graph_inv g \<Longrightarrow> fact_completed (wg_facts g) i \<longleftrightarrow> i \<in> set (logged_tasks g)"
  by (simp add: graph_inv_def fact_completed_def)

lemma completion_record_eta: "\<lparr>cr_task = cr_task c\<rparr> = c"
  by (cases c) simp

lemma graph_inv_default: "graph_inv graph_default"
proof -
  have "topo_dependencies topo_empty = (\<lambda>i. [])"
    by (simp add: topo_dependencies_def topo_empty_def fun_eq_iff)
  then have "topo_acyclic topo_empty"
    by (simp add: topo_acyclic_def succ_rel_def acyclic_def trancl_empty)
  then show ?thesis
    by (simp add: graph_inv_def graph_default_def topo_wf_def topo_empty_def tasks_keyed_def
        logged_tasks_def completion_log_def rev_ctr.val_def revision_zero_def)
qed

subsection \<open>A batch\<close>

text \<open>What a mutation, and so a batch, keeps: the facts and the versioning fields, the tasks already
  there with their definitions, and the prerequisites of completed tasks.\<close>

definition extends_graph :: "workflow_graph \<Rightarrow> workflow_graph \<Rightarrow> bool" where
  "extends_graph g g' \<longleftrightarrow>
     wg_facts g' = wg_facts g \<and>
     (\<forall>i tk. fmlookup (wt_tasks (wg_topology g)) i = Some tk \<longrightarrow>
        fmlookup (wt_tasks (wg_topology g')) i = Some tk) \<and>
     (\<forall>i. set (topo_dependencies (wg_topology g) i) \<subseteq> set (topo_dependencies (wg_topology g') i)) \<and>
     (\<forall>i. fact_completed (wg_facts g) i \<longrightarrow>
        set (topo_dependencies (wg_topology g') i) = set (topo_dependencies (wg_topology g) i))"

lemma extends_graph_refl: "extends_graph g g"
  by (simp add: extends_graph_def)

lemma extends_graph_trans: "extends_graph g h \<Longrightarrow> extends_graph h k \<Longrightarrow> extends_graph g k"
  unfolding extends_graph_def by (metis (no_types, lifting) order_trans)

lemma extends_graph_contains:
  "extends_graph g g' \<Longrightarrow> contains_task (wg_topology g) i \<Longrightarrow> contains_task (wg_topology g') i"
  by (auto simp: extends_graph_def contains_task_def)

text \<open>The part of the invariant that the mutations of a batch keep one by one.\<close>

definition topo_ok :: "workflow_graph \<Rightarrow> bool" where
  "topo_ok g \<longleftrightarrow>
     topo_wf (wg_topology g) \<and> topo_acyclic (wg_topology g) \<and> tasks_keyed (wg_topology g)"

lemma topo_dependencies_tasks [simp]:
  "topo_dependencies (t\<lparr>wt_tasks := ts\<rparr>) = topo_dependencies t"
  by (simp add: topo_dependencies_def fun_eq_iff)

lemma topo_acyclic_tasks [simp]: "topo_acyclic (t\<lparr>wt_tasks := ts\<rparr>) = topo_acyclic t"
  by (simp add: topo_acyclic_def)

lemma apply_mutation_keeps:
  assumes wf: "topo_ok g" and ok: "apply_mutation m g = (Ok (), g')"
  shows "topo_ok g' \<and> extends_graph g g' \<and> wg_revision g' = wg_revision g \<and> wg_log g' = wg_log g"
proof -
  have "topo_wf (wg_topology g)" using wf by (simp add: topo_ok_def)
  from this ok show ?thesis
  proof (cases rule: apply_mutation_Ok)
    case (task tk)
    with wf show ?thesis
      by (auto simp: topo_ok_def topo_wf_def tasks_keyed_def extends_graph_def contains_task_def)
  next
    case (edge i d)
    from wf edge topo_wf_add_edge [of g i d] show ?thesis
      by (auto simp: topo_ok_def tasks_keyed_def extends_graph_def add_edge_dependencies)
  qed
qed

lemma versioning_fields [simp]:
  "topo_ok (g\<lparr>wg_revision := v, wg_log := l\<rparr>) = topo_ok g"
  "extends_graph g0 (g\<lparr>wg_revision := v, wg_log := l\<rparr>) = extends_graph g0 g"
  by (simp_all add: topo_ok_def extends_graph_def)

lemma apply_mutations_keeps:
  assumes "topo_ok g" and "apply_mutations ms g = (Ok (), g')"
  shows "topo_ok g' \<and> extends_graph g g' \<and> wg_revision g' = wg_revision g \<and> wg_log g' = wg_log g"
  using assms
proof (induction ms arbitrary: g)
  case Nil
  then show ?case by (simp add: extends_graph_refl)
next
  case (Cons m ms)
  then obtain h where h: "apply_mutation m g = (Ok (), h)" "apply_mutations ms h = (Ok (), g')"
    by (auto simp: act_bind_eq_Ok)
  from apply_mutation_keeps [OF Cons.prems(1) h(1)] Cons.IH [OF _ h(2)] show ?case
    by (auto intro: extends_graph_trans)
qed

lemma apply_mutations_no_panic: "topo_ok g \<Longrightarrow> fst (apply_mutations ms g) \<noteq> Panic"
proof (induction ms arbitrary: g)
  case (Cons m ms)
  have wf: "topo_wf (wg_topology g)" using Cons.prems by (simp add: topo_ok_def)
  show ?case
  proof (cases "apply_mutation m g")
    case (Pair r h)
    with apply_mutation_no_panic [OF wf, of m] apply_mutation_keeps [OF Cons.prems, of m]
    show ?thesis by (cases r) (auto simp: act_bind_def dest: Cons.IH [of h])
  qed
qed simp

text \<open>The three ways a batch ends.\<close>

lemma apply_batch_cases:
  assumes ok: "topo_ok g"
  obtains (rejected) e where "apply_batch r b g = (Err e, g)"
  | (committed) g1 resulting rc where
      "r = wg_revision g" and "batch_as_slice b \<noteq> []"
      and "revision_checked_next (wg_revision g) = Some resulting"
      and "apply_mutations (batch_as_slice b) g = (Ok (), g1)"
      and "rc = \<lparr>wr_base = wg_revision g, wr_result = resulting, wr_mutations = batch_as_slice b\<rparr>"
      and "apply_batch r b g = (Ok rc, g1\<lparr>wg_revision := resulting, wg_log := wg_log g @ [rc]\<rparr>)"
proof (cases "r \<noteq> wg_revision g \<or> batch_is_empty b \<or> revision_checked_next (wg_revision g) = None")
  case True
  then show ?thesis
    using rejected by (cases "r \<noteq> wg_revision g"; cases "batch_is_empty b")
      (auto simp: apply_batch_def)
next
  case False
  then obtain resulting where c: "r = wg_revision g" "batch_as_slice b \<noteq> []"
    "revision_checked_next (wg_revision g) = Some resulting"
    by (auto simp: batch_is_empty_def)
  obtain x g1 where x: "apply_mutations (batch_as_slice b) g = (x, g1)" by fastforce
  show ?thesis
  proof (cases x)
    case (Ok u)
    with x have u: "apply_mutations (batch_as_slice b) g = (Ok (), g1)" by simp
    from apply_mutations_keeps [OF ok u] have keep: "topo_ok g1" "wg_log g1 = wg_log g" by auto
    then have "topo_wf (wg_topology g1)" by (simp add: topo_ok_def)
    then have none: "cycle_path (wg_topology g1) = Ok None"
      using keep(1) by (cases rule: cycle_path_cases) (auto simp: topo_ok_def)
    show ?thesis
      by (rule committed [OF c u refl])
        (use c u none keep in \<open>simp add: apply_batch_def batch_is_empty_def Let_def\<close>)
  next
    case (Err e)
    with x c show ?thesis
      by (intro rejected [of e]) (simp add: apply_batch_def batch_is_empty_def)
  next
    case Panic
    with x apply_mutations_no_panic [OF ok, of "batch_as_slice b"] show ?thesis by simp
  qed
qed

lemma graph_inv_topo_ok: "graph_inv g \<Longrightarrow> topo_ok g"
  by (simp add: graph_inv_def topo_ok_def)

lemma apply_batch_Ok:
  assumes "topo_ok g" and "apply_batch r b g = (Ok rec, g')"
  shows "topo_ok g' \<and> extends_graph g g' \<and> wg_log g' = wg_log g @ [rec] \<and>
    r = wg_revision g \<and> rec = \<lparr>wr_base = r, wr_result = wg_revision g', wr_mutations = batch_as_slice b\<rparr> \<and>
    revision_checked_next (wg_revision g) = Some (wg_revision g')"
  using assms(1)
proof (cases rule: apply_batch_cases [of g r b])
  case (rejected e)
  with assms(2) show ?thesis by simp
next
  case (committed g1 resulting rc)
  from apply_mutations_keeps [OF assms(1) committed(4)] committed assms(2) show ?thesis
    by auto
qed

lemma graph_inv_batch:
  assumes inv: "graph_inv g" and ok: "apply_batch r b g = (Ok rec, g')"
  shows "graph_inv g'"
proof -
  note b = apply_batch_Ok [OF graph_inv_topo_ok [OF inv] ok]
  have facts: "wg_facts g' = wg_facts g" using b by (simp add: extends_graph_def)
  then have log: "logged_tasks g' = logged_tasks g" by (simp add: logged_tasks_def completion_log_def)
  have "completed_before (wg_topology g') (logged_tasks g) = completed_before (wg_topology g) (logged_tasks g)"
    using b completed_iff [OF inv] by (intro deps_first_cong) (auto simp: extends_graph_def)
  moreover have "rev_ctr.val (wg_revision g') = Suc (rev_ctr.val (wg_revision g))"
    using b by (simp add: rev_ctr.next_Some)
  ultimately show ?thesis
    using inv b facts by (auto simp: graph_inv_def log topo_ok_def intro: extends_graph_contains)
qed

subsection \<open>Completion and readiness\<close>

lemma set_ready_tasks:
  "i \<in> set (ready_tasks g) \<longleftrightarrow>
     contains_task (wg_topology g) i \<and> \<not> fact_completed (wg_facts g) i \<and>
     (\<forall>d \<in> set (topo_dependencies (wg_topology g) i). fact_completed (wg_facts g) d)"
  by (auto simp: ready_tasks_def contains_task_def in_fmdom_iff topo_dependencies_def list_all_iff
      split: option.splits)

lemma ready_tasks_sorted: "sorted (ready_tasks g)" "distinct (ready_tasks g)"
  by (simp_all add: ready_tasks_def sorted_wrt_filter)

definition with_completion :: "ident \<Rightarrow> workflow_graph \<Rightarrow> workflow_graph" where
  "with_completion i g =
     g\<lparr>wg_facts := \<lparr>ef_completed = finsert i (ef_completed (wg_facts g)),
                    ef_log = ef_log (wg_facts g) @ [\<lparr>cr_task = i\<rparr>]\<rparr>\<rparr>"

lemma with_completion_simps [simp]:
  "wg_topology (with_completion i g) = wg_topology g"
  "wg_revision (with_completion i g) = wg_revision g"
  "wg_log (with_completion i g) = wg_log g"
  "ef_completed (wg_facts (with_completion i g)) = finsert i (ef_completed (wg_facts g))"
  "fact_completed (wg_facts (with_completion i g)) j \<longleftrightarrow> j = i \<or> fact_completed (wg_facts g) j"
  "logged_tasks (with_completion i g) = logged_tasks g @ [i]"
  by (auto simp: with_completion_def fact_completed_def logged_tasks_def completion_log_def)

lemma complete_task_cases:
  obtains (ready) "i \<in> set (ready_tasks g)" "complete_task i g = (Ok \<lparr>cr_task = i\<rparr>, with_completion i g)"
  | (unknown) "\<not> contains_task (wg_topology g) i" "complete_task i g = (Err (UnknownTask i), g)"
  | (again) "contains_task (wg_topology g) i" "fact_completed (wg_facts g) i"
      "complete_task i g = (Err (TaskAlreadyCompleted i), g)"
  | (early) d where "contains_task (wg_topology g) i" "\<not> fact_completed (wg_facts g) i"
      "d \<in> set (topo_dependencies (wg_topology g) i)" "\<not> fact_completed (wg_facts g) d"
      "complete_task i g = (Err (IncompletePrerequisite i d), g)"
proof (cases "find (\<lambda>d. \<not> fact_completed (wg_facts g) d) (topo_dependencies (wg_topology g) i)")
  case None
  then have "\<forall>d \<in> set (topo_dependencies (wg_topology g) i). fact_completed (wg_facts g) d"
    by (auto simp: find_None_iff)
  with None show ?thesis
    using ready unknown again
    by (cases "contains_task (wg_topology g) i"; cases "fact_completed (wg_facts g) i")
      (auto simp: complete_task_def set_ready_tasks with_completion_def Let_def)
next
  case (Some d)
  then have "d \<in> set (topo_dependencies (wg_topology g) i)" "\<not> fact_completed (wg_facts g) d"
    by (auto simp: find_Some_iff)
  with Some show ?thesis
    using early unknown again
    by (cases "contains_task (wg_topology g) i"; cases "fact_completed (wg_facts g) i")
      (auto simp: complete_task_def)
qed

lemma complete_task_Ok:
  "complete_task i g = (Ok c, g') \<longleftrightarrow>
     i \<in> set (ready_tasks g) \<and> c = \<lparr>cr_task = i\<rparr> \<and> g' = with_completion i g"
  by (cases rule: complete_task_cases [of i g]) (auto simp: set_ready_tasks)

lemma graph_inv_complete:
  assumes inv: "graph_inv g" and ok: "complete_task i g = (Ok c, g')"
  shows "graph_inv g'"
proof -
  from ok have g': "g' = with_completion i g" and ready: "i \<in> set (ready_tasks g)"
    by (simp_all add: complete_task_Ok)
  have "set (topo_dependencies (wg_topology g) i) \<subseteq> set (logged_tasks g)"
    using ready completed_iff [OF inv] by (auto simp: set_ready_tasks)
  moreover have "i \<notin> set (logged_tasks g)"
    using ready completed_iff [OF inv] by (simp add: set_ready_tasks)
  ultimately show ?thesis
    using inv ready unfolding g' graph_inv_def
    by (auto simp: deps_first_snoc set_ready_tasks)
qed

text \<open>While some task is unfinished, some task is ready.\<close>

lemma some_task_ready:
  assumes inv: "graph_inv g" and todo: "contains_task (wg_topology g) i" "\<not> fact_completed (wg_facts g) i"
  shows "ready_tasks g \<noteq> []"
proof -
  let ?S = "{i. contains_task (wg_topology g) i \<and> \<not> fact_completed (wg_facts g) i}"
  have "acyclic (topo_rel (wg_topology g))" using inv by (simp add: graph_inv_def topo_acyclic_def)
  moreover have "?S \<noteq> {}" using todo by auto
  ultimately obtain j where j: "j \<in> ?S" "\<forall>d \<in> set (topo_dependencies (wg_topology g) j). d \<notin> ?S"
    by (metis topo.acyclic_minimal)
  have "contains_task (wg_topology g) d" if "d \<in> set (topo_dependencies (wg_topology g) j)" for d
    using graph_invD(1) [OF inv] that by (auto simp: topo_wf_def topo_dependencies_iff)
  with j have "j \<in> set (ready_tasks g)" by (auto simp: set_ready_tasks)
  then show ?thesis by auto
qed

subsection \<open>Reachable workflows\<close>

inductive graph_step :: "workflow_graph \<Rightarrow> workflow_graph \<Rightarrow> bool" where
  step_batch: "apply_batch r b g = (Ok rec, g') \<Longrightarrow> graph_step g g'"
| step_complete: "complete_task i g = (Ok c, g') \<Longrightarrow> graph_step g g'"

inductive_cases graph_stepE: "graph_step g g'"

inductive graph_reachable :: "workflow_graph \<Rightarrow> bool" where
  reach_default: "graph_reachable graph_default"
| reach_step: "graph_reachable g \<Longrightarrow> graph_step g g' \<Longrightarrow> graph_reachable g'"

lemma graph_step_inv: "graph_inv g \<Longrightarrow> graph_step g g' \<Longrightarrow> graph_inv g'"
  by (auto elim!: graph_stepE intro: graph_inv_batch graph_inv_complete)

lemma reachable_graph_inv: "graph_reachable g \<Longrightarrow> graph_inv g"
  by (induction rule: graph_reachable.induct) (auto intro: graph_inv_default graph_step_inv)

lemma graph_step_history:
  assumes inv: "graph_inv g" and step: "graph_step g g'" and i: "fact_completed (wg_facts g) i"
  shows "fact_completed (wg_facts g') i \<and> graph_task g' i = graph_task g i \<and>
    set (graph_dependencies g' i) = set (graph_dependencies g i)"
  using step
proof (cases rule: graph_step.cases)
  case (step_batch r b rec)
  from apply_batch_Ok [OF graph_inv_topo_ok [OF inv] step_batch] have ext: "extends_graph g g'" by simp
  from i completed_iff [OF inv] graph_invD(6) [OF inv] have "contains_task (wg_topology g) i" by simp
  with ext i show ?thesis
    by (auto simp: extends_graph_def graph_task_def topo_task_def graph_dependencies_def contains_task_def)
next
  case (step_complete j c)
  with i show ?thesis
    by (auto simp: complete_task_Ok graph_task_def graph_dependencies_def)
qed

subsection \<open>Replay\<close>

definition erase_facts :: "workflow_graph \<Rightarrow> workflow_graph" where
  "erase_facts g = g\<lparr>wg_facts := \<lparr>ef_completed = {||}, ef_log = []\<rparr>\<rparr>"

lemma erase_facts_simps [simp]:
  "wg_topology (erase_facts g) = wg_topology g"
  "wg_revision (erase_facts g) = wg_revision g"
  "wg_log (erase_facts g) = wg_log g"
  "\<not> fact_completed (wg_facts (erase_facts g)) i"
  "erase_facts (with_completion i g) = erase_facts g"
  by (simp_all add: erase_facts_def fact_completed_def with_completion_def)

text \<open>A mutation that succeeds does so without the facts as well, to the same topology.\<close>

lemma apply_mutation_erase:
  assumes wf: "topo_ok g" and ok: "apply_mutation m g = (Ok (), g')"
  shows "apply_mutation m (erase_facts g) = (Ok (), erase_facts g')"
proof -
  have wf': "topo_wf (wg_topology g)" using wf by (simp add: topo_ok_def)
  from wf' ok show ?thesis
  proof (cases rule: apply_mutation_Ok)
    case (task tk)
    then show ?thesis by (simp add: erase_facts_def)
  next
    case (edge i d)
    have add: "erase_facts (add_edge i d g) = add_edge i d (erase_facts g)"
      by (simp add: erase_facts_def add_edge_def set_deps_def)
    have "topo_wf (wg_topology (add_edge i d g))" using wf' edge by (simp add: topo_wf_add_edge)
    then have "cycle_path (wg_topology (add_edge i d (erase_facts g))) = Ok None"
      using edge unfolding add [symmetric] by (cases rule: cycle_path_cases) auto
    with wf' edge add show ?thesis
      using apply_dependency [of "erase_facts g" i d]
      by (simp add: set_topo_dependencies del: apply_mutation.simps)
  qed
qed

lemma apply_mutations_erase:
  "topo_ok g \<Longrightarrow> apply_mutations ms g = (Ok (), g') \<Longrightarrow>
   apply_mutations ms (erase_facts g) = (Ok (), erase_facts g')"
proof (induction ms arbitrary: g)
  case (Cons m ms)
  then obtain h where h: "apply_mutation m g = (Ok (), h)" "apply_mutations ms h = (Ok (), g')"
    by (auto simp: act_bind_eq_Ok)
  with Cons apply_mutation_keeps [OF Cons.prems(1) h(1)] show ?case
    by (simp add: act_bind_eq_Ok apply_mutation_erase)
qed simp

lemma apply_batch_erase:
  assumes wf: "topo_ok g" and ok: "apply_batch r b g = (Ok rec, g')"
  shows "apply_batch r b (erase_facts g) = (Ok rec, erase_facts g')"
proof -
  have wf': "topo_ok (erase_facts g)" using wf by (simp add: topo_ok_def)
  from wf show ?thesis
  proof (cases rule: apply_batch_cases [of g r b])
    case (rejected e)
    with ok show ?thesis by simp
  next
    case (committed g1 resulting rc)
    note keep = apply_mutations_keeps [OF wf committed(4)]
    then have "topo_wf (wg_topology g1)" by (simp add: topo_ok_def)
    then have "cycle_path (wg_topology g1) = Ok None"
      using keep by (cases rule: cycle_path_cases) (auto simp: topo_ok_def)
    with committed ok keep show ?thesis
      using apply_mutations_erase [OF wf committed(4)]
      by (auto simp: apply_batch_def batch_is_empty_def Let_def erase_facts_def)
  qed
qed

lemma replay_from_append:
  "replay_from g (rs @ rs') = res_bind (replay_from g rs) (\<lambda>h. replay_from h rs')"
  by (induction rs arbitrary: g) (auto split: option.split prod.split res.split)

lemma replay_from_one:
  assumes "topo_ok g" and "apply_batch r b g = (Ok rec, g')"
  shows "replay_from (erase_facts g) [rec] = Ok (erase_facts g')"
proof -
  note b = apply_batch_Ok [OF assms]
  have "MutationBatch (batch_as_slice b) = b" by (cases b) simp
  with b apply_batch_erase [OF assms] show ?thesis by simp
qed

lemma replay_topology: "graph_reachable g \<Longrightarrow> replay (wg_log g) = Ok (erase_facts g)"
proof (induction rule: graph_reachable.induct)
  case reach_default
  show ?case by (simp add: replay_def graph_default_def erase_facts_def)
next
  case (reach_step g g')
  from reachable_graph_inv [OF reach_step.hyps(1)] have wf: "topo_ok g" by (rule graph_inv_topo_ok)
  from reach_step.hyps(2) show ?case
  proof (cases rule: graph_step.cases)
    case (step_batch r b rec)
    with apply_batch_Ok [OF wf step_batch] reach_step.IH replay_from_one [OF wf step_batch]
    show ?thesis by (simp add: replay_def replay_from_append)
  next
    case (step_complete i c)
    with reach_step.IH show ?thesis by (simp add: complete_task_Ok)
  qed
qed

definition with_facts :: "ident list \<Rightarrow> workflow_graph \<Rightarrow> workflow_graph" where
  "with_facts is g =
     g\<lparr>wg_facts := \<lparr>ef_completed = fset_of_list is, ef_log = map (\<lambda>i. \<lparr>cr_task = i\<rparr>) is\<rparr>\<rparr>"

lemma replay_completions_from:
  "completed_before (wg_topology g) (is @ js) \<Longrightarrow> distinct (is @ js) \<Longrightarrow>
   (\<forall>j \<in> set js. contains_task (wg_topology g) j) \<Longrightarrow>
   replay_completions (with_facts is g) (map (\<lambda>i. \<lparr>cr_task = i\<rparr>) js) = Ok (with_facts (is @ js) g)"
proof (induction js arbitrary: "is")
  case Nil
  then show ?case by simp
next
  case (Cons j js)
  have "completed_before (wg_topology g) (is @ [j])"
    using Cons.prems(1) deps_first_append [of "topo_dependencies (wg_topology g)" "is @ [j]" js] by simp
  then have "set (topo_dependencies (wg_topology g) j) \<subseteq> set is"
    by (simp add: deps_first_snoc)
  then have "j \<in> set (ready_tasks (with_facts is g))"
    using Cons.prems by (auto simp: set_ready_tasks with_facts_def fact_completed_def fset_of_list_elem)
  moreover have "with_completion j (with_facts is g) = with_facts (is @ [j]) g"
    by (simp add: with_completion_def with_facts_def)
  ultimately have "complete_task j (with_facts is g) = (Ok \<lparr>cr_task = j\<rparr>, with_facts (is @ [j]) g)"
    by (simp add: complete_task_Ok)
  with Cons.IH [of "is @ [j]"] Cons.prems show ?case by simp
qed

lemma replay_facts:
  assumes inv: "graph_inv g"
  shows "replay_completions (erase_facts g) (completion_log g) = Ok g"
proof -
  have log: "map (\<lambda>i. \<lparr>cr_task = i\<rparr>) (logged_tasks g) = completion_log g"
    by (simp add: logged_tasks_def o_def completion_record_eta)
  have "ef_completed (wg_facts g) = fset_of_list (logged_tasks g)"
    using graph_invD(4) [OF inv] by (metis fset_inverse fset_of_list.rep_eq)
  then have all: "with_facts (logged_tasks g) g = g"
    using log by (simp add: with_facts_def completion_log_def)
  have "replay_completions (with_facts [] g) (map (\<lambda>i. \<lparr>cr_task = i\<rparr>) (logged_tasks g))
      = Ok (with_facts ([] @ logged_tasks g) g)"
    using graph_invD [OF inv] by (intro replay_completions_from) auto
  moreover have "with_facts [] g = erase_facts g" by (simp add: with_facts_def erase_facts_def)
  ultimately show ?thesis by (simp add: log all)
qed

end
