(* ===== verification/Workflow_Properties.thy ===== *)
theory Workflow_Properties
  imports Workflow_Laws
begin

text \<open>
  What the workflow promises to the executor and the planner, stated over the operations of
  \<open>Workflow_Graph\<close>, and a small workflow on which each statement is applied.
\<close>

subsection \<open>A workflow of two tasks\<close>

definition task_a :: task where "task_a = \<lparr>tk_id = Id ''a'', tk_label = ''A''\<rparr>"
definition task_b :: task where "task_b = \<lparr>tk_id = Id ''b'', tk_label = ''B''\<rparr>"

definition demo_batch :: mutation_batch where
  "demo_batch = MutationBatch [AddTask task_a, AddTask task_b, AddDependency (Id ''b'') (Id ''a'')]"

definition demo_record :: workflow_mutation_record where
  "demo_record = \<lparr>wr_base = Revision 0, wr_result = Revision 1, wr_mutations = batch_as_slice demo_batch\<rparr>"

definition demo_graph :: workflow_graph where
  "demo_graph =
     \<lparr>wg_topology = \<lparr>wt_tasks = fmupd (Id ''b'') task_b (fmupd (Id ''a'') task_a fmempty),
                     wt_deps = fmupd (Id ''b'') {|Id ''a''|} fmempty\<rparr>,
      wg_facts = \<lparr>ef_completed = {||}, ef_log = []\<rparr>,
      wg_revision = Revision 1, wg_log = [demo_record]\<rparr>"

definition demo_cyclic :: workflow_topology where
  "demo_cyclic =
     (wg_topology demo_graph)\<lparr>wt_deps := fmupd (Id ''a'') {|Id ''b''|} (wt_deps (wg_topology demo_graph))\<rparr>"

lemmas search_eval =
  kernis_eval visit_deps.simps visit_task_def cycle_path_def topo_dependencies_def topo_task_ids_def
  contains_task_def bt_keys_def

lemmas graph_eval =
  search_eval apply_batch_def batch_is_empty_def act_bind_def fact_completed_def Let_def
  revision_checked_next_def u64_checked_succ_def set_deps_def

lemma demo_batch_applies: "apply_batch (Revision 0) demo_batch graph_default = (Ok demo_record, demo_graph)"
  by (simp add: graph_eval demo_graph_def demo_record_def demo_batch_def task_a_def task_b_def
      graph_default_def topo_empty_def revision_zero_def)

lemma demo_reachable: "graph_reachable demo_graph"
  by (rule reach_step [OF reach_default step_batch [OF demo_batch_applies]])

lemma demo_inv: "graph_inv demo_graph"
  by (rule reachable_graph_inv [OF demo_reachable])

definition demo_done :: workflow_graph where
  "demo_done = with_completion (Id ''a'') demo_graph"

lemma demo_ready: "ready_tasks demo_graph = [Id ''a'']"
  by (simp add: graph_eval ready_tasks_def demo_graph_def)

lemma demo_complete: "complete_task (Id ''a'') demo_graph = (Ok \<lparr>cr_task = Id ''a''\<rparr>, demo_done)"
  by (simp add: complete_task_Ok demo_ready demo_done_def)

subsection \<open>The cycle search\<close>

lemma demo_cyclic_wf: "topo_wf demo_cyclic"
  by (simp add: demo_cyclic_def demo_graph_def topo_wf_def contains_task_def)

lemma demo_cyclic_found: "cycle_path demo_cyclic = Ok (Some [Id ''a'', Id ''b'', Id ''a''])"
  by (simp add: search_eval demo_cyclic_def demo_graph_def)

text \<open>
  C1: \<open>WorkflowTopology::cycle_path\<close> returns on every topology whose edges join existing tasks, and
  is exact: either it reports no cycle and the dependency relation is acyclic, or it reports a path
  that is a cycle of the dependency relation.  The \<open>expect\<close> on the stack position never fails.
\<close>

theorem cycle_path_correct:
  assumes "topo_wf t"
  shows "(cycle_path t = Ok None \<and> acyclic (topo_rel t)) \<or>
    (\<exists>p. cycle_path t = Ok (Some p) \<and> is_cycle (topo_dependencies t) p \<and> \<not> acyclic (topo_rel t))"
  using assms by (cases rule: cycle_path_cases) (auto simp: topo_acyclic_def)

theorem cycle_path_correct_witness:
  "is_cycle (topo_dependencies demo_cyclic) [Id ''a'', Id ''b'', Id ''a''] \<and> \<not> acyclic (topo_rel demo_cyclic)"
  using cycle_path_correct [OF demo_cyclic_wf] by (simp add: demo_cyclic_found)

subsection \<open>Mutations and batches\<close>

lemma add_edge_rel: "topo_rel (wg_topology (add_edge i d g)) = insert (i, d) (topo_rel (wg_topology g))"
  by (auto simp: succ_rel_def add_edge_dependencies split: if_splits)

text \<open>
  \<open>AddDependency\<close> between existing tasks, on a prerequisite not yet recorded and a task not yet
  completed, is accepted exactly when the prerequisite does not already depend, directly or
  transitively, on the task; a refusal leaves the graph as it was.
\<close>

theorem add_dependency_exact:
  assumes inv: "graph_inv g"
    and ok: "contains_task (wg_topology g) i" "contains_task (wg_topology g) d"
      "\<not> fact_completed (wg_facts g) i" "d \<notin> set (topo_dependencies (wg_topology g) i)"
  shows "if (d, i) \<in> (topo_rel (wg_topology g))\<^sup>*
    then \<exists>p. apply_mutation (AddDependency i d) g = (Err (Cycle p), g)
    else apply_mutation (AddDependency i d) g = (Ok (), add_edge i d g)"
proof -
  note wf = graph_invD(1) [OF inv]
  have d: "d |\<notin>| deps_entry (wg_topology g) i" using ok(4) by (simp add: set_topo_dependencies)
  have "acyclic (topo_rel (wg_topology g))" using graph_invD(2) [OF inv] by (simp add: topo_acyclic_def)
  then have "topo_acyclic (wg_topology (add_edge i d g)) \<longleftrightarrow> (d, i) \<notin> (topo_rel (wg_topology g))\<^sup>*"
    by (simp add: topo_acyclic_def add_edge_rel acyclic_insert)
  then show ?thesis
    unfolding apply_dependency [OF wf ok(1-3) d]
    by (cases rule: cycle_path_cases [OF topo_wf_add_edge [OF wf ok(1,2)]]) auto
qed

theorem add_dependency_exact_witness:
  "\<exists>p. apply_mutation (AddDependency (Id ''a'') (Id ''b'')) demo_graph = (Err (Cycle p), demo_graph)"
proof -
  have "(Id ''b'', Id ''a'') \<in> topo_rel (wg_topology demo_graph)"
    by (simp add: succ_rel_def graph_eval demo_graph_def)
  then have "(Id ''b'', Id ''a'') \<in> (topo_rel (wg_topology demo_graph))\<^sup>*" by blast
  moreover have "contains_task (wg_topology demo_graph) (Id ''a'')" "contains_task (wg_topology demo_graph) (Id ''b'')"
    "\<not> fact_completed (wg_facts demo_graph) (Id ''a'')"
    "Id ''b'' \<notin> set (topo_dependencies (wg_topology demo_graph) (Id ''a''))"
    by (simp_all add: graph_eval demo_graph_def)
  ultimately show ?thesis
    using add_dependency_exact [OF demo_inv, of "Id ''a''" "Id ''b''"] by simp
qed



lemma apply_mutations_Err:
  "apply_mutations ms g = (Err e, g') \<longleftrightarrow>
     (\<exists>k h. k < length ms \<and> apply_mutations (take k ms) g = (Ok (), h) \<and> apply_mutation (ms ! k) h = (Err e, g'))"
proof (induction ms arbitrary: g)
  case (Cons m ms)
  have split: "(\<exists>k. P k) \<longleftrightarrow> P 0 \<or> (\<exists>k. P (Suc k))" for P :: "nat \<Rightarrow> bool"
    by (metis not0_implies_Suc)
  obtain r h where "apply_mutation m g = (r, h)" by fastforce
  then show ?case
    by (subst split) (cases r; simp add: act_bind_def Cons.IH)
qed simp

text \<open>
  A batch that reaches its mutations fails with the error of its first failing mutation, taken in
  order on the graph the earlier ones made; the search repeated after the last mutation rejects
  nothing further.
\<close>

theorem apply_batch_first_error:
  assumes inv: "graph_inv g" and cur: "r = wg_revision g" "batch_as_slice b \<noteq> []"
    "revision_checked_next (wg_revision g) \<noteq> None"
  shows "fst (apply_batch r b g) = Err e \<longleftrightarrow>
    (\<exists>k h h'. k < length (batch_as_slice b) \<and> apply_mutations (take k (batch_as_slice b)) g = (Ok (), h) \<and>
       apply_mutation (batch_as_slice b ! k) h = (Err e, h'))"
proof -
  have "fst (apply_batch r b g) = Err e \<longleftrightarrow> (\<exists>h'. apply_mutations (batch_as_slice b) g = (Err e, h'))"
    using graph_inv_topo_ok [OF inv]
  proof (cases rule: apply_batch_cases [of g r b])
    case (rejected e')
    obtain next_rev where n: "revision_checked_next (wg_revision g) = Some next_rev" using cur(3) by auto
    obtain x h where x: "apply_mutations (batch_as_slice b) g = (x, h)" by fastforce
    show ?thesis
    proof (cases x)
      case (Ok u)
      with x have u: "apply_mutations (batch_as_slice b) g = (Ok (), h)" by simp
      from apply_mutations_keeps [OF graph_inv_topo_ok [OF inv] u] have "topo_ok h" by simp
      then have "topo_wf (wg_topology h)" "topo_acyclic (wg_topology h)" by (simp_all add: topo_ok_def)
      then have "cycle_path (wg_topology h) = Ok None" by (cases rule: cycle_path_cases) auto
      with u n cur rejected show ?thesis
        by (simp add: apply_batch_def batch_is_empty_def Let_def)
    next
      case (Err e2)
      with x n cur rejected show ?thesis by (simp add: apply_batch_def batch_is_empty_def)
    next
      case Panic
      with x apply_mutations_no_panic [OF graph_inv_topo_ok [OF inv], of "batch_as_slice b"]
      show ?thesis by simp
    qed
  next
    case (committed g1 resulting rc)
    then show ?thesis by simp
  qed
  then show ?thesis unfolding apply_mutations_Err by blast
qed

theorem apply_batch_first_error_witness:
  "fst (apply_batch (Revision 0) (MutationBatch [AddTask task_a, AddTask task_a]) graph_default)
     = Err (DuplicateTask (Id ''a''))"
proof (subst apply_batch_first_error [OF graph_inv_default])
  let ?h = "snd (apply_mutations [AddTask task_a] graph_default)"
  have "apply_mutations [AddTask task_a] graph_default = (Ok (), ?h)"
    "apply_mutation (AddTask task_a) ?h = (Err (DuplicateTask (Id ''a'')), ?h)"
    by (simp_all add: graph_eval graph_default_def task_a_def topo_empty_def)
  then show "\<exists>k h h'. k < length (batch_as_slice (MutationBatch [AddTask task_a, AddTask task_a])) \<and>
      apply_mutations (take k (batch_as_slice (MutationBatch [AddTask task_a, AddTask task_a]))) graph_default = (Ok (), h) \<and>
      apply_mutation (batch_as_slice (MutationBatch [AddTask task_a, AddTask task_a]) ! k) h =
        (Err (DuplicateTask (Id ''a'')), h')"
    by (intro exI [of _ 1] exI [of _ ?h]) simp
qed (simp_all add: graph_default_def revision_zero_def revision_checked_next_def u64_checked_succ_def)

subsection \<open>Completion\<close>

text \<open>
  \<open>complete\<close> succeeds exactly on the tasks \<open>ready_tasks\<close> offers, records the completion and
  nothing else; on any other task it returns the error that names the reason and changes nothing.
\<close>

theorem complete_iff_ready:
  "case complete_task i g of
      (Ok c, g') \<Rightarrow> i \<in> set (ready_tasks g) \<and> c = \<lparr>cr_task = i\<rparr> \<and> g' = with_completion i g
    | (Err e, g') \<Rightarrow> i \<notin> set (ready_tasks g) \<and> g' = g \<and>
        (e = UnknownTask i \<and> \<not> contains_task (wg_topology g) i \<or>
         e = TaskAlreadyCompleted i \<and> fact_completed (wg_facts g) i \<or>
         (\<exists>d \<in> set (graph_dependencies g i). e = IncompletePrerequisite i d \<and> \<not> fact_completed (wg_facts g) d))
    | (Panic, g') \<Rightarrow> False"
  by (cases rule: complete_task_cases [of i g])
    (auto simp: set_ready_tasks graph_dependencies_def)

lemma completion_run:
  assumes "graph_inv g"
  shows "\<exists>cs g'. replay_completions g cs = Ok g' \<and> wg_topology g' = wg_topology g \<and>
    (\<forall>i. contains_task (wg_topology g) i \<longrightarrow> fact_completed (wg_facts g') i)"
  using assms
proof (induction "card {i. contains_task (wg_topology g) i \<and> \<not> fact_completed (wg_facts g) i}"
    arbitrary: g rule: less_induct)
  case less
  let ?todo = "\<lambda>g. {i. contains_task (wg_topology g) i \<and> \<not> fact_completed (wg_facts g) i}"
  show ?case
  proof (cases "?todo g = {}")
    case True
    then show ?thesis by (intro exI [of _ "[]"] exI [of _ g]) auto
  next
    case False
    with some_task_ready [OF less.prems] have "ready_tasks g \<noteq> []" by auto
    then obtain j where j: "j \<in> set (ready_tasks g)" by (meson list.set_sel(1))
    then have step: "complete_task j g = (Ok \<lparr>cr_task = j\<rparr>, with_completion j g)"
      by (simp add: complete_task_Ok)
    have "?todo (with_completion j g) \<subset> ?todo g"
      using j by (auto simp: set_ready_tasks)
    moreover have "finite (?todo g)"
      by (rule finite_subset [of _ "fset (fmdom (wt_tasks (wg_topology g)))"])
        (auto simp: contains_task_def in_fmdom_iff)
    ultimately have "card (?todo (with_completion j g)) < card (?todo g)"
      by (simp add: psubset_card_mono)
    from less.hyps [OF this graph_inv_complete [OF less.prems step]] obtain cs g' where
      cs: "replay_completions (with_completion j g) cs = Ok g'" "wg_topology g' = wg_topology g"
      "\<forall>i. contains_task (wg_topology g) i \<longrightarrow> fact_completed (wg_facts g') i" by auto
    then show ?thesis
      by (intro exI [of _ "\<lparr>cr_task = j\<rparr> # cs"] exI [of _ g']) (simp add: step)
  qed
qed

text \<open>
  C35: no reachable workflow is stuck: while a task is unfinished some task is ready, and there is an
  order in which \<open>complete\<close> finishes every task of the topology.
\<close>

theorem workflow_never_stuck:
  assumes "graph_reachable g"
  shows "((\<exists>i. contains_task (wg_topology g) i \<and> \<not> graph_is_completed g i) = (ready_tasks g \<noteq> [])) \<and>
    (\<exists>cs g'. replay_completions g cs = Ok g' \<and> wg_topology g' = wg_topology g \<and>
      (\<forall>i. contains_task (wg_topology g) i \<longrightarrow> graph_is_completed g' i))"
proof
  have "contains_task (wg_topology g) i \<and> \<not> fact_completed (wg_facts g) i" if "i \<in> set (ready_tasks g)" for i
    using that by (simp add: set_ready_tasks)
  then show "(\<exists>i. contains_task (wg_topology g) i \<and> \<not> graph_is_completed g i) = (ready_tasks g \<noteq> [])"
    using some_task_ready [OF reachable_graph_inv [OF assms]]
    unfolding graph_is_completed_def by (metis list.set_sel(1))
qed (use completion_run [OF reachable_graph_inv [OF assms]] in \<open>simp add: graph_is_completed_def\<close>)

theorem workflow_never_stuck_witness:
  "\<exists>cs g'. replay_completions demo_graph cs = Ok g' \<and> graph_is_completed g' (Id ''b'')"
proof -
  have "contains_task (wg_topology demo_graph) (Id ''b'')" by (simp add: demo_graph_def contains_task_def)
  with workflow_never_stuck [OF demo_reachable] show ?thesis by blast
qed

subsection \<open>History\<close>

text \<open>
  Every reachable workflow is well formed: its dependencies join existing tasks and are acyclic,
  tasks are stored under their own identity, the completion log has no duplicate and completes
  prerequisites before the tasks that need them, the set of completed tasks is the set of logged
  ones, and the revision counts the committed batches.
\<close>

theorem reachable_well_formed:
  assumes "graph_reachable g"
  shows "topo_wf (wg_topology g) \<and> acyclic (topo_rel (wg_topology g)) \<and> tasks_keyed (wg_topology g) \<and>
    fset (ef_completed (wg_facts g)) = set (logged_tasks g) \<and> distinct (logged_tasks g) \<and>
    (\<forall>k < length (logged_tasks g).
       set (graph_dependencies g (logged_tasks g ! k)) \<subseteq> set (take k (logged_tasks g))) \<and>
    rev_ctr.val (wg_revision g) = length (wg_log g)"
  using reachable_graph_inv [OF assms]
  by (simp add: graph_inv_def topo_acyclic_def deps_first_def graph_dependencies_def)

theorem reachable_well_formed_witness:
  "acyclic (topo_rel (wg_topology demo_graph)) \<and> rev_ctr.val (wg_revision demo_graph) = 1"
  using reachable_well_formed [OF demo_reachable] by (simp add: demo_graph_def)

lemma graph_steps_history:
  assumes "graph_step\<^sup>*\<^sup>* g g'" and "graph_inv g" and "fact_completed (wg_facts g) i"
  shows "graph_inv g' \<and> fact_completed (wg_facts g') i \<and> graph_task g' i = graph_task g i \<and>
    set (graph_dependencies g' i) = set (graph_dependencies g i)"
  using assms
proof (induction rule: rtranclp_induct)
  case (step h k)
  then have h: "graph_inv h" "fact_completed (wg_facts h) i" by blast+
  from graph_step_history [OF h(1) step.hyps(2) h(2)] graph_step_inv [OF h(1) step.hyps(2)] step
  show ?case by simp
qed simp

text \<open>
  Completed history is immutable.  Whatever batches and completions follow, a completed task
  stays completed, keeps its definition, and keeps exactly the prerequisites it was completed under.
\<close>

theorem completed_history_immutable:
  assumes "graph_reachable g" and "graph_step\<^sup>*\<^sup>* g g'" and "graph_is_completed g i"
  shows "graph_is_completed g' i \<and> graph_task g' i = graph_task g i \<and>
    set (graph_dependencies g' i) = set (graph_dependencies g i)"
  using graph_steps_history [OF assms(2) reachable_graph_inv [OF assms(1)]] assms(3)
  by (simp add: graph_is_completed_def)

lemma demo_done_b: "complete_task (Id ''b'') demo_done = (Ok \<lparr>cr_task = Id ''b''\<rparr>, with_completion (Id ''b'') demo_done)"
  by (simp add: complete_task_Ok demo_done_def with_completion_def demo_graph_def ready_tasks_def graph_eval)

theorem completed_history_immutable_witness:
  "graph_is_completed (with_completion (Id ''b'') demo_done) (Id ''a'')"
proof -
  have "graph_reachable demo_done"
    by (rule reach_step [OF demo_reachable step_complete [OF demo_complete]])
  moreover have "graph_is_completed demo_done (Id ''a'')"
    by (simp add: graph_is_completed_def demo_done_def)
  ultimately show ?thesis
    using completed_history_immutable [OF _ r_into_rtranclp [of graph_step, OF step_complete [OF demo_done_b]]]
    by blast
qed

subsection \<open>Replay\<close>

text \<open>
  C3: replaying the mutation log and then the completion log of a reachable workflow gives back that
  workflow, in every field, although mutations and completions were interleaved when it was built.
\<close>

theorem replay_round_trip:
  assumes "graph_reachable g"
  shows "replay_with_facts (wg_log g) (completion_log g) = Ok g"
  using replay_topology [OF assms] replay_facts [OF reachable_graph_inv [OF assms]]
  by (simp add: replay_with_facts_def)

theorem replay_round_trip_witness:
  "replay_with_facts [demo_record] [\<lparr>cr_task = Id ''a''\<rparr>] = Ok demo_done"
proof -
  have "graph_reachable demo_done"
    by (rule reach_step [OF demo_reachable step_complete [OF demo_complete]])
  from replay_round_trip [OF this] show ?thesis
    by (simp add: demo_done_def with_completion_def demo_graph_def completion_log_def)
qed

lemma replay_from_sound:
  assumes "graph_reachable g" and "replay_from g rs = Ok g'"
  shows "graph_reachable g' \<and> wg_log g' = wg_log g @ rs \<and> wg_facts g' = wg_facts g"
  using assms
proof (induction rs arbitrary: g)
  case (Cons r rs)
  from Cons.prems(2) obtain rec h where h: "wr_base r = wg_revision g"
    "revision_checked_next (wg_revision g) = Some (wr_result r)"
    "apply_batch (wr_base r) (MutationBatch (wr_mutations r)) g = (Ok rec, h)" "replay_from h rs = Ok g'"
    by (auto split: if_splits option.splits prod.splits res.splits)
  from apply_batch_Ok [OF graph_inv_topo_ok [OF reachable_graph_inv [OF Cons.prems(1)]] h(3)]
  have b: "wg_log h = wg_log g @ [rec]" "wg_facts h = wg_facts g" "wg_revision h = wr_result r"
    "rec = \<lparr>wr_base = wr_base r, wr_result = wg_revision h, wr_mutations = wr_mutations r\<rparr>"
    using h(2) by (auto simp: extends_graph_def)
  then have "rec = r" by simp
  with b Cons.IH [OF reach_step [OF Cons.prems(1) step_batch [OF h(3)]] h(4)] show ?case by simp
qed simp

lemma replay_completions_sound:
  assumes "graph_reachable g" and "replay_completions g cs = Ok g'"
  shows "graph_reachable g' \<and> wg_log g' = wg_log g \<and> completion_log g' = completion_log g @ cs"
  using assms
proof (induction cs arbitrary: g)
  case (Cons c cs)
  from Cons.prems(2) obtain c' h where h: "complete_task (cr_task c) g = (Ok c', h)"
    "replay_completions h cs = Ok g'"
    by (auto split: prod.splits res.splits)
  with Cons.IH [OF reach_step [OF Cons.prems(1) step_complete [OF h(1)]] h(2)] show ?case
    by (simp add: complete_task_Ok with_completion_def completion_log_def completion_record_eta)
qed simp

text \<open>
  Replay accepts nothing that no execution could have logged.  What \<open>replay_with_facts\<close> returns
  is a reachable workflow whose two logs are exactly the ones it was given; so a log with a missing,
  reordered or altered record, or with a completion before its prerequisites, is refused.
\<close>

theorem replay_accepts_only_histories:
  assumes "replay_with_facts rs cs = Ok g"
  shows "graph_reachable g \<and> wg_log g = rs \<and> completion_log g = cs"
proof -
  from assms obtain h where h: "replay_from graph_default rs = Ok h" "replay_completions h cs = Ok g"
    by (auto simp: replay_with_facts_def replay_def)
  from replay_from_sound [OF reach_default h(1)] replay_completions_sound [OF _ h(2)] show ?thesis
    by (simp add: completion_log_def graph_default_def)
qed

lemma demo_replays: "replay_with_facts [demo_record] [] = Ok demo_graph"
  using demo_batch_applies
  by (simp add: replay_with_facts_def replay_def demo_record_def demo_batch_def graph_default_def
      revision_zero_def revision_checked_next_def u64_checked_succ_def)

theorem replay_accepts_only_histories_witness: "wg_log demo_graph = [demo_record]"
  using replay_accepts_only_histories [OF demo_replays] by simp

end
