(* ===== verification/Execution_Stream.thy ===== *)
theory Execution_Stream
  imports Core_Primitives "HOL-Library.Sublist"
begin

text \<open>
  The crate \<open>crates/execution-stream\<close>: sequence numbers, the producer's allocator
  \<open>StreamSequencer\<close>, the consumer's \<open>SequenceTracker\<close>, and the three bounded buffers between them.
  The locale \<open>fifo_buffer\<close> is the contract the buffers share and \<open>lossless_fifo\<close> the stronger one of
  the buffer that drops nothing; both are interpreted on the code's buffers.
\<close>

subsection \<open>Sequence numbers\<close>

datatype sequence = Sequence u64

primrec sequence_get :: "sequence \<Rightarrow> u64" where
  "sequence_get (Sequence w) = w"

definition sequence_first :: sequence where
  "sequence_first = Sequence 1"

definition sequence_max :: sequence where
  "sequence_max = Sequence (- 1)"

definition sequence_checked_next :: "sequence \<Rightarrow> sequence option" where
  "sequence_checked_next s =
     (case u64_checked_succ (sequence_get s) of
        Some n \<Rightarrow> Some (Sequence n)
      | None \<Rightarrow> None)"

definition sequence_next :: "sequence \<Rightarrow> (sequence, unit) res" where
  "sequence_next s = (case sequence_checked_next s of Some n \<Rightarrow> Ok n | None \<Rightarrow> Panic)"

lemma sequence_get_inject: "sequence_get s = sequence_get t \<Longrightarrow> s = t"
  by (cases s; cases t) simp

instantiation sequence :: linorder
begin

definition less_eq_sequence :: "sequence \<Rightarrow> sequence \<Rightarrow> bool" where
  "less_eq_sequence s t \<longleftrightarrow> sequence_get s \<le> sequence_get t"

definition less_sequence :: "sequence \<Rightarrow> sequence \<Rightarrow> bool" where
  "less_sequence s t \<longleftrightarrow> sequence_get s < sequence_get t"

instance
  by standard (auto simp: less_eq_sequence_def less_sequence_def intro: sequence_get_inject)

end

interpretation seq_ctr: u64_counter sequence_get Sequence sequence_checked_next
proof
  fix w :: u64 and c :: sequence
  show "sequence_get (Sequence w) = w" by simp
  show "Sequence (sequence_get c) = c" by (cases c) simp
  show "sequence_checked_next c = map_option Sequence (u64_checked_succ (sequence_get c))"
    by (simp add: sequence_checked_next_def split: option.split)
qed

lemma sequence_less_val: "s < t \<longleftrightarrow> seq_ctr.val s < seq_ctr.val t"
  by (simp add: less_sequence_def seq_ctr.val_def word_less_nat_alt)

lemma val_sequence_first [simp]: "seq_ctr.val sequence_first = 1"
  by (simp add: seq_ctr.val_def sequence_first_def)

lemma val_sequence_max [simp]: "seq_ctr.val sequence_max = 2 ^ 64 - 1"
  by (simp add: seq_ctr.val_def sequence_max_def unat_max_u64)

subsection \<open>Items and the sequencer\<close>

record 't stream_item =
  si_stream :: ident
  si_sequence :: sequence
  si_payload :: 't

definition stream_item_map :: "('t \<Rightarrow> 'u) \<Rightarrow> 't stream_item \<Rightarrow> 'u stream_item" where
  "stream_item_map f it =
     \<lparr>si_stream = si_stream it, si_sequence = si_sequence it, si_payload = f (si_payload it)\<rparr>"

datatype sequence_error = Exhausted ident sequence

primrec show_sequence_error :: "sequence_error \<Rightarrow> string" where
  "show_sequence_error (Exhausted stream s) =
     ''sequence exhausted for stream '' @ show_ident stream @ '' after '' @ show_u64 (sequence_get s)"

record stream_sequencer =
  sq_stream :: ident
  sq_next :: sequence
  sq_exhausted :: bool

definition sequencer_new :: "ident \<Rightarrow> stream_sequencer" where
  "sequencer_new stream = \<lparr>sq_stream = stream, sq_next = sequence_first, sq_exhausted = False\<rparr>"

definition sequencer_emit :: "'t \<Rightarrow> (stream_sequencer, 't stream_item, sequence_error) act" where
  "sequencer_emit payload sq =
     (if sq_exhausted sq then (Err (Exhausted (sq_stream sq) sequence_max), sq)
      else
        let s = sq_next sq;
            sq' = (case sequence_checked_next s of
                     Some n \<Rightarrow> sq\<lparr>sq_next := n\<rparr>
                   | None \<Rightarrow> sq\<lparr>sq_exhausted := True\<rparr>)
        in (Ok \<lparr>si_stream = sq_stream sq, si_sequence = s, si_payload = payload\<rparr>, sq'))"

text \<open>A producer that emits one payload after another, whatever each call returns.\<close>

fun emit_all ::
  "'t list \<Rightarrow> stream_sequencer \<Rightarrow> ('t stream_item, sequence_error) res list \<times> stream_sequencer" where
  "emit_all [] sq = ([], sq)"
| "emit_all (p # ps) sq =
     (case sequencer_emit p sq of
        (r, sq') \<Rightarrow> (case emit_all ps sq' of (rs, sq'') \<Rightarrow> (r # rs, sq'')))"

text \<open>The sequencer after \<open>k\<close> successful emissions; after the last sequence it is exhausted.\<close>

definition sequencer_at :: "ident \<Rightarrow> nat \<Rightarrow> stream_sequencer" where
  "sequencer_at stream k =
     \<lparr>sq_stream = stream, sq_next = Sequence (of_nat (min (k + 1) (2 ^ 64 - 1))),
      sq_exhausted = (2 ^ 64 - 1 \<le> k)\<rparr>"

definition nth_emission :: "ident \<Rightarrow> nat \<Rightarrow> 't \<Rightarrow> ('t stream_item, sequence_error) res" where
  "nth_emission stream k p =
     (if k + 1 < 2 ^ 64
      then Ok \<lparr>si_stream = stream, si_sequence = Sequence (of_nat (k + 1)), si_payload = p\<rparr>
      else Err (Exhausted stream sequence_max))"

lemma unat_of_nat_u64: "n < 2 ^ 64 \<Longrightarrow> unat (of_nat n :: u64) = n"
  by (simp add: unsigned_of_nat take_bit_nat_eq_self)

lemma checked_next_of_nat:
  "n < 2 ^ 64 \<Longrightarrow> sequence_checked_next (Sequence (of_nat n)) =
     (if n + 1 < 2 ^ 64 then Some (Sequence (of_nat (n + 1))) else None)"
  by (simp add: sequence_checked_next_def u64_checked_succ_def unat_of_nat_u64 add.commute)

lemma sequencer_new_at: "sequencer_new stream = sequencer_at stream 0"
  by (simp add: sequencer_new_def sequencer_at_def sequence_first_def)

lemma sequencer_emit_at:
  "sequencer_emit p (sequencer_at stream k) = (nth_emission stream k p, sequencer_at stream (k + 1))"
proof (cases "k + 1 < 2 ^ 64")
  case True
  have "sequence_checked_next (Sequence (of_nat (k + 1))) =
     (if k + 1 + 1 < 2 ^ 64 then Some (Sequence (of_nat (k + 1 + 1))) else None)"
    by (rule checked_next_of_nat [OF True])
  note step = this
  show ?thesis
  proof (cases "k + 1 + 1 < (2 :: nat) ^ 64")
    case more: True
    with True step show ?thesis
      by (simp add: sequencer_emit_def sequencer_at_def nth_emission_def Let_def
          del: of_nat_Suc of_nat_add)
  next
    case False
    with True have "k = 2 ^ 64 - 2" by simp
    with step show ?thesis
      by (simp add: sequencer_emit_def sequencer_at_def nth_emission_def Let_def)
  qed
next
  case False
  then show ?thesis
    by (simp add: sequencer_emit_def sequencer_at_def nth_emission_def)
qed

lemma emit_all_at:
  "emit_all ps (sequencer_at stream k) =
     (map (\<lambda>j. nth_emission stream (k + j) (ps ! j)) [0..<length ps], sequencer_at stream (k + length ps))"
proof (induction ps arbitrary: k)
  case (Cons p ps)
  have "map (\<lambda>j. nth_emission stream (k + j) ((p # ps) ! j)) [0..<length (p # ps)] =
      nth_emission stream k p # map (\<lambda>j. nth_emission stream (k + 1 + j) (ps ! j)) [0..<length ps]"
    by (simp add: upt_rec [of 0] map_Suc_upt [symmetric] del: upt_Suc)
  with Cons.IH [of "k + 1"] show ?case by (simp add: sequencer_emit_at)
qed simp

subsection \<open>The tracker\<close>

datatype sequence_observation =
    First sequence
  | InOrder sequence
  | Gap sequence sequence
  | DuplicateOrReordered sequence sequence

datatype stream_error = StreamMismatch ident ident

primrec show_stream_error :: "stream_error \<Rightarrow> string" where
  "show_stream_error (StreamMismatch e a) =
     ''sequence tracker expected stream '' @ show_ident e @ '', got '' @ show_ident a"

record sequence_tracker =
  st_stream :: ident
  st_last :: "sequence option"

definition tracker_new :: "ident \<Rightarrow> sequence_tracker" where
  "tracker_new stream = \<lparr>st_stream = stream, st_last = None\<rparr>"

definition classify_sequence :: "sequence option \<Rightarrow> sequence \<Rightarrow> sequence_observation" where
  "classify_sequence prev s =
     (case prev of
        None \<Rightarrow> if s = sequence_first then First s else Gap sequence_first s
      | Some l \<Rightarrow>
          (case sequence_checked_next l of
             Some e \<Rightarrow>
               if s = e then InOrder s
               else if e < s then Gap e s
               else DuplicateOrReordered l s
           | None \<Rightarrow> DuplicateOrReordered l s))"

definition tracker_observe ::
  "'t stream_item \<Rightarrow> (sequence_tracker, sequence_observation, stream_error) act" where
  "tracker_observe it tr =
     (if si_stream it \<noteq> st_stream tr then (Err (StreamMismatch (st_stream tr) (si_stream it)), tr)
      else
        let obs = classify_sequence (st_last tr) (si_sequence it)
        in (Ok obs,
            if (case st_last tr of None \<Rightarrow> True | Some l \<Rightarrow> l < si_sequence it)
            then tr\<lparr>st_last := Some (si_sequence it)\<rparr> else tr))"

fun observe_all ::
  "'t stream_item list \<Rightarrow> sequence_tracker \<Rightarrow> (sequence_observation, stream_error) res list \<times> sequence_tracker"
where
  "observe_all [] tr = ([], tr)"
| "observe_all (x # xs) tr =
     (case tracker_observe x tr of
        (r, tr') \<Rightarrow> (case observe_all xs tr' of (rs, tr'') \<Rightarrow> (r # rs, tr'')))"

definition last_val :: "sequence option \<Rightarrow> nat" where
  "last_val l = (case l of None \<Rightarrow> 0 | Some s \<Rightarrow> seq_ctr.val s)"

text \<open>How many sequence numbers an observation reports as not seen.\<close>

definition reported_missing :: "(sequence_observation, stream_error) res \<Rightarrow> nat" where
  "reported_missing r =
     (case r of Ok (Gap e a) \<Rightarrow> seq_ctr.val a - seq_ctr.val e | _ \<Rightarrow> 0)"

definition advances :: "(sequence_observation, stream_error) res \<Rightarrow> bool" where
  "advances r \<longleftrightarrow> (case r of Ok (First _) \<Rightarrow> True | Ok (InOrder _) \<Rightarrow> True | Ok (Gap _ _) \<Rightarrow> True | _ \<Rightarrow> False)"

lemma sequence_val_eq: "s = t \<longleftrightarrow> seq_ctr.val s = seq_ctr.val t"
  by (simp add: seq_ctr.val_inject)

lemma next_None_val: "sequence_checked_next l = None \<longleftrightarrow> seq_ctr.val l = 2 ^ 64 - 1"
  using sequence_val_eq [of l "Sequence (- 1)"] val_sequence_max
  by (simp add: seq_ctr.next_None sequence_max_def)

text \<open>What one observation says, in terms of the numbers.\<close>

lemma classify_sequence_cases:
  assumes "0 < seq_ctr.val s"
  obtains (contiguous) "seq_ctr.val s = last_val prev + 1"
      "classify_sequence prev s = First s \<or> classify_sequence prev s = InOrder s"
  | (gap) e where "last_val prev + 1 < seq_ctr.val s" "classify_sequence prev s = Gap e s"
      "seq_ctr.val e = last_val prev + 1"
  | (old) l where "prev = Some l" "seq_ctr.val s \<le> seq_ctr.val l"
      "classify_sequence prev s = DuplicateOrReordered l s"
proof (cases prev)
  case None
  then show ?thesis
    using assms contiguous gap [of sequence_first] sequence_val_eq [of s sequence_first]
    by (cases "s = sequence_first") (auto simp: classify_sequence_def last_val_def)
next
  case (Some l)
  show ?thesis
  proof (cases "sequence_checked_next l")
    case None
    then have "seq_ctr.val l = 2 ^ 64 - 1" by (simp add: next_None_val)
    with seq_ctr.val_less [of s] None Some show ?thesis
      by (intro old [of l]) (simp_all add: classify_sequence_def)
  next
    case n: (Some e)
    then have e: "seq_ctr.val e = seq_ctr.val l + 1" by (simp add: seq_ctr.next_Some)
    consider "s = e" | "s \<noteq> e" "e < s" | "s \<noteq> e" "\<not> e < s" by blast
    then show ?thesis
      by cases (use Some n e contiguous gap [of e] old [of l] sequence_val_eq [of s e] in
          \<open>auto simp: classify_sequence_def last_val_def sequence_less_val\<close>)
  qed
qed

lemma tracker_observe_last:
  assumes "si_stream it = st_stream tr"
  shows "tracker_observe it tr =
    (Ok (classify_sequence (st_last tr) (si_sequence it)),
     tr\<lparr>st_last := (if (case st_last tr of None \<Rightarrow> True | Some l \<Rightarrow> l < si_sequence it)
                    then Some (si_sequence it) else st_last tr)\<rparr>)"
  using assms by (simp add: tracker_observe_def Let_def)

text \<open>On items in increasing order every observation advances, and the gaps reported add up to
  exactly the numbers that were not seen.\<close>

lemma observe_increasing:
  assumes "\<forall>x \<in> set xs. si_stream x = st_stream tr"
    and "sorted_wrt (<) (map (seq_ctr.val \<circ> si_sequence) xs)"
    and "\<forall>x \<in> set xs. last_val (st_last tr) < seq_ctr.val (si_sequence x)"
  shows "list_all advances (fst (observe_all xs tr)) \<and>
    last_val (st_last tr) + length xs + sum_list (map reported_missing (fst (observe_all xs tr))) =
      last_val (st_last (snd (observe_all xs tr))) \<and>
    (xs \<noteq> [] \<longrightarrow> st_last (snd (observe_all xs tr)) = Some (si_sequence (last xs)))"
  using assms
proof (induction xs arbitrary: tr)
  case (Cons x xs)
  let ?s = "si_sequence x" and ?tr = "tr\<lparr>st_last := Some (si_sequence x)\<rparr>"
  have new: "case st_last tr of None \<Rightarrow> True | Some l \<Rightarrow> l < ?s"
    using Cons.prems(3) by (auto simp: last_val_def sequence_less_val split: option.split)
  with Cons.prems(1) have step: "tracker_observe x tr = (Ok (classify_sequence (st_last tr) ?s), ?tr)"
    by (simp add: tracker_observe_last)
  have pos: "0 < seq_ctr.val ?s" using Cons.prems(3) by fastforce
  have "advances (Ok (classify_sequence (st_last tr) ?s)) \<and>
      last_val (st_last tr) + 1 + reported_missing (Ok (classify_sequence (st_last tr) ?s)) = seq_ctr.val ?s"
    using pos
  proof (cases rule: classify_sequence_cases [of ?s "st_last tr"])
    case contiguous
    then show ?thesis by (auto simp: advances_def reported_missing_def)
  next
    case (gap e)
    then show ?thesis by (simp add: advances_def reported_missing_def)
  next
    case (old l)
    with Cons.prems(3) show ?thesis by (simp add: last_val_def)
  qed
  moreover have "last_val (st_last ?tr) = seq_ctr.val ?s" by (simp add: last_val_def)
  moreover have "list_all advances (fst (observe_all xs ?tr)) \<and>
      last_val (st_last ?tr) + length xs + sum_list (map reported_missing (fst (observe_all xs ?tr))) =
        last_val (st_last (snd (observe_all xs ?tr))) \<and>
      (xs \<noteq> [] \<longrightarrow> st_last (snd (observe_all xs ?tr)) = Some (si_sequence (last xs)))"
    by (rule Cons.IH) (use Cons.prems in \<open>auto simp: last_val_def\<close>)
  ultimately show ?case
    by (cases xs) (auto simp: step split: prod.splits)
qed simp

lemma observe_new_tracker:
  assumes "\<forall>x \<in> set xs. si_stream x = stream \<and> 0 < seq_ctr.val (si_sequence x)"
    and "sorted_wrt (<) (map (seq_ctr.val \<circ> si_sequence) xs)" and "xs \<noteq> []"
  shows "list_all advances (fst (observe_all xs (tracker_new stream))) \<and>
    sum_list (map reported_missing (fst (observe_all xs (tracker_new stream)))) + length xs =
      seq_ctr.val (si_sequence (last xs)) \<and>
    st_last (snd (observe_all xs (tracker_new stream))) = Some (si_sequence (last xs))"
  using observe_increasing [of xs "tracker_new stream"] assms
  by (auto simp: tracker_new_def last_val_def)

lemma tracker_monotone:
  assumes "tracker_observe it tr = (r, tr')"
  shows "st_stream tr' = st_stream tr \<and> last_val (st_last tr) \<le> last_val (st_last tr')"
  using assms
  by (auto simp: tracker_observe_def Let_def last_val_def sequence_less_val split: if_splits option.splits)

end
