(* ===== verification/Stream_Buffers.thy ===== *)
theory Stream_Buffers
  imports Execution_Stream
begin

text \<open>
  The bounded transport policies of \<open>crates/execution-stream\<close>: \<open>LosslessBuffer\<close> (backpressure),
  \<open>CoalescingBuffer\<close> (replace a pending item with the same stream and key) and \<open>LossyBuffer\<close> (drop
  the oldest).  What they share is the locale \<open>fifo_buffer\<close>, proved for any interleaving of pushes and
  pops; each buffer interprets it, and the lossless one also its extension \<open>lossless_fifo\<close>.
\<close>

subsection \<open>The three buffers\<close>

datatype buffer_error = ZeroCapacity

definition show_buffer_error :: "buffer_error \<Rightarrow> string" where
  "show_buffer_error e = (case e of ZeroCapacity \<Rightarrow> ''bounded stream capacity must be greater than zero'')"

datatype 'i push_error = Backpressure 'i

record 't lossless_buffer =
  lb_capacity :: nat
  lb_items :: "'t stream_item list"

definition lossless_new :: "nat \<Rightarrow> ('t lossless_buffer, buffer_error) res" where
  "lossless_new n = (if n = 0 then Err ZeroCapacity else Ok \<lparr>lb_capacity = n, lb_items = []\<rparr>)"

definition lossless_len :: "'t lossless_buffer \<Rightarrow> nat" where
  "lossless_len b = length (lb_items b)"

definition lossless_is_empty :: "'t lossless_buffer \<Rightarrow> bool" where
  "lossless_is_empty b \<longleftrightarrow> lb_items b = []"

definition lossless_try_push ::
  "'t stream_item \<Rightarrow> ('t lossless_buffer, unit, 't stream_item push_error) act" where
  "lossless_try_push it b =
     (if length (lb_items b) = lb_capacity b then (Err (Backpressure it), b)
      else (Ok (), b\<lparr>lb_items := lb_items b @ [it]\<rparr>))"

definition lossless_pop :: "'t lossless_buffer \<Rightarrow> 't stream_item option \<times> 't lossless_buffer" where
  "lossless_pop b = (case lb_items b of [] \<Rightarrow> (None, b) | x # xs \<Rightarrow> (Some x, b\<lparr>lb_items := xs\<rparr>))"

record ('k, 't) keyed_item =
  ki_key :: 'k
  ki_item :: "'t stream_item"

record ('k, 't) coalescing_buffer =
  cb_capacity :: nat
  cb_items :: "('k, 't) keyed_item list"

definition coalescing_new :: "nat \<Rightarrow> (('k, 't) coalescing_buffer, buffer_error) res" where
  "coalescing_new n = (if n = 0 then Err ZeroCapacity else Ok \<lparr>cb_capacity = n, cb_items = []\<rparr>)"

definition coalescing_len :: "('k, 't) coalescing_buffer \<Rightarrow> nat" where
  "coalescing_len b = length (cb_items b)"

definition coalescing_is_empty :: "('k, 't) coalescing_buffer \<Rightarrow> bool" where
  "coalescing_is_empty b \<longleftrightarrow> cb_items b = []"

definition same_target :: "('k, 't) keyed_item \<Rightarrow> ('k, 't) keyed_item \<Rightarrow> bool" where
  "same_target e it \<longleftrightarrow> ki_key e = ki_key it \<and> si_stream (ki_item e) = si_stream (ki_item it)"

definition coalescing_try_push ::
  "('k, 't) keyed_item \<Rightarrow> (('k, 't) coalescing_buffer, unit, ('k, 't) keyed_item push_error) act" where
  "coalescing_try_push it b =
     (case position (\<lambda>e. same_target e it) (cb_items b) of
        Some k \<Rightarrow> (Ok (), b\<lparr>cb_items := (take k (cb_items b) @ drop (k + 1) (cb_items b)) @ [it]\<rparr>)
      | None \<Rightarrow>
          if length (cb_items b) = cb_capacity b then (Err (Backpressure it), b)
          else (Ok (), b\<lparr>cb_items := cb_items b @ [it]\<rparr>))"

definition coalescing_pop :: "('k, 't) coalescing_buffer \<Rightarrow> ('k, 't) keyed_item option \<times> ('k, 't) coalescing_buffer" where
  "coalescing_pop b = (case cb_items b of [] \<Rightarrow> (None, b) | x # xs \<Rightarrow> (Some x, b\<lparr>cb_items := xs\<rparr>))"

record 't lossy_buffer =
  yb_capacity :: nat
  yb_items :: "'t stream_item list"

definition lossy_new :: "nat \<Rightarrow> ('t lossy_buffer, buffer_error) res" where
  "lossy_new n = (if n = 0 then Err ZeroCapacity else Ok \<lparr>yb_capacity = n, yb_items = []\<rparr>)"

definition lossy_len :: "'t lossy_buffer \<Rightarrow> nat" where
  "lossy_len b = length (yb_items b)"

definition lossy_is_empty :: "'t lossy_buffer \<Rightarrow> bool" where
  "lossy_is_empty b \<longleftrightarrow> yb_items b = []"

definition lossy_pop :: "'t lossy_buffer \<Rightarrow> 't stream_item option \<times> 't lossy_buffer" where
  "lossy_pop b = (case yb_items b of [] \<Rightarrow> (None, b) | x # xs \<Rightarrow> (Some x, b\<lparr>yb_items := xs\<rparr>))"

definition lossy_push :: "'t stream_item \<Rightarrow> 't lossy_buffer \<Rightarrow> 't stream_item option \<times> 't lossy_buffer" where
  "lossy_push it b =
     (case (if length (yb_items b) = yb_capacity b then lossy_pop b else (None, b)) of
        (dropped, b') \<Rightarrow> (dropped, b'\<lparr>yb_items := yb_items b' @ [it]\<rparr>))"

subsection \<open>A producer and a consumer on one buffer\<close>

datatype 'i buf_op = BPush 'i | BPop

text \<open>\<open>buf_run\<close> gives the accepted items, the delivered items and the buffer left.\<close>

fun buf_run ::
  "('i \<Rightarrow> 'b \<Rightarrow> 'r \<times> 'b) \<Rightarrow> ('r \<Rightarrow> bool) \<Rightarrow> ('b \<Rightarrow> 'i option \<times> 'b) \<Rightarrow> 'i buf_op list \<Rightarrow> 'b \<Rightarrow>
   'i list \<times> 'i list \<times> 'b"
where
  "buf_run push accepts pop [] b = ([], [], b)"
| "buf_run push accepts pop (BPush x # ops) b =
     (case push x b of
        (r, b1) \<Rightarrow>
          (case buf_run push accepts pop ops b1 of
             (acc, del, b2) \<Rightarrow> (if accepts r then x # acc else acc, del, b2)))"
| "buf_run push accepts pop (BPop # ops) b =
     (case pop b of
        (y, b1) \<Rightarrow>
          (case buf_run push accepts pop ops b1 of
             (acc, del, b2) \<Rightarrow> (acc, (case y of None \<Rightarrow> del | Some x \<Rightarrow> x # del), b2)))"

locale fifo_buffer =
  fixes push :: "'i \<Rightarrow> 'b \<Rightarrow> 'r \<times> 'b"
    and accepts :: "'r \<Rightarrow> bool"
    and pop :: "'b \<Rightarrow> 'i option \<times> 'b"
    and items :: "'b \<Rightarrow> 'i list"
    and capacity :: "'b \<Rightarrow> nat"
  assumes push_refused: "push x b = (r, b') \<Longrightarrow> \<not> accepts r \<Longrightarrow> b' = b"
    and push_accepted: "push x b = (r, b') \<Longrightarrow> accepts r \<Longrightarrow>
      \<exists>ys. subseq ys (items b) \<and> items b' = ys @ [x] \<and> capacity b' = capacity b"
    and push_bounded: "push x b = (r, b') \<Longrightarrow> 0 < capacity b \<Longrightarrow> length (items b) \<le> capacity b \<Longrightarrow>
      length (items b') \<le> capacity b"
    and pop_nil: "items b = [] \<Longrightarrow> pop b = (None, b)"
    and pop_cons: "items b = y # ys \<Longrightarrow> \<exists>b'. pop b = (Some y, b') \<and> items b' = ys \<and> capacity b' = capacity b"
begin

definition bounded :: "'b \<Rightarrow> bool" where
  "bounded b \<longleftrightarrow> 0 < capacity b \<and> length (items b) \<le> capacity b"

lemma push_keeps: "push x b = (r, b') \<Longrightarrow> bounded b \<Longrightarrow> bounded b' \<and> capacity b' = capacity b"
  using push_refused push_accepted push_bounded unfolding bounded_def by metis

lemma pop_keeps: "pop b = (y, b') \<Longrightarrow> bounded b \<Longrightarrow> bounded b' \<and> capacity b' = capacity b"
  using pop_nil [of b] pop_cons [of b] unfolding bounded_def by (cases "items b") auto


lemma run_bounded:
  "buf_run push accepts pop ops b = (acc, del, b') \<Longrightarrow> bounded b \<Longrightarrow>
   bounded b' \<and> capacity b' = capacity b"
proof (induction ops arbitrary: b acc del)
  case (Cons op ops)
  show ?case
  proof (cases op)
    case (BPush x)
    with Cons show ?thesis by (auto dest!: push_keeps split: prod.splits)
  next
    case BPop
    with Cons show ?thesis by (auto dest!: pop_keeps split: prod.splits)
  qed
qed simp

text \<open>In any interleaving the items come out, and wait, in the order they were accepted.\<close>

lemma run_in_order:
  "buf_run push accepts pop ops b = (acc, del, b') \<Longrightarrow> subseq (del @ items b') (items b @ acc)"
proof (induction ops arbitrary: b acc del)
  case (Cons op ops)
  show ?case
  proof (cases op)
    case (BPush x)
    obtain r b1 where push: "push x b = (r, b1)" by fastforce
    obtain acc1 del1 where run: "buf_run push accepts pop ops b1 = (acc1, del1, b')"
      and acc: "acc = (if accepts r then x # acc1 else acc1)" "del = del1"
      using Cons.prems BPush push by (auto split: prod.splits)
    show ?thesis
    proof (cases "accepts r")
      case True
      from push_accepted [OF push True] obtain ys where "subseq ys (items b)" "items b1 = ys @ [x]" by blast
      with Cons.IH [OF run] True acc have "subseq (del @ items b') (ys @ x # acc1)"
        "subseq (ys @ x # acc1) (items b @ acc)"
        by (simp_all add: list_emb_append_mono)
      then show ?thesis by (rule subseq_order.trans)
    next
      case False
      with push_refused [OF push False] Cons.IH [OF run] acc show ?thesis by simp
    qed
  next
    case BPop
    show ?thesis
    proof (cases "items b")
      case Nil
      with Cons.prems Cons.IH [of b acc del] BPop pop_nil [OF Nil] show ?thesis
        by (auto split: prod.splits)
    next
      case (Cons y ys)
      from pop_cons [OF Cons] obtain b1 where "pop b = (Some y, b1)" "items b1 = ys" by blast
      with Cons.prems Cons.IH [of b1] BPop Cons show ?thesis by (auto split: prod.splits)
    qed
  qed
qed simp

end

locale lossless_fifo = fifo_buffer +
  assumes push_appends: "push x b = (r, b') \<Longrightarrow> accepts r \<Longrightarrow> items b' = items b @ [x]"
begin

lemma run_exact:
  "buf_run push accepts pop ops b = (acc, del, b') \<Longrightarrow> del @ items b' = items b @ acc"
proof (induction ops arbitrary: b acc del)
  case (Cons op ops)
  show ?case
  proof (cases op)
    case (BPush x)
    obtain r b1 where push: "push x b = (r, b1)" by fastforce
    with Cons BPush push_appends [OF push] push_refused [OF push] show ?thesis
      by (auto split: prod.splits if_splits)
  next
    case BPop
    show ?thesis
    proof (cases "items b")
      case Nil
      with Cons.prems Cons.IH [of b acc del] BPop pop_nil [OF Nil] show ?thesis
        by (auto split: prod.splits)
    next
      case (Cons y ys)
      from pop_cons [OF Cons] obtain b1 where "pop b = (Some y, b1)" "items b1 = ys" by blast
      with Cons.prems Cons.IH [of b1] BPop Cons show ?thesis by (auto split: prod.splits)
    qed
  qed
qed simp

end

subsection \<open>The buffers meet the contract\<close>

abbreviation all_accepted :: "'r \<Rightarrow> bool" where
  "all_accepted r \<equiv> True"

interpretation lossless: lossless_fifo lossless_try_push is_ok lossless_pop lb_items lb_capacity
  by unfold_locales
    (auto simp: lossless_try_push_def lossless_pop_def split: if_splits)

lemma position_split:
  "position P xs = Some k \<Longrightarrow>
   xs = take k xs @ xs ! k # drop (k + 1) xs \<and> P (xs ! k) \<and> (\<forall>x \<in> set (take k xs). \<not> P x)"
  using position_Some [of P xs k] by (auto simp: id_take_nth_drop [symmetric] in_set_conv_nth)

lemma subseq_delete: "subseq (take k xs @ drop (k + 1) xs) xs"
proof -
  have "subseq (drop 1 (drop k xs)) (drop k xs)"
    by (rule suffix_imp_subseq [OF suffix_drop])
  then have "subseq (take k xs @ drop 1 (drop k xs)) (take k xs @ drop k xs)"
    by (simp only: subseq_append')
  then show ?thesis unfolding append_take_drop_id drop_drop by (simp add: add.commute)
qed

lemma coalescing_push_cases:
  obtains (coalesced) k where "position (\<lambda>e. same_target e it) (cb_items b) = Some k"
      "coalescing_try_push it b =
        (Ok (), b\<lparr>cb_items := (take k (cb_items b) @ drop (k + 1) (cb_items b)) @ [it]\<rparr>)"
  | (full) "\<forall>e \<in> set (cb_items b). \<not> same_target e it" "length (cb_items b) = cb_capacity b"
      "coalescing_try_push it b = (Err (Backpressure it), b)"
  | (appended) "\<forall>e \<in> set (cb_items b). \<not> same_target e it" "length (cb_items b) \<noteq> cb_capacity b"
      "coalescing_try_push it b = (Ok (), b\<lparr>cb_items := cb_items b @ [it]\<rparr>)"
  by (cases "position (\<lambda>e. same_target e it) (cb_items b)"; cases "length (cb_items b) = cb_capacity b")
    (auto simp: coalescing_try_push_def position_None)

interpretation coalescing: fifo_buffer coalescing_try_push is_ok coalescing_pop cb_items cb_capacity
proof
  fix it :: "('k, 't) keyed_item" and b b' :: "('k, 't) coalescing_buffer" and r
  assume push: "coalescing_try_push it b = (r, b')"
  show "\<not> is_ok r \<Longrightarrow> b' = b"
    using push by (cases rule: coalescing_push_cases [of it b]) auto
  show "\<exists>ys. subseq ys (cb_items b) \<and> cb_items b' = ys @ [it] \<and> cb_capacity b' = cb_capacity b" if "is_ok r"
    using push that subseq_delete by (cases rule: coalescing_push_cases [of it b]) auto
  show "length (cb_items b') \<le> cb_capacity b"
    if "0 < cb_capacity b" "length (cb_items b) \<le> cb_capacity b"
    using push that by (cases rule: coalescing_push_cases [of it b]) (auto dest: position_Some)
qed (auto simp: coalescing_pop_def)

interpretation lossy: fifo_buffer lossy_push all_accepted lossy_pop yb_items yb_capacity
proof
  fix it :: "'t stream_item" and b b' :: "'t lossy_buffer" and r
  assume push: "lossy_push it b = (r, b')"
  show "\<exists>ys. subseq ys (yb_items b) \<and> yb_items b' = ys @ [it] \<and> yb_capacity b' = yb_capacity b"
    using push by (auto simp: lossy_push_def lossy_pop_def split: if_splits list.splits)
  show "length (yb_items b') \<le> yb_capacity b"
    if "0 < yb_capacity b" "length (yb_items b) \<le> yb_capacity b"
    using push that by (auto simp: lossy_push_def lossy_pop_def split: if_splits list.splits)
qed (auto simp: lossy_pop_def)

end
