(* ===== verification/Stream_Properties.thy ===== *)
theory Stream_Properties
  imports Stream_Buffers
begin

text \<open>
  The promises of the execution stream: gapless numbering by the producer, exact gap accounting by
  the consumer, what each buffer policy keeps, and the three composed.
\<close>

subsection \<open>Numbering\<close>

text \<open>
  A new sequencer numbers the payloads it is given 1, 2, 3, ..., each in its own stream and with
  its own payload; after \<open>u64::MAX\<close> it answers \<open>Exhausted\<close> for ever and never wraps.
\<close>

theorem sequencer_numbers_gapless:
  "emit_all ps (sequencer_new stream) =
     (map (\<lambda>j. if j + 1 < 2 ^ 64
               then Ok \<lparr>si_stream = stream, si_sequence = Sequence (of_nat (j + 1)), si_payload = ps ! j\<rparr>
               else Err (Exhausted stream sequence_max)) [0..<length ps],
      sequencer_at stream (length ps))"
  using emit_all_at [of ps stream 0] by (simp add: sequencer_new_at nth_emission_def)

definition oks :: "('a, 'e) res list \<Rightarrow> 'a list" where
  "oks rs = concat (map (\<lambda>r. case r of Ok a \<Rightarrow> [a] | _ \<Rightarrow> []) rs)"

definition emitted :: "ident \<Rightarrow> 't list \<Rightarrow> 't stream_item list" where
  "emitted stream ps = oks (fst (emit_all ps (sequencer_new stream)))"

lemma emitted_eq:
  "emitted stream ps =
     map (\<lambda>j. \<lparr>si_stream = stream, si_sequence = Sequence (of_nat (j + 1)), si_payload = ps ! j\<rparr>)
       (filter (\<lambda>j. j + 1 < 2 ^ 64) [0..<length ps])"
proof -
  have "oks (map (\<lambda>j. nth_emission stream j (ps ! j)) js) =
      map (\<lambda>j. \<lparr>si_stream = stream, si_sequence = Sequence (of_nat (j + 1)), si_payload = ps ! j\<rparr>)
       (filter (\<lambda>j. j + 1 < 2 ^ 64) js)" for js
    by (induction js) (auto simp: oks_def nth_emission_def)
  then show ?thesis
    using emit_all_at [of ps stream 0] by (simp add: emitted_def sequencer_new_at)
qed

lemma val_Sequence_of_nat: "n < 2 ^ 64 \<Longrightarrow> seq_ctr.val (Sequence (of_nat n)) = n"
  unfolding seq_ctr.val_def sequence_get.simps by (rule unat_of_nat_u64)

lemma emitted_increasing:
  "\<forall>x \<in> set (emitted stream ps). si_stream x = stream \<and> 0 < seq_ctr.val (si_sequence x)"
  "sorted_wrt (<) (map (seq_ctr.val \<circ> si_sequence) (emitted stream ps))"
proof -
  have val: "seq_ctr.val (Sequence (of_nat (j + 1))) = j + 1" if "j + 1 < 2 ^ 64" for j
    using that by (rule val_Sequence_of_nat)
  then show "\<forall>x \<in> set (emitted stream ps). si_stream x = stream \<and> 0 < seq_ctr.val (si_sequence x)"
    unfolding emitted_eq by auto
  have "map (seq_ctr.val \<circ> si_sequence) (emitted stream ps) = map Suc (filter (\<lambda>j. j + 1 < 2 ^ 64) [0..<length ps])"
    unfolding emitted_eq using val by auto
  then show "sorted_wrt (<) (map (seq_ctr.val \<circ> si_sequence) (emitted stream ps))"
    by (simp add: sorted_wrt_map sorted_wrt_filter)
qed

subsection \<open>Gap accounting\<close>

text \<open>
  On items of its stream in increasing order, with any of them missing, a new tracker never
  reports a duplicate or a reordering, and the sizes of the gaps it reports add up to exactly the
  number of sequences that did not arrive before the last one.
\<close>

theorem tracker_accounts_for_gaps:
  assumes "\<forall>x \<in> set xs. si_stream x = stream \<and> 0 < seq_ctr.val (si_sequence x)"
    and "sorted_wrt (<) (map (seq_ctr.val \<circ> si_sequence) xs)" and "xs \<noteq> []"
  shows "list_all advances (fst (observe_all xs (tracker_new stream))) \<and>
    sum_list (map reported_missing (fst (observe_all xs (tracker_new stream)))) + length xs =
      seq_ctr.val (si_sequence (last xs)) \<and>
    st_last (snd (observe_all xs (tracker_new stream))) = Some (si_sequence (last xs))"
  by (rule observe_new_tracker [OF assms])

definition demo_item :: "u64 \<Rightarrow> nat stream_item" where
  "demo_item n = \<lparr>si_stream = Id ''s'', si_sequence = Sequence n, si_payload = unat n\<rparr>"

theorem tracker_accounts_for_gaps_witness:
  "sum_list (map reported_missing (fst (observe_all [demo_item 2, demo_item 5] (tracker_new (Id ''s''))))) = 3"
  using tracker_accounts_for_gaps [of "[demo_item 2, demo_item 5]" "Id ''s''"]
  by (simp add: demo_item_def seq_ctr.val_def)

subsection \<open>The buffers\<close>

text \<open>
  C36: a lossless buffer, under any interleaving of pushes and pops, delivers exactly the accepted
  items in the order of acceptance, except the ones still pending, and never holds more than its
  capacity.
\<close>

theorem lossless_delivers_accepted:
  assumes "lossless_new n = Ok b" and "buf_run lossless_try_push is_ok lossless_pop ops b = (acc, del, b')"
  shows "del @ lb_items b' = acc \<and> length (lb_items b') \<le> n \<and> lb_capacity b' = n"
proof -
  from assms(1) have "lb_items b = []" "lb_capacity b = n" "lossless.bounded b"
    by (auto simp: lossless_new_def lossless.bounded_def split: if_splits)
  with lossless.run_exact [OF assms(2)] lossless.run_bounded [OF assms(2)] show ?thesis
    by (simp add: lossless.bounded_def)
qed

theorem lossless_delivers_accepted_witness:
  "fst (snd (buf_run lossless_try_push is_ok lossless_pop
      [BPush (demo_item 1), BPush (demo_item 2), BPop, BPush (demo_item 3)] \<lparr>lb_capacity = 1, lb_items = []\<rparr>))
    = [demo_item 1]"
proof -
  have run: "buf_run lossless_try_push is_ok lossless_pop
      [BPush (demo_item 1), BPush (demo_item 2), BPop, BPush (demo_item 3)] \<lparr>lb_capacity = 1, lb_items = []\<rparr>
    = ([demo_item 1, demo_item 3], [demo_item 1], \<lparr>lb_capacity = 1, lb_items = [demo_item 3]\<rparr>)"
    by (simp add: lossless_try_push_def lossless_pop_def)
  have "lossless_new 1 = Ok (\<lparr>lb_capacity = 1, lb_items = []\<rparr> :: nat lossless_buffer)"
    by (simp add: lossless_new_def)
  from lossless_delivers_accepted [OF this run] run show ?thesis by simp
qed

definition target :: "('k, 't) keyed_item \<Rightarrow> 'k \<times> ident" where
  "target e = (ki_key e, si_stream (ki_item e))"

lemma same_target_iff: "same_target e it \<longleftrightarrow> target e = target it"
  by (simp add: same_target_def target_def)

lemma delete_target:
  assumes "distinct (map target xs)" and "position (\<lambda>e. target e = t) xs = Some k"
  shows "take k xs @ drop (k + 1) xs = filter (\<lambda>e. target e \<noteq> t) xs"
proof -
  from position_split [OF assms(2)] have xs: "xs = take k xs @ xs ! k # drop (k + 1) xs"
    and k: "target (xs ! k) = t" by auto
  have "distinct (map target (take k xs) @ t # map target (drop (k + 1) xs))"
    using assms(1) k by (subst (asm) xs) simp
  then have "filter (\<lambda>e. target e \<noteq> t) (take k xs) = take k xs"
    "filter (\<lambda>e. target e \<noteq> t) (drop (k + 1) xs) = drop (k + 1) xs"
    by (force simp: filter_id_conv)+
  with k have "filter (\<lambda>e. target e \<noteq> t) (take k xs @ xs ! k # drop (k + 1) xs) = take k xs @ drop (k + 1) xs"
    by (simp only: filter_append filter.simps if_False simp_thms)
  with arg_cong [OF xs, of "filter (\<lambda>e. target e \<noteq> t)"] show ?thesis by (rule trans [symmetric])
qed

lemma coalescing_push_spec:
  assumes "distinct (map target (cb_items b))"
  shows "coalescing_try_push it b =
    (if target it \<notin> target ` set (cb_items b) \<and> length (cb_items b) = cb_capacity b
     then (Err (Backpressure it), b)
     else (Ok (), b\<lparr>cb_items := filter (\<lambda>e. target e \<noteq> target it) (cb_items b) @ [it]\<rparr>))"
proof (cases rule: coalescing_push_cases [of it b])
  case (coalesced k)
  then have k: "position (\<lambda>e. target e = target it) (cb_items b) = Some k" by (simp add: same_target_iff)
  with position_Some [OF k] have "target it \<in> target ` set (cb_items b)"
    by (metis image_eqI nth_mem)
  with coalesced delete_target [OF assms k] show ?thesis by simp
next
  case full
  then show ?thesis by (auto simp: same_target_iff)
next
  case appended
  then have "filter (\<lambda>e. target e \<noteq> target it) (cb_items b) = cb_items b"
    by (simp add: filter_id_conv same_target_iff)
  with appended show ?thesis by simp
qed

lemma coalescing_run_distinct:
  "buf_run coalescing_try_push is_ok coalescing_pop ops b = (acc, del, b') \<Longrightarrow>
   distinct (map target (cb_items b)) \<Longrightarrow> distinct (map target (cb_items b'))"
proof (induction ops arbitrary: b acc del)
  case (Cons op ops)
  show ?case
  proof (cases op)
    case (BPush x)
    obtain r b1 where push: "coalescing_try_push x b = (r, b1)" by fastforce
    with coalescing_push_spec [OF Cons.prems(2), of x] have "distinct (map target (cb_items b1))"
      using Cons.prems(2) by (auto simp: distinct_map_filter split: if_splits)
    with Cons push BPush show ?thesis by (auto split: prod.splits)
  next
    case BPop
    with Cons show ?thesis by (auto simp: coalescing_pop_def split: prod.splits list.splits)
  qed
qed simp

text \<open>
  A coalescing buffer holds at most one pending item per stream and key, keeps its bound, and
  delivers in order of acceptance; a push replaces the pending item of the same stream and key,
  moving it to the tail and leaving the others in order, and is refused exactly when the buffer is
  full of other keys.
\<close>

theorem coalescing_one_per_key:
  assumes "coalescing_new n = Ok b" and "buf_run coalescing_try_push is_ok coalescing_pop ops b = (acc, del, b')"
  shows "distinct (map target (cb_items b')) \<and> length (cb_items b') \<le> n \<and> subseq (del @ cb_items b') acc \<and>
    coalescing_try_push it b' =
      (if target it \<notin> target ` set (cb_items b') \<and> length (cb_items b') = n
       then (Err (Backpressure it), b')
       else (Ok (), b'\<lparr>cb_items := filter (\<lambda>e. target e \<noteq> target it) (cb_items b') @ [it]\<rparr>))"
proof -
  from assms(1) have new: "cb_items b = []" "cb_capacity b = n" "coalescing.bounded b"
    by (auto simp: coalescing_new_def coalescing.bounded_def split: if_splits)
  with coalescing_run_distinct [OF assms(2)] have dist: "distinct (map target (cb_items b'))" by simp
  moreover from coalescing.run_bounded [OF assms(2) new(3)] new(2)
  have "cb_capacity b' = n" "length (cb_items b') \<le> n" by (auto simp: coalescing.bounded_def)
  ultimately show ?thesis
    using coalescing.run_in_order [OF assms(2)] coalescing_push_spec [OF dist, of it] new by simp
qed

theorem coalescing_one_per_key_witness:
  "coalescing_try_push \<lparr>ki_key = (0 :: nat), ki_item = demo_item 2\<rparr>
     \<lparr>cb_capacity = 1, cb_items = [\<lparr>ki_key = 0, ki_item = demo_item 1\<rparr>]\<rparr> =
   (Ok (), \<lparr>cb_capacity = 1, cb_items = [\<lparr>ki_key = 0, ki_item = demo_item 2\<rparr>]\<rparr>)"
proof -
  have "coalescing_new 1 = Ok (\<lparr>cb_capacity = 1, cb_items = []\<rparr> :: (nat, nat) coalescing_buffer)"
    by (simp add: coalescing_new_def)
  moreover have "buf_run coalescing_try_push is_ok coalescing_pop
      [BPush \<lparr>ki_key = (0 :: nat), ki_item = demo_item 1\<rparr>] \<lparr>cb_capacity = 1, cb_items = []\<rparr>
    = ([\<lparr>ki_key = 0, ki_item = demo_item 1\<rparr>], [],
       \<lparr>cb_capacity = 1, cb_items = [\<lparr>ki_key = 0, ki_item = demo_item 1\<rparr>]\<rparr>)"
    by (simp add: coalescing_try_push_def)
  ultimately show ?thesis
    using coalescing_one_per_key [of 1 _ "[BPush \<lparr>ki_key = (0 :: nat), ki_item = demo_item 1\<rparr>]" _ _ _
        "\<lparr>ki_key = (0 :: nat), ki_item = demo_item 2\<rparr>"]
    by (simp add: target_def demo_item_def)
qed

fun lossy_push_all :: "'t stream_item list \<Rightarrow> 't lossy_buffer \<Rightarrow> 't stream_item option list \<times> 't lossy_buffer" where
  "lossy_push_all [] b = ([], b)"
| "lossy_push_all (x # xs) b =
     (case lossy_push x b of
        (d, b1) \<Rightarrow> (case lossy_push_all xs b1 of (ds, b2) \<Rightarrow> (d # ds, b2)))"

lemma lossy_push_window:
  assumes "0 < n"
  shows "lossy_push x \<lparr>yb_capacity = n, yb_items = drop (length ys - n) ys\<rparr> =
    (if length ys < n then None else Some (ys ! (length ys - n)),
     \<lparr>yb_capacity = n, yb_items = drop (length (ys @ [x]) - n) (ys @ [x])\<rparr>)"
proof (cases "length ys < n")
  case False
  then have "drop (length ys - n) ys = ys ! (length ys - n) # drop (Suc (length ys - n)) ys"
    using assms by (intro Cons_nth_drop_Suc [symmetric]) simp
  with False show ?thesis
    using assms by (simp add: lossy_push_def lossy_pop_def Suc_diff_le)
qed (simp add: lossy_push_def)

text \<open>
  A lossy buffer that is only pushed to holds the newest items, as many as its capacity, in
  order, and hands back exactly the displaced ones, oldest first, none before it is full.
\<close>

theorem lossy_keeps_newest:
  assumes "lossy_new n = Ok b"
  shows "lossy_push_all xs b =
    (map (\<lambda>j. if j < n then None else Some (xs ! (j - n))) [0..<length xs],
     \<lparr>yb_capacity = n, yb_items = drop (length xs - n) xs\<rparr>)"
proof -
  from assms have n: "0 < n" and b: "b = \<lparr>yb_capacity = n, yb_items = []\<rparr>"
    by (auto simp: lossy_new_def split: if_splits)
  have "lossy_push_all xs \<lparr>yb_capacity = n, yb_items = drop (length ys - n) ys\<rparr> =
    (map (\<lambda>j. if j < n then None else Some ((ys @ xs) ! (j - n))) [length ys..<length ys + length xs],
     \<lparr>yb_capacity = n, yb_items = drop (length (ys @ xs) - n) (ys @ xs)\<rparr>)" for ys
  proof (induction xs arbitrary: ys)
    case (Cons x xs)
    have "(if length ys < n then None else Some (ys ! (length ys - n))) =
        (if length ys < n then None else Some ((ys @ x # xs) ! (length ys - n)))"
      using n by (auto simp: nth_append)
    with Cons.IH [of "ys @ [x]", unfolded append_assoc append_Cons append_Nil]
      lossy_push_window [OF n, of x ys]
    show ?case by (simp add: upt_conv_Cons del: upt_Suc drop_append)
  qed simp
  from this [of "[]"] b show ?thesis by simp
qed

theorem lossy_keeps_newest_witness:
  "lossy_push_all [demo_item 1, demo_item 2] \<lparr>yb_capacity = 1, yb_items = []\<rparr> =
     ([None, Some (demo_item 1)], \<lparr>yb_capacity = 1, yb_items = [demo_item 2]\<rparr>)"
proof -
  have "lossy_new 1 = Ok (\<lparr>yb_capacity = 1, yb_items = []\<rparr> :: nat lossy_buffer)"
    by (simp add: lossy_new_def)
  from lossy_keeps_newest [OF this, of "[demo_item 1, demo_item 2]"] show ?thesis by simp
qed

subsection \<open>Producer, buffer and consumer\<close>

lemma subseq_sorted_wrt: "subseq xs ys \<Longrightarrow> sorted_wrt P ys \<Longrightarrow> sorted_wrt P xs"
  by (induction rule: list_emb.induct) (auto dest: subseq_order.trans list_emb_set)

text \<open>
  Telemetry through a lossy buffer is honest about its losses.  Whatever the producer emits from
  a new sequencer, and however pushes and pops interleave, a new tracker on the delivered items sees
  no duplicate and no reordering, and its gaps count exactly the undelivered items that precede the
  last delivered one.
\<close>

theorem lossy_stream_accounts_for_drops:
  assumes "lossy_new n = Ok b" and "buf_run lossy_push all_accepted lossy_pop ops b = (acc, del, b')"
    and "acc = emitted stream ps" and "del \<noteq> []"
  shows "list_all advances (fst (observe_all del (tracker_new stream))) \<and>
    sum_list (map reported_missing (fst (observe_all del (tracker_new stream)))) + length del =
      seq_ctr.val (si_sequence (last del))"
proof -
  have "yb_items b = []" using assms(1) by (auto simp: lossy_new_def split: if_splits)
  with lossy.run_in_order [OF assms(2)] have "subseq (del @ yb_items b') acc" by simp
  then have "subseq del acc" by (meson subseq_order.trans list_emb_append2 subseq_order.refl list_emb_prefix)
  then have sub: "subseq del (emitted stream ps)" by (simp add: assms(3))
  then have "set del \<subseteq> set (emitted stream ps)" by (blast dest: list_emb_set)
  moreover have "sorted_wrt (<) (map (seq_ctr.val \<circ> si_sequence) del)"
    by (rule subseq_sorted_wrt [OF subseq_map [OF sub] emitted_increasing(2)])
  ultimately show ?thesis
    using observe_new_tracker [of del stream] emitted_increasing(1) [of stream ps] assms(4) by blast
qed

theorem lossy_stream_accounts_for_drops_witness:
  "sum_list (map reported_missing (fst (observe_all
     [\<lparr>si_stream = Id ''s'', si_sequence = Sequence 2, si_payload = ''y''\<rparr>] (tracker_new (Id ''s''))))) = 1"
proof -
  let ?x = "\<lparr>si_stream = Id ''s'', si_sequence = Sequence 1, si_payload = ''x''\<rparr>"
  let ?y = "\<lparr>si_stream = Id ''s'', si_sequence = Sequence 2, si_payload = ''y''\<rparr>"
  have new: "lossy_new 1 = Ok \<lparr>yb_capacity = 1, yb_items = [] :: string stream_item list\<rparr>"
    by (simp add: lossy_new_def)
  have run: "buf_run lossy_push all_accepted lossy_pop [BPush ?x, BPush ?y, BPop] \<lparr>yb_capacity = 1, yb_items = []\<rparr>
    = ([?x, ?y], [?y], \<lparr>yb_capacity = 1, yb_items = []\<rparr>)"
    by (simp add: lossy_push_def lossy_pop_def)
  have em: "[?x, ?y] = emitted (Id ''s'') [''x'', ''y'']"
    by (simp add: emitted_eq upt_rec)
  show ?thesis
    using lossy_stream_accounts_for_drops [OF new run em] by (simp add: seq_ctr.val_def)
qed

end
