(* ===== verification/Recovery_Model.thy ===== *)
theory Recovery_Model
  imports Core_Primitives
begin

text \<open>
  The facts and decisions of \<open>crates/workflow-recovery/src/model.rs\<close>: operation and attempt
  identities, the intent, dispatch and outcome records of an external effect, the local knowledge
  about it, and the recovery actions with their reasons.  The locale \<open>effect_view\<close> states how that
  knowledge follows from the durable facts; the journal and the durable run state both provide it.
\<close>

subsection \<open>Identities\<close>

datatype operation_id = OperationId (operation_ident: ident)

definition operation_id_new :: "string \<Rightarrow> (operation_id, invalid_id) res" where
  "operation_id_new s = res_bind (id_new s) (\<lambda>i. Ok (OperationId i))"

definition operation_as_str :: "operation_id \<Rightarrow> string" where
  "operation_as_str i = ident_as_str (operation_ident i)"

definition show_operation :: "operation_id \<Rightarrow> string" where
  "show_operation i = show_ident (operation_ident i)"

datatype attempt_id = AttemptId (attempt_ident: ident)

definition attempt_id_new :: "string \<Rightarrow> (attempt_id, invalid_id) res" where
  "attempt_id_new s = res_bind (id_new s) (\<lambda>i. Ok (AttemptId i))"

definition attempt_as_str :: "attempt_id \<Rightarrow> string" where
  "attempt_as_str i = ident_as_str (attempt_ident i)"

definition show_attempt :: "attempt_id \<Rightarrow> string" where
  "show_attempt i = show_ident (attempt_ident i)"

instantiation operation_id :: linorder
begin

definition less_eq_operation_id :: "operation_id \<Rightarrow> operation_id \<Rightarrow> bool" where
  "less_eq_operation_id i j \<longleftrightarrow> operation_ident i \<le> operation_ident j"

definition less_operation_id :: "operation_id \<Rightarrow> operation_id \<Rightarrow> bool" where
  "less_operation_id i j \<longleftrightarrow> operation_ident i < operation_ident j"

instance
  by standard (auto simp: less_eq_operation_id_def less_operation_id_def intro: operation_id.expand)

end

instantiation attempt_id :: linorder
begin

definition less_eq_attempt_id :: "attempt_id \<Rightarrow> attempt_id \<Rightarrow> bool" where
  "less_eq_attempt_id i j \<longleftrightarrow> attempt_ident i \<le> attempt_ident j"

definition less_attempt_id :: "attempt_id \<Rightarrow> attempt_id \<Rightarrow> bool" where
  "less_attempt_id i j \<longleftrightarrow> attempt_ident i < attempt_ident j"

instance
  by standard (auto simp: less_eq_attempt_id_def less_attempt_id_def intro: attempt_id.expand)

end

lemma operation_order [simp, kernis_eval]:
  "OperationId i \<le> OperationId j \<longleftrightarrow> i \<le> j" "OperationId i < OperationId j \<longleftrightarrow> i < j"
  by (simp_all add: less_eq_operation_id_def less_operation_id_def)

lemma attempt_order [simp, kernis_eval]:
  "AttemptId i \<le> AttemptId j \<longleftrightarrow> i \<le> j" "AttemptId i < AttemptId j \<longleftrightarrow> i < j"
  by (simp_all add: less_eq_attempt_id_def less_attempt_id_def)

subsection \<open>Facts\<close>

datatype effect_semantics = Idempotent | NonIdempotent

record effect_intent =
  ei_task :: ident
  ei_operation :: operation_id
  ei_semantics :: effect_semantics

record dispatch_record =
  dr_operation :: operation_id
  dr_attempt :: attempt_id

datatype known_effect_outcome = Succeeded | Failed

record outcome_record =
  oc_operation :: operation_id
  oc_attempt :: attempt_id
  oc_outcome :: known_effect_outcome

datatype recovered_effect_state =
    NotPrepared
  | Prepared
  | OutcomeKnown known_effect_outcome
  | OutcomeUnknown

text \<open>The derived \<open>Debug\<close> of the two enums, which the journal's messages use.\<close>

primrec debug_outcome :: "known_effect_outcome \<Rightarrow> string" where
  "debug_outcome Succeeded = ''Succeeded''"
| "debug_outcome Failed = ''Failed''"

primrec debug_effect_state :: "recovered_effect_state \<Rightarrow> string" where
  "debug_effect_state NotPrepared = ''NotPrepared''"
| "debug_effect_state Prepared = ''Prepared''"
| "debug_effect_state (OutcomeKnown out) = ''OutcomeKnown('' @ debug_outcome out @ '')''"
| "debug_effect_state OutcomeUnknown = ''OutcomeUnknown''"

subsection \<open>Decisions\<close>

datatype recovery_action =
    Execute
  | RetrySameOperation
  | CompleteWithoutReexecution
  | Reconcile
  | NoAction
  | ObserveFailure
  | InvariantViolation

datatype recovery_reason =
    PreparedNotDispatched operation_id
  | IdempotentOutcomeUnknown operation_id attempt_id
  | NonIdempotentOutcomeUnknown operation_id attempt_id
  | KnownSuccess operation_id attempt_id
  | KnownFailure operation_id attempt_id
  | WorkflowAlreadyCompleted operation_id ident
  | WorkflowStateMismatch operation_id ident recovered_effect_state
  | ReasonNotPrepared operation_id

record recovery_decision =
  rd_action :: recovery_action
  rd_reason :: recovery_reason

primrec show_recovery_action :: "recovery_action \<Rightarrow> string" where
  "show_recovery_action Execute = ''execute''"
| "show_recovery_action RetrySameOperation = ''retry-same-operation''"
| "show_recovery_action CompleteWithoutReexecution = ''complete-without-reexecution''"
| "show_recovery_action Reconcile = ''reconcile''"
| "show_recovery_action NoAction = ''no-action''"
| "show_recovery_action ObserveFailure = ''observe-failure''"
| "show_recovery_action InvariantViolation = ''invariant-violation''"

subsection \<open>The knowledge a set of durable facts gives\<close>

text \<open>
  \<open>latest\<close> is the most recent dispatch of an operation and \<open>outcome\<close> the outcome recorded for that
  dispatch.  A view answers \<open>state\<close> by these two and by the intent.
\<close>

locale effect_view =
  fixes intent :: "'v \<Rightarrow> operation_id \<Rightarrow> effect_intent option"
    and latest :: "'v \<Rightarrow> operation_id \<Rightarrow> dispatch_record option"
    and outcome :: "'v \<Rightarrow> operation_id \<Rightarrow> outcome_record option"
    and state :: "'v \<Rightarrow> operation_id \<Rightarrow> recovered_effect_state"
  assumes state_law: "state v i =
    (if intent v i = None then NotPrepared
     else case outcome v i of
            Some r \<Rightarrow> OutcomeKnown (oc_outcome r)
          | None \<Rightarrow> if latest v i = None then Prepared else OutcomeUnknown)"
begin

lemma state_NotPrepared: "state v i = NotPrepared \<longleftrightarrow> intent v i = None"
  by (simp add: state_law split: option.split)

lemma state_Prepared:
  "state v i = Prepared \<longleftrightarrow> intent v i \<noteq> None \<and> outcome v i = None \<and> latest v i = None"
  by (simp add: state_law split: option.split)

lemma state_OutcomeUnknown:
  "state v i = OutcomeUnknown \<longleftrightarrow> intent v i \<noteq> None \<and> outcome v i = None \<and> latest v i \<noteq> None"
  by (simp add: state_law split: option.split)

lemma state_OutcomeKnown:
  "state v i = OutcomeKnown k \<longleftrightarrow> intent v i \<noteq> None \<and> (\<exists>r. outcome v i = Some r \<and> oc_outcome r = k)"
  by (auto simp: state_law split: option.split)

lemmas state_iffs = state_NotPrepared state_Prepared state_OutcomeUnknown state_OutcomeKnown

end

end
