(* ===== verification/Durable_Journal.thy ===== *)
theory Durable_Journal
  imports Recovery_Model
begin

text \<open>
  The compatibility journal of \<open>crates/workflow-recovery/src/journal.rs\<close>: its five tables, the three
  admissions, the queries, and the invariant that every sequence of admissions keeps.
\<close>

subsection \<open>Errors\<close>

datatype journal_invariant = Reserved

datatype journal_error =
    JE_UnknownOperation operation_id
  | JE_DuplicateIntent operation_id
  | JE_DispatchWithoutIntent operation_id
  | JE_TaskOperationConflict ident operation_id operation_id
  | JE_DuplicateAttempt operation_id attempt_id
  | JE_OutcomeWithoutDispatch operation_id attempt_id
  | JE_AttemptMismatch operation_id attempt_id operation_id
  | JE_ConflictingOutcome operation_id attempt_id known_effect_outcome known_effect_outcome
  | JE_InvariantViolation journal_invariant
  | JE_WorkflowStateMismatch operation_id ident recovered_effect_state

primrec show_journal_invariant :: "journal_invariant \<Rightarrow> string" where
  "show_journal_invariant Reserved = ''reserved journal invariant''"

primrec show_journal_error :: "journal_error \<Rightarrow> string" where
  "show_journal_error (JE_UnknownOperation i) = ''unknown operation: '' @ show_operation i"
| "show_journal_error (JE_DuplicateIntent i) = ''duplicate effect intent: '' @ show_operation i"
| "show_journal_error (JE_DispatchWithoutIntent i) = ''dispatch without effect intent: '' @ show_operation i"
| "show_journal_error (JE_TaskOperationConflict t e a) =
     ''task '' @ show_ident t @ '' already belongs to operation '' @ show_operation e @
     ''; cannot assign '' @ show_operation a"
| "show_journal_error (JE_DuplicateAttempt i a) =
     ''duplicate attempt '' @ show_attempt a @ '' for operation '' @ show_operation i"
| "show_journal_error (JE_OutcomeWithoutDispatch i a) =
     ''outcome without dispatch: operation '' @ show_operation i @ '', attempt '' @ show_attempt a"
| "show_journal_error (JE_AttemptMismatch i a d) =
     ''attempt '' @ show_attempt a @ '' belongs to '' @ show_operation d @ '', not '' @ show_operation i"
| "show_journal_error (JE_ConflictingOutcome i a e n) =
     (''conflicting outcome for operation '' @ show_operation i @ '', attempt '' @ show_attempt a @ '': '') @
     debug_outcome e @ '' versus '' @ debug_outcome n"
| "show_journal_error (JE_InvariantViolation v) = ''journal invariant violation: '' @ show_journal_invariant v"
| "show_journal_error (JE_WorkflowStateMismatch i t st) =
     ''workflow state mismatch for operation '' @ show_operation i @ '', task '' @ show_ident t @ '': '' @
     debug_effect_state st"

subsection \<open>The journal\<close>

record durable_journal =
  dj_intents :: "(operation_id, effect_intent) fmap"
  dj_task_operations :: "(ident, operation_id) fmap"
  dj_dispatches :: "(attempt_id, dispatch_record) fmap"
  dj_operation_attempts :: "(operation_id, attempt_id list) fmap"
  dj_outcomes :: "(attempt_id, outcome_record) fmap"

definition journal_new :: durable_journal where
  "journal_new =
     \<lparr>dj_intents = fmempty, dj_task_operations = fmempty, dj_dispatches = fmempty,
      dj_operation_attempts = fmempty, dj_outcomes = fmempty\<rparr>"

definition persist_intent :: "effect_intent \<Rightarrow> (durable_journal, unit, journal_error) act" where
  "persist_intent it j =
     (if has_key (dj_intents j) (ei_operation it) then (Err (JE_DuplicateIntent (ei_operation it)), j)
      else case fmlookup (dj_task_operations j) (ei_task it) of
             Some existing \<Rightarrow> (Err (JE_TaskOperationConflict (ei_task it) existing (ei_operation it)), j)
           | None \<Rightarrow>
               (Ok (),
                j\<lparr>dj_task_operations := fmupd (ei_task it) (ei_operation it) (dj_task_operations j),
                  dj_intents := fmupd (ei_operation it) it (dj_intents j)\<rparr>))"

definition attempts_of :: "durable_journal \<Rightarrow> operation_id \<Rightarrow> attempt_id list" where
  "attempts_of j i = (case fmlookup (dj_operation_attempts j) i of None \<Rightarrow> [] | Some as \<Rightarrow> as)"

definition persist_dispatch :: "dispatch_record \<Rightarrow> (durable_journal, unit, journal_error) act" where
  "persist_dispatch d j =
     (if \<not> has_key (dj_intents j) (dr_operation d) then (Err (JE_DispatchWithoutIntent (dr_operation d)), j)
      else if has_key (dj_dispatches j) (dr_attempt d)
      then (Err (JE_DuplicateAttempt (dr_operation d) (dr_attempt d)), j)
      else (Ok (),
            j\<lparr>dj_operation_attempts :=
                fmupd (dr_operation d) (attempts_of j (dr_operation d) @ [dr_attempt d]) (dj_operation_attempts j),
              dj_dispatches := fmupd (dr_attempt d) d (dj_dispatches j)\<rparr>))"

definition persist_outcome :: "outcome_record \<Rightarrow> (durable_journal, unit, journal_error) act" where
  "persist_outcome r j =
     (if \<not> has_key (dj_intents j) (oc_operation r) then (Err (JE_UnknownOperation (oc_operation r)), j)
      else case fmlookup (dj_dispatches j) (oc_attempt r) of
             None \<Rightarrow> (Err (JE_OutcomeWithoutDispatch (oc_operation r) (oc_attempt r)), j)
           | Some d \<Rightarrow>
               if dr_operation d \<noteq> oc_operation r
               then (Err (JE_AttemptMismatch (oc_operation r) (oc_attempt r) (dr_operation d)), j)
               else case fmlookup (dj_outcomes j) (oc_attempt r) of
                      Some existing \<Rightarrow>
                        if oc_outcome existing = oc_outcome r then (Ok (), j)
                        else (Err (JE_ConflictingOutcome (oc_operation r) (oc_attempt r)
                                     (oc_outcome existing) (oc_outcome r)), j)
                    | None \<Rightarrow> (Ok (), j\<lparr>dj_outcomes := fmupd (oc_attempt r) r (dj_outcomes j)\<rparr>))"

subsection \<open>Queries\<close>

definition journal_intent :: "durable_journal \<Rightarrow> operation_id \<Rightarrow> (effect_intent, journal_error) res" where
  "journal_intent j i = ok_or (fmlookup (dj_intents j) i) (JE_UnknownOperation i)"

definition journal_operation_for_task :: "durable_journal \<Rightarrow> ident \<Rightarrow> operation_id option" where
  "journal_operation_for_task j t = fmlookup (dj_task_operations j) t"

definition latest_dispatch :: "durable_journal \<Rightarrow> operation_id \<Rightarrow> dispatch_record option" where
  "latest_dispatch j i =
     Option.bind (Option.bind (fmlookup (dj_operation_attempts j) i) last_opt) (fmlookup (dj_dispatches j))"

definition known_outcome :: "durable_journal \<Rightarrow> operation_id \<Rightarrow> outcome_record option" where
  "known_outcome j i =
     Option.bind (Option.bind (fmlookup (dj_operation_attempts j) i) last_opt) (fmlookup (dj_outcomes j))"

definition journal_state :: "durable_journal \<Rightarrow> operation_id \<Rightarrow> recovered_effect_state" where
  "journal_state j i =
     (if \<not> has_key (dj_intents j) i then NotPrepared
      else case known_outcome j i of
             Some r \<Rightarrow> OutcomeKnown (oc_outcome r)
           | None \<Rightarrow> if latest_dispatch j i \<noteq> None then OutcomeUnknown else Prepared)"

definition journal_operation_ids :: "durable_journal \<Rightarrow> operation_id fset" where
  "journal_operation_ids j = fmdom (dj_intents j)"

interpretation jv: effect_view "\<lambda>j. fmlookup (dj_intents j)" latest_dispatch known_outcome journal_state
  by unfold_locales (auto simp: journal_state_def split: option.split)

subsection \<open>Admission of facts\<close>

datatype journal_fact =
    FactIntent effect_intent
  | FactDispatch dispatch_record
  | FactOutcome outcome_record

primrec persist :: "journal_fact \<Rightarrow> (durable_journal, unit, journal_error) act" where
  "persist (FactIntent it) = persist_intent it"
| "persist (FactDispatch d) = persist_dispatch d"
| "persist (FactOutcome r) = persist_outcome r"

text \<open>The lineage of the facts: an outcome has a dispatch of its operation, a dispatch has an
  intent, the attempts listed for an operation are its dispatches, and a task has one operation.\<close>

definition intents_ok :: "durable_journal \<Rightarrow> bool" where
  "intents_ok j \<longleftrightarrow>
     (\<forall>i it. fmlookup (dj_intents j) i = Some it \<longrightarrow>
        ei_operation it = i \<and> fmlookup (dj_task_operations j) (ei_task it) = Some i) \<and>
     (\<forall>t i. fmlookup (dj_task_operations j) t = Some i \<longrightarrow>
        (\<exists>it. fmlookup (dj_intents j) i = Some it \<and> ei_task it = t))"

definition dispatches_ok :: "durable_journal \<Rightarrow> bool" where
  "dispatches_ok j \<longleftrightarrow>
     (\<forall>a d. fmlookup (dj_dispatches j) a = Some d \<longrightarrow>
        dr_attempt d = a \<and> has_key (dj_intents j) (dr_operation d) \<and> a \<in> set (attempts_of j (dr_operation d))) \<and>
     (\<forall>i. distinct (attempts_of j i)) \<and>
     (\<forall>i. \<forall>a \<in> set (attempts_of j i). \<exists>d. fmlookup (dj_dispatches j) a = Some d \<and> dr_operation d = i)"

definition outcomes_ok :: "durable_journal \<Rightarrow> bool" where
  "outcomes_ok j \<longleftrightarrow>
     (\<forall>a r. fmlookup (dj_outcomes j) a = Some r \<longrightarrow>
        oc_attempt r = a \<and> (\<exists>d. fmlookup (dj_dispatches j) a = Some d \<and> dr_operation d = oc_operation r))"

definition journal_inv :: "durable_journal \<Rightarrow> bool" where
  "journal_inv j \<longleftrightarrow> intents_ok j \<and> dispatches_ok j \<and> outcomes_ok j"

lemmas journal_inv_defs = journal_inv_def intents_ok_def dispatches_ok_def outcomes_ok_def

lemma journal_inv_new: "journal_inv journal_new"
  by (simp add: journal_inv_defs journal_new_def attempts_of_def)

lemma persist_intent_cases:
  obtains (stored) "\<not> has_key (dj_intents j) (ei_operation it)" "\<not> has_key (dj_task_operations j) (ei_task it)"
      "persist_intent it j =
         (Ok (), j\<lparr>dj_task_operations := fmupd (ei_task it) (ei_operation it) (dj_task_operations j),
                   dj_intents := fmupd (ei_operation it) it (dj_intents j)\<rparr>)"
  | (refused) e where "persist_intent it j = (Err e, j)"
      "has_key (dj_intents j) (ei_operation it) \<or> has_key (dj_task_operations j) (ei_task it)"
  by (cases "fmlookup (dj_task_operations j) (ei_task it)"; cases "has_key (dj_intents j) (ei_operation it)")
    (auto simp: persist_intent_def)

lemma persist_dispatch_cases:
  obtains (stored) "has_key (dj_intents j) (dr_operation d)" "\<not> has_key (dj_dispatches j) (dr_attempt d)"
      "persist_dispatch d j =
         (Ok (), j\<lparr>dj_operation_attempts :=
                     fmupd (dr_operation d) (attempts_of j (dr_operation d) @ [dr_attempt d]) (dj_operation_attempts j),
                   dj_dispatches := fmupd (dr_attempt d) d (dj_dispatches j)\<rparr>)"
  | (refused) e where "persist_dispatch d j = (Err e, j)"
      "\<not> has_key (dj_intents j) (dr_operation d) \<or> has_key (dj_dispatches j) (dr_attempt d)"
  by (cases "has_key (dj_intents j) (dr_operation d)"; cases "has_key (dj_dispatches j) (dr_attempt d)")
    (auto simp: persist_dispatch_def)

lemma persist_outcome_cases:
  obtains (stored) d where "has_key (dj_intents j) (oc_operation r)"
      "fmlookup (dj_dispatches j) (oc_attempt r) = Some d" "dr_operation d = oc_operation r"
      "\<not> has_key (dj_outcomes j) (oc_attempt r)"
      "persist_outcome r j = (Ok (), j\<lparr>dj_outcomes := fmupd (oc_attempt r) r (dj_outcomes j)\<rparr>)"
  | (again) existing where "fmlookup (dj_outcomes j) (oc_attempt r) = Some existing"
      "oc_outcome existing = oc_outcome r" "persist_outcome r j = (Ok (), j)"
  | (refused) e where "persist_outcome r j = (Err e, j)"
  by (cases "has_key (dj_intents j) (oc_operation r)"; cases "fmlookup (dj_dispatches j) (oc_attempt r)";
      cases "dr_operation (the (fmlookup (dj_dispatches j) (oc_attempt r))) = oc_operation r";
      cases "fmlookup (dj_outcomes j) (oc_attempt r)";
      cases "oc_outcome (the (fmlookup (dj_outcomes j) (oc_attempt r))) = oc_outcome r")
    (auto simp: persist_outcome_def)

lemma journal_inv_intent:
  assumes inv: "journal_inv j" and ok: "persist_intent it j = (Ok (), j')"
  shows "journal_inv j'"
proof (cases rule: persist_intent_cases [of j it])
  case stored
  with ok have j': "j' = j\<lparr>dj_task_operations := fmupd (ei_task it) (ei_operation it) (dj_task_operations j),
      dj_intents := fmupd (ei_operation it) it (dj_intents j)\<rparr>" by simp
  have "intents_ok j'"
    using stored inv unfolding j' journal_inv_defs by auto (metis option.distinct(1))
  moreover have "dispatches_ok j'" "outcomes_ok j'"
    using inv unfolding j' journal_inv_defs attempts_of_def by auto
  ultimately show ?thesis by (simp add: journal_inv_def)
next
  case (refused e)
  with ok show ?thesis by simp
qed

lemma journal_inv_dispatch:
  assumes inv: "journal_inv j" and ok: "persist_dispatch d j = (Ok (), j')"
  shows "journal_inv j'"
proof (cases rule: persist_dispatch_cases [of j d])
  case stored
  with ok have j': "j' = j\<lparr>dj_operation_attempts :=
        fmupd (dr_operation d) (attempts_of j (dr_operation d) @ [dr_attempt d]) (dj_operation_attempts j),
      dj_dispatches := fmupd (dr_attempt d) d (dj_dispatches j)\<rparr>" by simp
  have attempts: "attempts_of j' i = attempts_of j i @ (if i = dr_operation d then [dr_attempt d] else [])" for i
    unfolding j' by (simp add: attempts_of_def)
  have new: "dr_attempt d \<notin> set (attempts_of j i)" "fmlookup (dj_outcomes j) (dr_attempt d) = None" for i
    using stored(2) inv unfolding journal_inv_defs by fastforce+
  have "intents_ok j'" using inv unfolding j' journal_inv_defs by simp
  moreover have "dispatches_ok j'"
    using inv stored(1) new unfolding journal_inv_defs attempts by (auto simp: j')
  moreover have "outcomes_ok j'"
    using inv new(2) unfolding j' journal_inv_defs by auto
  ultimately show ?thesis by (simp add: journal_inv_def)
next
  case (refused e)
  with ok show ?thesis by simp
qed

lemma journal_inv_outcome:
  assumes inv: "journal_inv j" and ok: "persist_outcome r j = (Ok (), j')"
  shows "journal_inv j'"
proof (cases rule: persist_outcome_cases [of j r])
  case (stored d)
  with ok have j': "j' = j\<lparr>dj_outcomes := fmupd (oc_attempt r) r (dj_outcomes j)\<rparr>" by simp
  have "outcomes_ok j'" using inv stored unfolding j' journal_inv_defs by (auto split: if_splits)
  moreover have "intents_ok j'" "dispatches_ok j'"
    using inv unfolding j' journal_inv_defs attempts_of_def by auto
  ultimately show ?thesis by (simp add: journal_inv_def)
qed (use ok inv in simp_all)

lemma persist_keeps_inv: "journal_inv j \<Longrightarrow> persist f j = (Ok (), j') \<Longrightarrow> journal_inv j'"
  by (cases f) (auto intro: journal_inv_intent journal_inv_dispatch journal_inv_outcome)

lemma persist_Err: "persist f j = (Err e, j') \<Longrightarrow> j' = j"
  by (cases f)
    (auto simp: persist_intent_def persist_dispatch_def persist_outcome_def split: if_splits option.splits)

lemma persist_no_panic: "fst (persist f j) \<noteq> Panic"
  by (cases f)
    (auto simp: persist_intent_def persist_dispatch_def persist_outcome_def split: option.splits)

inductive journal_reachable :: "durable_journal \<Rightarrow> bool" where
  jr_new: "journal_reachable journal_new"
| jr_persist: "journal_reachable j \<Longrightarrow> persist f j = (Ok (), j') \<Longrightarrow> journal_reachable j'"

lemma journal_reachable_inv: "journal_reachable j \<Longrightarrow> journal_inv j"
  by (induction rule: journal_reachable.induct) (auto intro: journal_inv_new persist_keeps_inv)

end
