(* ===== verification/Durable_Store.thy ===== *)
theory Durable_Store
  imports Recovery_Model
begin

text \<open>
  The persistence port of \<open>crates/workflow-recovery/src/durable.rs\<close>: the durable facts of a run, the
  five typed mutations with their lineage checks, and the in-memory store with its atomic
  compare-and-swap commit and idempotency keys.  The locale \<open>durable_port\<close> is the contract of the
  trait \<open>DurableStore\<close>; \<open>InMemoryDurableStore\<close> interprets it.
\<close>

subsection \<open>Identities and records\<close>

datatype run_id = RunId (run_ident: ident)

definition run_id_new :: "string \<Rightarrow> (run_id, invalid_id) res" where
  "run_id_new s = res_bind (id_new s) (\<lambda>i. Ok (RunId i))"

definition run_as_str :: "run_id \<Rightarrow> string" where
  "run_as_str i = ident_as_str (run_ident i)"

definition show_run :: "run_id \<Rightarrow> string" where
  "show_run i = show_ident (run_ident i)"

instantiation run_id :: linorder
begin

definition less_eq_run_id :: "run_id \<Rightarrow> run_id \<Rightarrow> bool" where
  "less_eq_run_id i j \<longleftrightarrow> run_ident i \<le> run_ident j"

definition less_run_id :: "run_id \<Rightarrow> run_id \<Rightarrow> bool" where
  "less_run_id i j \<longleftrightarrow> run_ident i < run_ident j"

instance
  by standard (auto simp: less_eq_run_id_def less_run_id_def intro: run_id.expand)

end

datatype store_revision = StoreRevision u64

primrec store_revision_get :: "store_revision \<Rightarrow> u64" where
  "store_revision_get (StoreRevision w) = w"

definition store_revision_initial :: store_revision where
  "store_revision_initial = StoreRevision 0"

definition store_revision_checked_next :: "store_revision \<Rightarrow> store_revision option" where
  "store_revision_checked_next r = map_option StoreRevision (u64_checked_succ (store_revision_get r))"

definition show_store_revision :: "store_revision \<Rightarrow> string" where
  "show_store_revision r = show_u64 (store_revision_get r)"

interpretation store_ctr: u64_counter store_revision_get StoreRevision store_revision_checked_next
proof
  fix w :: u64 and c :: store_revision
  show "store_revision_get (StoreRevision w) = w" by simp
  show "StoreRevision (store_revision_get c) = c" by (cases c) simp
  show "store_revision_checked_next c = map_option StoreRevision (u64_checked_succ (store_revision_get c))"
    by (simp add: store_revision_checked_next_def)
qed

record capability_replay_identity =
  cri_capability :: ident
  cri_definition :: string

record attempt_admission =
  aa_run :: run_id
  aa_task :: ident
  aa_attempt :: attempt_id
  aa_operation :: "operation_id option"
  aa_capabilities :: "capability_replay_identity list"

record cancellation_record =
  cn_run :: run_id
  cn_task :: ident
  cn_operation :: "operation_id option"
  cn_attempt :: "attempt_id option"

datatype idempotency_key = IdempotencyKey (key_text: string)

instantiation idempotency_key :: linorder
begin

definition less_eq_idempotency_key :: "idempotency_key \<Rightarrow> idempotency_key \<Rightarrow> bool" where
  "less_eq_idempotency_key i j \<longleftrightarrow> key_text i \<le> key_text j"

definition less_idempotency_key :: "idempotency_key \<Rightarrow> idempotency_key \<Rightarrow> bool" where
  "less_idempotency_key i j \<longleftrightarrow> key_text i < key_text j"

instance
  by standard (auto simp: less_eq_idempotency_key_def less_idempotency_key_def intro: idempotency_key.expand)

end

datatype durable_mutation =
    AdmitAttempt attempt_admission
  | RecordIntent effect_intent
  | RecordCancellation cancellation_record
  | RecordDispatch dispatch_record
  | RecordOutcome outcome_record

record commit_request =
  cq_run :: run_id
  cq_expected :: store_revision
  cq_key :: idempotency_key
  cq_mutations :: "durable_mutation list"

definition commit_single ::
  "run_id \<Rightarrow> store_revision \<Rightarrow> idempotency_key \<Rightarrow> durable_mutation \<Rightarrow> commit_request" where
  "commit_single run expected key m =
     \<lparr>cq_run = run, cq_expected = expected, cq_key = key, cq_mutations = [m]\<rparr>"

record commit_result =
  ct_revision :: store_revision
  ct_replayed :: bool

datatype store_invariant =
    AttemptIdReuse attempt_id
  | DispatchWithoutAdmission attempt_id
  | DispatchAttemptMismatch attempt_id operation_id
  | OutcomeWithoutAdmission attempt_id
  | OutcomeWithoutDispatch attempt_id
  | OutcomeAttemptMismatch attempt_id operation_id
  | ConflictingOutcome attempt_id known_effect_outcome known_effect_outcome
  | TaskOperationConflict ident operation_id operation_id
  | DispatchCancelled ident
  | CancellationLineageMismatch ident
  | ConflictingCancellation ident

datatype store_error =
    SE_RunNotFound run_id
  | SE_RunAlreadyExists run_id
  | SE_RevisionConflict store_revision store_revision
  | SE_IdempotencyConflict idempotency_key
  | SE_EmptyIdempotencyKey
  | SE_EmptyCommit
  | SE_InvariantViolation store_invariant
  | SE_RevisionExhausted store_revision

definition idempotency_key_new :: "string \<Rightarrow> (idempotency_key, store_error) res" where
  "idempotency_key_new s = (if trim_is_empty s then Err SE_EmptyIdempotencyKey else Ok (IdempotencyKey s))"

subsection \<open>The facts of one run\<close>

record durable_run_state =
  ds_run :: run_id
  ds_revision :: store_revision
  ds_admissions :: "(attempt_id, attempt_admission) fmap"
  ds_admission_history :: "attempt_admission list"
  ds_intents :: "(operation_id, effect_intent) fmap"
  ds_task_operations :: "(ident, operation_id) fmap"
  ds_cancellations :: "(ident, cancellation_record) fmap"
  ds_dispatches :: "(attempt_id, dispatch_record) fmap"
  ds_dispatch_history :: "dispatch_record list"
  ds_outcomes :: "(attempt_id, outcome_record) fmap"
  ds_outcome_history :: "outcome_record list"
  ds_idempotency :: "(idempotency_key, durable_mutation list \<times> store_revision) fmap"

definition run_state_new :: "run_id \<Rightarrow> durable_run_state" where
  "run_state_new run =
     \<lparr>ds_run = run, ds_revision = store_revision_initial,
      ds_admissions = fmempty, ds_admission_history = [],
      ds_intents = fmempty, ds_task_operations = fmempty, ds_cancellations = fmempty,
      ds_dispatches = fmempty, ds_dispatch_history = [],
      ds_outcomes = fmempty, ds_outcome_history = [], ds_idempotency = fmempty\<rparr>"

definition run_is_cancelled :: "durable_run_state \<Rightarrow> ident \<Rightarrow> bool" where
  "run_is_cancelled st t \<longleftrightarrow> has_key (ds_cancellations st) t"

definition run_intents :: "durable_run_state \<Rightarrow> effect_intent list" where
  "run_intents st = bt_values (ds_intents st)"

definition run_cancellations :: "durable_run_state \<Rightarrow> cancellation_record list" where
  "run_cancellations st = bt_values (ds_cancellations st)"

definition run_dispatches :: "durable_run_state \<Rightarrow> operation_id \<Rightarrow> dispatch_record list" where
  "run_dispatches st i = filter (\<lambda>d. dr_operation d = i) (ds_dispatch_history st)"

definition run_latest_dispatch :: "durable_run_state \<Rightarrow> operation_id \<Rightarrow> dispatch_record option" where
  "run_latest_dispatch st i = last_opt (run_dispatches st i)"

definition outcome_for_attempt :: "durable_run_state \<Rightarrow> attempt_id \<Rightarrow> outcome_record option" where
  "outcome_for_attempt st a = fmlookup (ds_outcomes st) a"

definition run_outcome_history :: "durable_run_state \<Rightarrow> operation_id \<Rightarrow> outcome_record list" where
  "run_outcome_history st i = filter (\<lambda>r. oc_operation r = i) (ds_outcome_history st)"

definition run_latest_outcome :: "durable_run_state \<Rightarrow> operation_id \<Rightarrow> outcome_record option" where
  "run_latest_outcome st i =
     Option.bind (run_latest_dispatch st i) (\<lambda>d. outcome_for_attempt st (dr_attempt d))"

definition run_effect_state :: "durable_run_state \<Rightarrow> operation_id \<Rightarrow> recovered_effect_state" where
  "run_effect_state st i =
     (if \<not> has_key (ds_intents st) i then NotPrepared
      else case run_latest_dispatch st i of
             None \<Rightarrow> Prepared
           | Some d \<Rightarrow>
               (case outcome_for_attempt st (dr_attempt d) of
                  None \<Rightarrow> OutcomeUnknown
                | Some r \<Rightarrow> OutcomeKnown (oc_outcome r)))"

definition run_operation_ids :: "durable_run_state \<Rightarrow> operation_id fset" where
  "run_operation_ids st = fmdom (ds_intents st)"

definition run_operation_for_task :: "durable_run_state \<Rightarrow> ident \<Rightarrow> operation_id option" where
  "run_operation_for_task st t = fmlookup (ds_task_operations st) t"

interpretation rv: effect_view "\<lambda>st. fmlookup (ds_intents st)" run_latest_dispatch run_latest_outcome run_effect_state
  by unfold_locales
    (auto simp: run_effect_state_def run_latest_outcome_def split: option.split)

subsection \<open>The five mutations\<close>

abbreviation violates :: "store_invariant \<Rightarrow> durable_run_state \<Rightarrow> (unit, store_error) res \<times> durable_run_state" where
  "violates v st \<equiv> (Err (SE_InvariantViolation v), st)"

definition admit_attempt :: "attempt_admission \<Rightarrow> (durable_run_state, unit, store_error) act" where
  "admit_attempt ad st =
     (if aa_run ad \<noteq> ds_run st then violates (AttemptIdReuse (aa_attempt ad)) st
      else if has_key (ds_admissions st) (aa_attempt ad) then violates (AttemptIdReuse (aa_attempt ad)) st
      else (Ok (), st\<lparr>ds_admissions := fmupd (aa_attempt ad) ad (ds_admissions st),
                      ds_admission_history := ds_admission_history st @ [ad]\<rparr>))"

definition record_intent :: "effect_intent \<Rightarrow> (durable_run_state, unit, store_error) act" where
  "record_intent it st =
     (case fmlookup (ds_intents st) (ei_operation it) of
        Some existing \<Rightarrow>
          if existing = it then (Ok (), st)
          else violates (TaskOperationConflict (ei_task it) (ei_operation existing) (ei_operation it)) st
      | None \<Rightarrow>
          (case fmlookup (ds_task_operations st) (ei_task it) of
             Some existing \<Rightarrow> violates (TaskOperationConflict (ei_task it) existing (ei_operation it)) st
           | None \<Rightarrow>
               (Ok (), st\<lparr>ds_task_operations := fmupd (ei_task it) (ei_operation it) (ds_task_operations st),
                          ds_intents := fmupd (ei_operation it) it (ds_intents st)\<rparr>)))"

definition record_cancellation :: "cancellation_record \<Rightarrow> (durable_run_state, unit, store_error) act" where
  "record_cancellation c st =
     (if cn_run c \<noteq> ds_run st then violates (CancellationLineageMismatch (cn_task c)) st
      else case fmlookup (ds_cancellations st) (cn_task c) of
             Some existing \<Rightarrow>
               if existing = c then (Ok (), st) else violates (ConflictingCancellation (cn_task c)) st
           | None \<Rightarrow>
               if cn_operation c \<noteq> None \<and> fmlookup (ds_task_operations st) (cn_task c) \<noteq> cn_operation c
               then violates (CancellationLineageMismatch (cn_task c)) st
               else if (case cn_attempt c of
                          None \<Rightarrow> False
                        | Some a \<Rightarrow>
                            (case fmlookup (ds_admissions st) a of
                               None \<Rightarrow> True
                             | Some ad \<Rightarrow> aa_task ad \<noteq> cn_task c \<or> aa_operation ad \<noteq> cn_operation c))
               then violates (CancellationLineageMismatch (cn_task c)) st
               else (Ok (), st\<lparr>ds_cancellations := fmupd (cn_task c) c (ds_cancellations st)\<rparr>))"

definition record_dispatch :: "dispatch_record \<Rightarrow> (durable_run_state, unit, store_error) act" where
  "record_dispatch d st =
     (case fmlookup (ds_intents st) (dr_operation d) of
        None \<Rightarrow> violates (DispatchWithoutAdmission (dr_attempt d)) st
      | Some it \<Rightarrow>
          (case fmlookup (ds_admissions st) (dr_attempt d) of
             None \<Rightarrow> violates (DispatchWithoutAdmission (dr_attempt d)) st
           | Some ad \<Rightarrow>
               if aa_operation ad \<noteq> Some (dr_operation d)
               then violates (DispatchAttemptMismatch (dr_attempt d) (dr_operation d)) st
               else if ei_task it \<noteq> aa_task ad
               then violates (DispatchAttemptMismatch (dr_attempt d) (dr_operation d)) st
               else if has_key (ds_cancellations st) (aa_task ad) \<and> \<not> has_key (ds_dispatches st) (dr_attempt d)
               then violates (DispatchCancelled (aa_task ad)) st
               else if has_key (ds_dispatches st) (dr_attempt d)
               then violates (DispatchAttemptMismatch (dr_attempt d) (dr_operation d)) st
               else (Ok (), st\<lparr>ds_dispatches := fmupd (dr_attempt d) d (ds_dispatches st),
                               ds_dispatch_history := ds_dispatch_history st @ [d]\<rparr>)))"

definition record_outcome :: "outcome_record \<Rightarrow> (durable_run_state, unit, store_error) act" where
  "record_outcome r st =
     (case fmlookup (ds_admissions st) (oc_attempt r) of
        None \<Rightarrow> violates (OutcomeWithoutAdmission (oc_attempt r)) st
      | Some ad \<Rightarrow>
          (case fmlookup (ds_dispatches st) (oc_attempt r) of
             None \<Rightarrow> violates (OutcomeWithoutDispatch (oc_attempt r)) st
           | Some d \<Rightarrow>
               if dr_operation d \<noteq> oc_operation r \<or> aa_operation ad \<noteq> Some (oc_operation r)
               then violates (OutcomeAttemptMismatch (oc_attempt r) (oc_operation r)) st
               else case fmlookup (ds_outcomes st) (oc_attempt r) of
                      Some existing \<Rightarrow>
                        if oc_outcome existing = oc_outcome r then (Ok (), st)
                        else violates (ConflictingOutcome (oc_attempt r) (oc_outcome existing) (oc_outcome r)) st
                    | None \<Rightarrow>
                        (Ok (), st\<lparr>ds_outcomes := fmupd (oc_attempt r) r (ds_outcomes st),
                                   ds_outcome_history := ds_outcome_history st @ [r]\<rparr>)))"

primrec apply_durable :: "durable_mutation \<Rightarrow> (durable_run_state, unit, store_error) act" where
  "apply_durable (AdmitAttempt ad) = admit_attempt ad"
| "apply_durable (RecordIntent it) = record_intent it"
| "apply_durable (RecordCancellation c) = record_cancellation c"
| "apply_durable (RecordDispatch d) = record_dispatch d"
| "apply_durable (RecordOutcome r) = record_outcome r"

fun apply_durables :: "durable_mutation list \<Rightarrow> (durable_run_state, unit, store_error) act" where
  "apply_durables [] st = (Ok (), st)"
| "apply_durables (m # ms) st = act_bind (apply_durable m) (\<lambda>_. apply_durables ms) st"

subsection \<open>The in-memory store\<close>

record in_memory_store =
  ms_runs :: "(run_id, durable_run_state) fmap"

definition store_new :: in_memory_store where
  "store_new = \<lparr>ms_runs = fmempty\<rparr>"

definition create_run :: "run_id \<Rightarrow> (in_memory_store, store_revision, store_error) act" where
  "create_run run s =
     (if has_key (ms_runs s) run then (Err (SE_RunAlreadyExists run), s)
      else (Ok store_revision_initial, s\<lparr>ms_runs := fmupd run (run_state_new run) (ms_runs s)\<rparr>))"

definition load_run :: "in_memory_store \<Rightarrow> run_id \<Rightarrow> (durable_run_state, store_error) res" where
  "load_run s run = ok_or (fmlookup (ms_runs s) run) (SE_RunNotFound run)"

text \<open>\<open>commit\<close> on the state of the run; the store puts the state it leaves back under the run.\<close>

definition commit_state :: "commit_request \<Rightarrow> (durable_run_state, commit_result, store_error) act" where
  "commit_state q st =
     (case fmlookup (ds_idempotency st) (cq_key q) of
        Some (existing, _) \<Rightarrow>
          if existing = cq_mutations q then (Ok \<lparr>ct_revision = ds_revision st, ct_replayed = True\<rparr>, st)
          else (Err (SE_IdempotencyConflict (cq_key q)), st)
      | None \<Rightarrow>
          if cq_expected q \<noteq> ds_revision st then (Err (SE_RevisionConflict (cq_expected q) (ds_revision st)), st)
          else case store_revision_checked_next (ds_revision st) of
                 None \<Rightarrow> (Err (SE_RevisionExhausted (ds_revision st)), st)
               | Some revision \<Rightarrow>
                   (case apply_durables (cq_mutations q) st of
                      (Ok _, candidate) \<Rightarrow>
                        (Ok \<lparr>ct_revision = revision, ct_replayed = False\<rparr>,
                         candidate\<lparr>ds_revision := revision,
                                   ds_idempotency := fmupd (cq_key q) (cq_mutations q, revision)
                                     (ds_idempotency candidate)\<rparr>)
                    | (Err e, _) \<Rightarrow> (Err e, st)
                    | (Panic, _) \<Rightarrow> (Panic, st)))"

definition commit :: "commit_request \<Rightarrow> (in_memory_store, commit_result, store_error) act" where
  "commit q s =
     (if cq_mutations q = [] then (Err SE_EmptyCommit, s)
      else case fmlookup (ms_runs s) (cq_run q) of
             None \<Rightarrow> (Err (SE_RunNotFound (cq_run q)), s)
           | Some st \<Rightarrow>
               (case commit_state q st of
                  (r, st') \<Rightarrow> (r, s\<lparr>ms_runs := fmupd (cq_run q) st' (ms_runs s)\<rparr>)))"

end
