(* ===== verification/Durable_Laws.thy ===== *)
theory Durable_Laws
  imports Durable_Store
begin

text \<open>
  The laws of the durable store: the lineage invariant of a run's facts, that facts are only ever
  added, the contract \<open>durable_port\<close> of the store trait with what a client may conclude from it, and
  the in-memory store as an instance.
\<close>

subsection \<open>Lineage of the facts\<close>

text \<open>A table that indexes an append-only history.\<close>

definition ledger :: "('x \<Rightarrow> 'k) \<Rightarrow> ('k, 'x) fmap \<Rightarrow> 'x list \<Rightarrow> bool" where
  "ledger key m h \<longleftrightarrow>
     distinct (map key h) \<and> (\<forall>k x. fmlookup m k = Some x \<longleftrightarrow> x \<in> set h \<and> key x = k)"

lemma ledger_empty: "ledger key fmempty []"
  by (simp add: ledger_def)

lemma ledger_snoc:
  assumes "ledger key m h" and "fmlookup m (key x) = None"
  shows "ledger key (fmupd (key x) x m) (h @ [x])"
proof -
  have "key x \<notin> key ` set h"
    using assms unfolding ledger_def by (metis image_iff option.distinct(1))
  with assms(1) show ?thesis unfolding ledger_def by (auto, metis image_eqI)
qed

lemma ledger_lookup: "ledger key m h \<Longrightarrow> fmlookup m k = Some x \<longleftrightarrow> x \<in> set h \<and> key x = k"
  by (simp add: ledger_def)

definition keeps_map :: "('k, 'v) fmap \<Rightarrow> ('k, 'v) fmap \<Rightarrow> bool" where
  "keeps_map m m' \<longleftrightarrow> (\<forall>k v. fmlookup m k = Some v \<longrightarrow> fmlookup m' k = Some v)"

lemma keeps_map_refl [simp]: "keeps_map m m"
  by (simp add: keeps_map_def)

lemma keeps_map_trans: "keeps_map m n \<Longrightarrow> keeps_map n k \<Longrightarrow> keeps_map m k"
  by (simp add: keeps_map_def)

lemma keeps_map_fmupd: "fmlookup m k = None \<Longrightarrow> keeps_map m (fmupd k v m)"
  by (auto simp: keeps_map_def)

definition admissions_ok :: "durable_run_state \<Rightarrow> bool" where
  "admissions_ok st \<longleftrightarrow>
     ledger aa_attempt (ds_admissions st) (ds_admission_history st) \<and>
     (\<forall>ad \<in> set (ds_admission_history st). aa_run ad = ds_run st)"

definition run_intents_ok :: "durable_run_state \<Rightarrow> bool" where
  "run_intents_ok st \<longleftrightarrow>
     (\<forall>i it. fmlookup (ds_intents st) i = Some it \<longrightarrow>
        ei_operation it = i \<and> fmlookup (ds_task_operations st) (ei_task it) = Some i) \<and>
     (\<forall>t i. fmlookup (ds_task_operations st) t = Some i \<longrightarrow>
        (\<exists>it. fmlookup (ds_intents st) i = Some it \<and> ei_task it = t))"

definition run_dispatches_ok :: "durable_run_state \<Rightarrow> bool" where
  "run_dispatches_ok st \<longleftrightarrow>
     ledger dr_attempt (ds_dispatches st) (ds_dispatch_history st) \<and>
     (\<forall>d \<in> set (ds_dispatch_history st). \<exists>it ad.
        fmlookup (ds_intents st) (dr_operation d) = Some it \<and>
        fmlookup (ds_admissions st) (dr_attempt d) = Some ad \<and>
        aa_operation ad = Some (dr_operation d) \<and> aa_task ad = ei_task it)"

definition run_outcomes_ok :: "durable_run_state \<Rightarrow> bool" where
  "run_outcomes_ok st \<longleftrightarrow>
     ledger oc_attempt (ds_outcomes st) (ds_outcome_history st) \<and>
     (\<forall>r \<in> set (ds_outcome_history st). \<exists>d.
        fmlookup (ds_dispatches st) (oc_attempt r) = Some d \<and> dr_operation d = oc_operation r)"

definition cancellations_ok :: "durable_run_state \<Rightarrow> bool" where
  "cancellations_ok st \<longleftrightarrow>
     (\<forall>t c. fmlookup (ds_cancellations st) t = Some c \<longrightarrow>
        cn_task c = t \<and> cn_run c = ds_run st \<and>
        (\<forall>i. cn_operation c = Some i \<longrightarrow> fmlookup (ds_task_operations st) t = Some i) \<and>
        (\<forall>a. cn_attempt c = Some a \<longrightarrow> (\<exists>ad. fmlookup (ds_admissions st) a = Some ad \<and>
           aa_task ad = t \<and> aa_operation ad = cn_operation c)))"

definition facts_ok :: "durable_run_state \<Rightarrow> bool" where
  "facts_ok st \<longleftrightarrow>
     admissions_ok st \<and> run_intents_ok st \<and> run_dispatches_ok st \<and> run_outcomes_ok st \<and> cancellations_ok st"

lemmas facts_ok_defs =
  facts_ok_def admissions_ok_def run_intents_ok_def run_dispatches_ok_def run_outcomes_ok_def
  cancellations_ok_def

text \<open>What a run keeps of its facts when it goes on.\<close>

definition run_extends :: "durable_run_state \<Rightarrow> durable_run_state \<Rightarrow> bool" where
  "run_extends st st' \<longleftrightarrow>
     ds_run st' = ds_run st \<and>
     keeps_map (ds_admissions st) (ds_admissions st') \<and>
     (\<exists>xs. ds_admission_history st' = ds_admission_history st @ xs) \<and>
     keeps_map (ds_intents st) (ds_intents st') \<and>
     keeps_map (ds_task_operations st) (ds_task_operations st') \<and>
     keeps_map (ds_cancellations st) (ds_cancellations st') \<and>
     keeps_map (ds_dispatches st) (ds_dispatches st') \<and>
     (\<exists>xs. ds_dispatch_history st' = ds_dispatch_history st @ xs \<and>
        (\<forall>d \<in> set xs. \<forall>ad. fmlookup (ds_admissions st') (dr_attempt d) = Some ad \<longrightarrow>
           \<not> run_is_cancelled st (aa_task ad))) \<and>
     keeps_map (ds_outcomes st) (ds_outcomes st') \<and>
     (\<exists>xs. ds_outcome_history st' = ds_outcome_history st @ xs)"

lemma run_extends_refl: "run_extends st st"
  by (simp add: run_extends_def)

lemma cancelled_mono: "keeps_map (ds_cancellations st) (ds_cancellations st') \<Longrightarrow>
    run_is_cancelled st t \<Longrightarrow> run_is_cancelled st' t"
  by (auto simp: keeps_map_def run_is_cancelled_def)

subsection \<open>The effect of each mutation\<close>

lemma admit_attempt_Ok:
  assumes "admit_attempt ad st = (Ok (), st')"
  shows "aa_run ad = ds_run st \<and> fmlookup (ds_admissions st) (aa_attempt ad) = None \<and>
    st' = st\<lparr>ds_admissions := fmupd (aa_attempt ad) ad (ds_admissions st),
             ds_admission_history := ds_admission_history st @ [ad]\<rparr>"
  using assms by (auto simp: admit_attempt_def split: if_splits)

lemma record_intent_Ok:
  assumes "record_intent it st = (Ok (), st')"
  obtains (again) "fmlookup (ds_intents st) (ei_operation it) = Some it" "st' = st"
  | (new) "fmlookup (ds_intents st) (ei_operation it) = None"
      "fmlookup (ds_task_operations st) (ei_task it) = None"
      "st' = st\<lparr>ds_task_operations := fmupd (ei_task it) (ei_operation it) (ds_task_operations st),
                ds_intents := fmupd (ei_operation it) it (ds_intents st)\<rparr>"
  using assms by (auto simp: record_intent_def split: if_splits option.splits)

lemma record_cancellation_Ok:
  assumes "record_cancellation c st = (Ok (), st')"
  obtains (again) "fmlookup (ds_cancellations st) (cn_task c) = Some c" "st' = st"
  | (new) "cn_run c = ds_run st" "fmlookup (ds_cancellations st) (cn_task c) = None"
      "\<And>i. cn_operation c = Some i \<Longrightarrow> fmlookup (ds_task_operations st) (cn_task c) = Some i"
      "\<And>a. cn_attempt c = Some a \<Longrightarrow> \<exists>ad. fmlookup (ds_admissions st) a = Some ad \<and>
         aa_task ad = cn_task c \<and> aa_operation ad = cn_operation c"
      "st' = st\<lparr>ds_cancellations := fmupd (cn_task c) c (ds_cancellations st)\<rparr>"
  using assms by (auto simp: record_cancellation_def split: if_splits option.splits)

lemma record_dispatch_Ok:
  assumes "record_dispatch d st = (Ok (), st')"
  obtains it ad where
      "fmlookup (ds_intents st) (dr_operation d) = Some it"
      "fmlookup (ds_admissions st) (dr_attempt d) = Some ad"
      "aa_operation ad = Some (dr_operation d)" "aa_task ad = ei_task it"
      "\<not> run_is_cancelled st (aa_task ad)" "fmlookup (ds_dispatches st) (dr_attempt d) = None"
      "st' = st\<lparr>ds_dispatches := fmupd (dr_attempt d) d (ds_dispatches st),
                ds_dispatch_history := ds_dispatch_history st @ [d]\<rparr>"
  using assms by (auto simp: record_dispatch_def run_is_cancelled_def split: if_splits option.splits)

lemma record_outcome_Ok:
  assumes "record_outcome r st = (Ok (), st')"
  obtains (again) existing where "fmlookup (ds_outcomes st) (oc_attempt r) = Some existing"
      "oc_outcome existing = oc_outcome r" "st' = st"
  | (new) d where "fmlookup (ds_dispatches st) (oc_attempt r) = Some d" "dr_operation d = oc_operation r"
      "fmlookup (ds_outcomes st) (oc_attempt r) = None"
      "st' = st\<lparr>ds_outcomes := fmupd (oc_attempt r) r (ds_outcomes st),
                ds_outcome_history := ds_outcome_history st @ [r]\<rparr>"
  using assms by (auto simp: record_outcome_def split: if_splits option.splits)

lemma versioned_facts [simp]:
  "facts_ok (st\<lparr>ds_revision := v, ds_idempotency := k\<rparr>) = facts_ok st"
  "run_extends st0 (st\<lparr>ds_revision := v, ds_idempotency := k\<rparr>) = run_extends st0 st"
  by (simp_all add: facts_ok_defs run_extends_def)

lemma apply_durable_meta:
  "apply_durable m st = (Ok (), st') \<Longrightarrow>
   ds_revision st' = ds_revision st \<and> ds_idempotency st' = ds_idempotency st \<and> ds_run st' = ds_run st"
  by (cases m)
    (auto dest!: admit_attempt_Ok elim!: record_intent_Ok record_cancellation_Ok record_dispatch_Ok record_outcome_Ok)

lemma admit_keeps:
  assumes inv: "facts_ok st" and ok: "admit_attempt ad st = (Ok (), st')"
  shows "facts_ok st' \<and> run_extends st st'"
proof -
  note e = admit_attempt_Ok [OF ok]
  then have kept: "keeps_map (ds_admissions st) (ds_admissions st')" by (simp add: keeps_map_fmupd)
  have "admissions_ok st'" using inv e by (auto simp: facts_ok_defs ledger_snoc)
  moreover have "run_dispatches_ok st'" "cancellations_ok st'"
    using inv kept e unfolding facts_ok_defs keeps_map_def by fastforce+
  moreover have "run_intents_ok st'" "run_outcomes_ok st'"
    using inv e by (simp_all add: facts_ok_defs)
  ultimately show ?thesis using kept e by (auto simp: facts_ok_def run_extends_def)
qed

lemma intent_keeps:
  assumes inv: "facts_ok st" and ok: "record_intent it st = (Ok (), st')"
  shows "facts_ok st' \<and> run_extends st st'"
  using ok
proof (cases rule: record_intent_Ok)
  case again
  with inv show ?thesis by (simp add: run_extends_refl)
next
  case new
  then have kept: "keeps_map (ds_intents st) (ds_intents st')"
    "keeps_map (ds_task_operations st) (ds_task_operations st')" by (simp_all add: keeps_map_fmupd)
  have "run_intents_ok st'"
    using inv new unfolding facts_ok_defs by auto (metis option.distinct(1))
  moreover have "run_dispatches_ok st'" "cancellations_ok st'"
    using inv kept new unfolding facts_ok_defs keeps_map_def by fastforce+
  moreover have "admissions_ok st'" "run_outcomes_ok st'"
    using inv new by (simp_all add: facts_ok_defs)
  ultimately show ?thesis using kept new by (auto simp: facts_ok_def run_extends_def)
qed

lemma cancellation_keeps:
  assumes inv: "facts_ok st" and ok: "record_cancellation c st = (Ok (), st')"
  shows "facts_ok st' \<and> run_extends st st'"
  using ok
proof (cases rule: record_cancellation_Ok)
  case again
  with inv show ?thesis by (simp add: run_extends_refl)
next
  case new
  then have kept: "keeps_map (ds_cancellations st) (ds_cancellations st')" by (simp add: keeps_map_fmupd)
  have "cancellations_ok st'" using inv new unfolding facts_ok_defs by auto
  moreover have "run_dispatches_ok st'" "run_intents_ok st'" "admissions_ok st'" "run_outcomes_ok st'"
    using inv new by (simp_all add: facts_ok_defs)
  ultimately show ?thesis using kept new by (auto simp: facts_ok_def run_extends_def)
qed

lemma dispatch_keeps:
  assumes inv: "facts_ok st" and ok: "record_dispatch d st = (Ok (), st')"
  shows "facts_ok st' \<and> run_extends st st'"
  using ok
proof (cases rule: record_dispatch_Ok)
  case (1 it ad)
  then have kept: "keeps_map (ds_dispatches st) (ds_dispatches st')" by (simp add: keeps_map_fmupd)
  have "run_dispatches_ok st'" using inv 1 by (auto simp: facts_ok_defs ledger_snoc)
  moreover have "run_outcomes_ok st'"
    using inv kept 1 unfolding facts_ok_defs keeps_map_def by fastforce
  moreover have "cancellations_ok st'" "run_intents_ok st'" "admissions_ok st'"
    using inv 1 by (simp_all add: facts_ok_defs)
  ultimately show ?thesis using kept 1 by (auto simp: facts_ok_def run_extends_def)
qed

lemma outcome_keeps:
  assumes inv: "facts_ok st" and ok: "record_outcome r st = (Ok (), st')"
  shows "facts_ok st' \<and> run_extends st st'"
  using ok
proof (cases rule: record_outcome_Ok)
  case again
  with inv show ?thesis by (simp add: run_extends_refl)
next
  case (new d)
  then have kept: "keeps_map (ds_outcomes st) (ds_outcomes st')" by (simp add: keeps_map_fmupd)
  have "run_outcomes_ok st'" using inv new by (auto simp: facts_ok_defs ledger_snoc)
  moreover have "cancellations_ok st'" "run_intents_ok st'" "admissions_ok st'" "run_dispatches_ok st'"
    using inv new by (simp_all add: facts_ok_defs)
  ultimately show ?thesis using kept new by (auto simp: facts_ok_def run_extends_def)
qed

lemma apply_durable_keeps:
  "facts_ok st \<Longrightarrow> apply_durable m st = (Ok (), st') \<Longrightarrow> facts_ok st' \<and> run_extends st st'"
  by (cases m; simp only: apply_durable.simps)
    (drule (1) admit_keeps intent_keeps cancellation_keeps dispatch_keeps outcome_keeps, assumption)+

lemma apply_durable_no_panic: "fst (apply_durable m st) \<noteq> Panic"
proof (cases m)
  case (AdmitAttempt ad)
  then show ?thesis by (simp add: admit_attempt_def)
next
  case (RecordIntent it)
  then show ?thesis by (simp add: record_intent_def split: option.split)
next
  case (RecordCancellation c)
  then show ?thesis
    unfolding RecordCancellation apply_durable.simps record_cancellation_def
    by (cases "fmlookup (ds_cancellations st) (cn_task c)") simp_all
next
  case (RecordDispatch d)
  then show ?thesis by (simp add: record_dispatch_def split: option.split)
next
  case (RecordOutcome r)
  then show ?thesis by (simp add: record_outcome_def split: option.split)
qed

subsection \<open>A batch of mutations and a commit\<close>

lemma run_extends_trans:
  assumes "run_extends a b" and "run_extends b c" and "facts_ok b"
  shows "run_extends a c"
proof -
  from assms obtain xs ys where
    xs: "ds_dispatch_history b = ds_dispatch_history a @ xs"
      "\<And>d ad. d \<in> set xs \<Longrightarrow> fmlookup (ds_admissions b) (dr_attempt d) = Some ad \<Longrightarrow>
         \<not> run_is_cancelled a (aa_task ad)"
    and ys: "ds_dispatch_history c = ds_dispatch_history b @ ys"
      "\<And>d ad. d \<in> set ys \<Longrightarrow> fmlookup (ds_admissions c) (dr_attempt d) = Some ad \<Longrightarrow>
         \<not> run_is_cancelled b (aa_task ad)"
    unfolding run_extends_def by metis
  have old: "fmlookup (ds_admissions b) (dr_attempt d) = Some ad"
    if "d \<in> set xs" "fmlookup (ds_admissions c) (dr_attempt d) = Some ad" for d ad
  proof -
    from that(1) xs(1) assms(3) obtain ad' where "fmlookup (ds_admissions b) (dr_attempt d) = Some ad'"
      unfolding facts_ok_def run_dispatches_ok_def by fastforce
    with assms(2) that(2) show ?thesis unfolding run_extends_def keeps_map_def by fastforce
  qed
  have "\<not> run_is_cancelled a (aa_task ad)"
    if "d \<in> set (xs @ ys)" "fmlookup (ds_admissions c) (dr_attempt d) = Some ad" for d ad
    using that xs(2) [of d ad] ys(2) [of d ad] old [of d ad] cancelled_mono [of a b] assms(1)
    unfolding run_extends_def by auto
  with xs(1) ys(1) have "\<exists>zs. ds_dispatch_history c = ds_dispatch_history a @ zs \<and>
      (\<forall>d \<in> set zs. \<forall>ad. fmlookup (ds_admissions c) (dr_attempt d) = Some ad \<longrightarrow>
         \<not> run_is_cancelled a (aa_task ad))"
    by (intro exI [of _ "xs @ ys"]) simp
  with assms(1,2) show ?thesis
    unfolding run_extends_def by (auto intro: keeps_map_trans)
qed

lemma apply_durables_keeps:
  "apply_durables ms st = (Ok (), st') \<Longrightarrow> facts_ok st \<Longrightarrow>
   facts_ok st' \<and> run_extends st st' \<and> ds_revision st' = ds_revision st \<and>
   ds_idempotency st' = ds_idempotency st \<and> ds_run st' = ds_run st"
proof (induction ms arbitrary: st)
  case Nil
  then show ?case by (simp add: run_extends_refl)
next
  case (Cons m ms)
  then obtain st1 where st1: "apply_durable m st = (Ok (), st1)" "apply_durables ms st1 = (Ok (), st')"
    by (auto simp: act_bind_eq_Ok)
  from apply_durable_keeps [OF Cons.prems(2) st1(1)] Cons.IH [OF st1(2)] apply_durable_meta [OF st1(1)]
  show ?case by (auto intro: run_extends_trans)
qed

lemma apply_durables_no_panic: "fst (apply_durables ms st) \<noteq> Panic"
proof (induction ms arbitrary: st)
  case (Cons m ms)
  obtain r st1 where r: "apply_durable m st = (r, st1)" by fastforce
  with apply_durable_no_panic [of m st] Cons.IH [of st1] show ?case
    by (cases r) (auto simp: act_bind_def)
qed simp

text \<open>What a mutation asks for is on record.\<close>

fun on_record :: "durable_mutation \<Rightarrow> durable_run_state \<Rightarrow> bool" where
  "on_record (AdmitAttempt ad) st \<longleftrightarrow> fmlookup (ds_admissions st) (aa_attempt ad) = Some ad"
| "on_record (RecordIntent it) st \<longleftrightarrow> fmlookup (ds_intents st) (ei_operation it) = Some it"
| "on_record (RecordCancellation c) st \<longleftrightarrow> fmlookup (ds_cancellations st) (cn_task c) = Some c"
| "on_record (RecordDispatch d) st \<longleftrightarrow> fmlookup (ds_dispatches st) (dr_attempt d) = Some d"
| "on_record (RecordOutcome r) st \<longleftrightarrow>
     (\<exists>r'. fmlookup (ds_outcomes st) (oc_attempt r) = Some r' \<and> oc_outcome r' = oc_outcome r)"

lemma on_record_versioned [simp]:
  "on_record m (st\<lparr>ds_revision := v, ds_idempotency := k\<rparr>) = on_record m st"
  by (cases m) simp_all

lemma on_record_extends: "run_extends st st' \<Longrightarrow> on_record m st \<Longrightarrow> on_record m st'"
  by (cases m) (auto simp: run_extends_def keeps_map_def)

lemma apply_durable_on_record: "apply_durable m st = (Ok (), st') \<Longrightarrow> on_record m st'"
  by (cases m)
    (auto dest!: admit_attempt_Ok
      elim!: record_intent_Ok record_cancellation_Ok record_dispatch_Ok record_outcome_Ok)

lemma apply_durables_on_record:
  "apply_durables ms st = (Ok (), st') \<Longrightarrow> facts_ok st \<Longrightarrow> m \<in> set ms \<Longrightarrow> on_record m st'"
proof (induction ms arbitrary: st)
  case (Cons n ms)
  then obtain st1 where st1: "apply_durable n st = (Ok (), st1)" "apply_durables ms st1 = (Ok (), st')"
    by (auto simp: act_bind_eq_Ok)
  from apply_durable_keeps [OF Cons.prems(2) st1(1)] have ok: "facts_ok st1" by simp
  show ?case
    using Cons.IH [OF st1(2) ok] Cons.prems(3) apply_durables_keeps [OF st1(2) ok]
      apply_durable_on_record [OF st1(1)] on_record_extends by auto
qed simp

definition run_inv :: "durable_run_state \<Rightarrow> bool" where
  "run_inv st \<longleftrightarrow>
     facts_ok st \<and> store_ctr.val (ds_revision st) = fcard (fmdom (ds_idempotency st)) \<and>
     (\<forall>k ms v. fmlookup (ds_idempotency st) k = Some (ms, v) \<longrightarrow>
        ms \<noteq> [] \<and> store_ctr.val v \<le> store_ctr.val (ds_revision st) \<and> (\<forall>m \<in> set ms. on_record m st))"

lemma run_inv_new: "run_inv (run_state_new run)"
  by (simp add: run_inv_def facts_ok_defs run_state_new_def ledger_empty store_ctr.val_def
      store_revision_initial_def)

lemma run_state_new_run [simp]: "ds_run (run_state_new run) = run"
  by (simp add: run_state_new_def)

lemma commit_state_cases:
  obtains (replayed) v where "fmlookup (ds_idempotency st) (cq_key q) = Some (cq_mutations q, v)"
      "commit_state q st = (Ok \<lparr>ct_revision = ds_revision st, ct_replayed = True\<rparr>, st)"
  | (committed) v st1 where "fmlookup (ds_idempotency st) (cq_key q) = None"
      "cq_expected q = ds_revision st" "store_revision_checked_next (ds_revision st) = Some v"
      "apply_durables (cq_mutations q) st = (Ok (), st1)"
      "commit_state q st = (Ok \<lparr>ct_revision = v, ct_replayed = False\<rparr>,
         st1\<lparr>ds_revision := v, ds_idempotency := fmupd (cq_key q) (cq_mutations q, v) (ds_idempotency st1)\<rparr>)"
  | (refused) e where "commit_state q st = (Err e, st)"
proof (cases "fmlookup (ds_idempotency st) (cq_key q)")
  case (Some mv)
  then show ?thesis
    using replayed refused by (cases mv; cases "fst mv = cq_mutations q") (auto simp: commit_state_def)
next
  case None
  show ?thesis
  proof (cases "cq_expected q = ds_revision st \<and> store_revision_checked_next (ds_revision st) \<noteq> None")
    case True
    then obtain v where v: "cq_expected q = ds_revision st"
      "store_revision_checked_next (ds_revision st) = Some v" by auto
    obtain r st1 where r: "apply_durables (cq_mutations q) st = (r, st1)" by fastforce
    with None v apply_durables_no_panic [of "cq_mutations q" st] show ?thesis
      using committed [of v st1] refused by (cases r) (auto simp: commit_state_def)
  next
    case False
    with None show ?thesis
      using refused by (cases "cq_expected q = ds_revision st") (auto simp: commit_state_def)
  qed
qed

lemma commit_state_keeps:
  assumes inv: "run_inv st" and ne: "cq_mutations q \<noteq> []" and ok: "commit_state q st = (Ok r, st')"
  shows "run_inv st' \<and> run_extends st st' \<and> keeps_map (ds_idempotency st) (ds_idempotency st') \<and>
    (\<exists>v. fmlookup (ds_idempotency st') (cq_key q) = Some (cq_mutations q, v))"
proof (cases rule: commit_state_cases [of st q])
  case (replayed v)
  with ok inv show ?thesis by (simp add: run_extends_refl)
next
  case (committed v st1)
  from inv have facts: "facts_ok st" by (simp add: run_inv_def)
  note k = apply_durables_keeps [OF committed(4) facts]
  from committed ok have st': "st' = st1\<lparr>ds_revision := v,
      ds_idempotency := fmupd (cq_key q) (cq_mutations q, v) (ds_idempotency st)\<rparr>" using k by simp
  have v: "store_ctr.val v = Suc (store_ctr.val (ds_revision st))"
    using committed(3) by (simp add: store_ctr.next_Some)
  have "cq_key q |\<notin>| fmdom (ds_idempotency st)" using committed(1) by (simp add: in_fmdom_iff)
  then have "fcard (fmdom (ds_idempotency st')) = Suc (fcard (fmdom (ds_idempotency st)))"
    by (simp add: st' fcard_finsert_disjoint)
  moreover have "ms \<noteq> [] \<and> store_ctr.val u \<le> store_ctr.val (ds_revision st') \<and> (\<forall>m \<in> set ms. on_record m st')"
    if "fmlookup (ds_idempotency st') key = Some (ms, u)" for key ms u
  proof (cases "key = cq_key q")
    case True
    with that ne apply_durables_on_record [OF committed(4) facts] show ?thesis by (auto simp: st')
  next
    case False
    with that have old: "fmlookup (ds_idempotency st) key = Some (ms, u)" by (simp add: st')
    with inv have "ms \<noteq> [] \<and> store_ctr.val u \<le> store_ctr.val (ds_revision st) \<and> (\<forall>m \<in> set ms. on_record m st)"
      unfolding run_inv_def by blast
    with k v on_record_extends [of st st1] show ?thesis by (auto simp: st')
  qed
  ultimately show ?thesis
    using inv k v committed(1) by (simp add: run_inv_def st' keeps_map_fmupd)
next
  case (refused e)
  with ok show ?thesis by simp
qed

definition store_inv :: "in_memory_store \<Rightarrow> bool" where
  "store_inv s \<longleftrightarrow> (\<forall>run st. fmlookup (ms_runs s) run = Some st \<longrightarrow> ds_run st = run \<and> run_inv st)"

lemma load_run_Ok [simp]: "load_run s run = Ok st \<longleftrightarrow> fmlookup (ms_runs s) run = Some st"
  by (simp add: load_run_def)

lemma create_run_Ok:
  "create_run run s = (Ok v, s') \<longleftrightarrow>
     fmlookup (ms_runs s) run = None \<and> v = store_revision_initial \<and>
     s' = s\<lparr>ms_runs := fmupd run (run_state_new run) (ms_runs s)\<rparr>"
  by (auto simp: create_run_def)

lemma commit_Ok:
  assumes "commit q s = (Ok r, s')"
  obtains st st' where "cq_mutations q \<noteq> []" "fmlookup (ms_runs s) (cq_run q) = Some st"
    "commit_state q st = (Ok r, st')" "s' = s\<lparr>ms_runs := fmupd (cq_run q) st' (ms_runs s)\<rparr>"
  using assms by (auto simp: commit_def split: if_splits option.splits prod.splits)

lemma commit_Err:
  assumes "commit q s = (Err e, s')"
  shows "s' = s"
proof (cases "cq_mutations q = []")
  case False
  show ?thesis
  proof (cases "fmlookup (ms_runs s) (cq_run q)")
    case (Some st)
    with assms False show ?thesis
      by (cases rule: commit_state_cases [of st q]) (auto simp: commit_def fmupd_same)
  qed (use assms False in \<open>simp add: commit_def\<close>)
qed (use assms in \<open>simp add: commit_def\<close>)

text \<open>Why a commit is refused: the key is looked up before the revision is compared.\<close>

lemma commit_refused:
  assumes "commit q s = (Err e, s')"
  shows "s' = s \<and>
    (if cq_mutations q = [] then e = SE_EmptyCommit
     else case load_run s (cq_run q) of
        Ok st \<Rightarrow>
          (case fmlookup (ds_idempotency st) (cq_key q) of
             Some (ms, v) \<Rightarrow> ms \<noteq> cq_mutations q \<and> e = SE_IdempotencyConflict (cq_key q)
           | None \<Rightarrow>
               if cq_expected q \<noteq> ds_revision st then e = SE_RevisionConflict (cq_expected q) (ds_revision st)
               else if store_revision_checked_next (ds_revision st) = None
               then e = SE_RevisionExhausted (ds_revision st)
               else \<exists>st1. apply_durables (cq_mutations q) st = (Err e, st1))
      | x \<Rightarrow> x = Err e)"
  using assms commit_Err [OF assms]
  by (auto simp: load_run_def commit_def commit_state_def split: if_splits option.splits prod.splits res.splits)

lemma replay_revision:
  assumes "commit q s = (Ok \<lparr>ct_revision = v, ct_replayed = True\<rparr>, s')"
  shows "\<exists>st. load_run s (cq_run q) = Ok st \<and> v = ds_revision st"
proof -
  obtain st st' where st: "fmlookup (ms_runs s) (cq_run q) = Some st"
    "commit_state q st = (Ok \<lparr>ct_revision = v, ct_replayed = True\<rparr>, st')"
    by (rule commit_Ok [OF assms]) blast
  from st(2) have "v = ds_revision st" by (cases rule: commit_state_cases [of st q]) auto
  with st(1) show ?thesis by simp
qed

lemma commit_no_panic: "fst (commit q s) \<noteq> Panic"
proof (cases "fmlookup (ms_runs s) (cq_run q)")
  case (Some st)
  then show ?thesis by (cases rule: commit_state_cases [of st q]) (auto simp: commit_def)
qed (simp add: commit_def)

lemma commit_other:
  "commit q s = (r, s') \<Longrightarrow> run \<noteq> cq_run q \<Longrightarrow> fmlookup (ms_runs s') run = fmlookup (ms_runs s) run"
  by (auto simp: commit_def split: if_splits option.splits prod.splits)

subsection \<open>The contract of the persistence port\<close>

datatype store_op = OpCreate run_id | OpCommit commit_request

text \<open>Any sequence of calls, by any number of clients, whatever each returns.\<close>

fun port_run ::
  "(run_id \<Rightarrow> 's \<Rightarrow> (store_revision, store_error) res \<times> 's) \<Rightarrow>
   (commit_request \<Rightarrow> 's \<Rightarrow> (commit_result, store_error) res \<times> 's) \<Rightarrow> store_op list \<Rightarrow> 's \<Rightarrow> 's"
where
  "port_run create put [] s = s"
| "port_run create put (OpCreate run # ops) s = port_run create put ops (snd (create run s))"
| "port_run create put (OpCommit q # ops) s = port_run create put ops (snd (put q s))"

locale durable_port =
  fixes create :: "run_id \<Rightarrow> 's \<Rightarrow> (store_revision, store_error) res \<times> 's"
    and load :: "'s \<Rightarrow> run_id \<Rightarrow> (durable_run_state, store_error) res"
    and put :: "commit_request \<Rightarrow> 's \<Rightarrow> (commit_result, store_error) res \<times> 's"
    and valid :: "'s \<Rightarrow> bool"
  assumes loaded_valid: "valid s \<Longrightarrow> load s run = Ok st \<Longrightarrow> run_inv st"
    and create_ok: "create run s = (Ok v, s') \<Longrightarrow>
      \<not> is_ok (load s run) \<and> load s' run = Ok (run_state_new run) \<and> (valid s \<longrightarrow> valid s') \<and>
      (\<forall>run'. run' \<noteq> run \<longrightarrow> load s' run' = load s run')"
    and create_fails: "create run s = (y, s') \<Longrightarrow> \<not> is_ok y \<Longrightarrow> s' = s"
    and put_ok: "put q s = (Ok r, s') \<Longrightarrow> valid s \<Longrightarrow> valid s' \<and>
      (\<exists>st st'. load s (cq_run q) = Ok st \<and> load s' (cq_run q) = Ok st' \<and> cq_mutations q \<noteq> [] \<and>
         ds_revision st' = ct_revision r \<and> run_extends st st' \<and>
         keeps_map (ds_idempotency st) (ds_idempotency st') \<and>
         (\<exists>v. fmlookup (ds_idempotency st') (cq_key q) = Some (cq_mutations q, v)) \<and>
         (if ct_replayed r then s' = s
          else cq_expected q = ds_revision st \<and>
               store_revision_checked_next (ds_revision st) = Some (ds_revision st')))"
    and put_fails: "put q s = (x, s') \<Longrightarrow> \<not> is_ok x \<Longrightarrow> s' = s"
    and put_elsewhere: "put q s = (x, s') \<Longrightarrow> run \<noteq> cq_run q \<Longrightarrow> load s' run = load s run"
    and put_again: "load s (cq_run q) = Ok st \<Longrightarrow> cq_mutations q \<noteq> [] \<Longrightarrow>
      fmlookup (ds_idempotency st) (cq_key q) = Some (cq_mutations q, v) \<Longrightarrow>
      put q s = (Ok \<lparr>ct_revision = ds_revision st, ct_replayed = True\<rparr>, s)"
begin

abbreviation later :: "durable_run_state \<Rightarrow> durable_run_state \<Rightarrow> bool" where
  "later st st' \<equiv> run_extends st st' \<and> keeps_map (ds_idempotency st) (ds_idempotency st') \<and>
     store_ctr.val (ds_revision st) \<le> store_ctr.val (ds_revision st')"

lemma create_keeps:
  assumes "valid s" and "load s run = Ok st"
  shows "valid (snd (create run' s)) \<and> load (snd (create run' s)) run = Ok st"
proof -
  obtain x s' where x: "create run' s = (x, s')" by fastforce
  with create_ok [of run' s _ s'] create_fails [OF x] assms show ?thesis
    by (cases x) (auto simp: is_ok_iff)
qed

lemma create_valid: "valid s \<Longrightarrow> valid (snd (create run s))"
  using create_ok create_fails by (metis eq_snd_iff is_ok_iff)

lemma put_keeps:
  assumes "valid s" and "load s run = Ok st"
  shows "valid (snd (put q s)) \<and> (\<exists>st'. load (snd (put q s)) run = Ok st' \<and> later st st')"
proof -
  obtain x s' where x: "put q s = (x, s')" by fastforce
  show ?thesis
  proof (cases x)
    case (Ok r)
    with x have r: "put q s = (Ok r, s')" by simp
    from put_ok [OF r assms(1)] obtain st0 st' where s': "valid s'" "load s (cq_run q) = Ok st0"
      "load s' (cq_run q) = Ok st'" "run_extends st0 st'"
      "keeps_map (ds_idempotency st0) (ds_idempotency st')"
      "if ct_replayed r then s' = s
       else store_revision_checked_next (ds_revision st0) = Some (ds_revision st')" by (auto split: if_splits)
    show ?thesis
    proof (cases "run = cq_run q")
      case True
      with s' x assms(2) show ?thesis by (auto simp: store_ctr.next_Some split: if_splits)
    next
      case False
      with put_elsewhere [OF x False] s'(1) x assms(2) show ?thesis by (simp add: run_extends_refl)
    qed
  next
    case (Err e)
    with put_fails [OF x] x assms show ?thesis by (simp add: run_extends_refl)
  next
    case Panic
    with put_fails [OF x] x assms show ?thesis by (simp add: run_extends_refl)
  qed
qed

text \<open>Nothing a run has recorded is lost, whatever calls follow.\<close>

lemma run_keeps:
  assumes "valid s" and "load s run = Ok st"
  shows "valid (port_run create put ops s) \<and>
    (\<exists>st'. load (port_run create put ops s) run = Ok st' \<and> later st st')"
  using assms
proof (induction ops arbitrary: s st)
  case Nil
  then show ?case by (simp add: run_extends_refl)
next
  case (Cons op ops)
  show ?case
  proof (cases op)
    case (OpCreate run')
    with Cons.IH create_keeps [OF Cons.prems, of run'] show ?thesis by simp
  next
    case (OpCommit q)
    from put_keeps [OF Cons.prems, of q] obtain st1 where st1: "valid (snd (put q s))"
      "load (snd (put q s)) run = Ok st1" "later st st1" by blast
    from Cons.IH [OF st1(1,2)] obtain st' where "valid (port_run create put ops (snd (put q s)))"
      "load (port_run create put ops (snd (put q s))) run = Ok st'" "later st1 st'" by blast
    moreover have "facts_ok st1" using loaded_valid [OF st1(1,2)] by (simp add: run_inv_def)
    ultimately show ?thesis
      using st1(3) OpCommit by (auto intro: run_extends_trans keeps_map_trans)
  qed
qed

text \<open>A commit that succeeded can be repeated later, whatever happened in between: it is recognised
  by its key and changes nothing.\<close>

lemma retry_is_replay:
  assumes "valid s" and "put q s = (Ok r, s')" and "s'' = port_run create put ops s'"
    and "cq_run q' = cq_run q" "cq_key q' = cq_key q" "cq_mutations q' = cq_mutations q"
  shows "\<exists>v. put q' s'' = (Ok \<lparr>ct_revision = v, ct_replayed = True\<rparr>, s'')"
proof -
  from put_ok [OF assms(2,1)] obtain st' v where st': "valid s'" "load s' (cq_run q) = Ok st'"
    "cq_mutations q \<noteq> []" "fmlookup (ds_idempotency st') (cq_key q) = Some (cq_mutations q, v)" by blast
  from run_keeps [OF st'(1,2), of ops] obtain st'' where "load s'' (cq_run q) = Ok st''"
    "keeps_map (ds_idempotency st') (ds_idempotency st'')" unfolding assms(3) by blast
  with st' assms put_again [of s'' q' st'' v] show ?thesis by (auto simp: keeps_map_def)
qed

lemma put_fresh:
  assumes "put q s = (Ok r, s')" and "valid s" and "\<not> ct_replayed r"
  shows "valid s' \<and> (\<exists>st st'. load s (cq_run q) = Ok st \<and> load s' (cq_run q) = Ok st' \<and>
    cq_expected q = ds_revision st \<and> store_revision_checked_next (ds_revision st) = Some (ds_revision st'))"
  using put_ok [OF assms(1,2)] assms(3) by auto

text \<open>Of two commits prepared on the same revision, at most one takes effect.\<close>

lemma compare_and_swap:
  assumes "valid s" and "put q s = (Ok r, s')" "\<not> ct_replayed r" and "s'' = port_run create put ops s'"
    and "cq_run q' = cq_run q" "cq_expected q' = cq_expected q" and "put q' s'' = (Ok r', s3)"
  shows "ct_replayed r'"
proof (rule ccontr)
  assume no: "\<not> ct_replayed r'"
  from put_fresh [OF assms(2,1,3)] obtain st st' where "load s (cq_run q) = Ok st"
    and st': "valid s'" "load s' (cq_run q) = Ok st'" "cq_expected q = ds_revision st" "store_revision_checked_next (ds_revision st) = Some (ds_revision st')"
    by blast
  from run_keeps [OF st'(1,2), of ops] obtain st'' where st'': "valid s''" "load s'' (cq_run q) = Ok st''"
    "store_ctr.val (ds_revision st') \<le> store_ctr.val (ds_revision st'')" unfolding assms(4) by blast
  from put_fresh [OF assms(7) st''(1) no] have "cq_expected q' = ds_revision st''"
    using st''(2) assms(5) by auto
  with st'(3,4) st''(3) assms(6) show False by (simp add: store_ctr.next_Some)
qed

end

interpretation mem: durable_port create_run load_run commit store_inv
proof
  fix s s' :: in_memory_store and run v st and q :: commit_request and x :: "(commit_result, store_error) res"
    and y :: "(store_revision, store_error) res"
  show "store_inv s \<Longrightarrow> load_run s run = Ok st \<Longrightarrow> run_inv st"
    by (auto simp: store_inv_def)
  show "create_run run s = (Ok v, s') \<Longrightarrow>
      \<not> is_ok (load_run s run) \<and> load_run s' run = Ok (run_state_new run) \<and> (store_inv s \<longrightarrow> store_inv s') \<and>
      (\<forall>run'. run' \<noteq> run \<longrightarrow> load_run s' run' = load_run s run')"
    by (auto simp: create_run_Ok store_inv_def run_inv_new load_run_def)
  show "create_run run s = (y, s') \<Longrightarrow> \<not> is_ok y \<Longrightarrow> s' = s"
    by (auto simp: create_run_def split: if_splits)
  show "commit q s = (x, s') \<Longrightarrow> \<not> is_ok x \<Longrightarrow> s' = s"
    using commit_Err [of q s _ s'] commit_no_panic [of q s] by (cases x) auto
  show "commit q s = (x, s') \<Longrightarrow> run \<noteq> cq_run q \<Longrightarrow> load_run s' run = load_run s run"
    by (simp add: load_run_def commit_other)
next
  fix s s' :: in_memory_store and q :: commit_request and r
  assume ok: "commit q s = (Ok r, s')" and inv: "store_inv s"
  from ok obtain st st' where st: "cq_mutations q \<noteq> []" "fmlookup (ms_runs s) (cq_run q) = Some st"
    "commit_state q st = (Ok r, st')" "s' = s\<lparr>ms_runs := fmupd (cq_run q) st' (ms_runs s)\<rparr>"
    by (rule commit_Ok)
  from inv st(2) have run: "ds_run st = cq_run q" "run_inv st" by (auto simp: store_inv_def)
  note k = commit_state_keeps [OF run(2) st(1,3)]
  then have "ds_run st' = cq_run q" using run(1) by (simp add: run_extends_def)
  with inv k st(4) have "store_inv s'" by (auto simp: store_inv_def)
  moreover have "ds_revision st' = ct_revision r \<and> (if ct_replayed r then s' = s
      else cq_expected q = ds_revision st \<and> store_revision_checked_next (ds_revision st) = Some (ds_revision st'))"
    using st by (cases rule: commit_state_cases [of st q]) (auto simp: fmupd_same)
  ultimately show "store_inv s' \<and>
      (\<exists>st st'. load_run s (cq_run q) = Ok st \<and> load_run s' (cq_run q) = Ok st' \<and> cq_mutations q \<noteq> [] \<and>
         ds_revision st' = ct_revision r \<and> run_extends st st' \<and>
         keeps_map (ds_idempotency st) (ds_idempotency st') \<and>
         (\<exists>v. fmlookup (ds_idempotency st') (cq_key q) = Some (cq_mutations q, v)) \<and>
         (if ct_replayed r then s' = s
          else cq_expected q = ds_revision st \<and>
               store_revision_checked_next (ds_revision st) = Some (ds_revision st')))"
    using st k by auto
next
  fix s :: in_memory_store and q :: commit_request and st v
  assume "load_run s (cq_run q) = Ok st" "cq_mutations q \<noteq> []"
    "fmlookup (ds_idempotency st) (cq_key q) = Some (cq_mutations q, v)"
  then show "commit q s = (Ok \<lparr>ct_revision = ds_revision st, ct_replayed = True\<rparr>, s)"
    by (simp add: commit_def commit_state_def fmupd_same)
qed

end
