(* ===== verification/Recovery_Classify.thy ===== *)
theory Recovery_Classify
  imports Durable_Journal Durable_Laws Workflow_Laws
begin

text \<open>
  Restart: the journal rebuilt from the durable facts of a run (\<open>DurableJournal::from_durable_state\<close>)
  and the recovery decision of \<open>crates/workflow-recovery/src/recovery.rs\<close>.  The rebuilt journal is
  shown to hold exactly the facts of the run, and the decision to be a total function of them.
\<close>

subsection \<open>Rebuilding the journal\<close>

fun persist_all :: "journal_fact list \<Rightarrow> (durable_journal, unit, journal_error) act" where
  "persist_all [] j = (Ok (), j)"
| "persist_all (f # fs) j = act_bind (persist f) (\<lambda>_. persist_all fs) j"

definition from_durable_state :: "durable_run_state \<Rightarrow> (durable_journal, journal_error) res" where
  "from_durable_state st =
     (case act_bind (persist_all (map FactIntent (run_intents st)))
             (\<lambda>_. act_bind (persist_all (map FactDispatch (ds_dispatch_history st)))
                (\<lambda>_. persist_all (map FactOutcome (ds_outcome_history st)))) journal_new of
        (Ok _, j) \<Rightarrow> Ok j
      | (Err e, _) \<Rightarrow> Err e
      | (Panic, _) \<Rightarrow> Panic)"

text \<open>The journal holds exactly the intents \<open>its\<close>, the dispatches \<open>ds\<close> and the outcomes \<open>rs\<close>.\<close>

definition holds_facts ::
  "effect_intent list \<Rightarrow> dispatch_record list \<Rightarrow> outcome_record list \<Rightarrow> durable_journal \<Rightarrow> bool" where
  "holds_facts its ds rs j \<longleftrightarrow>
     ledger ei_operation (dj_intents j) its \<and>
     (\<forall>t i. fmlookup (dj_task_operations j) t = Some i \<longleftrightarrow>
        (\<exists>it \<in> set its. ei_task it = t \<and> ei_operation it = i)) \<and>
     ledger dr_attempt (dj_dispatches j) ds \<and>
     (\<forall>i. attempts_of j i = map dr_attempt (filter (\<lambda>d. dr_operation d = i) ds)) \<and>
     ledger oc_attempt (dj_outcomes j) rs"

lemma holds_factsD:
  assumes "holds_facts its ds rs j"
  shows "ledger ei_operation (dj_intents j) its"
    "fmlookup (dj_task_operations j) t = Some i \<longleftrightarrow> (\<exists>it \<in> set its. ei_task it = t \<and> ei_operation it = i)"
    "ledger dr_attempt (dj_dispatches j) ds"
    "attempts_of j i = map dr_attempt (filter (\<lambda>d. dr_operation d = i) ds)"
    "ledger oc_attempt (dj_outcomes j) rs"
  using assms by (simp_all add: holds_facts_def)

lemma holds_factsI:
  assumes "ledger ei_operation (dj_intents j) its"
    and "\<And>t i. fmlookup (dj_task_operations j) t = Some i \<longleftrightarrow>
      (\<exists>it \<in> set its. ei_task it = t \<and> ei_operation it = i)"
    and "ledger dr_attempt (dj_dispatches j) ds"
    and "\<And>i. attempts_of j i = map dr_attempt (filter (\<lambda>d. dr_operation d = i) ds)"
    and "ledger oc_attempt (dj_outcomes j) rs"
  shows "holds_facts its ds rs j"
  using assms by (simp add: holds_facts_def)

lemma holds_facts_new: "holds_facts [] [] [] journal_new"
  by (simp add: holds_facts_def journal_new_def ledger_empty attempts_of_def)

lemma ledger_fresh: "ledger key m h \<Longrightarrow> k \<notin> key ` set h \<Longrightarrow> fmlookup m k = None"
  unfolding ledger_def by (metis image_eqI not_None_eq)

lemma ledger_known: "ledger key m h \<Longrightarrow> x \<in> set h \<Longrightarrow> fmlookup m (key x) = Some x"
  unfolding ledger_def by blast

lemma ledger_unique:
  assumes "ledger key m h" and "ledger key m' h'" and "set h = set h'"
  shows "m = m'"
proof (rule fmap_ext)
  fix k
  have "fmlookup m k = Some x \<longleftrightarrow> fmlookup m' k = Some x" for x
    using assms by (simp add: ledger_def)
  then show "fmlookup m k = fmlookup m' k" by (metis option.exhaust)
qed

lemma holds_intent:
  assumes j: "holds_facts its ds rs j"
    and new: "ei_operation it \<notin> ei_operation ` set its" "ei_task it \<notin> ei_task ` set its"
  shows "\<exists>j'. persist_intent it j = (Ok (), j') \<and> holds_facts (its @ [it]) ds rs j'"
proof -
  note h = holds_factsD [OF j]
  have fresh: "fmlookup (dj_intents j) (ei_operation it) = None" by (rule ledger_fresh [OF h(1) new(1)])
  have free: "fmlookup (dj_task_operations j) (ei_task it) = None"
    using h(2) [of "ei_task it"] new(2) by (metis image_eqI not_None_eq)
  let ?j = "j\<lparr>dj_task_operations := fmupd (ei_task it) (ei_operation it) (dj_task_operations j),
    dj_intents := fmupd (ei_operation it) it (dj_intents j)\<rparr>"
  have "holds_facts (its @ [it]) ds rs ?j"
  proof (rule holds_factsI)
    show "fmlookup (dj_task_operations ?j) t = Some i \<longleftrightarrow>
      (\<exists>it' \<in> set (its @ [it]). ei_task it' = t \<and> ei_operation it' = i)" for t i
    proof (cases "t = ei_task it")
      case True
      with new(2) have "\<not> (\<exists>it' \<in> set its. ei_task it' = t)" by (metis image_eqI)
      with True show ?thesis by auto
    next
      case False
      with h(2) [of t i] show ?thesis by auto
    qed
    show "attempts_of ?j i = map dr_attempt (filter (\<lambda>d. dr_operation d = i) ds)" for i
      unfolding h(4) [symmetric] by (simp add: attempts_of_def)
  qed (use h fresh in \<open>simp_all add: ledger_snoc\<close>)
  with fresh free show ?thesis by (simp add: persist_intent_def)
qed

lemma holds_dispatch:
  assumes j: "holds_facts its ds rs j"
    and known: "dr_operation d \<in> ei_operation ` set its" and new: "dr_attempt d \<notin> dr_attempt ` set ds"
  shows "\<exists>j'. persist_dispatch d j = (Ok (), j') \<and> holds_facts its (ds @ [d]) rs j'"
proof -
  note h = holds_factsD [OF j]
  from known obtain it where it: "it \<in> set its" "ei_operation it = dr_operation d" by auto
  from ledger_known [OF h(1) it(1)] it(2)
  have op: "fmlookup (dj_intents j) (dr_operation d) = Some it" by simp
  have fresh: "fmlookup (dj_dispatches j) (dr_attempt d) = None" by (rule ledger_fresh [OF h(3) new])
  let ?j = "j\<lparr>dj_operation_attempts :=
      fmupd (dr_operation d) (attempts_of j (dr_operation d) @ [dr_attempt d]) (dj_operation_attempts j),
    dj_dispatches := fmupd (dr_attempt d) d (dj_dispatches j)\<rparr>"
  have "attempts_of ?j i = attempts_of j i @ (if i = dr_operation d then [dr_attempt d] else [])" for i
    by (simp add: attempts_of_def)
  then have "holds_facts its (ds @ [d]) rs ?j"
    by (intro holds_factsI) (use h fresh in \<open>simp_all add: ledger_snoc\<close>)
  with op fresh show ?thesis by (simp add: persist_dispatch_def)
qed

lemma holds_outcome:
  assumes j: "holds_facts its ds rs j"
    and known: "d \<in> set ds" "dr_attempt d = oc_attempt r" "dr_operation d = oc_operation r"
      "oc_operation r \<in> ei_operation ` set its"
    and new: "oc_attempt r \<notin> oc_attempt ` set rs"
  shows "\<exists>j'. persist_outcome r j = (Ok (), j') \<and> holds_facts its ds (rs @ [r]) j'"
proof -
  note h = holds_factsD [OF j]
  from known(4) obtain it where it: "it \<in> set its" "ei_operation it = oc_operation r" by auto
  from ledger_known [OF h(1) it(1)] it(2)
  have op: "fmlookup (dj_intents j) (oc_operation r) = Some it" by simp
  from ledger_known [OF h(3) known(1)] known(2)
  have dis: "fmlookup (dj_dispatches j) (oc_attempt r) = Some d" by simp
  have fresh: "fmlookup (dj_outcomes j) (oc_attempt r) = None" by (rule ledger_fresh [OF h(5) new])
  have "attempts_of (j\<lparr>dj_outcomes := fmupd (oc_attempt r) r (dj_outcomes j)\<rparr>) i = attempts_of j i" for i
    by (simp add: attempts_of_def)
  then have "holds_facts its ds (rs @ [r]) (j\<lparr>dj_outcomes := fmupd (oc_attempt r) r (dj_outcomes j)\<rparr>)"
    by (intro holds_factsI) (use h fresh in \<open>simp_all add: ledger_snoc\<close>)
  with op dis fresh known(3) show ?thesis by (simp add: persist_outcome_def)
qed

lemma load_intents:
  assumes "holds_facts its ds rs j" and "distinct (map ei_operation (its @ xs))"
    and "distinct (map ei_task (its @ xs))"
  shows "\<exists>j'. persist_all (map FactIntent xs) j = (Ok (), j') \<and> holds_facts (its @ xs) ds rs j'"
  using assms
proof (induction xs arbitrary: its j)
  case (Cons x xs)
  then have "ei_operation x \<notin> ei_operation ` set its" "ei_task x \<notin> ei_task ` set its" by auto
  from holds_intent [OF Cons.prems(1) this] Cons.IH [of "its @ [x]"] Cons.prems(2,3) show ?case
    by (auto simp: act_bind_def)
qed simp

lemma load_dispatches:
  assumes "holds_facts its ds rs j" and "distinct (map dr_attempt (ds @ xs))"
    and "dr_operation ` set xs \<subseteq> ei_operation ` set its"
  shows "\<exists>j'. persist_all (map FactDispatch xs) j = (Ok (), j') \<and> holds_facts its (ds @ xs) rs j'"
  using assms
proof (induction xs arbitrary: ds j)
  case (Cons x xs)
  then have "dr_operation x \<in> ei_operation ` set its" "dr_attempt x \<notin> dr_attempt ` set ds" by auto
  from holds_dispatch [OF Cons.prems(1) this] Cons.IH [of "ds @ [x]"] Cons.prems(2,3) show ?case
    by (auto simp: act_bind_def)
qed simp

lemma load_outcomes:
  assumes "holds_facts its ds rs j" and "distinct (map oc_attempt (rs @ xs))"
    and "\<forall>r \<in> set xs. (\<exists>d \<in> set ds. dr_attempt d = oc_attempt r \<and> dr_operation d = oc_operation r) \<and>
      oc_operation r \<in> ei_operation ` set its"
  shows "\<exists>j'. persist_all (map FactOutcome xs) j = (Ok (), j') \<and> holds_facts its ds (rs @ xs) j'"
  using assms
proof (induction xs arbitrary: rs j)
  case (Cons x xs)
  then obtain d where "d \<in> set ds" "dr_attempt d = oc_attempt x" "dr_operation d = oc_operation x"
    "oc_operation x \<in> ei_operation ` set its" "oc_attempt x \<notin> oc_attempt ` set rs" by auto
  from holds_outcome [OF Cons.prems(1) this] Cons.IH [of "rs @ [x]"] Cons.prems(2,3) show ?case
    by (auto simp: act_bind_def)
qed simp

lemma run_intents_ledger:
  assumes "facts_ok st"
  shows "ledger ei_operation (ds_intents st) (run_intents st)" "distinct (map ei_task (run_intents st))"
    "\<And>t i. fmlookup (ds_task_operations st) t = Some i \<longleftrightarrow>
       (\<exists>it \<in> set (run_intents st). ei_task it = t \<and> ei_operation it = i)"
proof -
  have ok: "ei_operation it = i" "fmlookup (ds_task_operations st) (ei_task it) = Some i"
    if "fmlookup (ds_intents st) i = Some it" for i it
    using that assms unfolding facts_ok_def run_intents_ok_def by blast+
  have mem: "it \<in> set (run_intents st) \<longleftrightarrow> (\<exists>i. fmlookup (ds_intents st) i = Some it)" for it
    by (simp add: run_intents_def in_bt_values)
  have "ei_operation (the (fmlookup (ds_intents st) i)) = i" if "i \<in> set (bt_keys (ds_intents st))" for i
    using that ok(1) by (auto simp: in_fmdom_iff)
  then have ops: "map ei_operation (run_intents st) = bt_keys (ds_intents st)"
    unfolding run_intents_def bt_values_def map_map by (intro map_idI) simp
  have "fmlookup (ds_intents st) k = Some x \<longleftrightarrow> x \<in> set (run_intents st) \<and> ei_operation x = k" for k x
    using mem ok(1) by blast
  then show ledger: "ledger ei_operation (ds_intents st) (run_intents st)"
    by (simp add: ledger_def ops)
  have "\<exists>it. fmlookup (ds_intents st) i = Some it \<and> ei_task it = t"
    if "fmlookup (ds_task_operations st) t = Some i" for t i
    using that assms unfolding facts_ok_def run_intents_ok_def by blast
  then show "fmlookup (ds_task_operations st) t = Some i \<longleftrightarrow>
       (\<exists>it \<in> set (run_intents st). ei_task it = t \<and> ei_operation it = i)" for t i
    using mem ok by metis
  have "inj_on ei_task (set (run_intents st))"
  proof (rule inj_onI)
    fix x y
    assume xy: "x \<in> set (run_intents st)" "y \<in> set (run_intents st)" "ei_task x = ei_task y"
    then obtain i k where ik: "fmlookup (ds_intents st) i = Some x" "fmlookup (ds_intents st) k = Some y"
      using mem by blast
    from ok(2) [OF ik(1)] ok(2) [OF ik(2)] xy(3) have "i = k" by simp
    with ik show "x = y" by simp
  qed
  moreover have "distinct (run_intents st)"
    using ledger unfolding ledger_def by (simp add: distinct_map)
  ultimately show "distinct (map ei_task (run_intents st))" by (simp add: distinct_map)
qed

lemma from_durable_state_holds:
  assumes ok: "facts_ok st"
  shows "\<exists>j. from_durable_state st = Ok j \<and>
    holds_facts (run_intents st) (ds_dispatch_history st) (ds_outcome_history st) j"
proof -
  note its = run_intents_ledger [OF ok]
  have known: "i \<in> ei_operation ` set (run_intents st)" if "has_key (ds_intents st) i" for i
    using that its(1) unfolding ledger_def by fastforce
  from load_intents [OF holds_facts_new, of "run_intents st"] its obtain j1 where
    j1: "persist_all (map FactIntent (run_intents st)) journal_new = (Ok (), j1)"
      "holds_facts (run_intents st) [] [] j1" by (auto simp: ledger_def)
  have "distinct (map dr_attempt (ds_dispatch_history st))"
    using ok by (simp add: facts_ok_defs ledger_def)
  moreover have "dr_operation ` set (ds_dispatch_history st) \<subseteq> ei_operation ` set (run_intents st)"
    using ok known unfolding facts_ok_defs by fastforce
  ultimately obtain j2 where
    j2: "persist_all (map FactDispatch (ds_dispatch_history st)) j1 = (Ok (), j2)"
      "holds_facts (run_intents st) (ds_dispatch_history st) [] j2"
    using load_dispatches [OF j1(2), of "ds_dispatch_history st"] by auto
  have "distinct (map oc_attempt (ds_outcome_history st))"
    using ok by (simp add: facts_ok_defs ledger_def)
  moreover have "\<forall>r \<in> set (ds_outcome_history st).
      (\<exists>d \<in> set (ds_dispatch_history st). dr_attempt d = oc_attempt r \<and> dr_operation d = oc_operation r) \<and>
      oc_operation r \<in> ei_operation ` set (run_intents st)"
  proof
    fix r
    assume "r \<in> set (ds_outcome_history st)"
    then obtain d where d: "fmlookup (ds_dispatches st) (oc_attempt r) = Some d" "dr_operation d = oc_operation r"
      using ok unfolding facts_ok_defs by blast
    then have "d \<in> set (ds_dispatch_history st)" "dr_attempt d = oc_attempt r"
      using ok by (auto simp: facts_ok_defs ledger_def)
    with d \<open>dr_operation ` set (ds_dispatch_history st) \<subseteq> _\<close>
    show "(\<exists>d \<in> set (ds_dispatch_history st). dr_attempt d = oc_attempt r \<and> dr_operation d = oc_operation r) \<and>
      oc_operation r \<in> ei_operation ` set (run_intents st)" by (metis image_eqI subsetD)
  qed
  ultimately obtain j3 where
    "persist_all (map FactOutcome (ds_outcome_history st)) j2 = (Ok (), j3)"
    "holds_facts (run_intents st) (ds_dispatch_history st) (ds_outcome_history st) j3"
    using load_outcomes [OF j2(2), of "ds_outcome_history st"] by auto
  with j1(1) j2(1) show ?thesis by (simp add: from_durable_state_def act_bind_def)
qed

lemma latest_via_attempts:
  "latest_dispatch j i = Option.bind (last_opt (attempts_of j i)) (fmlookup (dj_dispatches j))"
  "known_outcome j i = Option.bind (last_opt (attempts_of j i)) (fmlookup (dj_outcomes j))"
  by (simp_all add: latest_dispatch_def known_outcome_def attempts_of_def split: option.split)

lemma last_opt_map: "last_opt (map f xs) = map_option f (last_opt xs)"
  by (simp add: last_opt_def last_map)

text \<open>A journal whose tables are those of a run; its queries answer as those of the run.\<close>

definition mirrors :: "durable_journal \<Rightarrow> durable_run_state \<Rightarrow> bool" where
  "mirrors j st \<longleftrightarrow>
     dj_intents j = ds_intents st \<and> dj_task_operations j = ds_task_operations st \<and>
     dj_dispatches j = ds_dispatches st \<and> dj_outcomes j = ds_outcomes st \<and>
     (\<forall>i. attempts_of j i = map dr_attempt (run_dispatches st i))"

lemma mirrors_queries:
  assumes ok: "facts_ok st" and j: "mirrors j st"
  shows "latest_dispatch j i = run_latest_dispatch st i" "known_outcome j i = run_latest_outcome st i"
    "journal_state j i = run_effect_state st i"
proof -
  have att: "last_opt (attempts_of j i) = map_option dr_attempt (run_latest_dispatch st i)"
    using j by (simp add: mirrors_def run_latest_dispatch_def last_opt_map)
  have known: "fmlookup (ds_dispatches st) (dr_attempt d) = Some d" if "run_latest_dispatch st i = Some d" for d
  proof -
    from last_opt_Some [OF that [unfolded run_latest_dispatch_def]] have "d \<in> set (ds_dispatch_history st)"
      by (simp add: run_dispatches_def)
    with ok show ?thesis by (simp add: facts_ok_defs ledger_def)
  qed
  have eqs: "dj_intents j = ds_intents st" "dj_dispatches j = ds_dispatches st" "dj_outcomes j = ds_outcomes st"
    using j by (simp_all add: mirrors_def)
  show latest: "latest_dispatch j i = run_latest_dispatch st i"
    using known by (cases "run_latest_dispatch st i") (simp_all add: latest_via_attempts att eqs)
  show outcome: "known_outcome j i = run_latest_outcome st i"
    by (cases "run_latest_dispatch st i")
      (simp_all add: latest_via_attempts att eqs run_latest_outcome_def outcome_for_attempt_def)
  show "journal_state j i = run_effect_state st i"
    unfolding jv.state_law rv.state_law latest outcome eqs ..
qed

lemma from_durable_state_mirrors:
  assumes ok: "facts_ok st" and j: "from_durable_state st = Ok j"
  shows "mirrors j st"
proof -
  from from_durable_state_holds [OF ok] j
  have h: "holds_facts (run_intents st) (ds_dispatch_history st) (ds_outcome_history st) j" by simp
  note its = run_intents_ledger [OF ok]
  have "dj_intents j = ds_intents st"
    using h its(1) ledger_unique unfolding holds_facts_def by blast
  moreover have "dj_task_operations j = ds_task_operations st"
  proof (rule fmap_ext)
    fix t
    have "fmlookup (dj_task_operations j) t = Some i \<longleftrightarrow> fmlookup (ds_task_operations st) t = Some i" for i
      using h its(3) unfolding holds_facts_def by blast
    then show "fmlookup (dj_task_operations j) t = fmlookup (ds_task_operations st) t"
      by (metis option.exhaust)
  qed
  moreover have "dj_dispatches j = ds_dispatches st" "dj_outcomes j = ds_outcomes st"
    using h ok ledger_unique unfolding holds_facts_def facts_ok_defs by blast+
  ultimately show ?thesis
    using h unfolding mirrors_def holds_facts_def run_dispatches_def by blast
qed

lemma journal_agrees:
  assumes ok: "facts_ok st" and j: "from_durable_state st = Ok j"
  shows "dj_intents j = ds_intents st" "dj_task_operations j = ds_task_operations st"
    "latest_dispatch j i = run_latest_dispatch st i" "known_outcome j i = run_latest_outcome st i"
    "journal_state j i = run_effect_state st i"
  using from_durable_state_mirrors [OF ok j] mirrors_queries [OF ok] by (auto simp: mirrors_def)

text \<open>Admitting a fact to the journal and to the run keeps them equal.\<close>

primrec mutation_of :: "journal_fact \<Rightarrow> durable_mutation" where
  "mutation_of (FactIntent it) = RecordIntent it"
| "mutation_of (FactDispatch d) = RecordDispatch d"
| "mutation_of (FactOutcome r) = RecordOutcome r"

lemma mirrors_versioned [simp]:
  "mirrors j (st\<lparr>ds_revision := v, ds_idempotency := k\<rparr>) = mirrors j st"
  by (simp add: mirrors_def run_dispatches_def)

lemma mirrors_admit: "mirrors j st \<Longrightarrow> admit_attempt ad st = (Ok (), st') \<Longrightarrow> mirrors j st'"
  by (auto simp: mirrors_def run_dispatches_def dest!: admit_attempt_Ok)

lemma mirrors_cancellation:
  "mirrors j st \<Longrightarrow> record_cancellation c st = (Ok (), st') \<Longrightarrow> mirrors j st'"
  by (auto simp: mirrors_def run_dispatches_def elim!: record_cancellation_Ok)

lemma mirrors_persist:
  assumes m: "mirrors j st" and p: "persist f j = (Ok (), j')"
    and a: "apply_durable (mutation_of f) st = (Ok (), st')"
  shows "mirrors j' st'"
proof (cases f)
  case (FactIntent it)
  with p m have "fmlookup (ds_intents st) (ei_operation it) = None"
    "j' = j\<lparr>dj_task_operations := fmupd (ei_task it) (ei_operation it) (dj_task_operations j),
            dj_intents := fmupd (ei_operation it) it (dj_intents j)\<rparr>"
    by (cases rule: persist_intent_cases [of j it]; auto simp: mirrors_def)+
  with m a FactIntent show ?thesis
    by (auto simp: mirrors_def run_dispatches_def attempts_of_def elim!: record_intent_Ok)
next
  case (FactDispatch d)
  with p have "j' = j\<lparr>dj_operation_attempts :=
        fmupd (dr_operation d) (attempts_of j (dr_operation d) @ [dr_attempt d]) (dj_operation_attempts j),
      dj_dispatches := fmupd (dr_attempt d) d (dj_dispatches j)\<rparr>"
    by (cases rule: persist_dispatch_cases [of j d]) auto
  moreover have "attempts_of (j\<lparr>dj_operation_attempts :=
        fmupd (dr_operation d) (attempts_of j (dr_operation d) @ [dr_attempt d]) (dj_operation_attempts j),
      dj_dispatches := m\<rparr>) i = attempts_of j i @ (if i = dr_operation d then [dr_attempt d] else [])" for i m
    by (simp add: attempts_of_def)
  ultimately show ?thesis
    using m a FactDispatch by (auto simp: mirrors_def run_dispatches_def elim!: record_dispatch_Ok)
next
  case (FactOutcome r)
  with p m a show ?thesis
    by (cases rule: persist_outcome_cases [of j r])
      (auto simp: mirrors_def run_dispatches_def attempts_of_def elim!: record_outcome_Ok)
qed

text \<open>A fact that is already on record is refused by the journal, or changes nothing.\<close>

lemma mirrors_persist_again:
  assumes "mirrors j st" and "persist f j = (Ok (), j')" and "on_record (mutation_of f) st"
  shows "j' = j"
proof (cases f)
  case (FactIntent it)
  with assms show ?thesis
    by (cases rule: persist_intent_cases [of j it]) (auto simp: mirrors_def)
next
  case (FactDispatch d)
  with assms show ?thesis
    by (cases rule: persist_dispatch_cases [of j d]) (auto simp: mirrors_def)
next
  case (FactOutcome r)
  with assms show ?thesis
    by (cases rule: persist_outcome_cases [of j r]) (auto simp: mirrors_def)
qed

subsection \<open>The decision\<close>

definition invariant_decision :: "operation_id \<Rightarrow> effect_intent \<Rightarrow> recovered_effect_state \<Rightarrow> recovery_decision" where
  "invariant_decision i it state =
     \<lparr>rd_action = InvariantViolation, rd_reason = WorkflowStateMismatch i (ei_task it) state\<rparr>"

definition classify_recovery ::
  "workflow_graph \<Rightarrow> durable_journal \<Rightarrow> operation_id \<Rightarrow> (recovery_decision, journal_error) res" where
  "classify_recovery workflow j i =
     res_bind (journal_intent j i) (\<lambda>it.
       let state = journal_state j i
       in if graph_task workflow (ei_task it) = None then Ok (invariant_decision i it state)
          else
            let completed = graph_is_completed workflow (ei_task it)
            in case state of
                 Prepared \<Rightarrow>
                   if completed then Ok (invariant_decision i it state)
                   else Ok \<lparr>rd_action = Execute, rd_reason = PreparedNotDispatched i\<rparr>
               | OutcomeUnknown \<Rightarrow>
                   (case latest_dispatch j i of
                      None \<Rightarrow> Panic
                    | Some d \<Rightarrow>
                        if completed then Ok (invariant_decision i it state)
                        else case ei_semantics it of
                               Idempotent \<Rightarrow>
                                 Ok \<lparr>rd_action = RetrySameOperation,
                                     rd_reason = IdempotentOutcomeUnknown i (dr_attempt d)\<rparr>
                             | NonIdempotent \<Rightarrow>
                                 Ok \<lparr>rd_action = Reconcile,
                                     rd_reason = NonIdempotentOutcomeUnknown i (dr_attempt d)\<rparr>)
               | OutcomeKnown outcome \<Rightarrow>
                   (case known_outcome j i of
                      None \<Rightarrow> Panic
                    | Some r \<Rightarrow>
                        (case (outcome, completed) of
                           (Succeeded, True) \<Rightarrow>
                             Ok \<lparr>rd_action = NoAction, rd_reason = WorkflowAlreadyCompleted i (ei_task it)\<rparr>
                         | (Succeeded, False) \<Rightarrow>
                             Ok \<lparr>rd_action = CompleteWithoutReexecution,
                                 rd_reason = KnownSuccess i (oc_attempt r)\<rparr>
                         | (Failed, True) \<Rightarrow> Ok (invariant_decision i it state)
                         | (Failed, False) \<Rightarrow>
                             Ok \<lparr>rd_action = ObserveFailure, rd_reason = KnownFailure i (oc_attempt r)\<rparr>))
               | NotPrepared \<Rightarrow>
                   Ok \<lparr>rd_action = InvariantViolation, rd_reason = ReasonNotPrepared i\<rparr>)"

text \<open>The decision as a table over what is known of the effect, of its semantics and of its task.\<close>

fun decide ::
  "operation_id \<Rightarrow> effect_intent \<Rightarrow> dispatch_record option \<Rightarrow> outcome_record option \<Rightarrow> bool \<Rightarrow> bool \<Rightarrow>
   recovery_decision" where
  "decide i it latest (Some r) known completed =
     (if \<not> known \<or> completed \<and> oc_outcome r = Failed
      then invariant_decision i it (OutcomeKnown (oc_outcome r))
      else if completed then \<lparr>rd_action = NoAction, rd_reason = WorkflowAlreadyCompleted i (ei_task it)\<rparr>
      else if oc_outcome r = Succeeded
      then \<lparr>rd_action = CompleteWithoutReexecution, rd_reason = KnownSuccess i (oc_attempt r)\<rparr>
      else \<lparr>rd_action = ObserveFailure, rd_reason = KnownFailure i (oc_attempt r)\<rparr>)"
| "decide i it (Some d) None known completed =
     (if \<not> known \<or> completed then invariant_decision i it OutcomeUnknown
      else if ei_semantics it = Idempotent
      then \<lparr>rd_action = RetrySameOperation, rd_reason = IdempotentOutcomeUnknown i (dr_attempt d)\<rparr>
      else \<lparr>rd_action = Reconcile, rd_reason = NonIdempotentOutcomeUnknown i (dr_attempt d)\<rparr>)"
| "decide i it None None known completed =
     (if \<not> known \<or> completed then invariant_decision i it Prepared
      else \<lparr>rd_action = Execute, rd_reason = PreparedNotDispatched i\<rparr>)"

lemma classify_decides:
  "classify_recovery g j i =
     (case fmlookup (dj_intents j) i of
        None \<Rightarrow> Err (JE_UnknownOperation i)
      | Some it \<Rightarrow>
          Ok (decide i it (latest_dispatch j i) (known_outcome j i)
                (graph_task g (ei_task it) \<noteq> None) (graph_is_completed g (ei_task it))))"
proof (cases "fmlookup (dj_intents j) i")
  case None
  then show ?thesis by (simp add: classify_recovery_def journal_intent_def)
next
  case (Some it)
  show ?thesis
  proof (cases "known_outcome j i")
    case known: (Some r)
    with Some show ?thesis
      by (cases "oc_outcome r")
        (simp_all add: classify_recovery_def journal_intent_def jv.state_law Let_def)
  next
    case None
    with Some show ?thesis
      by (cases "latest_dispatch j i"; cases "ei_semantics it")
        (simp_all add: classify_recovery_def journal_intent_def jv.state_law Let_def)
  qed
qed

end
