(* ===== verification/Durable_Properties.thy ===== *)
theory Durable_Properties
  imports Recovery_Classify Workflow_Properties
begin

text \<open>
  What the durable store and the recovery boundary promise: atomic compare-and-swap commits,
  idempotent retry, an append-only lineage of facts, no dispatch after a cancellation, a journal that
  is rebuilt exactly after a restart, and recovery decisions that are total and safe.
\<close>

subsection \<open>A run with one dispatched effect\<close>

definition demo_run :: run_id where "demo_run = RunId (Id ''r'')"
definition demo_op :: operation_id where "demo_op = OperationId (Id ''op'')"
definition demo_attempt :: attempt_id where "demo_attempt = AttemptId (Id ''t1'')"

definition demo_intent :: effect_intent where
  "demo_intent = \<lparr>ei_task = Id ''a'', ei_operation = demo_op, ei_semantics = NonIdempotent\<rparr>"

definition demo_admission :: attempt_admission where
  "demo_admission = \<lparr>aa_run = demo_run, aa_task = Id ''a'', aa_attempt = demo_attempt,
     aa_operation = Some demo_op, aa_capabilities = []\<rparr>"

definition demo_dispatch :: dispatch_record where
  "demo_dispatch = \<lparr>dr_operation = demo_op, dr_attempt = demo_attempt\<rparr>"

definition demo_outcome :: outcome_record where
  "demo_outcome = \<lparr>oc_operation = demo_op, oc_attempt = demo_attempt, oc_outcome = Succeeded\<rparr>"

definition demo_cancel :: cancellation_record where
  "demo_cancel = \<lparr>cn_run = demo_run, cn_task = Id ''a'', cn_operation = Some demo_op, cn_attempt = None\<rparr>"

definition demo_commit :: "u64 \<Rightarrow> string \<Rightarrow> durable_mutation list \<Rightarrow> commit_request" where
  "demo_commit v k ms =
     \<lparr>cq_run = demo_run, cq_expected = StoreRevision v, cq_key = IdempotencyKey k, cq_mutations = ms\<rparr>"

definition demo_ops :: "store_op list" where
  "demo_ops = [OpCreate demo_run,
     OpCommit (demo_commit 0 ''k1'' [RecordIntent demo_intent, AdmitAttempt demo_admission]),
     OpCommit (demo_commit 1 ''k2'' [RecordDispatch demo_dispatch])]"

definition demo_store :: in_memory_store where
  "demo_store = port_run create_run commit demo_ops store_new"

definition demo_state :: durable_run_state where
  "demo_state =
     \<lparr>ds_run = demo_run, ds_revision = StoreRevision 2,
      ds_admissions = fmupd demo_attempt demo_admission fmempty, ds_admission_history = [demo_admission],
      ds_intents = fmupd demo_op demo_intent fmempty,
      ds_task_operations = fmupd (Id ''a'') demo_op fmempty, ds_cancellations = fmempty,
      ds_dispatches = fmupd demo_attempt demo_dispatch fmempty, ds_dispatch_history = [demo_dispatch],
      ds_outcomes = fmempty, ds_outcome_history = [],
      ds_idempotency =
        fmupd (IdempotencyKey ''k2'') ([RecordDispatch demo_dispatch], StoreRevision 2)
          (fmupd (IdempotencyKey ''k1'') ([RecordIntent demo_intent, AdmitAttempt demo_admission], StoreRevision 1)
             fmempty)\<rparr>"

lemmas demo_defs =
  demo_run_def demo_op_def demo_attempt_def demo_intent_def demo_admission_def demo_dispatch_def
  demo_outcome_def demo_cancel_def demo_commit_def

lemmas store_eval =
  commit_def commit_state_def create_run_def run_state_new_def store_revision_initial_def
  store_revision_checked_next_def u64_checked_succ_def act_bind_def record_intent_def admit_attempt_def
  record_dispatch_def record_outcome_def record_cancellation_def

lemma demo_loads: "load_run demo_store demo_run = Ok demo_state"
  by (simp add: demo_store_def demo_ops_def store_new_def store_eval demo_state_def demo_defs)

lemma store_inv_new: "store_inv store_new"
  by (simp add: store_inv_def store_new_def)

text \<open>The stores a program can see.\<close>

definition store_reachable :: "in_memory_store \<Rightarrow> bool" where
  "store_reachable s \<longleftrightarrow> (\<exists>ops. s = port_run create_run commit ops store_new)"

lemma port_run_inv: "store_inv s \<Longrightarrow> store_inv (port_run create_run commit ops s)"
proof (induction ops arbitrary: s)
  case (Cons op ops)
  show ?case
  proof (cases op)
    case (OpCreate run)
    with Cons mem.create_valid show ?thesis by simp
  next
    case (OpCommit q)
    obtain x s' where x: "commit q s = (x, s')" by fastforce
    with mem.put_ok [of q s _ s'] mem.put_fails [OF x] Cons.prems have "store_inv s'"
      by (cases x) auto
    with Cons.IH OpCommit x show ?thesis by simp
  qed
qed simp

lemma reachable_inv: "store_reachable s \<Longrightarrow> store_inv s"
  using port_run_inv [OF store_inv_new] by (auto simp: store_reachable_def)

lemma reachable_run_inv: "store_reachable s \<Longrightarrow> load_run s run = Ok st \<Longrightarrow> run_inv st"
  using mem.loaded_valid reachable_inv by blast

lemma store_reachableI: "store_reachable (port_run create_run commit ops store_new)"
  unfolding store_reachable_def by blast

lemma demo_store_reachable: "store_reachable demo_store"
  unfolding demo_store_def by (rule store_reachableI)

subsection \<open>Commits\<close>

text \<open>
  C4: \<open>commit\<close> is an atomic compare-and-swap with idempotent replay, and never panics.  A replay is
  answered only for a key recorded with the same mutations, with the live revision, and changes nothing.
  A commit succeeds only for a new key and the current revision; then every mutation was applied in order,
  the key was recorded, the revision advanced by one, and no other run was touched.  An error leaves the
  whole store as it was and has its reason: a recorded key is refused only for other mutations, so a
  retry is never refused for a revision that has advanced since; the expected revision is checked for new
  keys only, before the exhaustion of revisions and the mutations.
\<close>

theorem commit_atomic:
  "case commit q s of
      (Err e, s') \<Rightarrow> s' = s \<and>
        (if cq_mutations q = [] then e = SE_EmptyCommit
         else case load_run s (cq_run q) of
            Ok st \<Rightarrow>
              (case fmlookup (ds_idempotency st) (cq_key q) of
                 Some (ms, v) \<Rightarrow> ms \<noteq> cq_mutations q \<and> e = SE_IdempotencyConflict (cq_key q)
               | None \<Rightarrow>
                   if cq_expected q \<noteq> ds_revision st then e = SE_RevisionConflict (cq_expected q) (ds_revision st)
                   else if store_revision_checked_next (ds_revision st) = None
                   then e = SE_RevisionExhausted (ds_revision st)
                   else \<exists>st1. apply_durables (cq_mutations q) st = (Err e, st1))
          | x \<Rightarrow> x = Err e)
    | (Panic, s') \<Rightarrow> False
    | (Ok r, s') \<Rightarrow>
        (\<exists>st. load_run s (cq_run q) = Ok st \<and>
          (if ct_replayed r
           then s' = s \<and> ct_revision r = ds_revision st \<and>
             (\<exists>v. fmlookup (ds_idempotency st) (cq_key q) = Some (cq_mutations q, v))
           else cq_expected q = ds_revision st \<and> fmlookup (ds_idempotency st) (cq_key q) = None \<and>
             store_revision_checked_next (ds_revision st) = Some (ct_revision r) \<and>
             (\<exists>st1. apply_durables (cq_mutations q) st = (Ok (), st1) \<and>
                load_run s' (cq_run q) = Ok (st1\<lparr>ds_revision := ct_revision r,
                  ds_idempotency := fmupd (cq_key q) (cq_mutations q, ct_revision r) (ds_idempotency st1)\<rparr>)) \<and>
             (\<forall>run \<in> - {cq_run q}. load_run s' run = load_run s run)))"
proof (cases "commit q s")
  case (Pair x s')
  show ?thesis
  proof (cases x)
    case (Ok r)
    with Pair have ok: "commit q s = (Ok r, s')" by simp
    then obtain st st' where st: "fmlookup (ms_runs s) (cq_run q) = Some st"
      "commit_state q st = (Ok r, st')" "s' = s\<lparr>ms_runs := fmupd (cq_run q) st' (ms_runs s)\<rparr>"
      by (rule commit_Ok)
    show ?thesis
      using st(2)
    proof (cases rule: commit_state_cases [of st q])
      case (replayed v)
      with st ok show ?thesis by (auto simp: fmupd_same)
    next
      case (committed v st1)
      with st ok commit_other [OF ok] show ?thesis by (auto simp: load_run_def)
    qed simp
  next
    case (Err e)
    with Pair have err: "commit q s = (Err e, s')" by simp
    show ?thesis unfolding Pair Err prod.case res.case by (rule commit_refused [OF err])
  next
    case Panic
    with Pair commit_no_panic [of q s] show ?thesis by simp
  qed
qed

text \<open>
  C40: A commit that succeeded is safe to repeat.  Whatever calls of whatever clients follow it, the
  same run, key and mutations are answered as a replay with the live revision of the run, whatever
  revision the caller expects, and the store does not change.
\<close>

theorem committed_request_replays:
  assumes "store_reachable s" and "commit q s = (Ok r, s')" and "s'' = port_run create_run commit ops s'"
    and "cq_run q' = cq_run q" and "cq_key q' = cq_key q" and "cq_mutations q' = cq_mutations q"
  shows "\<exists>st. load_run s'' (cq_run q) = Ok st \<and>
    commit q' s'' = (Ok \<lparr>ct_revision = ds_revision st, ct_replayed = True\<rparr>, s'')"
proof -
  obtain v where "commit q' s'' = (Ok \<lparr>ct_revision = v, ct_replayed = True\<rparr>, s'')"
    using mem.retry_is_replay [OF reachable_inv [OF assms(1)] assms(2-6)] by blast
  with replay_revision [OF this] assms(4) show ?thesis by auto
qed

definition demo_before :: in_memory_store where
  "demo_before = port_run create_run commit [OpCreate demo_run] store_new"

lemma demo_before_reachable: "store_reachable demo_before"
  unfolding demo_before_def by (rule store_reachableI)

abbreviation demo_first :: commit_request where
  "demo_first \<equiv> demo_commit 0 ''k1'' [RecordIntent demo_intent, AdmitAttempt demo_admission]"

lemma demo_first_commits:
  "commit demo_first demo_before = (Ok \<lparr>ct_revision = StoreRevision 1, ct_replayed = False\<rparr>, snd (commit demo_first demo_before))"
  by (simp add: demo_before_def store_new_def store_eval demo_defs)

theorem commit_atomic_witness:
  "\<exists>st1. apply_durables [RecordIntent demo_intent, AdmitAttempt demo_admission] (run_state_new demo_run) = (Ok (), st1) \<and>
     load_run (snd (commit demo_first demo_before)) demo_run =
       Ok (st1\<lparr>ds_revision := StoreRevision 1,
                ds_idempotency := fmupd (IdempotencyKey ''k1'')
                  ([RecordIntent demo_intent, AdmitAttempt demo_admission], StoreRevision 1) (ds_idempotency st1)\<rparr>)"
proof -
  have "load_run demo_before (cq_run demo_first) = Ok (run_state_new demo_run)"
    by (simp add: demo_before_def store_new_def create_run_def demo_commit_def)
  with commit_atomic [where q = demo_first and s = demo_before] demo_first_commits show ?thesis
    by (auto simp: demo_commit_def split: prod.splits)
qed

theorem committed_request_replays_witness:
  "commit demo_first (port_run create_run commit [OpCommit (demo_commit 1 ''k2'' [RecordDispatch demo_dispatch])]
      (snd (commit demo_first demo_before))) =
    (Ok \<lparr>ct_revision = StoreRevision 2, ct_replayed = True\<rparr>,
     port_run create_run commit [OpCommit (demo_commit 1 ''k2'' [RecordDispatch demo_dispatch])]
      (snd (commit demo_first demo_before)))"
proof -
  let ?later = "port_run create_run commit [OpCommit (demo_commit 1 ''k2'' [RecordDispatch demo_dispatch])]
      (snd (commit demo_first demo_before))"
  have "?later = demo_store" by (simp add: demo_store_def demo_ops_def demo_before_def)
  then have "load_run ?later (cq_run demo_first) = Ok demo_state"
    using demo_loads by (simp add: demo_commit_def)
  with committed_request_replays [OF demo_before_reachable demo_first_commits refl refl refl refl, of
      "[OpCommit (demo_commit 1 ''k2'' [RecordDispatch demo_dispatch])]"]
  show ?thesis by (auto simp: demo_state_def)
qed

text \<open>
  Of two commits prepared against the same revision of a run at most one takes effect, however
  the calls of all clients interleave: no update is lost to a stale writer.
\<close>

theorem compare_and_swap_exclusive:
  assumes "store_reachable s" and "commit q s = (Ok r, s')" and "\<not> ct_replayed r"
    and "s'' = port_run create_run commit ops s'"
    and "cq_run q' = cq_run q" and "cq_expected q' = cq_expected q" and "commit q' s'' = (Ok r', s3)"
  shows "ct_replayed r' \<and> s3 = s''"
proof -
  have "store_inv s''" using mem.put_ok [OF assms(2) reachable_inv [OF assms(1)]] port_run_inv assms(4) by blast
  moreover have "ct_replayed r'"
    by (rule mem.compare_and_swap [OF reachable_inv [OF assms(1)] assms(2-7)])
  ultimately show ?thesis using mem.put_ok [OF assms(7)] by auto
qed

theorem compare_and_swap_exclusive_witness:
  "snd (commit demo_first (snd (commit demo_first demo_before))) = snd (commit demo_first demo_before)"
proof -
  let ?s = "snd (commit demo_first demo_before)"
  have "commit demo_first ?s = (Ok \<lparr>ct_revision = StoreRevision 1, ct_replayed = True\<rparr>, snd (commit demo_first ?s))"
    by (simp add: demo_before_def store_new_def store_eval demo_defs)
  from compare_and_swap_exclusive [OF demo_before_reachable demo_first_commits _ _ refl refl this, of "[]"]
  show ?thesis by simp
qed

subsection \<open>Facts\<close>

text \<open>
  Durable facts are append-only.  Whatever calls follow, every admission, intent, task owner,
  cancellation, dispatch, outcome and idempotency key of a run is still there, unchanged, the three
  histories only grow at their ends, and the revision does not go back.
\<close>

theorem durable_facts_append_only:
  assumes "store_reachable s" and "load_run s run = Ok st"
  shows "\<exists>st'. load_run (port_run create_run commit ops s) run = Ok st' \<and> run_extends st st' \<and>
    keeps_map (ds_idempotency st) (ds_idempotency st') \<and>
    store_ctr.val (ds_revision st) \<le> store_ctr.val (ds_revision st')"
  using mem.run_keeps [OF reachable_inv [OF assms(1)] assms(2), of ops] by blast

theorem durable_facts_append_only_witness:
  "\<exists>st'. load_run (port_run create_run commit [OpCommit (demo_commit 2 ''k3'' [RecordOutcome demo_outcome])] demo_store)
      demo_run = Ok st' \<and> fmlookup (ds_dispatches st') demo_attempt = Some demo_dispatch"
proof -
  from durable_facts_append_only [OF demo_store_reachable demo_loads] obtain st' where
    st': "load_run (port_run create_run commit [OpCommit (demo_commit 2 ''k3'' [RecordOutcome demo_outcome])] demo_store)
      demo_run = Ok st'" "run_extends demo_state st'" by blast
  then have "keeps_map (ds_dispatches demo_state) (ds_dispatches st')" by (simp add: run_extends_def)
  with st'(1) show ?thesis by (auto simp: keeps_map_def demo_state_def)
qed

text \<open>
  C7: every effect fact has its lineage.  In any store a program can reach, a recorded outcome has a
  dispatch of the same attempt and operation; a dispatch has an admission of the attempt for that
  operation and an intent of the operation for the admitted task; an attempt is admitted once,
  dispatched once and has one outcome; and the revision is the number of distinct keys committed.
\<close>

theorem durable_lineage:
  assumes "store_reachable s" and "load_run s run = Ok st"
  shows "(\<forall>r \<in> set (ds_outcome_history st). \<exists>d \<in> set (ds_dispatch_history st).
       dr_attempt d = oc_attempt r \<and> dr_operation d = oc_operation r) \<and>
    (\<forall>d \<in> set (ds_dispatch_history st). \<exists>ad \<in> set (ds_admission_history st). \<exists>it.
       aa_attempt ad = dr_attempt d \<and> aa_operation ad = Some (dr_operation d) \<and> aa_run ad = ds_run st \<and>
       fmlookup (ds_intents st) (dr_operation d) = Some it \<and> ei_task it = aa_task ad \<and>
       run_operation_for_task st (aa_task ad) = Some (dr_operation d)) \<and>
    distinct (map aa_attempt (ds_admission_history st)) \<and>
    distinct (map dr_attempt (ds_dispatch_history st)) \<and>
    distinct (map oc_attempt (ds_outcome_history st)) \<and>
    store_ctr.val (ds_revision st) = fcard (fmdom (ds_idempotency st))"
proof -
  have inv: "run_inv st" by (rule reachable_run_inv [OF assms])
  then have ok: "facts_ok st" by (simp add: run_inv_def)
  have out: "\<exists>d \<in> set (ds_dispatch_history st). dr_attempt d = oc_attempt r \<and> dr_operation d = oc_operation r"
    if "r \<in> set (ds_outcome_history st)" for r
    using that ok unfolding facts_ok_def run_outcomes_ok_def run_dispatches_ok_def ledger_def by metis
  have dis: "\<exists>ad \<in> set (ds_admission_history st). \<exists>it.
       aa_attempt ad = dr_attempt d \<and> aa_operation ad = Some (dr_operation d) \<and> aa_run ad = ds_run st \<and>
       fmlookup (ds_intents st) (dr_operation d) = Some it \<and> ei_task it = aa_task ad \<and>
       run_operation_for_task st (aa_task ad) = Some (dr_operation d)"
    if "d \<in> set (ds_dispatch_history st)" for d
  proof -
    from that ok obtain it ad where l: "fmlookup (ds_intents st) (dr_operation d) = Some it"
      "fmlookup (ds_admissions st) (dr_attempt d) = Some ad" "aa_operation ad = Some (dr_operation d)"
      "aa_task ad = ei_task it" unfolding facts_ok_def run_dispatches_ok_def by blast
    moreover from l(2) ok have "ad \<in> set (ds_admission_history st)" "aa_attempt ad = dr_attempt d"
      "aa_run ad = ds_run st" unfolding facts_ok_def admissions_ok_def ledger_def by blast+
    moreover from l(1) ok have "fmlookup (ds_task_operations st) (ei_task it) = Some (dr_operation d)"
      unfolding facts_ok_def run_intents_ok_def by blast
    ultimately show ?thesis by (auto simp: run_operation_for_task_def)
  qed
  have "distinct (map aa_attempt (ds_admission_history st))" "distinct (map dr_attempt (ds_dispatch_history st))"
    "distinct (map oc_attempt (ds_outcome_history st))"
    using ok unfolding facts_ok_def admissions_ok_def run_dispatches_ok_def run_outcomes_ok_def ledger_def by blast+
  with out dis inv show ?thesis by (simp add: run_inv_def)
qed

theorem durable_lineage_witness:
  "\<exists>it. fmlookup (ds_intents demo_state) demo_op = Some it \<and> ei_task it = Id ''a''"
proof -
  have "demo_dispatch \<in> set (ds_dispatch_history demo_state)" by (simp add: demo_state_def)
  with durable_lineage [OF demo_store_reachable demo_loads] obtain ad it where
    "ad \<in> set (ds_admission_history demo_state)"
    "fmlookup (ds_intents demo_state) (dr_operation demo_dispatch) = Some it" "ei_task it = aa_task ad" by blast
  then show ?thesis by (auto simp: demo_state_def demo_dispatch_def demo_admission_def)
qed

text \<open>
  C8: cancellation prevents dispatch.  Once a task has a durable cancellation, no later commit of
  any client adds a dispatch of an attempt of that task, nor withdraws the cancellation.
\<close>

theorem cancelled_task_not_dispatched:
  assumes "store_reachable s" and "load_run s run = Ok st" and "run_is_cancelled st t"
    and "load_run (port_run create_run commit ops s) run = Ok st'"
    and "d \<in> set (ds_dispatch_history st')" and "fmlookup (ds_admissions st') (dr_attempt d) = Some ad"
    and "aa_task ad = t"
  shows "d \<in> set (ds_dispatch_history st) \<and> run_is_cancelled st' t"
proof -
  from mem.run_keeps [OF reachable_inv [OF assms(1)] assms(2), of ops] assms(4) have ext: "run_extends st st'" by auto
  then have "run_is_cancelled st' t"
    using assms(3) cancelled_mono unfolding run_extends_def by blast
  moreover from ext obtain xs where "ds_dispatch_history st' = ds_dispatch_history st @ xs"
    "\<forall>d \<in> set xs. \<forall>ad. fmlookup (ds_admissions st') (dr_attempt d) = Some ad \<longrightarrow> \<not> run_is_cancelled st (aa_task ad)"
    unfolding run_extends_def by blast
  ultimately show ?thesis using assms(3,5-7) by auto
qed

definition demo_cancelled :: in_memory_store where
  "demo_cancelled = port_run create_run commit
     [OpCreate demo_run, OpCommit demo_first, OpCommit (demo_commit 1 ''c'' [RecordCancellation demo_cancel])] store_new"

theorem cancelled_task_not_dispatched_witness:
  "fst (commit (demo_commit 2 ''k2'' [RecordDispatch demo_dispatch]) demo_cancelled) =
     Err (SE_InvariantViolation (DispatchCancelled (Id ''a''))) \<and>
   (\<exists>st'. load_run (port_run create_run commit [OpCommit (demo_commit 2 ''k2'' [RecordDispatch demo_dispatch])] demo_cancelled)
      demo_run = Ok st' \<and> demo_dispatch \<notin> set (ds_dispatch_history st'))"
proof -
  let ?q = "demo_commit 2 ''k2'' [RecordDispatch demo_dispatch]"
  obtain st where st: "load_run demo_cancelled demo_run = Ok st" "run_is_cancelled st (Id ''a'')"
    "ds_dispatch_history st = []"
    by (simp add: demo_cancelled_def store_new_def store_eval demo_defs run_is_cancelled_def)
  have reach: "store_reachable demo_cancelled"
    unfolding demo_cancelled_def by (rule store_reachableI)
  have refused: "fst (commit ?q demo_cancelled) = Err (SE_InvariantViolation (DispatchCancelled (Id ''a'')))"
    by (simp add: demo_cancelled_def store_new_def store_eval demo_defs)
  have "demo_dispatch \<notin> set (ds_dispatch_history st')"
    if st': "load_run (port_run create_run commit [OpCommit ?q] demo_cancelled) demo_run = Ok st'" for st'
  proof
    assume d: "demo_dispatch \<in> set (ds_dispatch_history st')"
    have "fmlookup (ds_admissions st') (dr_attempt demo_dispatch) = Some demo_admission"
      using st' by (simp add: demo_cancelled_def store_new_def store_eval demo_defs) auto
    from cancelled_task_not_dispatched [OF reach st(1,2) st' d this] st(3)
    show False by (simp add: demo_admission_def)
  qed
  moreover from mem.run_keeps [OF reachable_inv [OF reach] st(1), of "[OpCommit ?q]"]
  have "\<exists>st'. load_run (port_run create_run commit [OpCommit ?q] demo_cancelled) demo_run = Ok st'" by blast
  ultimately show ?thesis using refused by blast
qed

subsection \<open>Restart and recovery\<close>

text \<open>
  C5: the journal is a faithful view of the store.  For every run a program can load,
  \<open>from_durable_state\<close> succeeds, and the rebuilt journal answers every query (intent, task owner,
  latest dispatch, known outcome, effect state) exactly as the durable run does.
\<close>

theorem restart_journal_exact:
  assumes "store_reachable s" and "load_run s run = Ok st"
  shows "\<exists>j. from_durable_state st = Ok j \<and> dj_intents j = ds_intents st \<and>
    journal_operation_for_task j = run_operation_for_task st \<and>
    latest_dispatch j = run_latest_dispatch st \<and> known_outcome j = run_latest_outcome st \<and>
    journal_state j = run_effect_state st"
proof -
  have ok: "facts_ok st" using reachable_run_inv [OF assms] by (simp add: run_inv_def)
  from from_durable_state_holds [OF ok] obtain j where j: "from_durable_state st = Ok j" by blast
  note agree = journal_agrees [OF ok j]
  then have "journal_operation_for_task j = run_operation_for_task st"
    by (simp add: fun_eq_iff journal_operation_for_task_def run_operation_for_task_def)
  with j agree show ?thesis by (auto simp: fun_eq_iff)
qed

theorem restart_journal_exact_witness:
  "\<exists>j. from_durable_state demo_state = Ok j \<and> journal_state j demo_op = OutcomeUnknown"
proof -
  have "run_effect_state demo_state demo_op = OutcomeUnknown"
    by (simp add: run_effect_state_def run_latest_dispatch_def run_dispatches_def demo_state_def demo_dispatch_def
        outcome_for_attempt_def last_opt_def)
  with restart_journal_exact [OF demo_store_reachable demo_loads] show ?thesis by auto
qed

text \<open>
  \<open>classify_recovery\<close> is total and computes the documented table.  It returns \<open>UnknownOperation\<close>
  exactly when there is no intent, and otherwise the decision of \<open>decide\<close> on the latest dispatch,
  its outcome, the semantics and the state of the task; its two \<open>expect\<close>s never fail.
\<close>

theorem classify_recovery_table:
  "classify_recovery g j i =
     (case fmlookup (dj_intents j) i of
        None \<Rightarrow> Err (JE_UnknownOperation i)
      | Some it \<Rightarrow>
          Ok (decide i it (latest_dispatch j i) (known_outcome j i)
                (graph_task g (ei_task it) \<noteq> None) (graph_is_completed g (ei_task it))))"
  by (rule classify_decides)

lemma decide_actions:
  "rd_action (decide i it latest out known completed) = Execute \<longleftrightarrow>
     latest = None \<and> out = None \<and> known \<and> \<not> completed"
  "rd_action (decide i it latest out known completed) = RetrySameOperation \<longleftrightarrow>
     latest \<noteq> None \<and> out = None \<and> ei_semantics it = Idempotent \<and> known \<and> \<not> completed"
  "rd_action (decide i it latest out known completed) = CompleteWithoutReexecution \<longleftrightarrow>
     (\<exists>r. out = Some r \<and> oc_outcome r = Succeeded) \<and> known \<and> \<not> completed"
  by (cases "(i, it, latest, out, known, completed)" rule: decide.cases;
      auto simp: invariant_decision_def; metis known_effect_outcome.exhaust)+

text \<open>
  C6: recovery after a restart is safe.  On the durable facts of any reachable run: an effect is
  executed for the first time only if no dispatch of it was ever recorded; it is repeated only if it
  is idempotent and its latest dispatch has no recorded outcome; the task is completed without the
  effect only if the latest dispatch has a recorded success; and none of these is chosen for a task
  that is already completed.
\<close>

theorem recovery_is_safe:
  assumes "store_reachable s" and "load_run s run = Ok st" and "from_durable_state st = Ok j"
    and "classify_recovery g j i = Ok dec"
  shows "\<exists>it. fmlookup (ds_intents st) i = Some it \<and>
    (rd_action dec = Execute \<longrightarrow> run_dispatches st i = []) \<and>
    (rd_action dec = RetrySameOperation \<longrightarrow> ei_semantics it = Idempotent \<and>
       (\<exists>d. run_latest_dispatch st i = Some d \<and> outcome_for_attempt st (dr_attempt d) = None)) \<and>
    (rd_action dec = CompleteWithoutReexecution \<longrightarrow>
       (\<exists>d r. run_latest_dispatch st i = Some d \<and> outcome_for_attempt st (dr_attempt d) = Some r \<and>
          oc_outcome r = Succeeded)) \<and>
    (rd_action dec \<in> {Execute, RetrySameOperation, CompleteWithoutReexecution} \<longrightarrow>
       graph_task g (ei_task it) \<noteq> None \<and> \<not> graph_is_completed g (ei_task it))"
proof -
  have ok: "facts_ok st" using reachable_run_inv [OF assms(1,2)] by (simp add: run_inv_def)
  note agree = journal_agrees [OF ok assms(3)]
  from assms(4) obtain it where it: "fmlookup (ds_intents st) i = Some it"
    and dec: "dec = decide i it (run_latest_dispatch st i) (run_latest_outcome st i)
       (graph_task g (ei_task it) \<noteq> None) (graph_is_completed g (ei_task it))"
    by (auto simp: classify_decides agree split: option.splits)
  have "run_latest_dispatch st i = None \<longleftrightarrow> run_dispatches st i = []"
    by (simp add: run_latest_dispatch_def)
  moreover have "run_latest_outcome st i = Some r \<longleftrightarrow>
      (\<exists>d. run_latest_dispatch st i = Some d \<and> outcome_for_attempt st (dr_attempt d) = Some r)" for r
    by (auto simp: run_latest_outcome_def bind_eq_Some_conv)
  moreover have "run_latest_outcome st i = None \<longleftrightarrow>
      (\<forall>d. run_latest_dispatch st i = Some d \<longrightarrow> outcome_for_attempt st (dr_attempt d) = None)"
    by (cases "run_latest_dispatch st i") (simp_all add: run_latest_outcome_def)
  ultimately show ?thesis
    unfolding dec by (intro exI [of _ it]) (auto simp: it decide_actions)
qed

theorem recovery_is_safe_witness:
  "\<exists>j dec. from_durable_state demo_state = Ok j \<and> classify_recovery demo_graph j demo_op = Ok dec \<and>
     rd_action dec \<noteq> Execute \<and> rd_action dec \<noteq> RetrySameOperation"
proof -
  have st: "facts_ok demo_state"
    using reachable_run_inv [OF demo_store_reachable demo_loads] by (simp add: run_inv_def)
  then obtain j where j: "from_durable_state demo_state = Ok j" using from_durable_state_holds by blast
  have it: "fmlookup (ds_intents demo_state) demo_op = Some demo_intent" by (simp add: demo_state_def)
  then obtain dec where dec: "classify_recovery demo_graph j demo_op = Ok dec"
    by (simp add: classify_decides journal_agrees [OF st j])
  from recovery_is_safe [OF demo_store_reachable demo_loads j dec] it
  have "rd_action dec \<noteq> Execute \<and> rd_action dec \<noteq> RetrySameOperation"
    by (auto simp: demo_state_def demo_intent_def demo_dispatch_def run_dispatches_def)
  with j dec show ?thesis by blast
qed

text \<open>
  The journal's admissions keep its lineage, and a refused admission changes nothing: in every
  journal built by \<open>persist_intent\<close>, \<open>persist_dispatch\<close> and \<open>persist_outcome\<close> a task has one
  operation, the attempts listed for an operation are exactly its dispatches without repetition, and
  every outcome belongs to a dispatch of the same operation.
\<close>

theorem journal_admissions_keep_lineage:
  assumes "journal_reachable j"
  shows "intents_ok j \<and> dispatches_ok j \<and> outcomes_ok j \<and>
    (case persist f j of (Ok _, j') \<Rightarrow> journal_reachable j' | (Err e, j') \<Rightarrow> j' = j | (Panic, _) \<Rightarrow> False)"
proof -
  have "case persist f j of (Ok _, j') \<Rightarrow> journal_reachable j' | (Err e, j') \<Rightarrow> j' = j | (Panic, _) \<Rightarrow> False"
  proof (cases "persist f j")
    case (Pair x j')
    with persist_no_panic [of f j] persist_Err [of f j _ j'] jr_persist [OF assms, of f j'] show ?thesis
      by (cases x) auto
  qed
  with journal_reachable_inv [OF assms] show ?thesis by (simp add: journal_inv_def)
qed

theorem journal_admissions_keep_lineage_witness: "outcomes_ok journal_new"
  using journal_admissions_keep_lineage [OF jr_new] by blast

text \<open>
  \<open>persist_dispatch\<close> accepts another dispatch of an operation whose latest dispatch already has
  a known outcome, and the operation is then \<open>OutcomeUnknown\<close> again; its documentation says such a
  dispatch is rejected.
\<close>

theorem dispatch_after_outcome_accepted:
  assumes "journal_reachable j" and "known_outcome j (dr_operation d) = Some r"
    and "fmlookup (dj_dispatches j) (dr_attempt d) = None"
  shows "\<exists>j'. persist_dispatch d j = (Ok (), j') \<and> journal_state j (dr_operation d) = OutcomeKnown (oc_outcome r) \<and>
    journal_state j' (dr_operation d) = OutcomeUnknown"
proof -
  have inv: "dispatches_ok j" "outcomes_ok j" using journal_reachable_inv [OF assms(1)] by (simp_all add: journal_inv_def)
  from assms(2) obtain a where a: "last_opt (attempts_of j (dr_operation d)) = Some a"
    by (auto simp: latest_via_attempts bind_eq_Some_conv)
  then have "a \<in> set (attempts_of j (dr_operation d))" by (rule last_opt_Some)
  with inv(1) obtain d0 where d0: "fmlookup (dj_dispatches j) a = Some d0" "dr_operation d0 = dr_operation d"
    unfolding dispatches_ok_def by blast
  with inv(1) have op: "has_key (dj_intents j) (dr_operation d)" unfolding dispatches_ok_def by metis
  have no_outcome: "fmlookup (dj_outcomes j) (dr_attempt d) = None"
    using inv(2) assms(3) unfolding outcomes_ok_def by (metis option.distinct(1) option.exhaust)
  show ?thesis
  proof (cases rule: persist_dispatch_cases [of j d])
    case stored
    let ?j = "j\<lparr>dj_operation_attempts :=
        fmupd (dr_operation d) (attempts_of j (dr_operation d) @ [dr_attempt d]) (dj_operation_attempts j),
      dj_dispatches := fmupd (dr_attempt d) d (dj_dispatches j)\<rparr>"
    have "attempts_of ?j (dr_operation d) = attempts_of j (dr_operation d) @ [dr_attempt d]"
      by (simp add: attempts_of_def)
    then have "latest_dispatch ?j (dr_operation d) = Some d" "known_outcome ?j (dr_operation d) = None"
      by (simp_all add: latest_via_attempts no_outcome)
    with op have "journal_state ?j (dr_operation d) = OutcomeUnknown" by (simp add: jv.state_OutcomeUnknown)
    moreover have "journal_state j (dr_operation d) = OutcomeKnown (oc_outcome r)"
      using op assms(2) by (simp add: jv.state_OutcomeKnown)
    ultimately show ?thesis using stored(3) by blast
  next
    case (refused e)
    with op assms(3) show ?thesis by simp
  qed
qed

definition demo_journal :: durable_journal where
  "demo_journal = snd (persist_all [FactIntent demo_intent, FactDispatch demo_dispatch, FactOutcome demo_outcome] journal_new)"

lemma persist_all_reachable:
  "journal_reachable j \<Longrightarrow> persist_all fs j = (Ok (), j') \<Longrightarrow> journal_reachable j'"
  by (induction fs arbitrary: j) (auto simp: act_bind_eq_Ok intro: jr_persist)

theorem dispatch_after_outcome_accepted_witness:
  "\<exists>j'. persist_dispatch \<lparr>dr_operation = demo_op, dr_attempt = AttemptId (Id ''t2'')\<rparr> demo_journal = (Ok (), j') \<and>
     journal_state j' demo_op = OutcomeUnknown"
proof -
  note eval = demo_journal_def act_bind_def persist_intent_def persist_dispatch_def persist_outcome_def
    journal_new_def demo_defs attempts_of_def
  have "persist_all [FactIntent demo_intent, FactDispatch demo_dispatch, FactOutcome demo_outcome] journal_new =
      (Ok (), demo_journal)" by (simp add: eval)
  from persist_all_reachable [OF jr_new this] have "journal_reachable demo_journal" .
  moreover have "known_outcome demo_journal (dr_operation \<lparr>dr_operation = demo_op, dr_attempt = AttemptId (Id ''t2'')\<rparr>)
      = Some demo_outcome"
    by (simp add: eval latest_via_attempts last_opt_def)
  moreover have "fmlookup (dj_dispatches demo_journal)
      (dr_attempt \<lparr>dr_operation = demo_op, dr_attempt = AttemptId (Id ''t2'')\<rparr>) = None"
    by (simp add: eval)
  ultimately show ?thesis
    using dispatch_after_outcome_accepted by fastforce
qed

end
