(* ===== verification/Capability_Resolver.thy ===== *)
theory Capability_Resolver
  imports Core_Primitives Digraph
begin

text \<open>
  The static half of \<open>crates/capability-graph\<close>: capability definitions (\<open>definition.rs\<close>) and the
  resolver (\<open>resolver.rs\<close>), whose depth-first search yields a construction order or reports a missing
  dependency or a cycle.  The search is shown total and exact, and its order to be a topological one.
\<close>

subsection \<open>Definitions and exact identities\<close>

record capability =
  cap_id :: ident
  cap_kind :: string

definition capability_new :: "ident \<Rightarrow> string \<Rightarrow> capability" where
  "capability_new i k = \<lparr>cap_id = i, cap_kind = k\<rparr>"

datatype dependency = Dependency (dep_id: ident)

instantiation dependency :: linorder
begin

definition less_eq_dependency :: "dependency \<Rightarrow> dependency \<Rightarrow> bool" where
  "less_eq_dependency d e \<longleftrightarrow> dep_id d \<le> dep_id e"

definition less_dependency :: "dependency \<Rightarrow> dependency \<Rightarrow> bool" where
  "less_dependency d e \<longleftrightarrow> dep_id d < dep_id e"

instance
  by standard (auto simp: less_eq_dependency_def less_dependency_def intro: dependency.expand)

end

lemma dependency_order [simp, kernis_eval]:
  "Dependency i \<le> Dependency j \<longleftrightarrow> i \<le> j" "Dependency i < Dependency j \<longleftrightarrow> i < j"
  by (simp_all add: less_eq_dependency_def less_dependency_def)

record capability_definition =
  cd_id :: ident
  cd_kind :: string
  cd_replay_identity :: string
  cd_dependencies :: "dependency fset"

definition definition_new :: "ident \<Rightarrow> string \<Rightarrow> capability_definition" where
  "definition_new i k =
     \<lparr>cd_id = i, cd_kind = k, cd_replay_identity = show_ident i @ '':'' @ k, cd_dependencies = {||}\<rparr>"

definition with_replay_identity :: "string \<Rightarrow> capability_definition \<Rightarrow> capability_definition" where
  "with_replay_identity r d = d\<lparr>cd_replay_identity := r\<rparr>"

definition add_dependency :: "ident \<Rightarrow> capability_definition \<Rightarrow> capability_definition" where
  "add_dependency i d = d\<lparr>cd_dependencies := finsert (Dependency i) (cd_dependencies d)\<rparr>"

definition depends_on :: "ident \<Rightarrow> capability_definition \<Rightarrow> capability_definition" where
  "depends_on i d = d\<lparr>cd_dependencies := finsert (Dependency i) (cd_dependencies d)\<rparr>"

definition definition_of_capability :: "capability \<Rightarrow> capability_definition" where
  "definition_of_capability c = definition_new (cap_id c) (cap_kind c)"

datatype generation = Generation u64

primrec generation_get :: "generation \<Rightarrow> u64" where
  "generation_get (Generation w) = w"

definition generation_zero :: generation where
  "generation_zero = Generation 0"

definition generation_first :: generation where
  "generation_first = Generation 1"

definition generation_max :: generation where
  "generation_max = Generation (- 1)"

definition generation_checked_next :: "generation \<Rightarrow> generation option" where
  "generation_checked_next g =
     (case u64_checked_succ (generation_get g) of
        Some n \<Rightarrow> Some (Generation n)
      | None \<Rightarrow> None)"

definition generation_next :: "generation \<Rightarrow> (generation, unit) res" where
  "generation_next g = (case generation_checked_next g of Some n \<Rightarrow> Ok n | None \<Rightarrow> Panic)"

definition show_generation :: "generation \<Rightarrow> string" where
  "show_generation g = show_u64 (generation_get g)"

interpretation gen_ctr: u64_counter generation_get Generation generation_checked_next
proof
  fix w :: u64 and c :: generation
  show "generation_get (Generation w) = w" by simp
  show "Generation (generation_get c) = c" by (cases c) simp
  show "generation_checked_next c = map_option Generation (u64_checked_succ (generation_get c))"
    by (simp add: generation_checked_next_def split: option.split)
qed

datatype entry_id = EntryId u64

primrec entry_id_get :: "entry_id \<Rightarrow> u64" where
  "entry_id_get (EntryId w) = w"

definition show_entry_id :: "entry_id \<Rightarrow> string" where
  "show_entry_id e = show_u64 (entry_id_get e)"

subsection \<open>The graph\<close>

record capability_graph =
  cg_definitions :: "(ident, capability_definition) fmap"

datatype capability_graph_error =
    UnknownCapability ident
  | MissingDependency ident ident
  | CapabilityCycle "ident list"

primrec show_capability_graph_error :: "capability_graph_error \<Rightarrow> string" where
  "show_capability_graph_error (UnknownCapability i) = ''unknown capability: '' @ show_ident i"
| "show_capability_graph_error (MissingDependency c d) =
     ''capability '' @ show_ident c @ '' requires missing dependency '' @ show_ident d"
| "show_capability_graph_error (CapabilityCycle p) =
     ''capability dependency cycle: '' @ join_with '' -> '' (map show_ident p)"

definition graph_empty :: capability_graph where
  "graph_empty = \<lparr>cg_definitions = fmempty\<rparr>"

definition graph_insert ::
  "capability_definition \<Rightarrow> capability_graph \<Rightarrow> capability_definition option \<times> capability_graph" where
  "graph_insert d g =
     (fmlookup (cg_definitions g) (cd_id d), g\<lparr>cg_definitions := fmupd (cd_id d) d (cg_definitions g)\<rparr>)"

definition graph_require ::
  "ident \<Rightarrow> ident \<Rightarrow> (capability_graph, unit, capability_graph_error) act" where
  "graph_require consumer i g =
     (if \<not> has_key (cg_definitions g) consumer then (Err (UnknownCapability consumer), g)
      else if \<not> has_key (cg_definitions g) i then (Err (MissingDependency consumer i), g)
      else case fmlookup (cg_definitions g) consumer of
             None \<Rightarrow> (Panic, g)
           | Some d \<Rightarrow> (Ok (), g\<lparr>cg_definitions := fmupd consumer (add_dependency i d) (cg_definitions g)\<rparr>))"

definition requirements :: "capability_graph \<Rightarrow> ident \<Rightarrow> ident list" where
  "requirements g i =
     (case fmlookup (cg_definitions g) i of
        None \<Rightarrow> []
      | Some d \<Rightarrow> map dep_id (bs_list (cd_dependencies d)))"

definition graph_len :: "capability_graph \<Rightarrow> nat" where
  "graph_len g = fcard (fmdom (cg_definitions g))"

definition graph_is_empty :: "capability_graph \<Rightarrow> bool" where
  "graph_is_empty g \<longleftrightarrow> cg_definitions g = fmempty"

definition from_definitions :: "capability_definition list \<Rightarrow> capability_graph" where
  "from_definitions ds = foldl (\<lambda>g d. snd (graph_insert d g)) graph_empty ds"

subsection \<open>The resolver\<close>

datatype cap_visit_state = CapActive | CapDone

record cap_search =
  cs_states :: "(ident, cap_visit_state) fmap"
  cs_path :: "ident list"
  cs_order :: "ident list"

text \<open>
  \<open>visit_requires g i ds\<close> is the \<open>for\<close> loop of \<open>visit\<close> at the capability \<open>i\<close> with the dependencies
  \<open>ds\<close> left, followed by the code after the loop; the call of \<open>visit\<close> inside the loop is unfolded to
  its match on the state of the dependency.
\<close>

function visit_requires ::
  "capability_graph \<Rightarrow> ident \<Rightarrow> ident list \<Rightarrow> (cap_search, unit, capability_graph_error) act" where
  "visit_requires g i [] v =
     (Ok (), v\<lparr>cs_path := butlast (cs_path v), cs_states := fmupd i CapDone (cs_states v),
              cs_order := cs_order v @ [i]\<rparr>)"
| "visit_requires g i (d # ds) v =
     (if \<not> has_key (cg_definitions g) d then (Err (MissingDependency i d), v)
      else case fmlookup (cs_states v) d of
             Some CapDone \<Rightarrow> visit_requires g i ds v
           | Some CapActive \<Rightarrow>
               (case position (\<lambda>a. a = d) (cs_path v) of
                  None \<Rightarrow> (Panic, v)
                | Some k \<Rightarrow> (Err (CapabilityCycle (drop k (cs_path v) @ [d])), v))
           | None \<Rightarrow>
               (case visit_requires g d (requirements g d)
                       (v\<lparr>cs_states := fmupd d CapActive (cs_states v), cs_path := cs_path v @ [d]\<rparr>) of
                  (Ok _, v') \<Rightarrow> visit_requires g i ds v'
                | (Err e, v') \<Rightarrow> (Err e, v')
                | (Panic, v') \<Rightarrow> (Panic, v')))"
  by pat_completeness auto

lemma visit_requires_states_grow:
  "visit_requires_dom (g, i, ds, v) \<Longrightarrow> visit_requires g i ds v = (Ok (), v') \<Longrightarrow>
   fmdom (cs_states v) |\<subseteq>| fmdom (cs_states v')"
proof (induction arbitrary: v' rule: visit_requires.pinduct)
  case (1 g i v)
  then show ?case by (auto simp: visit_requires.psimps)
next
  case (2 g i d ds v)
  note unfold = visit_requires.psimps(2) [OF "2.hyps"]
  have reg: "\<not> \<not> has_key (cg_definitions g) d" using "2.prems" by (auto simp: unfold split: if_splits)
  show ?case
  proof (cases "fmlookup (cs_states v) d")
    case None
    with reg "2.prems" obtain v1 where
      inner: "visit_requires g d (requirements g d)
        (v\<lparr>cs_states := fmupd d CapActive (cs_states v), cs_path := cs_path v @ [d]\<rparr>) = (Ok (), v1)"
      and rest: "visit_requires g i ds v1 = (Ok (), v')"
      by (auto simp: unfold split: prod.splits res.splits)
    from "2.IH"(1) [OF reg None inner] "2.IH"(2) [OF reg None inner [symmetric] refl rest] show ?thesis
      by auto
  next
    case (Some s)
    with reg "2.prems" have "s = CapDone" "visit_requires g i ds v = (Ok (), v')"
      by (auto simp: unfold split: cap_visit_state.splits option.splits)
    with "2.IH"(3) [OF reg] Some show ?thesis by simp
  qed
qed

lemma unresolved_card_less:
  assumes "has_key ds d" and "fmlookup m d = None"
  shows "card (fset (fmdom ds) - insert d (fset (fmdom m))) < card (fset (fmdom ds) - fset (fmdom m))"
proof (rule psubset_card_mono)
  have "d \<notin> fset (fmdom m)" using assms(2) by (rule fmdom_notI)
  moreover have "d \<in> fset (fmdom ds)" using assms(1) by (simp add: in_fmdom_iff)
  ultimately show "fset (fmdom ds) - insert d (fset (fmdom m)) \<subset> fset (fmdom ds) - fset (fmdom m)" by blast
qed simp

termination visit_requires
proof (relation "measures [\<lambda>(g, i, ds, v). card (fset (fmdom (cg_definitions g)) - fset (fmdom (cs_states v))),
    \<lambda>(g, i, ds, v). length ds]", goal_cases)
  case 1
  show ?case by simp
next
  case (2 g i d ds v)
  then have "has_key (cg_definitions g) d" by blast
  from unresolved_card_less [OF this 2(2)] show ?case by simp
next
  case (3 g i d ds v x y x1)
  then have "visit_requires g d (requirements g d)
      (v\<lparr>cs_states := fmupd d CapActive (cs_states v), cs_path := cs_path v @ [d]\<rparr>) = (Ok (), y)"
    by simp
  from visit_requires_states_grow [OF 3(5) this] have "fmdom (cs_states v) |\<subseteq>| fmdom (cs_states y)" by auto
  then have "card (fset (fmdom (cg_definitions g)) - fset (fmdom (cs_states y)))
      \<le> card (fset (fmdom (cg_definitions g)) - fset (fmdom (cs_states v)))"
    by (intro card_mono) (auto simp: less_eq_fset.rep_eq)
  then show ?case by auto
next
  case (4 g i d ds v x2)
  show ?case by simp
qed

declare visit_requires.simps [simp del]

text \<open>\<open>visit\<close>, as \<open>resolve\<close> calls it on every registered capability.\<close>

definition visit_capability ::
  "capability_graph \<Rightarrow> ident \<Rightarrow> (cap_search, unit, capability_graph_error) act" where
  "visit_capability g i v =
     (case fmlookup (cs_states v) i of
        Some CapDone \<Rightarrow> (Ok (), v)
      | Some CapActive \<Rightarrow>
          (case position (\<lambda>a. a = i) (cs_path v) of
             None \<Rightarrow> (Panic, v)
           | Some k \<Rightarrow> (Err (CapabilityCycle (drop k (cs_path v) @ [i])), v))
      | None \<Rightarrow>
          (case fmlookup (cg_definitions g) i of
             None \<Rightarrow> (Panic, v)
           | Some _ \<Rightarrow>
               visit_requires g i (requirements g i)
                 (v\<lparr>cs_states := fmupd i CapActive (cs_states v), cs_path := cs_path v @ [i]\<rparr>)))"

fun resolve_scan ::
  "capability_graph \<Rightarrow> ident list \<Rightarrow> (cap_search, unit, capability_graph_error) act" where
  "resolve_scan g [] v = (Ok (), v)"
| "resolve_scan g (i # is) v = act_bind (visit_capability g i) (\<lambda>_. resolve_scan g is) v"

record resolved_capability_graph =
  rg_construction_order :: "ident list"

definition teardown_order :: "resolved_capability_graph \<Rightarrow> ident list" where
  "teardown_order r = rev (rg_construction_order r)"

definition resolve :: "capability_graph \<Rightarrow> (resolved_capability_graph, capability_graph_error) res" where
  "resolve g =
     (case resolve_scan g (bt_keys (cg_definitions g))
             \<lparr>cs_states = fmempty, cs_path = [], cs_order = []\<rparr> of
        (Ok _, v) \<Rightarrow> Ok \<lparr>rg_construction_order = cs_order v\<rparr>
      | (Err e, _) \<Rightarrow> Err e
      | (Panic, _) \<Rightarrow> Panic)"

record validated_capability_definition =
  vd_definition :: capability_definition
  vd_resolution :: resolved_capability_graph

definition validate_candidate ::
  "capability_graph \<Rightarrow> capability_definition \<Rightarrow>
   (validated_capability_definition, capability_graph_error) res" where
  "validate_candidate g d =
     res_bind (resolve (snd (graph_insert d g)))
       (\<lambda>r. Ok \<lparr>vd_definition = d, vd_resolution = r\<rparr>)"

subsection \<open>What the resolver decides\<close>

lemma requirements_ne: "requirements g i \<noteq> [] \<Longrightarrow> has_key (cg_definitions g) i"
  by (auto simp: requirements_def split: option.splits)

interpretation cap: dep_graph "requirements g" for g
proof
  have "{i. requirements g i \<noteq> []} \<subseteq> fset (fmdom (cg_definitions g))"
    by (auto dest: requirements_ne simp: in_fmdom_iff)
  then show "finite {i. requirements g i \<noteq> []}"
    by (rule finite_subset) simp
qed

definition cap_inv :: "capability_graph \<Rightarrow> cap_search \<Rightarrow> bool" where
  "cap_inv g v \<longleftrightarrow>
     cap.search_inv g (cs_path v) (set (cs_order v)) \<and>
     (\<forall>i. fmlookup (cs_states v) i = Some CapActive \<longleftrightarrow> i \<in> set (cs_path v)) \<and>
     (\<forall>i. fmlookup (cs_states v) i = Some CapDone \<longleftrightarrow> i \<in> set (cs_order v)) \<and>
     distinct (cs_order v) \<and> deps_first (requirements g) (cs_order v) \<and>
     (\<forall>i \<in> set (cs_path v) \<union> set (cs_order v). has_key (cg_definitions g) i)"

lemma cap_inv_states:
  assumes "cap_inv g v" and "fmlookup (cs_states v) i = None"
  shows "i \<notin> set (cs_path v) \<and> i \<notin> set (cs_order v)"
  using assms unfolding cap_inv_def by (metis option.distinct(1))

lemma cap_inv_push:
  assumes inv: "cap_inv g v" and new: "fmlookup (cs_states v) d = None" and reg: "has_key (cg_definitions g) d"
    and edge: "cs_path v = [] \<or> d \<in> set (requirements g (last (cs_path v)))"
  shows "cap_inv g (v\<lparr>cs_states := fmupd d CapActive (cs_states v), cs_path := cs_path v @ [d]\<rparr>)"
  using inv cap_inv_states [OF inv new] reg edge cap.search_inv_push [of g "cs_path v" "set (cs_order v)" d]
  by (auto simp: cap_inv_def)

lemma cap_inv_pop:
  assumes inv: "cap_inv g v" and path: "cs_path v = s @ [i]"
    and reqs: "set (requirements g i) \<subseteq> set (cs_order v)"
  shows "cap_inv g (v\<lparr>cs_path := s, cs_states := fmupd i CapDone (cs_states v), cs_order := cs_order v @ [i]\<rparr>)"
proof -
  have "cap.search_inv g s (insert i (set (cs_order v)))"
    using inv path reqs by (intro cap.search_inv_pop) (auto simp: cap_inv_def)
  moreover have "i \<notin> set s" "i \<notin> set (cs_order v)"
    using inv path by (auto simp: cap_inv_def cap.search_inv_def)
  ultimately show ?thesis
    using inv path reqs by (auto simp: cap_inv_def deps_first_snoc)
qed

definition broken :: "capability_graph \<Rightarrow> capability_graph_error \<Rightarrow> bool" where
  "broken g e \<longleftrightarrow>
     (case e of
        UnknownCapability i \<Rightarrow> False
      | MissingDependency i d \<Rightarrow> d \<in> set (requirements g i) \<and> \<not> has_key (cg_definitions g) d
      | CapabilityCycle p \<Rightarrow> is_cycle (requirements g) p)"

definition cap_post :: "capability_graph \<Rightarrow> ident \<Rightarrow> cap_search \<Rightarrow> ident list \<Rightarrow>
    (unit, capability_graph_error) res \<times> cap_search \<Rightarrow> bool" where
  "cap_post g i v s r \<longleftrightarrow>
     (case r of
        (Ok _, v') \<Rightarrow> cap_inv g v' \<and> cs_path v' = s \<and> set (cs_order v) \<subseteq> set (cs_order v') \<and> i \<in> set (cs_order v')
      | (Err e, _) \<Rightarrow> broken g e
      | (Panic, _) \<Rightarrow> False)"

lemma visit_requires_post:
  assumes "cap_inv g v" and "cs_path v = s @ [i]"
    and "set ds \<subseteq> set (requirements g i)" and "set (requirements g i) \<subseteq> set ds \<union> set (cs_order v)"
  shows "cap_post g i v s (visit_requires g i ds v)"
  using assms
proof (induction g i ds v arbitrary: s rule: visit_requires.induct)
  case (1 g i v)
  then show ?case
    by (auto simp: visit_requires.simps cap_post_def intro: cap_inv_pop)
next
  case (2 g i d ds v)
  have d: "d \<in> set (requirements g i)" using "2.prems"(3) by simp
  show ?case
  proof (cases "has_key (cg_definitions g) d")
    case False
    with d show ?thesis by (simp add: visit_requires.simps cap_post_def broken_def)
  next
    case True
    then have reg: "\<not> \<not> has_key (cg_definitions g) d" by simp
    show ?thesis
    proof (cases "fmlookup (cs_states v) d")
      case None
      let ?v = "v\<lparr>cs_states := fmupd d CapActive (cs_states v), cs_path := cs_path v @ [d]\<rparr>"
      let ?r = "visit_requires g d (requirements g d) ?v"
      have "cap_inv g ?v" using "2.prems"(1,2) None True d by (intro cap_inv_push) auto
      then have inner: "cap_post g d ?v (s @ [i]) ?r"
        by (intro "2.IH"(1) [OF reg None]) (use "2.prems"(2) in simp_all)
      show ?thesis
      proof (cases "\<exists>v'. ?r = (Ok (), v')")
        case True
        then obtain v1 where r: "?r = (Ok (), v1)" by blast
        with inner have v1: "cap_inv g v1" "cs_path v1 = s @ [i]" "set (cs_order v) \<subseteq> set (cs_order v1)"
          "d \<in> set (cs_order v1)" by (auto simp: cap_post_def)
        have "cap_post g i v1 s (visit_requires g i ds v1)"
          by (rule "2.IH"(2) [OF reg None r [symmetric] refl]) (use v1 "2.prems" in auto)
        with v1 have "cap_post g i v s (visit_requires g i ds v1)"
          by (auto simp: cap_post_def split: prod.splits res.splits)
        with r None reg show ?thesis by (simp add: visit_requires.simps)
      next
        case False
        with inner None reg show ?thesis
          by (auto simp: visit_requires.simps cap_post_def split: prod.splits res.splits)
      qed
    next
      case (Some st)
      show ?thesis
      proof (cases st)
        case CapActive
        with Some "2.prems"(1,2) have "d \<in> set (s @ [i])" by (auto simp: cap_inv_def)
        then obtain k where k: "position (\<lambda>a. a = d) (s @ [i]) = Some k"
          by (metis (mono_tags, lifting) not_Some_eq position_None)
        from position_Some [OF k] have k': "k < length (s @ [i])" "(s @ [i]) ! k = d" by auto
        have "is_cycle (requirements g) (drop k (s @ [i]) @ [d])"
          by (rule cap.back_edge_cycle [OF _ _ _ k'])
            (use "2.prems"(1,2) d in \<open>auto simp: cap_inv_def\<close>)
        with Some CapActive k True "2.prems"(2) show ?thesis
          by (simp add: visit_requires.simps cap_post_def broken_def)
      next
        case CapDone
        with Some "2.prems"(1) have "d \<in> set (cs_order v)" by (simp add: cap_inv_def)
        then have "cap_post g i v s (visit_requires g i ds v)"
          by (intro "2.IH"(3) [OF reg Some CapDone]) (use "2.prems" in auto)
        with Some CapDone True show ?thesis by (simp add: visit_requires.simps)
      qed
    qed
  qed
qed

lemma visit_capability_post:
  assumes inv: "cap_inv g v" and path: "cs_path v = []" and reg: "has_key (cg_definitions g) i"
  shows "cap_post g i v [] (visit_capability g i v)"
proof (cases "fmlookup (cs_states v) i")
  case None
  let ?v = "v\<lparr>cs_states := fmupd i CapActive (cs_states v), cs_path := cs_path v @ [i]\<rparr>"
  have "cap_inv g ?v" by (rule cap_inv_push [OF inv None reg]) (simp add: path)
  then have "cap_post g i ?v [] (visit_requires g i (requirements g i) ?v)"
    by (rule visit_requires_post) (simp_all add: path)
  with None reg show ?thesis by (auto simp: visit_capability_def cap_post_def split: prod.splits res.splits)
next
  case (Some st)
  with inv path have "fmlookup (cs_states v) i = Some CapDone" "i \<in> set (cs_order v)"
    by (cases st; auto simp: cap_inv_def)+
  with inv path show ?thesis by (simp add: visit_capability_def cap_post_def)
qed

lemma resolve_scan_post:
  assumes "cap_inv g v" and "cs_path v = []" and "\<forall>i \<in> set is. has_key (cg_definitions g) i"
  shows "case resolve_scan g is v of
      (Ok _, v') \<Rightarrow> cap_inv g v' \<and> cs_path v' = [] \<and> set (cs_order v) \<union> set is \<subseteq> set (cs_order v')
    | (Err e, _) \<Rightarrow> broken g e
    | (Panic, _) \<Rightarrow> False"
  using assms
proof (induction "is" arbitrary: v)
  case (Cons i "is")
  have post: "cap_post g i v [] (visit_capability g i v)"
    using Cons.prems by (intro visit_capability_post) auto
  obtain r v1 where r: "visit_capability g i v = (r, v1)" by fastforce
  show ?case
  proof (cases r)
    case (Ok u)
    with post r have "cap_inv g v1" "cs_path v1 = []" "insert i (set (cs_order v)) \<subseteq> set (cs_order v1)"
      by (auto simp: cap_post_def)
    with Cons.IH [of v1] Cons.prems(3) Ok r show ?thesis
      by (auto simp: act_bind_def split: prod.splits res.splits)
  qed (use post r in \<open>simp_all add: act_bind_def cap_post_def\<close>)
qed simp

text \<open>The graphs that can be constructed: closed and acyclic.\<close>

definition constructible :: "capability_graph \<Rightarrow> bool" where
  "constructible g \<longleftrightarrow>
     (\<forall>i. \<forall>d \<in> set (requirements g i). has_key (cg_definitions g) d) \<and> acyclic (succ_rel (requirements g))"

lemma broken_not_constructible: "broken g e \<Longrightarrow> \<not> constructible g"
  by (auto simp: broken_def constructible_def split: capability_graph_error.splits
      dest: is_cycle_not_acyclic)

lemma resolve_cases:
  obtains (resolved) r where "resolve g = Ok r" "constructible g"
      "distinct (rg_construction_order r)" "set (rg_construction_order r) = fset (fmdom (cg_definitions g))"
      "deps_first (requirements g) (rg_construction_order r)"
  | (refused) e where "resolve g = Err e" "broken g e" "\<not> constructible g"
proof -
  let ?v0 = "\<lparr>cs_states = fmempty, cs_path = [], cs_order = []\<rparr> :: cap_search"
  have inv0: "cap_inv g ?v0" by (simp add: cap_inv_def cap.search_inv_start)
  have keys: "\<forall>i \<in> set (bt_keys (cg_definitions g)). has_key (cg_definitions g) i"
    by (auto simp: in_fmdom_iff)
  obtain x v where x: "resolve_scan g (bt_keys (cg_definitions g)) ?v0 = (x, v)" by fastforce
  note post = resolve_scan_post [OF inv0 _ keys, unfolded x]
  show ?thesis
  proof (cases x)
    case (Ok u)
    with post have inv: "cap_inv g v" "cs_path v = []" "fset (fmdom (cg_definitions g)) \<subseteq> set (cs_order v)"
      by auto
    then have order: "set (cs_order v) = fset (fmdom (cg_definitions g))"
      by (auto simp: cap_inv_def in_fmdom_iff)
    have "has_key (cg_definitions g) d" if "d \<in> set (requirements g i)" for i d
    proof -
      from that have "i \<in> set (cs_order v)"
        using requirements_ne [of g i] order by (fastforce simp: in_fmdom_iff)
      with inv(1) that deps_first_closed [of "requirements g" "cs_order v" i] show ?thesis
        by (auto simp: cap_inv_def)
    qed
    moreover have "acyclic (succ_rel (requirements g))"
    proof (rule cap.all_done_acyclic)
      show "cap.search_inv g [] (set (cs_order v))" using inv by (simp add: cap_inv_def)
      show "i \<in> set (cs_order v)" if "requirements g i \<noteq> []" for i
        using requirements_ne [OF that] order by (simp add: in_fmdom_iff)
    qed
    ultimately show ?thesis
      using Ok x inv order by (intro resolved [of "\<lparr>rg_construction_order = cs_order v\<rparr>"])
        (auto simp: resolve_def constructible_def cap_inv_def)
  next
    case (Err e)
    with post x show ?thesis
      by (intro refused [of e]) (auto simp: resolve_def broken_not_constructible)
  next
    case Panic
    with post show ?thesis by simp
  qed
qed

lemma from_definitions_lookup:
  "distinct (map cd_id ds) \<Longrightarrow>
   fmlookup (cg_definitions (from_definitions ds)) i = Some d \<longleftrightarrow> d \<in> set ds \<and> cd_id d = i"
proof (induction ds rule: rev_induct)
  case (snoc e ds)
  have "fmlookup (cg_definitions (from_definitions (ds @ [e]))) i =
      (if cd_id e = i then Some e else fmlookup (cg_definitions (from_definitions ds)) i)"
    by (simp add: from_definitions_def graph_insert_def)
  with snoc show ?case by auto
qed (simp add: from_definitions_def graph_empty_def)

lemma teardown_order_before:
  assumes "resolve g = Ok r" and "d \<in> set (requirements g i)"
  shows "\<exists>xs ys zs. teardown_order r = xs @ i # ys @ d # zs"
  using assms(1)
proof (cases rule: resolve_cases [of g])
  case (resolved r')
  with assms(1) have r: "r' = r" by simp
  have "i \<in> set (rg_construction_order r)"
    using requirements_ne [of g i] assms(2) resolved(4) r by (fastforce simp: in_fmdom_iff)
  then obtain k where k: "k < length (rg_construction_order r)" "rg_construction_order r ! k = i"
    by (auto simp: in_set_conv_nth)
  then have split: "rg_construction_order r =
      take k (rg_construction_order r) @ i # drop (Suc k) (rg_construction_order r)"
    by (metis id_take_nth_drop)
  have "d \<in> set (take k (rg_construction_order r))"
    using resolved(5) k assms(2) r unfolding deps_first_def by blast
  then obtain us vs where "take k (rg_construction_order r) = us @ d # vs" by (meson split_list)
  with split have "rg_construction_order r = us @ d # vs @ i # drop (Suc k) (rg_construction_order r)" by simp
  from arg_cong [OF this, of rev] have "teardown_order r =
      rev (drop (Suc k) (rg_construction_order r)) @ i # rev vs @ d # rev us"
    unfolding teardown_order_def by simp
  then show ?thesis by blast
qed simp

end
