(* ===== verification/Capability_Scope.thy ===== *)
theory Capability_Scope
  imports Capability_Resolver
begin

text \<open>
  The scope hierarchy of \<open>crates/capability-graph/src/runtime.rs\<close>: publication, replacement and
  withdrawal of local capabilities, lookup through the parents, admission of a candidate against
  every affected descendant, and teardown.

  A \<open>Scope\<close> is an \<open>Arc\<close> of its state.  Here it is a reference, whose shape holds the parent
  (\<open>ScopeState::parent\<close> never changes), into a heap of the states that are still allocated:
  \<open>Arc::ptr_eq\<close> is equality of references, and a \<open>Weak\<close> child can be upgraded as long as its key is
  in the heap.  The static counter of entry identities is part of the world.  The topology lock makes
  each operation below atomic; \<open>publish\<close> holds it twice and releases it while the factory runs, so
  its two halves are operations of their own.  The type of capability values is a parameter.
\<close>

subsection \<open>Values with a cleanup\<close>

text \<open>
  \<open>CapabilityValue\<close>: the value and the callback, both taken by \<open>drop\<close>.  The callback is code of the
  embedder, so \<open>drop\<close> reports the call it makes, the callback and its argument.
\<close>

record ('v, 'c) capability_value =
  cv_value :: "'v option"
  cv_cleanup :: "'c option"

definition value_from :: "'v \<Rightarrow> ('v, 'c) capability_value" where
  "value_from v = \<lparr>cv_value = Some v, cv_cleanup = None\<rparr>"

definition value_new :: "'v \<Rightarrow> 'c \<Rightarrow> ('v, 'c) capability_value" where
  "value_new v c = \<lparr>cv_value = Some v, cv_cleanup = Some c\<rparr>"

definition value_drop ::
  "('v, 'c) capability_value \<Rightarrow> ('c \<times> 'v) option \<times> ('v, 'c) capability_value" where
  "value_drop cv =
     (case cv_cleanup cv of
        None \<Rightarrow> (None, cv)
      | Some c \<Rightarrow>
          (case cv_value cv of
             None \<Rightarrow> (None, cv\<lparr>cv_cleanup := None\<rparr>)
           | Some v \<Rightarrow> (Some (c, v), cv\<lparr>cv_cleanup := None, cv_value := None\<rparr>)))"

subsection \<open>Handles and entries\<close>

text \<open>
  A handle shares the instance slot of its entry, that is the value and the dependency snapshot; the
  snapshot is a map by identifier, kept as its entries in the order of the identifiers.
\<close>

datatype 'v capability_handle = Handle
  (h_definition: capability_definition)
  (h_instance: 'v)
  (h_dependencies: "(ident \<times> 'v capability_handle) list")
  (h_generation: generation)
  (h_entry_id: entry_id)

type_synonym 'v resolved_dependencies = "(ident \<times> 'v capability_handle) list"

definition deps_get :: "'v resolved_dependencies \<Rightarrow> ident \<Rightarrow> 'v capability_handle option" where
  "deps_get hs i = map_of hs i"

definition deps_len :: "'v resolved_dependencies \<Rightarrow> nat" where
  "deps_len hs = length hs"

definition deps_is_empty :: "'v resolved_dependencies \<Rightarrow> bool" where
  "deps_is_empty hs \<longleftrightarrow> hs = []"

definition h_id :: "'v capability_handle \<Rightarrow> ident" where
  "h_id h = cd_id (h_definition h)"

definition h_kind :: "'v capability_handle \<Rightarrow> string" where
  "h_kind h = cd_kind (h_definition h)"

definition h_replay_identity :: "'v capability_handle \<Rightarrow> string" where
  "h_replay_identity h = cd_replay_identity (h_definition h)"

record 'v capability_entry =
  ce_definition :: capability_definition
  ce_instance :: 'v
  ce_dependencies :: "'v resolved_dependencies"
  ce_generation :: generation
  ce_entry_id :: entry_id

definition entry_handle :: "'v capability_entry \<Rightarrow> 'v capability_handle" where
  "entry_handle e =
     Handle (ce_definition e) (ce_instance e) (ce_dependencies e) (ce_generation e) (ce_entry_id e)"

type_synonym 'v entry_map = "(ident, 'v capability_entry) fmap"

subsection \<open>Scopes\<close>

datatype lifecycle = Open | Closing | Closed

definition lifecycle_from_raw :: "u8 \<Rightarrow> lifecycle" where
  "lifecycle_from_raw v = (if v = 0 then Open else if v = 1 then Closing else Closed)"

datatype scope_ref = Root nat | Child scope_ref nat

definition scope_parent :: "scope_ref \<Rightarrow> scope_ref option" where
  "scope_parent s = (case s of Root _ \<Rightarrow> None | Child p _ \<Rightarrow> Some p)"

text \<open>The children are kept by their number: the \<open>k\<close>-th child of \<open>s\<close> is \<open>Child s k\<close>.\<close>

record 'v scope_state =
  ss_entries :: "'v entry_map"
  ss_lifecycle :: lifecycle
  ss_children :: "nat list"

record 'v scope_world =
  sw_scopes :: "(scope_ref, 'v scope_state) fmap"
  sw_roots :: nat
  sw_next_entry_id :: u64

text \<open>Whoever calls an operation holds the scope, so its state is allocated.\<close>

definition scope_at :: "'v scope_world \<Rightarrow> scope_ref \<Rightarrow> 'v scope_state" where
  "scope_at w s =
     (case fmlookup (sw_scopes w) s of
        Some st \<Rightarrow> st
      | None \<Rightarrow> \<lparr>ss_entries = fmempty, ss_lifecycle = Closed, ss_children = []\<rparr>)"

definition scope_write :: "scope_ref \<Rightarrow> 'v scope_state \<Rightarrow> 'v scope_world \<Rightarrow> 'v scope_world" where
  "scope_write s st w = w\<lparr>sw_scopes := fmupd s st (sw_scopes w)\<rparr>"

definition is_open :: "'v scope_world \<Rightarrow> scope_ref \<Rightarrow> bool" where
  "is_open w s \<longleftrightarrow> ss_lifecycle (scope_at w s) = Open"

definition upgrade :: "'v scope_world \<Rightarrow> scope_ref \<Rightarrow> bool" where
  "upgrade w s \<longleftrightarrow> has_key (sw_scopes w) s"

definition scope_root :: "'v scope_world \<Rightarrow> scope_ref \<times> 'v scope_world" where
  "scope_root w =
     (Root (sw_roots w),
      scope_write (Root (sw_roots w)) \<lparr>ss_entries = fmempty, ss_lifecycle = Open, ss_children = []\<rparr>
        (w\<lparr>sw_roots := Suc (sw_roots w)\<rparr>))"

definition scope_child :: "scope_ref \<Rightarrow> 'v scope_world \<Rightarrow> scope_ref \<times> 'v scope_world" where
  "scope_child s w =
     (let k = length (ss_children (scope_at w s));
          child = \<lparr>ss_entries = fmempty, ss_lifecycle = (if is_open w s then Open else Closed), ss_children = []\<rparr>
      in (Child s k,
          scope_write (Child s k) child
            (scope_write s ((scope_at w s)\<lparr>ss_children := ss_children (scope_at w s) @ [k]\<rparr>) w)))"

text \<open>
  The last handle of a scope is dropped.  A child holds its parent, so a scope with an allocated
  child stays allocated.
\<close>

definition live_children :: "'v scope_world \<Rightarrow> scope_ref \<Rightarrow> scope_ref list" where
  "live_children w s = filter (upgrade w) (map (Child s) (ss_children (scope_at w s)))"

definition scope_drop :: "scope_ref \<Rightarrow> 'v scope_world \<Rightarrow> 'v scope_world" where
  "scope_drop s w =
     (if live_children w s = [] then w\<lparr>sw_scopes := fmdrop s (sw_scopes w)\<rparr> else w)"

subsection \<open>Lookup\<close>

definition get_local :: "'v scope_world \<Rightarrow> scope_ref \<Rightarrow> ident \<Rightarrow> 'v capability_handle option" where
  "get_local w s i =
     (if \<not> is_open w s then None else map_option entry_handle (fmlookup (ss_entries (scope_at w s)) i))"

definition has_local_entry :: "'v scope_world \<Rightarrow> scope_ref \<Rightarrow> ident \<Rightarrow> bool" where
  "has_local_entry w s i \<longleftrightarrow> has_key (ss_entries (scope_at w s)) i"

definition has_local :: "'v scope_world \<Rightarrow> scope_ref \<Rightarrow> ident \<Rightarrow> bool" where
  "has_local w s i = has_local_entry w s i"

fun scope_get :: "'v scope_world \<Rightarrow> scope_ref \<Rightarrow> ident \<Rightarrow> 'v capability_handle option" where
  "scope_get w (Root r) i =
     (if \<not> is_open w (Root r) then None
      else map_option entry_handle (fmlookup (ss_entries (scope_at w (Root r))) i))"
| "scope_get w (Child p k) i =
     (if \<not> is_open w (Child p k) then None
      else case fmlookup (ss_entries (scope_at w (Child p k))) i of
             Some e \<Rightarrow> Some (entry_handle e)
           | None \<Rightarrow> scope_get w p i)"

definition scope_generation :: "'v scope_world \<Rightarrow> scope_ref \<Rightarrow> ident \<Rightarrow> generation option" where
  "scope_generation w s i = map_option h_generation (scope_get w s i)"

definition local_definitions :: "'v entry_map \<Rightarrow> (ident, capability_definition) fmap" where
  "local_definitions es = fmmap ce_definition es"

fun visible_definitions :: "'v scope_world \<Rightarrow> scope_ref \<Rightarrow> (ident, capability_definition) fmap" where
  "visible_definitions w (Root r) =
     (if \<not> is_open w (Root r) then fmempty
      else fmadd fmempty (local_definitions (ss_entries (scope_at w (Root r)))))"
| "visible_definitions w (Child p k) =
     (if \<not> is_open w (Child p k) then fmempty
      else fmadd (visible_definitions w p) (local_definitions (ss_entries (scope_at w (Child p k)))))"

definition visible_graph :: "'v scope_world \<Rightarrow> scope_ref \<Rightarrow> capability_graph" where
  "visible_graph w s = from_definitions (bt_values (visible_definitions w s))"

definition visible_graph_with_entries ::
  "'v scope_world \<Rightarrow> scope_ref \<Rightarrow> 'v entry_map \<Rightarrow> capability_graph" where
  "visible_graph_with_entries w s es =
     from_definitions (bt_values (fmadd
       (case scope_parent s of None \<Rightarrow> fmempty | Some p \<Rightarrow> visible_definitions w p)
       (local_definitions es)))"

subsection \<open>Errors\<close>

datatype scope_error =
    GraphAdmission capability_graph_error
  | ScopeMissingDependency ident ident
  | ConstructionFailed ident string
  | AlreadyProvided ident generation
  | NoLocalEntry ident
  | ReplacementConflict ident generation generation
  | DependencyChanged ident ident
  | GenerationExhausted ident
  | ScopeClosed

fun scope_error_from :: "capability_graph_error \<Rightarrow> scope_error" where
  "scope_error_from (MissingDependency c d) = ScopeMissingDependency c d"
| "scope_error_from (UnknownCapability c) = GraphAdmission (UnknownCapability c)"
| "scope_error_from (CapabilityCycle p) = GraphAdmission (CapabilityCycle p)"

fun show_scope_error :: "scope_error \<Rightarrow> string" where
  "show_scope_error (GraphAdmission e) =
     ''runtime graph admission rejected: '' @ show_capability_graph_error e"
| "show_scope_error (ScopeMissingDependency c d) =
     ''capability '' @ show_ident c @ '' requires missing dependency '' @ show_ident d"
| "show_scope_error (ConstructionFailed c r) =
     ''failed to construct capability '' @ show_ident c @ '': '' @ r"
| "show_scope_error (AlreadyProvided c g) =
     ''capability '' @ show_ident c @ '' already has local generation '' @ show_generation g"
| "show_scope_error (NoLocalEntry c) =
     ''capability '' @ show_ident c @ '' has no local entry to replace''"
| "show_scope_error (ReplacementConflict c x a) =
     ''replacement conflict for '' @ show_ident c @ '': expected generation '' @ show_generation x @
     '', actual '' @ show_generation a"
| "show_scope_error (DependencyChanged c d) =
     ''dependency '' @ show_ident d @ '' changed while initializing '' @ show_ident c"
| "show_scope_error (GenerationExhausted c) = ''generation exhausted for capability '' @ show_ident c"
| "show_scope_error ScopeClosed = ''scope is already closing or closed''"

subsection \<open>Admission\<close>

definition validate_definition ::
  "'v scope_world \<Rightarrow> scope_ref \<Rightarrow> capability_definition \<Rightarrow>
   (validated_capability_definition, scope_error) res" where
  "validate_definition w s d =
     (if \<not> is_open w s then Err ScopeClosed
      else map_err scope_error_from (validate_candidate (visible_graph w s) d))"

datatype publish_expectation = New | Replace generation

definition check_expectation_locked ::
  "'v scope_world \<Rightarrow> scope_ref \<Rightarrow> ident \<Rightarrow> publish_expectation \<Rightarrow> 'v entry_map \<Rightarrow>
   (unit, scope_error) res" where
  "check_expectation_locked w s i x es =
     (case ss_lifecycle (scope_at w s) of
        Closing \<Rightarrow> Err ScopeClosed
      | Closed \<Rightarrow> Err ScopeClosed
      | Open \<Rightarrow>
          (case x of
             New \<Rightarrow>
               (case fmlookup es i of
                  Some e \<Rightarrow> Err (AlreadyProvided i (ce_generation e))
                | None \<Rightarrow> Ok ())
           | Replace expected \<Rightarrow>
               (case fmlookup es i of
                  None \<Rightarrow> Err (NoLocalEntry i)
                | Some e \<Rightarrow>
                    if ce_generation e \<noteq> expected
                    then Err (ReplacementConflict i expected (ce_generation e)) else Ok ())))"

definition check_expectation ::
  "'v scope_world \<Rightarrow> scope_ref \<Rightarrow> ident \<Rightarrow> publish_expectation \<Rightarrow> (unit, scope_error) res" where
  "check_expectation w s i x = check_expectation_locked w s i x (ss_entries (scope_at w s))"

text \<open>The loop of \<open>resolve_dependencies\<close>; the dependencies are visited in the order of their names.\<close>

fun resolve_each ::
  "'v scope_world \<Rightarrow> scope_ref \<Rightarrow> ident \<Rightarrow> dependency list \<Rightarrow>
   ('v resolved_dependencies, scope_error) res" where
  "resolve_each w s i [] = Ok []"
| "resolve_each w s i (d # ds) =
     (case scope_get w s (dep_id d) of
        None \<Rightarrow> Err (ScopeMissingDependency i (dep_id d))
      | Some h \<Rightarrow> res_bind (resolve_each w s i ds) (\<lambda>hs. Ok ((dep_id d, h) # hs)))"

definition resolve_dependencies ::
  "'v scope_world \<Rightarrow> scope_ref \<Rightarrow> capability_definition \<Rightarrow>
   ('v resolved_dependencies, scope_error) res" where
  "resolve_dependencies w s d = resolve_each w s (cd_id d) (bs_list (cd_dependencies d))"

text \<open>
  A candidate published in \<open>s\<close> is visible in a descendant unless a scope on the way is not open or
  has an entry of that name.
\<close>

fun candidate_affects :: "'v scope_world \<Rightarrow> scope_ref \<Rightarrow> scope_ref \<Rightarrow> ident \<Rightarrow> bool" where
  "candidate_affects w s (Root r) i \<longleftrightarrow> Root r = s"
| "candidate_affects w s (Child p k) i \<longleftrightarrow>
     (if Child p k = s then True
      else if \<not> is_open w (Child p k) \<or> has_local_entry w (Child p k) i then False
      else candidate_affects w s p i)"

definition deeper :: "'v scope_world \<Rightarrow> scope_ref \<Rightarrow> nat" where
  "deeper w s = card {r. has_key (sw_scopes w) r \<and> size s < size r}"

lemma deeper_less:
  assumes "c \<in> set (live_children w s)"
  shows "deeper w c < deeper w s"
proof -
  from assms have c: "has_key (sw_scopes w) c" "size s < size c"
    by (auto simp: live_children_def upgrade_def)
  have "finite {r. has_key (sw_scopes w) r}"
    by (rule finite_subset [of _ "fset (fmdom (sw_scopes w))"]) (auto simp: in_fmdom_iff)
  then have "finite {r. has_key (sw_scopes w) r \<and> size s < size r}" by (rule rev_finite_subset) auto
  moreover have "{r. has_key (sw_scopes w) r \<and> size c < size r} \<subset> {r. has_key (sw_scopes w) r \<and> size s < size r}"
    using c by auto
  ultimately show ?thesis unfolding deeper_def by (rule psubset_card_mono)
qed

function live_descendants :: "'v scope_world \<Rightarrow> scope_ref \<Rightarrow> scope_ref list" where
  "live_descendants w s = concat (map (\<lambda>c. c # live_descendants w c) (live_children w s))"
  by pat_completeness auto

termination live_descendants
  by (relation "measure (\<lambda>(w, s). deeper w s)") (auto dest: deeper_less)

function descendants_child_first :: "'v scope_world \<Rightarrow> scope_ref \<Rightarrow> scope_ref list" where
  "descendants_child_first w s =
     concat (map (\<lambda>c. descendants_child_first w c @ [c]) (live_children w s))"
  by pat_completeness auto

termination descendants_child_first
  by (relation "measure (\<lambda>(w, s). deeper w s)") (auto dest: deeper_less)

declare live_descendants.simps [simp del] descendants_child_first.simps [simp del]

fun admit_each ::
  "'v scope_world \<Rightarrow> scope_ref \<Rightarrow> capability_definition \<Rightarrow> scope_ref list \<Rightarrow> (unit, scope_error) res" where
  "admit_each w s d [] = Ok ()"
| "admit_each w s d (c # cs) =
     (if \<not> is_open w c \<or> \<not> candidate_affects w s c (cd_id d) then admit_each w s d cs
      else res_bind (map_err scope_error_from (validate_candidate (visible_graph w c) d))
             (\<lambda>_. admit_each w s d cs))"

definition validate_descendant_admission ::
  "'v scope_world \<Rightarrow> scope_ref \<Rightarrow> capability_definition \<Rightarrow> (unit, scope_error) res" where
  "validate_descendant_admission w s d = admit_each w s d (live_descendants w s)"

subsection \<open>Publication\<close>

definition allocate_entry_id :: "u64 \<Rightarrow> (entry_id \<times> u64) option" where
  "allocate_entry_id counter = map_option (\<lambda>n. (EntryId counter, n)) (u64_checked_succ counter)"

text \<open>
  The comparison of the snapshot with the current dependencies.  The \<open>expect\<close> on the snapshot fails
  when a requirement is missing from it.
\<close>

fun check_snapshot ::
  "ident \<Rightarrow> dependency list \<Rightarrow> 'v resolved_dependencies \<Rightarrow> 'v resolved_dependencies \<Rightarrow>
   (unit, scope_error) res" where
  "check_snapshot i [] snapshot current = Ok ()"
| "check_snapshot i (d # ds) snapshot current =
     (case deps_get snapshot (dep_id d) of
        None \<Rightarrow> Panic
      | Some x \<Rightarrow>
          (case deps_get current (dep_id d) of
             None \<Rightarrow> Panic
           | Some c \<Rightarrow>
               if h_generation c \<noteq> h_generation x \<or> h_entry_id c \<noteq> h_entry_id x
               then Err (DependencyChanged i (dep_id d))
               else check_snapshot i ds snapshot current))"

definition publication_generation ::
  "'v entry_map \<Rightarrow> capability_definition \<Rightarrow> publish_expectation \<Rightarrow> (generation, scope_error) res" where
  "publication_generation es d x =
     (case x of
        New \<Rightarrow> Ok generation_first
      | Replace _ \<Rightarrow>
          (case fmlookup es (cd_id d) of
             None \<Rightarrow> Panic
           | Some e \<Rightarrow>
               ok_or (generation_checked_next (ce_generation e)) (GenerationExhausted (cd_id d))))"

text \<open>Everything \<open>publish_preconstructed\<close> decides under the lock before it allocates an identity.\<close>

definition admit_publication ::
  "'v scope_world \<Rightarrow> scope_ref \<Rightarrow> capability_definition \<Rightarrow> publish_expectation \<Rightarrow>
   'v resolved_dependencies \<Rightarrow> (generation, scope_error) res" where
  "admit_publication w s d x snapshot =
     res_bind (resolve_dependencies w s d) (\<lambda>current.
     res_bind (check_snapshot (cd_id d) (bs_list (cd_dependencies d)) snapshot current) (\<lambda>_.
     res_bind (validate_descendant_admission w s d) (\<lambda>_.
     let entries = ss_entries (scope_at w s) in
     res_bind (check_expectation_locked w s (cd_id d) x entries) (\<lambda>_.
     res_bind (map_err scope_error_from (validate_candidate (visible_graph_with_entries w s entries) d)) (\<lambda>_.
     publication_generation entries d x)))))"

definition publish_preconstructed ::
  "scope_ref \<Rightarrow> capability_definition \<Rightarrow> publish_expectation \<Rightarrow> 'v resolved_dependencies \<Rightarrow> 'v \<Rightarrow>
   ('v scope_world, 'v capability_handle, scope_error) act" where
  "publish_preconstructed s d x snapshot v w =
     (case admit_publication w s d x snapshot of
        Err e \<Rightarrow> (Err e, w)
      | Panic \<Rightarrow> (Panic, w)
      | Ok g \<Rightarrow>
          (case allocate_entry_id (sw_next_entry_id w) of
             None \<Rightarrow> (Panic, w)
           | Some (n, counter) \<Rightarrow>
               (let entry = \<lparr>ce_definition = d, ce_instance = v, ce_dependencies = snapshot,
                             ce_generation = g, ce_entry_id = n\<rparr>;
                    st = scope_at w s
                in (Ok (entry_handle entry),
                    scope_write s (st\<lparr>ss_entries := fmupd (cd_id d) entry (ss_entries st)\<rparr>)
                      (w\<lparr>sw_next_entry_id := counter\<rparr>)))))"

text \<open>The first half of \<open>publish\<close>: what is checked, and resolved, before the factory runs.\<close>

definition publish_prepare ::
  "'v scope_world \<Rightarrow> scope_ref \<Rightarrow> capability_definition \<Rightarrow> publish_expectation \<Rightarrow>
   ('v resolved_dependencies, scope_error) res" where
  "publish_prepare w s d x =
     res_bind (check_expectation w s (cd_id d) x) (\<lambda>_.
     res_bind (map_err scope_error_from (validate_candidate (visible_graph w s) d)) (\<lambda>_.
     resolve_dependencies w s d))"

definition publish ::
  "scope_ref \<Rightarrow> capability_definition \<Rightarrow> publish_expectation \<Rightarrow>
   ('v resolved_dependencies \<Rightarrow> ('v, string) res) \<Rightarrow>
   ('v scope_world, 'v capability_handle, scope_error) act" where
  "publish s d x construct w =
     (case publish_prepare w s d x of
        Err e \<Rightarrow> (Err e, w)
      | Panic \<Rightarrow> (Panic, w)
      | Ok snapshot \<Rightarrow>
          (case map_err (ConstructionFailed (cd_id d)) (construct snapshot) of
             Err e \<Rightarrow> (Err e, w)
           | Panic \<Rightarrow> (Panic, w)
           | Ok v \<Rightarrow> publish_preconstructed s d x snapshot v w))"

definition provide ::
  "scope_ref \<Rightarrow> capability_definition \<Rightarrow> ('v resolved_dependencies \<Rightarrow> ('v, string) res) \<Rightarrow>
   ('v scope_world, 'v capability_handle, scope_error) act" where
  "provide s d construct = publish s d New construct"

definition replace ::
  "scope_ref \<Rightarrow> capability_definition \<Rightarrow> generation \<Rightarrow>
   ('v resolved_dependencies \<Rightarrow> ('v, string) res) \<Rightarrow>
   ('v scope_world, 'v capability_handle, scope_error) act" where
  "replace s d expected construct = publish s d (Replace expected) construct"

fun check_current ::
  "'v scope_world \<Rightarrow> scope_ref \<Rightarrow> ident \<Rightarrow> dependency list \<Rightarrow> 'v resolved_dependencies \<Rightarrow>
   (unit, scope_error) res" where
  "check_current w s i [] snapshot = Ok ()"
| "check_current w s i (d # ds) snapshot =
     (case deps_get snapshot (dep_id d) of
        None \<Rightarrow> Panic
      | Some x \<Rightarrow>
          (case scope_get w s (dep_id d) of
             None \<Rightarrow> Err (ScopeMissingDependency i (dep_id d))
           | Some c \<Rightarrow>
               if h_generation c \<noteq> h_generation x \<or> h_entry_id c \<noteq> h_entry_id x
               then Err (DependencyChanged i (dep_id d))
               else check_current w s i ds snapshot))"

definition provide_value ::
  "scope_ref \<Rightarrow> capability_definition \<Rightarrow> 'v resolved_dependencies \<Rightarrow> 'v \<Rightarrow>
   ('v scope_world, 'v capability_handle, scope_error) act" where
  "provide_value s d snapshot v w =
     (case check_current w s (cd_id d) (bs_list (cd_dependencies d)) snapshot of
        Err e \<Rightarrow> (Err e, w)
      | Panic \<Rightarrow> (Panic, w)
      | Ok _ \<Rightarrow> publish_preconstructed s d New snapshot v w)"

definition withdraw ::
  "scope_ref \<Rightarrow> ident \<Rightarrow> generation \<Rightarrow> ('v scope_world, 'v capability_handle, scope_error) act" where
  "withdraw s i expected w =
     (if \<not> is_open w s then (Err ScopeClosed, w)
      else case fmlookup (ss_entries (scope_at w s)) i of
             None \<Rightarrow> (Err (NoLocalEntry i), w)
           | Some e \<Rightarrow>
               if ce_generation e \<noteq> expected
               then (Err (ReplacementConflict i expected (ce_generation e)), w)
               else (Ok (entry_handle e),
                     scope_write s ((scope_at w s)\<lparr>ss_entries := fmdrop i (ss_entries (scope_at w s))\<rparr>) w))"

definition remove_local ::
  "scope_ref \<Rightarrow> ident \<Rightarrow> generation \<Rightarrow> ('v scope_world, unit, scope_error) act" where
  "remove_local s i expected = act_bind (withdraw s i expected) (\<lambda>_ w. (Ok (), w))"

subsection \<open>Teardown\<close>

text \<open>
  The graph that orders the teardown of one scope: its entries, then the definitions of the
  dependency snapshots, an identity at most once and a name already present kept.
\<close>

fun insert_snapshot ::
  "'v capability_handle \<Rightarrow> capability_graph \<times> entry_id fset \<Rightarrow> capability_graph \<times> entry_id fset" where
  "insert_snapshot (Handle d v hs g n) (graph, visited) =
     (if n |\<in>| visited then (graph, visited)
      else fold (\<lambda>(i, h) acc. insert_snapshot h acc) hs
             ((if has_key (cg_definitions graph) (cd_id d) then graph
               else graph\<lparr>cg_definitions := fmupd (cd_id d) d (cg_definitions graph)\<rparr>),
              finsert n visited))"

definition insert_entry ::
  "'v capability_entry \<Rightarrow> capability_graph \<times> entry_id fset \<Rightarrow> capability_graph \<times> entry_id fset" where
  "insert_entry e acc =
     (snd (graph_insert (ce_definition e) (fst acc)), finsert (ce_entry_id e) (snd acc))"

definition runtime_graph :: "'v entry_map \<Rightarrow> capability_graph" where
  "runtime_graph es =
     fst (fold (\<lambda>e. fold (\<lambda>(i, h). insert_snapshot h) (ce_dependencies e)) (bt_values es)
       (fold insert_entry (bt_values es) (graph_empty, {||})))"

definition runtime_teardown_order :: "'v entry_map \<Rightarrow> (ident list, unit) res" where
  "runtime_teardown_order es =
     (case resolve (runtime_graph es) of
        Ok r \<Rightarrow> Ok (teardown_order r)
      | Err _ \<Rightarrow> Panic
      | Panic \<Rightarrow> Panic)"

record 'v teardown_plan =
  tp_entries :: "'v entry_map"
  tp_order :: "ident list"

text \<open>The entries a plan releases, in the order in which it releases them.\<close>

fun drop_in_order :: "ident list \<Rightarrow> 'v entry_map \<Rightarrow> 'v capability_entry list" where
  "drop_in_order [] es = bt_values es"
| "drop_in_order (i # is) es =
     (case fmlookup es i of
        None \<Rightarrow> drop_in_order is es
      | Some e \<Rightarrow> e # drop_in_order is (fmdrop i es))"

definition drop_teardown_plans :: "'v teardown_plan list \<Rightarrow> 'v capability_entry list" where
  "drop_teardown_plans ps = concat (map (\<lambda>p. drop_in_order (tp_order p) (tp_entries p)) ps)"

text \<open>The loop of \<open>teardown\<close> over the scopes to close.\<close>

fun teardown_each :: "scope_ref list \<Rightarrow> ('v scope_world, 'v teardown_plan list, unit) act" where
  "teardown_each [] w = (Ok [], w)"
| "teardown_each (s # ss) w =
     (if \<not> is_open w s then teardown_each ss w
      else let st = scope_at w s;
               closing = scope_write s (st\<lparr>ss_lifecycle := Closing, ss_entries := fmempty\<rparr>) w
           in case runtime_teardown_order (ss_entries st) of
                Ok order \<Rightarrow>
                  act_bind (teardown_each ss)
                    (\<lambda>ps w'. (Ok (\<lparr>tp_entries = ss_entries st, tp_order = order\<rparr> # ps), w'))
                    (scope_write s (st\<lparr>ss_lifecycle := Closed, ss_entries := fmempty\<rparr>) w)
              | Err _ \<Rightarrow> (Panic, closing)
              | Panic \<Rightarrow> (Panic, closing))"

definition teardown :: "scope_ref \<Rightarrow> ('v scope_world, 'v capability_entry list, unit) act" where
  "teardown s w =
     act_bind (teardown_each (descendants_child_first w s @ [s]))
       (\<lambda>ps w'. (Ok (drop_teardown_plans ps), w')) w"

end
