(* ===== verification/Capability_Scope_Laws.thy ===== *)
theory Capability_Scope_Laws
  imports Capability_Scope
begin

text \<open>
  The library behind the properties of scopes: the heap of scopes as a tree, lookup after each
  operation, histories of calls, and the invariants they keep.
\<close>

subsection \<open>The shape of the heap\<close>

text \<open>\<open>below s t\<close>: \<open>t\<close> is \<open>s\<close> or one of its descendants.\<close>

fun below :: "scope_ref \<Rightarrow> scope_ref \<Rightarrow> bool" where
  "below s (Root r) \<longleftrightarrow> s = Root r"
| "below s (Child p k) \<longleftrightarrow> s = Child p k \<or> below s p"

lemma below_refl [simp]: "below s s"
  by (cases s) auto

lemma below_size: "below s t \<Longrightarrow> s = t \<or> size s < size t"
  by (induction t) auto

lemma below_trans: "below s t \<Longrightarrow> below t u \<Longrightarrow> below s u"
  by (induction u) auto

lemma below_child_parent: "below (Child p k) t \<Longrightarrow> below p t"
  by (induction t) auto

lemma not_below_parent [simp]: "\<not> below (Child p k) p"
  using below_size [of "Child p k" p] by auto

definition tree_shaped :: "'v scope_world \<Rightarrow> bool" where
  "tree_shaped w \<longleftrightarrow>
     (\<forall>p k. upgrade w (Child p k) \<longrightarrow> upgrade w p \<and> k < length (ss_children (scope_at w p))) \<and>
     (\<forall>s. set (ss_children (scope_at w s)) = {..<length (ss_children (scope_at w s))}) \<and>
     (\<forall>r. upgrade w (Root r) \<longrightarrow> r < sw_roots w)"

lemma tree_shaped_parent: "tree_shaped w \<Longrightarrow> upgrade w (Child p k) \<Longrightarrow> upgrade w p"
  by (simp add: tree_shaped_def)

lemma live_childrenD: "c \<in> set (live_children w s) \<Longrightarrow> \<exists>k. c = Child s k \<and> upgrade w c"
  by (auto simp: live_children_def)

lemma live_children_iff:
  assumes "tree_shaped w"
  shows "Child p k \<in> set (live_children w p) \<longleftrightarrow> upgrade w (Child p k)"
  using assms by (auto simp: live_children_def tree_shaped_def)

lemma live_descendants_below:
  "t \<in> set (live_descendants w s) \<Longrightarrow> below s t \<and> t \<noteq> s \<and> upgrade w t"
proof (induction w s rule: live_descendants.induct)
  case (1 w s)
  then obtain c where c: "c \<in> set (live_children w s)" "t = c \<or> t \<in> set (live_descendants w c)"
    by (subst (asm) live_descendants.simps) auto
  from live_childrenD [OF c(1)] obtain k where k: "c = Child s k" "upgrade w c" by blast
  show ?case
  proof (cases "t = c")
    case False
    with c have "t \<in> set (live_descendants w c)" by simp
    from 1(1) [OF c(1) this] k show ?thesis
      using below_child_parent [of s k t] not_below_parent [of s k] by auto
  qed (use k in auto)
qed

lemma live_descendants_complete:
  assumes tree: "tree_shaped w"
  shows "below s t \<Longrightarrow> t \<noteq> s \<Longrightarrow> upgrade w t \<Longrightarrow> t \<in> set (live_descendants w s)"
proof (induction "size t - size s" arbitrary: s rule: less_induct)
  case less
  have "\<exists>k. below (Child s k) t \<and> upgrade w (Child s k)" using less.prems
  proof (induction t)
    case (Child p k)
    show ?case
    proof (cases "s = p")
      case True
      with Child.prems show ?thesis by (intro exI [of _ k]) simp
    next
      case False
      with Child.prems have "below s p" "p \<noteq> s" "upgrade w p" using tree_shaped_parent [OF tree] by auto
      with Child.IH show ?thesis by auto
    qed
  qed simp
  then obtain k where k: "below (Child s k) t" "upgrade w (Child s k)" by blast
  then have c: "Child s k \<in> set (live_children w s)" by (simp add: live_children_iff [OF tree])
  have "t = Child s k \<or> t \<in> set (live_descendants w (Child s k))"
    using less.hyps [of "Child s k"] k(1) less.prems(3) below_size [OF k(1)] by fastforce
  with c show ?case by (subst live_descendants.simps) auto
qed

lemma set_live_descendants:
  "tree_shaped w \<Longrightarrow> set (live_descendants w s) = {t. below s t \<and> t \<noteq> s \<and> upgrade w t}"
  using live_descendants_below [of _ w s] live_descendants_complete [of w s] by blast

lemma set_descendants_child_first:
  "set (descendants_child_first w s) = set (live_descendants w s)"
  by (induction w s rule: live_descendants.induct)
    (subst descendants_child_first.simps, subst live_descendants.simps, auto)

subsection \<open>Frame rules\<close>

lemma scope_at_write [simp]: "scope_at (scope_write s st w) t = (if t = s then st else scope_at w t)"
  by (simp add: scope_at_def scope_write_def)

lemma upgrade_write [simp]: "upgrade (scope_write s st w) t \<longleftrightarrow> t = s \<or> upgrade w t"
  by (simp add: upgrade_def scope_write_def)

lemma is_open_write [simp]:
  "is_open (scope_write s st w) t \<longleftrightarrow> (if t = s then ss_lifecycle st = Open else is_open w t)"
  by (simp add: is_open_def)

lemma scope_write_fields [simp]:
  "sw_roots (scope_write s st w) = sw_roots w"
  "sw_next_entry_id (scope_write s st w) = sw_next_entry_id w"
  by (simp_all add: scope_write_def)

lemma scope_at_update [simp]:
  "scope_at (w\<lparr>sw_roots := n\<rparr>) t = scope_at w t"
  "scope_at (w\<lparr>sw_next_entry_id := c\<rparr>) t = scope_at w t"
  by (simp_all add: scope_at_def)

lemma upgrade_update [simp]:
  "upgrade (w\<lparr>sw_roots := n\<rparr>) t = upgrade w t"
  "upgrade (w\<lparr>sw_next_entry_id := c\<rparr>) t = upgrade w t"
  by (simp_all add: upgrade_def)

lemma is_open_update [simp]:
  "is_open (w\<lparr>sw_roots := n\<rparr>) t = is_open w t"
  "is_open (w\<lparr>sw_next_entry_id := c\<rparr>) t = is_open w t"
  by (simp_all add: is_open_def)

lemma scope_at_dead: "\<not> upgrade w t \<Longrightarrow>
    scope_at w t = \<lparr>ss_entries = fmempty, ss_lifecycle = Closed, ss_children = []\<rparr>"
  by (simp add: scope_at_def upgrade_def)

lemma is_open_upgrade: "is_open w t \<Longrightarrow> upgrade w t"
  using scope_at_dead [of w t] by (cases "upgrade w t") (simp_all add: is_open_def)

text \<open>What a lookup and an admission check see of the world: the scopes at and above the one asked.\<close>

definition same_view :: "'v scope_world \<Rightarrow> 'v scope_world \<Rightarrow> scope_ref \<Rightarrow> bool" where
  "same_view w w' s \<longleftrightarrow>
     (is_open w' s \<longleftrightarrow> is_open w s) \<and> ss_entries (scope_at w' s) = ss_entries (scope_at w s)"

lemma scope_get_cong:
  "(\<And>a. below a s \<Longrightarrow> same_view w w' a) \<Longrightarrow> scope_get w' s i = scope_get w s i"
proof (induction s)
  case (Child p k)
  then have "scope_get w' p i = scope_get w p i" by simp
  moreover have "same_view w w' (Child p k)" using Child.prems by simp
  ultimately show ?case by (simp add: same_view_def split: option.split)
qed (simp add: same_view_def)

text \<open>Lookup and the visible definitions agree.\<close>

lemma visible_definitions_get:
  "fmlookup (visible_definitions w s) i = map_option h_definition (scope_get w s i)"
proof (induction s)
  case (Child p k)
  then show ?case
    by (auto simp: local_definitions_def entry_handle_def fmlookup_dom_iff split: option.splits)
qed (auto simp: local_definitions_def entry_handle_def option.map_comp comp_def)

lemma visible_definitions_cong:
  "(\<And>a. below a s \<Longrightarrow> same_view w w' a) \<Longrightarrow> visible_definitions w' s = visible_definitions w s"
  by (rule fmap_ext) (simp add: visible_definitions_get scope_get_cong [of s w w'])

lemma visible_graph_cong:
  "(\<And>a. below a s \<Longrightarrow> same_view w w' a) \<Longrightarrow> visible_graph w' s = visible_graph w s"
  by (simp add: visible_graph_def visible_definitions_cong [of s w w'])

subsection \<open>Entries under their own names\<close>

definition keyed :: "'v scope_world \<Rightarrow> bool" where
  "keyed w \<longleftrightarrow>
     (\<forall>s i e. fmlookup (ss_entries (scope_at w s)) i = Some e \<longrightarrow> cd_id (ce_definition e) = i)"

lemma scope_get_entry:
  "scope_get w s i = Some h \<Longrightarrow>
   \<exists>a e. below a s \<and> is_open w a \<and> fmlookup (ss_entries (scope_at w a)) i = Some e \<and> h = entry_handle e"
proof (induction s)
  case (Child p k)
  show ?case
  proof (cases "fmlookup (ss_entries (scope_at w (Child p k))) i")
    case None
    with Child.prems have "scope_get w p i = Some h" by (auto split: if_splits)
    with Child.IH show ?thesis by (meson below.simps(2))
  next
    case (Some e)
    with Child.prems show ?thesis by (intro exI [of _ "Child p k"] exI [of _ e]) (auto split: if_splits)
  qed
next
  case (Root r)
  then show ?case by (auto split: if_splits)
qed

lemma keyed_get: "keyed w \<Longrightarrow> scope_get w s i = Some h \<Longrightarrow> h_id h = i"
  by (auto dest!: scope_get_entry simp: keyed_def h_id_def entry_handle_def)

definition ids_match :: "(ident, capability_definition) fmap \<Rightarrow> bool" where
  "ids_match m \<longleftrightarrow> (\<forall>i d. fmlookup m i = Some d \<longrightarrow> cd_id d = i)"

lemma from_definitions_values:
  assumes "ids_match m"
  shows "cg_definitions (from_definitions (bt_values m)) = m"
proof -
  have "map cd_id (bt_values m) = bt_keys m"
    unfolding bt_values_def map_map
    by (rule map_idI) (use assms in \<open>auto simp: ids_match_def fmlookup_dom_iff\<close>)
  then have "distinct (map cd_id (bt_values m))" by simp
  then have "fmlookup (cg_definitions (from_definitions (bt_values m))) i = Some d \<longleftrightarrow> fmlookup m i = Some d" for i d
    using assms by (auto simp: from_definitions_lookup in_bt_values ids_match_def)
  then show ?thesis by (intro fmap_ext) (metis option.exhaust)
qed

lemma ids_match_visible: "keyed w \<Longrightarrow> ids_match (visible_definitions w s)"
  by (auto simp: ids_match_def visible_definitions_get h_id_def dest!: keyed_get)

lemma visible_graph_lookup:
  "keyed w \<Longrightarrow> fmlookup (cg_definitions (visible_graph w s)) i = map_option h_definition (scope_get w s i)"
  by (simp add: visible_graph_def from_definitions_values ids_match_visible visible_definitions_get)

lemma capability_graph_eqI: "(\<And>i. fmlookup (cg_definitions g) i = fmlookup (cg_definitions g') i) \<Longrightarrow> g = (g' :: capability_graph)"
  by (cases g; cases g') (auto intro: fmap_ext)

lemma visible_graph_own_entries:
  "is_open w s \<Longrightarrow> visible_graph_with_entries w s (ss_entries (scope_at w s)) = visible_graph w s"
  by (cases s) (simp_all add: visible_graph_with_entries_def visible_graph_def scope_parent_def)

lemma validate_candidate_Ok:
  "(\<exists>p. validate_candidate g d = Ok p) \<longleftrightarrow> constructible (snd (graph_insert d g))"
  by (cases rule: resolve_cases [of "snd (graph_insert d g)"]) (auto simp: validate_candidate_def)

lemma validate_candidate_not_Panic: "validate_candidate g d \<noteq> Panic"
  by (cases rule: resolve_cases [of "snd (graph_insert d g)"]) (auto simp: validate_candidate_def)

subsection \<open>Writing an entry\<close>

definition entry_write :: "scope_ref \<Rightarrow> ident \<Rightarrow> 'v capability_entry \<Rightarrow> 'v scope_world \<Rightarrow> 'v scope_world" where
  "entry_write s i e w =
     scope_write s ((scope_at w s)\<lparr>ss_entries := fmupd i e (ss_entries (scope_at w s))\<rparr>) w"

lemma candidate_affects_below: "candidate_affects w s t i \<Longrightarrow> below s t"
  by (induction t) (auto split: if_splits)

lemma candidate_affects_self [simp]: "candidate_affects w s s i"
  by (cases s) auto

lemma candidate_affects_open: "candidate_affects w s t i \<Longrightarrow> is_open w s \<Longrightarrow> is_open w t"
  by (cases t) (auto split: if_splits)

lemma entry_write_view [simp]:
  "is_open (entry_write s i e w) t \<longleftrightarrow> is_open w t"
  "upgrade (entry_write s i e w) t \<longleftrightarrow> t = s \<or> upgrade w t"
  "ss_entries (scope_at (entry_write s i e w) t) =
     (if t = s then fmupd i e (ss_entries (scope_at w s)) else ss_entries (scope_at w t))"
  "ss_children (scope_at (entry_write s i e w) t) = ss_children (scope_at w t)"
  "ss_lifecycle (scope_at (entry_write s i e w) t) = ss_lifecycle (scope_at w t)"
  by (simp_all add: entry_write_def) (simp add: is_open_def)

lemma scope_get_entry_write:
  assumes "is_open w s"
  shows "scope_get (entry_write s i e w) t j =
    (if j = i \<and> candidate_affects w s t i then Some (entry_handle e) else scope_get w t j)"
proof (induction t)
  case (Child p k)
  show ?case
  proof (cases "Child p k = s")
    case True
    have "\<not> candidate_affects w s p i" using candidate_affects_below True by fastforce
    with Child have "scope_get (entry_write s i e w) p j = scope_get w p j" by simp
    with True assms show ?thesis by (auto split: option.splits)
  next
    case False
    with Child show ?thesis by (auto simp: has_local_entry_def split: option.splits)
  qed
qed (use assms in auto)

lemma keyed_entry_write: "keyed w \<Longrightarrow> cd_id (ce_definition e) = i \<Longrightarrow> keyed (entry_write s i e w)"
  by (auto simp: keyed_def split: if_splits)

lemma visible_graph_entry_write:
  assumes "keyed w" and "is_open w s" and "cd_id (ce_definition e) = i"
  shows "visible_graph (entry_write s i e w) t =
    (if candidate_affects w s t i then snd (graph_insert (ce_definition e) (visible_graph w t)) else visible_graph w t)"
  by (rule capability_graph_eqI)
    (use assms in \<open>auto simp: visible_graph_lookup keyed_entry_write scope_get_entry_write graph_insert_def
      entry_handle_def\<close>)

subsection \<open>Admission\<close>

lemma admit_each_Ok:
  "admit_each w s d cs = Ok () \<longleftrightarrow>
   (\<forall>c \<in> set cs. is_open w c \<and> candidate_affects w s c (cd_id d) \<longrightarrow>
      constructible (snd (graph_insert d (visible_graph w c))))"
  by (induction cs) (auto simp: validate_candidate_Ok)

text \<open>
  A view of capabilities by name, for which requirements are resolved one by one: the contract that a
  client of a scope or of a context relies on.
\<close>

locale capability_view =
  fixes find :: "'w \<Rightarrow> 'c \<Rightarrow> ident \<Rightarrow> 'v capability_handle option"
    and resolve_reqs :: "'w \<Rightarrow> 'c \<Rightarrow> ident \<Rightarrow> dependency list \<Rightarrow> ('v resolved_dependencies, scope_error) res"
  assumes resolve_nil: "resolve_reqs w c i [] = Ok []"
    and resolve_cons: "resolve_reqs w c i (d # ds) =
      (case find w c (dep_id d) of
         None \<Rightarrow> Err (ScopeMissingDependency i (dep_id d))
       | Some h \<Rightarrow> res_bind (resolve_reqs w c i ds) (\<lambda>hs. Ok ((dep_id d, h) # hs)))"
begin

lemma resolved_exactly:
  "resolve_reqs w c i ds = Ok hs \<longleftrightarrow>
   map fst hs = map dep_id ds \<and> (\<forall>(j, h) \<in> set hs. find w c j = Some h)"
proof (induction ds arbitrary: hs)
  case (Cons d ds)
  then show ?case by (cases hs) (auto simp: resolve_cons split: option.splits)
qed (auto simp: resolve_nil)

lemma refused_by_first_missing:
  "resolve_reqs w c i ds = Err e \<Longrightarrow>
   \<exists>d \<in> set ds. find w c (dep_id d) = None \<and> e = ScopeMissingDependency i (dep_id d)"
proof (induction ds)
  case (Cons d ds)
  show ?case
  proof (cases "find w c (dep_id d)")
    case None
    with Cons.prems show ?thesis by (simp add: resolve_cons)
  next
    case (Some h)
    with Cons.prems have "resolve_reqs w c i ds = Err e"
      by (cases "resolve_reqs w c i ds") (simp_all add: resolve_cons)
    with Cons.IH show ?thesis by auto
  qed
qed (simp add: resolve_nil)

lemma always_decides: "resolve_reqs w c i ds \<noteq> Panic"
  by (induction ds) (auto simp: resolve_nil resolve_cons res_bind_eq_Panic split: option.splits)

end

interpretation scope_view: capability_view scope_get resolve_each
  by unfold_locales simp_all

lemma resolve_dependencies_Ok:
  "resolve_dependencies w s d = Ok hs \<longleftrightarrow>
   map fst hs = map dep_id (bs_list (cd_dependencies d)) \<and> (\<forall>(j, h) \<in> set hs. scope_get w s j = Some h)"
  by (simp add: resolve_dependencies_def scope_view.resolved_exactly)

lemma check_snapshot_Ok:
  "check_snapshot i ds snapshot current = Ok () \<longleftrightarrow>
   (\<forall>d \<in> set ds. \<exists>x c. deps_get snapshot (dep_id d) = Some x \<and> deps_get current (dep_id d) = Some c \<and>
      h_generation c = h_generation x \<and> h_entry_id c = h_entry_id x)"
  by (induction ds) (auto split: option.splits)

lemma dep_ids_distinct: "distinct (map dep_id (bs_list A))"
  by (simp add: distinct_map inj_on_def dependency.expand)

lemma resolved_get:
  assumes "resolve_dependencies w s d = Ok hs" and "Dependency j |\<in>| cd_dependencies d"
  shows "deps_get hs j = scope_get w s j \<and> scope_get w s j \<noteq> None"
proof -
  have keys: "map fst hs = map dep_id (bs_list (cd_dependencies d))"
    and vals: "\<forall>(j, h) \<in> set hs. scope_get w s j = Some h"
    using assms(1) by (auto simp: resolve_dependencies_Ok)
  have "j \<in> dep_id ` fset (cd_dependencies d)" using assms(2) by (metis dependency.sel image_eqI)
  then have "j \<in> set (map fst hs)" by (simp add: keys)
  then obtain h where h: "map_of hs j = Some h" by (metis list.set_map map_of_eq_None_iff option.exhaust)
  then have "(j, h) \<in> set hs" by (rule map_of_SomeD)
  with vals h show ?thesis by (auto simp: deps_get_def)
qed

text \<open>What an expectation asks of the local entry, and the generation it grants.\<close>

definition expectation_met :: "'v entry_map \<Rightarrow> ident \<Rightarrow> publish_expectation \<Rightarrow> generation \<Rightarrow> bool" where
  "expectation_met es i x g \<longleftrightarrow>
     (case x of
        New \<Rightarrow> fmlookup es i = None \<and> g = generation_first
      | Replace expected \<Rightarrow>
          (\<exists>e. fmlookup es i = Some e \<and> ce_generation e = expected \<and> generation_checked_next expected = Some g))"

lemma check_expectation_locked_Ok:
  "check_expectation_locked w s i x es = Ok u \<longleftrightarrow>
   is_open w s \<and> (case x of New \<Rightarrow> fmlookup es i = None
     | Replace expected \<Rightarrow> \<exists>e. fmlookup es i = Some e \<and> ce_generation e = expected)"
  by (auto simp: check_expectation_locked_def is_open_def
      split: lifecycle.splits publish_expectation.splits option.splits)

lemma expectation_granted:
  "check_expectation_locked w s (cd_id d) x es = Ok u \<and> publication_generation es d x = Ok g \<longleftrightarrow>
   is_open w s \<and> expectation_met es (cd_id d) x g"
  by (auto simp: check_expectation_locked_Ok publication_generation_def expectation_met_def
      split: publish_expectation.splits option.splits)

definition snapshot_current ::
  "'v scope_world \<Rightarrow> scope_ref \<Rightarrow> capability_definition \<Rightarrow> 'v resolved_dependencies \<Rightarrow> bool" where
  "snapshot_current w s d snapshot \<longleftrightarrow>
     (\<forall>j. Dependency j |\<in>| cd_dependencies d \<longrightarrow>
        (\<exists>x c. deps_get snapshot j = Some x \<and> scope_get w s j = Some c \<and>
           h_generation c = h_generation x \<and> h_entry_id c = h_entry_id x))"

lemma snapshot_currentI:
  assumes "resolve_dependencies w s d = Ok current"
    and "check_snapshot i (bs_list (cd_dependencies d)) snapshot current = Ok ()"
  shows "snapshot_current w s d snapshot"
  unfolding snapshot_current_def
proof (intro allI impI)
  fix j
  assume j: "Dependency j |\<in>| cd_dependencies d"
  then have "Dependency j \<in> set (bs_list (cd_dependencies d))" by simp
  with assms(2) obtain x c where "deps_get snapshot j = Some x" "deps_get current j = Some c"
    "h_generation c = h_generation x" "h_entry_id c = h_entry_id x"
    unfolding check_snapshot_Ok by fastforce
  with resolved_get [OF assms(1) j]
  show "\<exists>x c. deps_get snapshot j = Some x \<and> scope_get w s j = Some c \<and>
      h_generation c = h_generation x \<and> h_entry_id c = h_entry_id x" by auto
qed

lemma resolve_each_exists:
  "(\<forall>d \<in> set ds. scope_get w s (dep_id d) \<noteq> None) \<Longrightarrow> \<exists>hs. resolve_each w s i ds = Ok hs"
  by (induction ds) auto

lemma snapshot_currentD:
  assumes cur: "snapshot_current w s d snapshot"
  obtains current where "resolve_dependencies w s d = Ok current"
    and "check_snapshot i (bs_list (cd_dependencies d)) snapshot current = Ok ()"
proof -
  have vis: "\<forall>e \<in> set (bs_list (cd_dependencies d)). scope_get w s (dep_id e) \<noteq> None"
    using cur by (force simp: snapshot_current_def)
  then obtain current where c: "resolve_dependencies w s d = Ok current"
    using resolve_each_exists [of "bs_list (cd_dependencies d)" w s] by (auto simp: resolve_dependencies_def)
  have "check_snapshot i (bs_list (cd_dependencies d)) snapshot current = Ok ()"
    unfolding check_snapshot_Ok
  proof
    fix e
    assume "e \<in> set (bs_list (cd_dependencies d))"
    then have "Dependency (dep_id e) |\<in>| cd_dependencies d" by simp
    with cur resolved_get [OF c this]
    show "\<exists>x c. deps_get snapshot (dep_id e) = Some x \<and> deps_get current (dep_id e) = Some c \<and>
        h_generation c = h_generation x \<and> h_entry_id c = h_entry_id x"
      unfolding snapshot_current_def by metis
  qed
  with c that show thesis by blast
qed

text \<open>The decision of \<open>publish_preconstructed\<close>, condition by condition.\<close>

definition admissible ::
  "'v scope_world \<Rightarrow> scope_ref \<Rightarrow> capability_definition \<Rightarrow> publish_expectation \<Rightarrow>
   'v resolved_dependencies \<Rightarrow> generation \<Rightarrow> bool" where
  "admissible w s d x snapshot g \<longleftrightarrow>
     is_open w s \<and> snapshot_current w s d snapshot \<and>
     expectation_met (ss_entries (scope_at w s)) (cd_id d) x g \<and>
     constructible (snd (graph_insert d (visible_graph w s))) \<and>
     (\<forall>c \<in> set (live_descendants w s). is_open w c \<and> candidate_affects w s c (cd_id d) \<longrightarrow>
        constructible (snd (graph_insert d (visible_graph w c))))"

lemma admit_publication_Ok: "admit_publication w s d x snapshot = Ok g \<longleftrightarrow> admissible w s d x snapshot g"
proof -
  let ?es = "ss_entries (scope_at w s)"
  have split: "admit_publication w s d x snapshot = Ok g \<longleftrightarrow>
      (\<exists>current. resolve_dependencies w s d = Ok current \<and>
         check_snapshot (cd_id d) (bs_list (cd_dependencies d)) snapshot current = Ok ()) \<and>
      validate_descendant_admission w s d = Ok () \<and>
      (is_open w s \<and> expectation_met ?es (cd_id d) x g) \<and>
      (\<exists>p. validate_candidate (visible_graph_with_entries w s ?es) d = Ok p)"
    unfolding expectation_granted [of w s d x ?es "()" g, symmetric] admit_publication_def Let_def by auto
  have "(\<exists>current. resolve_dependencies w s d = Ok current \<and>
      check_snapshot (cd_id d) (bs_list (cd_dependencies d)) snapshot current = Ok ()) \<longleftrightarrow>
      snapshot_current w s d snapshot"
    by (meson snapshot_currentI snapshot_currentD)
  then show ?thesis
    unfolding split admissible_def validate_candidate_Ok
    by (auto simp: visible_graph_own_entries validate_descendant_admission_def admit_each_Ok)
qed

lemma publish_preconstructed_Ok:
  "publish_preconstructed s d x snapshot v w = (Ok h, w') \<longleftrightarrow>
   (\<exists>g counter e. admissible w s d x snapshot g \<and> u64_checked_succ (sw_next_entry_id w) = Some counter \<and>
      e = \<lparr>ce_definition = d, ce_instance = v, ce_dependencies = snapshot, ce_generation = g,
           ce_entry_id = EntryId (sw_next_entry_id w)\<rparr> \<and>
      h = entry_handle e \<and> w' = entry_write s (cd_id d) e (w\<lparr>sw_next_entry_id := counter\<rparr>))"
  by (auto simp: publish_preconstructed_def admit_publication_Ok [symmetric] allocate_entry_id_def
      entry_write_def Let_def split: res.splits option.splits)

lemma publishedE:
  assumes "publish_preconstructed s d x snapshot v w = (Ok h, w')"
  obtains g counter e where "admissible w s d x snapshot g" and "u64_checked_succ (sw_next_entry_id w) = Some counter"
    and "ce_definition e = d" and "ce_instance e = v" and "ce_dependencies e = snapshot" and "ce_generation e = g"
    and "ce_entry_id e = EntryId (sw_next_entry_id w)" and "h = entry_handle e"
    and "w' = entry_write s (cd_id d) e (w\<lparr>sw_next_entry_id := counter\<rparr>)"
  using assms unfolding publish_preconstructed_Ok by (elim exE conjE) (rule that; simp)

lemma publish_preconstructed_Err: "publish_preconstructed s d x snapshot v w = (Err e, w') \<Longrightarrow> w' = w"
  by (auto simp: publish_preconstructed_def Let_def split: res.splits option.splits)

subsection \<open>Histories\<close>

text \<open>
  The calls a scope world receives.  \<open>Publish_value\<close> is the second half of \<open>publish\<close>, with any
  snapshot and value: as the lock is free while a factory runs, every interleaving of publications is
  a sequence of such calls, each after whatever preparation its thread made.  \<open>Provide_value\<close> is the
  asynchronous variant.  A call needs the scope it names to be allocated; a call that panics ends the
  history, since it poisons the topology lock.
\<close>

datatype 'v scope_call =
    New_root
  | New_child scope_ref
  | Publish_value scope_ref capability_definition publish_expectation "'v resolved_dependencies" 'v
  | Provide_value scope_ref capability_definition "'v resolved_dependencies" 'v
  | Withdraw scope_ref ident generation
  | Teardown scope_ref
  | Drop_scope scope_ref

definition after :: "('a, 'e) res \<times> 'w \<Rightarrow> 'w option" where
  "after r = (case r of (Panic, _) \<Rightarrow> None | (_, w) \<Rightarrow> Some w)"

fun scope_exec :: "'v scope_call \<Rightarrow> 'v scope_world \<Rightarrow> 'v scope_world option" where
  "scope_exec New_root w = Some (snd (scope_root w))"
| "scope_exec (New_child s) w = (if upgrade w s then Some (snd (scope_child s w)) else None)"
| "scope_exec (Publish_value s d x hs v) w =
     (if upgrade w s then after (publish_preconstructed s d x hs v w) else None)"
| "scope_exec (Provide_value s d hs v) w = (if upgrade w s then after (provide_value s d hs v w) else None)"
| "scope_exec (Withdraw s i g) w = (if upgrade w s then after (withdraw s i g w) else None)"
| "scope_exec (Teardown s) w = (if upgrade w s then after (teardown s w) else None)"
| "scope_exec (Drop_scope s) w = (if upgrade w s then Some (scope_drop s w) else None)"

fun scope_run :: "'v scope_call list \<Rightarrow> 'v scope_world \<Rightarrow> 'v scope_world option" where
  "scope_run [] w = Some w"
| "scope_run (c # cs) w = (case scope_exec c w of None \<Rightarrow> None | Some w' \<Rightarrow> scope_run cs w')"

definition scope_start :: "'v scope_world" where
  "scope_start = \<lparr>sw_scopes = fmempty, sw_roots = 0, sw_next_entry_id = 1\<rparr>"

text \<open>The ways a call can change the world; the flag says whether withdrawals are among them.\<close>

fun is_withdraw :: "'v scope_call \<Rightarrow> bool" where
  "is_withdraw (Withdraw s i g) = True"
| "is_withdraw _ = False"

inductive scope_change :: "bool \<Rightarrow> 'v scope_world \<Rightarrow> 'v scope_world \<Rightarrow> bool" where
  unchanged: "scope_change b w w"
| root: "scope_change b w (snd (scope_root w))"
| child: "upgrade w s \<Longrightarrow> scope_change b w (snd (scope_child s w))"
| publication: "publish_preconstructed s d x hs v w = (Ok h, w') \<Longrightarrow> scope_change b w w'"
| withdrawal: "withdraw s i g w = (Ok h, w') \<Longrightarrow> scope_change True w w'"
| teardown: "upgrade w s \<Longrightarrow> teardown s w = (Ok es, w') \<Longrightarrow> scope_change b w w'"
| deallocation: "upgrade w s \<Longrightarrow> live_children w s = [] \<Longrightarrow> scope_change b w (w\<lparr>sw_scopes := fmdrop s (sw_scopes w)\<rparr>)"

lemma after_Some: "after r = Some w' \<longleftrightarrow> (\<exists>a. r = (Ok a, w')) \<or> (\<exists>e. r = (Err e, w'))"
  by (auto simp: after_def split: prod.splits res.splits)

lemma teardown_each_not_Err: "teardown_each ss w \<noteq> (Err e, w')"
  by (induction ss arbitrary: w w' e) (auto simp: act_bind_def Let_def split: res.splits prod.splits)

lemma teardown_not_Err: "teardown s w \<noteq> (Err e, w')"
  using teardown_each_not_Err [of _ w] by (auto simp: teardown_def act_bind_def split: res.splits prod.splits)

lemma scope_exec_change: "scope_exec c w = Some w' \<Longrightarrow> scope_change (is_withdraw c) w w'"
proof (cases c)
  case (Provide_value s d hs v)
  assume "scope_exec c w = Some w'"
  with Provide_value show ?thesis
    by (auto simp: after_Some provide_value_def split: if_splits res.splits
        intro: scope_change.intros dest: publish_preconstructed_Err)
next
  case (Withdraw s i g)
  assume "scope_exec c w = Some w'"
  with Withdraw show ?thesis
    by (auto simp: after_Some split: if_splits intro: scope_change.intros)
      (auto simp: withdraw_def split: if_splits option.splits intro: scope_change.intros)
qed (auto simp: after_Some scope_drop_def teardown_not_Err split: if_splits
    intro: scope_change.intros dest: publish_preconstructed_Err)

lemma scope_change_mono: "scope_change a w w' \<Longrightarrow> (a \<Longrightarrow> b) \<Longrightarrow> scope_change b w w'"
  by (induction rule: scope_change.induct) (auto intro: scope_change.intros)

definition may_withdraw :: "'v scope_call list \<Rightarrow> bool" where
  "may_withdraw cs \<longleftrightarrow> (\<exists>c \<in> set cs. is_withdraw c)"

lemma scope_run_induct [consumes 1, case_names refl step]:
  assumes "scope_run cs w = Some w'"
    and "P w" and step: "\<And>u u'. P u \<Longrightarrow> scope_change (may_withdraw cs) u u' \<Longrightarrow> P u'"
  shows "P w'"
proof -
  have "scope_run ds u = Some w' \<Longrightarrow> P u \<Longrightarrow> set ds \<subseteq> set cs \<Longrightarrow> P w'" for ds u
  proof (induction ds arbitrary: u)
    case (Cons c ds)
    then obtain v where v: "scope_exec c u = Some v" "scope_run ds v = Some w'"
      by (auto split: option.splits)
    have "scope_change (may_withdraw cs) u v"
      using scope_exec_change [OF v(1)] by (rule scope_change_mono) (use Cons.prems in \<open>auto simp: may_withdraw_def\<close>)
    with Cons.prems step have "P v" by blast
    with Cons.IH v(2) Cons.prems(3) show ?case by simp
  qed simp
  with assms(1,2) show ?thesis by blast
qed

subsection \<open>What teardown does\<close>

definition closed_state :: "'v scope_state \<Rightarrow> 'v scope_state" where
  "closed_state st = st\<lparr>ss_lifecycle := Closed, ss_entries := fmempty\<rparr>"

lemma closed_state_fields [simp]:
  "ss_lifecycle (closed_state st) = Closed" "ss_entries (closed_state st) = fmempty"
  "ss_children (closed_state st) = ss_children st"
  by (simp_all add: closed_state_def)

lemma teardown_each_Cons:
  "teardown_each (s # ss) w = (Ok ps, w') \<longleftrightarrow>
   (if \<not> is_open w s then teardown_each ss w = (Ok ps, w')
    else \<exists>order ps'. runtime_teardown_order (ss_entries (scope_at w s)) = Ok order \<and>
      ps = \<lparr>tp_entries = ss_entries (scope_at w s), tp_order = order\<rparr> # ps' \<and>
      teardown_each ss (scope_write s (closed_state (scope_at w s)) w) = (Ok ps', w'))"
  by (auto simp: Let_def act_bind_eq_Ok closed_state_def split: res.splits)

lemma teardown_each_effect:
  "teardown_each ss w = (Ok ps, w') \<Longrightarrow>
   (\<forall>t. scope_at w' t = (if t \<in> set ss \<and> is_open w t then closed_state (scope_at w t) else scope_at w t)) \<and>
   (\<forall>t. upgrade w' t \<longleftrightarrow> upgrade w t) \<and>
   sw_roots w' = sw_roots w \<and> sw_next_entry_id w' = sw_next_entry_id w"
proof (induction ss arbitrary: w ps)
  case (Cons s ss)
  show ?case
  proof (cases "is_open w s")
    case False
    with Cons show ?thesis by (auto simp: teardown_each_Cons simp del: teardown_each.simps)
  next
    case True
    let ?u = "scope_write s (closed_state (scope_at w s)) w"
    from True Cons.prems obtain ps' where "teardown_each ss ?u = (Ok ps', w')"
      by (auto simp: teardown_each_Cons simp del: teardown_each.simps)
    note IH = Cons.IH [OF this]
    have "upgrade w s" using True by (rule is_open_upgrade)
    with IH True show ?thesis by auto
  qed
qed simp

lemma teardown_effect:
  assumes "teardown s w = (Ok es, w')"
  shows "scope_at w' t =
      (if (t = s \<or> t \<in> set (live_descendants w s)) \<and> is_open w t then closed_state (scope_at w t)
       else scope_at w t)"
    and "upgrade w' t \<longleftrightarrow> upgrade w t"
    and "sw_roots w' = sw_roots w" and "sw_next_entry_id w' = sw_next_entry_id w"
proof -
  from assms obtain ps where "teardown_each (descendants_child_first w s @ [s]) w = (Ok ps, w')"
    by (auto simp: teardown_def act_bind_eq_Ok)
  note eff = teardown_each_effect [OF this]
  show "scope_at w' t =
      (if (t = s \<or> t \<in> set (live_descendants w s)) \<and> is_open w t then closed_state (scope_at w t)
       else scope_at w t)"
    using eff by (auto simp: set_descendants_child_first)
  show "upgrade w' t \<longleftrightarrow> upgrade w t" "sw_roots w' = sw_roots w" "sw_next_entry_id w' = sw_next_entry_id w"
    using eff by blast+
qed

subsection \<open>Invariants\<close>

abbreviation entry_at :: "'v scope_world \<Rightarrow> scope_ref \<Rightarrow> ident \<Rightarrow> 'v capability_entry option" where
  "entry_at w s i \<equiv> fmlookup (ss_entries (scope_at w s)) i"

text \<open>Every change but a publication only takes entries away.\<close>

definition only_removes :: "'v scope_world \<Rightarrow> 'v scope_world \<Rightarrow> bool" where
  "only_removes w w' \<longleftrightarrow>
     (\<forall>t i e. entry_at w' t i = Some e \<longrightarrow> entry_at w t i = Some e) \<and>
     sw_next_entry_id w' = sw_next_entry_id w"

lemma scope_at_fmdrop:
  "scope_at (w\<lparr>sw_scopes := fmdrop s (sw_scopes w)\<rparr>) t =
   (if t = s then \<lparr>ss_entries = fmempty, ss_lifecycle = Closed, ss_children = []\<rparr> else scope_at w t)"
  "upgrade (w\<lparr>sw_scopes := fmdrop s (sw_scopes w)\<rparr>) t \<longleftrightarrow> t \<noteq> s \<and> upgrade w t"
  by (auto simp: scope_at_def upgrade_def)

lemma fresh_root: "tree_shaped w \<Longrightarrow> \<not> upgrade w (Root (sw_roots w))"
  by (auto simp: tree_shaped_def)

lemma fresh_child: "tree_shaped w \<Longrightarrow> \<not> upgrade w (Child s (length (ss_children (scope_at w s))))"
  by (auto simp: tree_shaped_def)

lemma scope_change_entries:
  assumes "scope_change b w w'" and tree: "tree_shaped w"
  shows "only_removes w w' \<or> (\<exists>s d x hs v h. publish_preconstructed s d x hs v w = (Ok h, w'))"
  using assms(1)
proof cases
  case root
  then show ?thesis
    using scope_at_dead [OF fresh_root [OF tree]] by (auto simp: only_removes_def scope_root_def split: if_splits)
next
  case (child s)
  then show ?thesis
    using scope_at_dead [OF fresh_child [OF tree]]
    by (auto simp: only_removes_def scope_child_def Let_def split: if_splits)
next
  case (withdrawal s i g h)
  then show ?thesis
    by (auto simp: only_removes_def withdraw_def split: if_splits option.splits)
next
  case (teardown s es)
  then show ?thesis by (auto simp: only_removes_def teardown_effect split: if_splits)
next
  case (deallocation s)
  then show ?thesis by (auto simp: only_removes_def scope_at_fmdrop split: if_splits)
qed (auto simp: only_removes_def)

lemma tree_shaped_transfer:
  assumes "tree_shaped w" and "\<And>t. ss_children (scope_at w' t) = ss_children (scope_at w t)"
    and "\<And>t. upgrade w' t \<longleftrightarrow> upgrade w t" and "sw_roots w' = sw_roots w"
  shows "tree_shaped w'"
  using assms by (simp add: tree_shaped_def)

lemma tree_shaped_step:
  assumes "scope_change b w w'" and tree: "tree_shaped w"
  shows "tree_shaped w'"
  using assms(1)
proof cases
  case root
  have "\<not> upgrade w (Root (sw_roots w))" by (rule fresh_root [OF tree])
  with root tree scope_at_dead [OF this] show ?thesis
    by (auto simp: tree_shaped_def scope_root_def less_Suc_eq split: if_splits)
next
  case (child s)
  note dead = scope_at_dead [OF fresh_child [OF tree, of s]]
  have orphan: "\<not> upgrade w (Child (Child s k) j)" if "k = length (ss_children (scope_at w s))" for k j
    using tree_shaped_parent [OF tree] fresh_child [OF tree, of s] that by blast
  show ?thesis
    unfolding tree_shaped_def
  proof (intro conjI allI impI)
    fix p k
    assume "upgrade w' (Child p k)"
    with child have "(p = s \<and> k = length (ss_children (scope_at w s))) \<or> upgrade w (Child p k)"
      by (auto simp: scope_child_def Let_def)
    with child tree orphan show "upgrade w' p" "k < length (ss_children (scope_at w' p))"
      by (auto simp: scope_child_def Let_def tree_shaped_def less_Suc_eq)
  next
    fix t
    from child tree dead show "set (ss_children (scope_at w' t)) = {..<length (ss_children (scope_at w' t))}"
      by (auto simp: scope_child_def Let_def tree_shaped_def)
  next
    fix r
    assume "upgrade w' (Root r)"
    with child tree show "r < sw_roots w'" by (auto simp: scope_child_def Let_def tree_shaped_def)
  qed
next
  case (publication s d x hs v h)
  then have "is_open w s" by (auto simp: publish_preconstructed_Ok admissible_def)
  with is_open_upgrade have "upgrade w s" by blast
  with publication show ?thesis
    by (intro tree_shaped_transfer [OF tree]) (auto simp: publish_preconstructed_Ok entry_write_def)
next
  case (withdrawal s i g h)
  then have "is_open w s" by (auto simp: withdraw_def split: if_splits)
  with is_open_upgrade have "upgrade w s" by blast
  with withdrawal show ?thesis
    by (intro tree_shaped_transfer [OF tree]) (auto simp: withdraw_def split: if_splits option.splits)
next
  case (teardown s es)
  then show ?thesis
    by (intro tree_shaped_transfer [OF tree]) (auto simp: teardown_effect)
next
  case (deallocation s)
  have "\<not> upgrade w (Child s k)" for k
    using live_children_iff [OF tree, of s k] deallocation by simp
  with deallocation tree show ?thesis by (auto simp: tree_shaped_def scope_at_fmdrop)
qed (use tree in simp)

text \<open>Identities are never reused: distinct entries have distinct identities below the counter.\<close>

definition ids_unique :: "'v scope_world \<Rightarrow> bool" where
  "ids_unique w \<longleftrightarrow>
     (\<forall>s i e s' i' e'. entry_at w s i = Some e \<longrightarrow> entry_at w s' i' = Some e' \<longrightarrow>
        ce_entry_id e = ce_entry_id e' \<longrightarrow> s = s' \<and> i = i')"

definition ids_below :: "'v scope_world \<Rightarrow> nat \<Rightarrow> bool" where
  "ids_below w n \<longleftrightarrow> (\<forall>s i e. entry_at w s i = Some e \<longrightarrow> unat (entry_id_get (ce_entry_id e)) < n)"

abbreviation next_id :: "'v scope_world \<Rightarrow> nat" where
  "next_id w \<equiv> unat (sw_next_entry_id w)"

definition scope_inv :: "'v scope_world \<Rightarrow> bool" where
  "scope_inv w \<longleftrightarrow> tree_shaped w \<and> keyed w \<and> ids_unique w \<and> ids_below w (next_id w)"

lemma scope_invD:
  assumes "scope_inv w"
  shows "tree_shaped w" and "keyed w" and "ids_unique w" and "ids_below w (next_id w)"
  using assms by (simp_all add: scope_inv_def)

lemma scope_inv_publish:
  assumes inv: "scope_inv w" and pub: "publish_preconstructed s d x hs v w = (Ok h, w')"
  shows "keyed w' \<and> ids_unique w' \<and> ids_below w' (next_id w')"
proof -
  obtain g counter e where c: "u64_checked_succ (sw_next_entry_id w) = Some counter"
    and e: "ce_entry_id e = EntryId (sw_next_entry_id w)" "cd_id (ce_definition e) = cd_id d"
    and w': "w' = entry_write s (cd_id d) e (w\<lparr>sw_next_entry_id := counter\<rparr>)"
    using pub by (rule publishedE) simp
  have lookup: "entry_at w' t i = (if t = s \<and> i = cd_id d then Some e else entry_at w t i)" for t i
    by (simp add: w')
  have old: "unat (entry_id_get (ce_entry_id e')) < next_id w" if "entry_at w t i = Some e'" for t i e'
    using scope_invD(4) [OF inv] that by (simp add: ids_below_def)
  have "next_id w' = next_id w + 1" using c by (simp add: w' entry_write_def u64_checked_succ_Some)
  moreover have "keyed w'" using scope_invD(2) [OF inv] e by (auto simp: keyed_def lookup)
  moreover have "ids_unique w'"
    unfolding ids_unique_def
  proof (intro allI impI)
    fix t i a t' i' b
    assume ab: "entry_at w' t i = Some a" "entry_at w' t' i' = Some b" "ce_entry_id a = ce_entry_id b"
    have new: "ce_entry_id a \<noteq> EntryId (sw_next_entry_id w)" if "entry_at w u j = Some a" for u j a
      using old [OF that] by (auto simp: e)
    show "t = t' \<and> i = i'"
      using ab scope_invD(3) [OF inv] new e(1) by (auto simp: lookup ids_unique_def split: if_splits)
  qed
  moreover have "ids_below w' (next_id w + 1)"
    using old e by (auto simp: ids_below_def lookup intro: less_SucI)
  ultimately show ?thesis by simp
qed

lemma scope_inv_removes:
  assumes "scope_inv w" and "only_removes w w'"
  shows "keyed w' \<and> ids_unique w' \<and> ids_below w' (next_id w')"
  using assms unfolding scope_inv_def only_removes_def
  by (auto simp: keyed_def ids_unique_def ids_below_def) blast+

lemma scope_inv_step: "scope_change b w w' \<Longrightarrow> scope_inv w \<Longrightarrow> scope_inv w'"
  using scope_change_entries [of b w w'] tree_shaped_step [of b w w'] scope_inv_publish scope_inv_removes
  unfolding scope_inv_def by meson

lemma scope_inv_start: "scope_inv scope_start"
  by (simp add: scope_inv_def scope_start_def tree_shaped_def upgrade_def keyed_def ids_unique_def
      ids_below_def scope_at_def)

lemma scope_inv_run: "scope_run cs w = Some w' \<Longrightarrow> scope_inv w \<Longrightarrow> scope_inv w'"
  by (induction rule: scope_run_induct) (auto intro: scope_inv_step)

subsection \<open>Every open scope can be constructed\<close>

text \<open>
  The purpose of admission: the definitions visible from any open scope form a closed and acyclic
  graph.  Only a withdrawal can break this.
\<close>

definition admission_ok :: "'v scope_world \<Rightarrow> bool" where
  "admission_ok w \<longleftrightarrow> (\<forall>s. is_open w s \<longrightarrow> constructible (visible_graph w s))"

lemma admission_publish:
  assumes inv: "scope_inv w" and adm: "admission_ok w"
    and pub: "publish_preconstructed s d x hs v w = (Ok h, w')"
  shows "admission_ok w'"
  unfolding admission_ok_def
proof (intro allI impI)
  fix t
  obtain g counter e where ok: "admissible w s d x hs g" and e: "ce_definition e = d"
    and w': "w' = entry_write s (cd_id d) e (w\<lparr>sw_next_entry_id := counter\<rparr>)"
    using pub by (rule publishedE) simp
  let ?w = "w\<lparr>sw_next_entry_id := counter\<rparr>"
  have same: "candidate_affects ?w s t (cd_id d) = candidate_affects w s t (cd_id d)" for t
    by (induction t) (auto simp: has_local_entry_def)
  have s: "is_open w s" using ok by (simp add: admissible_def)
  have "keyed ?w" using scope_invD(2) [OF inv] by (simp add: keyed_def)
  then have graph: "visible_graph w' t =
      (if candidate_affects w s t (cd_id d) then snd (graph_insert d (visible_graph w t)) else visible_graph w t)"
    using visible_graph_entry_write [of ?w s e "cd_id d" t] s
    by (simp add: w' e same visible_graph_cong [of t w ?w] same_view_def)
  assume "is_open w' t"
  then have t: "is_open w t" by (simp add: w')
  show "constructible (visible_graph w' t)"
  proof (cases "candidate_affects w s t (cd_id d) \<and> t \<noteq> s")
    case True
    then have "t \<in> set (live_descendants w s)"
      using candidate_affects_below is_open_upgrade [OF t] scope_invD(1) [OF inv]
      by (auto simp: set_live_descendants)
    with ok t True show ?thesis by (auto simp: admissible_def graph)
  next
    case False
    with ok t adm show ?thesis by (auto simp: admissible_def admission_ok_def graph)
  qed
qed

lemma admission_frame:
  assumes adm: "admission_ok w" and "is_open w t" and "\<And>a. below a t \<Longrightarrow> same_view w w' a"
  shows "constructible (visible_graph w' t)"
  using assms visible_graph_cong [of t w w'] by (simp add: admission_ok_def)

text \<open>An open scope below which nothing was closed keeps its view.\<close>

lemma chain_upgrade: "tree_shaped w \<Longrightarrow> below a t \<Longrightarrow> upgrade w t \<Longrightarrow> upgrade w a"
  by (induction t) (auto dest: tree_shaped_parent)

lemma teardown_view:
  assumes tree: "tree_shaped w" and td: "teardown s w = (Ok es, w')" and t: "is_open w' t"
  shows "is_open w t \<and> (\<forall>a. below a t \<longrightarrow> same_view w w' a)"
proof -
  have at: "scope_at w' u = (if (u = s \<or> below s u \<and> upgrade w u) \<and> is_open w u
      then closed_state (scope_at w u) else scope_at w u)" for u
    using teardown_effect(1) [OF td] set_live_descendants [OF tree] by auto
  have open': "is_open w' u \<Longrightarrow> is_open w u" for u by (auto simp: is_open_def at split: if_splits)
  have "\<not> below s t"
  proof
    assume "below s t"
    with open' [OF t] is_open_upgrade [OF open' [OF t]] have "scope_at w' t = closed_state (scope_at w t)"
      by (simp add: at)
    with t show False by (simp add: is_open_def)
  qed
  then have "\<not> below s a" if "below a t" for a using that below_trans by blast
  then have "scope_at w' a = scope_at w a" if "below a t" for a using that by (auto simp: at)
  with open' [OF t] show ?thesis by (auto simp: same_view_def is_open_def)
qed

lemma admission_child:
  assumes inv: "scope_inv w" and adm: "admission_ok w"
  shows "admission_ok (snd (scope_child s w))"
  unfolding admission_ok_def
proof (intro allI impI)
  fix t
  note tree = scope_invD(1) [OF inv]
  let ?c = "Child s (length (ss_children (scope_at w s)))" and ?w = "snd (scope_child s w)"
  have dead: "\<not> upgrade w ?c" by (rule fresh_child [OF tree])
  have view: "same_view w ?w a" if "a \<noteq> ?c" for a
    using that by (simp add: same_view_def scope_child_def Let_def is_open_def)
  assume t: "is_open ?w t"
  show "constructible (visible_graph ?w t)"
  proof (cases "t = ?c")
    case True
    have s: "is_open w s" using t True by (simp add: scope_child_def Let_def is_open_def split: if_splits)
    have empty: "ss_entries (scope_at ?w ?c) = fmempty" by (simp add: scope_child_def Let_def)
    have "below a s \<Longrightarrow> a \<noteq> ?c" for a by auto
    then have up: "scope_get ?w s i = scope_get w s i" for i by (intro scope_get_cong view) blast
    have "visible_graph ?w ?c = visible_graph w s"
      using t True unfolding visible_graph_def
      by (intro arg_cong [where f = from_definitions] arg_cong [where f = bt_values] fmap_ext)
        (simp add: visible_definitions_get empty up local_definitions_def)
    with adm s True show ?thesis by (simp add: admission_ok_def)
  next
    case False
    with t have "is_open w t" by (simp add: scope_child_def Let_def is_open_def split: if_splits)
    moreover have "a \<noteq> ?c" if "below a t" for a
      using chain_upgrade [OF tree that is_open_upgrade [OF calculation]] dead by blast
    ultimately show ?thesis by (intro admission_frame [OF adm]) (auto intro: view)
  qed
qed

lemma admission_root:
  assumes inv: "scope_inv w" and adm: "admission_ok w"
  shows "admission_ok (snd (scope_root w))"
  unfolding admission_ok_def
proof (intro allI impI)
  fix t
  note tree = scope_invD(1) [OF inv]
  let ?r = "Root (sw_roots w)" and ?w = "snd (scope_root w)"
  have view: "same_view w ?w a" if "a \<noteq> ?r" for a
    using that by (simp add: same_view_def scope_root_def is_open_def)
  assume t: "is_open ?w t"
  show "constructible (visible_graph ?w t)"
  proof (cases "t = ?r")
    case True
    have "visible_definitions ?w ?r = fmempty"
      by (rule fmap_ext) (simp add: visible_definitions_get, simp add: scope_root_def local_definitions_def)
    then show ?thesis
      using True by (simp add: visible_graph_def from_definitions_def graph_empty_def constructible_def
          requirements_def succ_rel_def acyclic_def)
  next
    case False
    with t have "is_open w t" by (simp add: scope_root_def is_open_def split: if_splits)
    moreover have "a \<noteq> ?r" if "below a t" for a
      using chain_upgrade [OF tree that is_open_upgrade [OF calculation]] fresh_root [OF tree] by blast
    ultimately show ?thesis by (intro admission_frame [OF adm]) (auto intro: view)
  qed
qed

lemma admission_step:
  assumes "scope_change False w w'" and inv: "scope_inv w" and adm: "admission_ok w"
  shows "admission_ok w'"
  using assms(1)
proof cases
  case (teardown s es)
  show ?thesis
    unfolding admission_ok_def
    using teardown_view [OF scope_invD(1) [OF inv] teardown(2)] admission_frame [OF adm] by blast
next
  case (deallocation s)
  note tree = scope_invD(1) [OF inv]
  show ?thesis
    unfolding admission_ok_def
  proof (intro allI impI)
    fix t
    assume "is_open w' t"
    with deallocation have t: "is_open w t" "t \<noteq> s" by (auto simp: is_open_def scope_at_fmdrop split: if_splits)
    have "live_descendants w s = []" using deallocation by (subst live_descendants.simps) simp
    with t is_open_upgrade [OF t(1)] have "\<not> below s t"
      using set_live_descendants [OF tree, of s] by auto
    then have "a \<noteq> s" if "below a t" for a using that by blast
    with t deallocation show "constructible (visible_graph w' t)"
      by (intro admission_frame [OF adm]) (auto simp: same_view_def is_open_def scope_at_fmdrop)
  qed
qed (use inv adm in \<open>auto intro: admission_root admission_child admission_publish\<close>)

lemma admission_start: "admission_ok scope_start"
  by (simp add: admission_ok_def scope_start_def is_open_def scope_at_def)

lemma admission_run:
  assumes "scope_run cs w = Some w'" and "\<not> may_withdraw cs" and "scope_inv w" and "admission_ok w"
  shows "admission_ok w'"
proof -
  have "scope_inv w' \<and> admission_ok w'"
    using assms(1)
  proof (induction rule: scope_run_induct)
    case (step u u')
    with assms(2) show ?case using scope_inv_step [of _ u u'] admission_step [of u u'] by auto
  qed (use assms in simp)
  then show ?thesis ..
qed

end
