(* ===== verification/Capability_Scope_Teardown.thy ===== *)
theory Capability_Scope_Teardown
  imports Capability_Scope_Laws
begin

text \<open>
  The order in which a teardown releases entries: the scopes of the subtree from the leaves up, and
  within a scope every entry before the entries it requires.
\<close>

subsection \<open>Positions in a sequence\<close>

definition before :: "'a \<Rightarrow> 'a \<Rightarrow> 'a list \<Rightarrow> bool" where
  "before x y zs \<longleftrightarrow> (\<exists>as bs cs. zs = as @ x # bs @ y # cs)"

lemma before_appendI:
  "before x y as \<Longrightarrow> before x y (as @ bs)"
  "before x y bs \<Longrightarrow> before x y (as @ bs)"
  "x \<in> set as \<Longrightarrow> y \<in> set bs \<Longrightarrow> before x y (as @ bs)"
proof -
  show "before x y as \<Longrightarrow> before x y (as @ bs)"
    unfolding before_def by (elim exE) (metis append.assoc append_Cons)
  show "before x y bs \<Longrightarrow> before x y (as @ bs)"
    unfolding before_def by (elim exE) (metis append.assoc)
  show "x \<in> set as \<Longrightarrow> y \<in> set bs \<Longrightarrow> before x y (as @ bs)"
  proof -
    assume "x \<in> set as" and "y \<in> set bs"
    then obtain a1 a2 b1 b2 where "as = a1 @ x # a2" "bs = b1 @ y # b2" by (meson split_list)
    then have "as @ bs = a1 @ x # (a2 @ b1) @ y # b2" by simp
    then show ?thesis unfolding before_def by blast
  qed
qed

lemma before_map_filter:
  assumes "before x y xs" and "P x" and "P y"
  shows "before (f x) (f y) (map f (filter P xs))"
proof -
  from assms obtain as bs cs where "xs = as @ x # bs @ y # cs" by (auto simp: before_def)
  with assms have "map f (filter P xs) =
      map f (filter P as) @ f x # map f (filter P bs) @ f y # map f (filter P cs)" by simp
  then show ?thesis unfolding before_def by blast
qed

lemma before_concat_same: "x \<in> set xs \<Longrightarrow> before a b (f x) \<Longrightarrow> before a b (concat (map f xs))"
  by (induction xs) (auto intro: before_appendI)

lemma before_concat: "before x y xs \<Longrightarrow> a \<in> set (f x) \<Longrightarrow> b \<in> set (f y) \<Longrightarrow> before a b (concat (map f xs))"
proof -
  assume "before x y xs" and mem: "a \<in> set (f x)" "b \<in> set (f y)"
  then obtain as bs cs where "xs = as @ x # bs @ y # cs" by (auto simp: before_def)
  then have "concat (map f xs) = concat (map f as) @ (f x @ concat (map f bs) @ f y) @ concat (map f cs)" by simp
  moreover have "before a b (f x @ concat (map f bs) @ f y)" using mem by (intro before_appendI(3)) auto
  ultimately show ?thesis by (metis before_appendI(1,2))
qed

lemma before_distinct: "distinct xs \<Longrightarrow> before x y xs \<Longrightarrow> x \<noteq> y"
  by (auto simp: before_def)

subsection \<open>The scopes, leaves first\<close>

lemma below_linear: "below a t \<Longrightarrow> below b t \<Longrightarrow> below a b \<or> below b a"
  by (induction t) auto

lemma siblings_disjoint: "below (Child s j) t \<Longrightarrow> below (Child s k) t \<Longrightarrow> j = k"
  using below_linear [of "Child s j" t "Child s k"] by auto

lemma teardown_scopes_set:
  assumes "tree_shaped w" and "upgrade w s"
  shows "set (descendants_child_first w s @ [s]) = {t. below s t \<and> upgrade w t}"
  using assms by (auto simp: set_descendants_child_first set_live_descendants)

lemma live_children_distinct: "tree_shaped w \<Longrightarrow> distinct (live_children w s)"
proof -
  assume "tree_shaped w"
  then have "set (ss_children (scope_at w s)) = {..<length (ss_children (scope_at w s))}"
    by (simp add: tree_shaped_def)
  then have "distinct (ss_children (scope_at w s))" by (intro card_distinct) simp
  then show ?thesis by (simp add: live_children_def distinct_map inj_on_def)
qed

lemma distinct_concat_disjoint:
  assumes "distinct xs" and "\<And>x. x \<in> set xs \<Longrightarrow> distinct (f x)"
    and "\<And>x y. x \<in> set xs \<Longrightarrow> y \<in> set xs \<Longrightarrow> x \<noteq> y \<Longrightarrow> set (f x) \<inter> set (f y) = {}"
  shows "distinct (concat (map f xs))"
  using assms by (induction xs) auto

lemma child_first_part:
  "t \<in> set (descendants_child_first w c @ [c]) \<Longrightarrow> below c t"
  using live_descendants_below [of t w c] by (auto simp: set_descendants_child_first)

lemma teardown_scopes_distinct:
  "tree_shaped w \<Longrightarrow> distinct (descendants_child_first w s)"
proof (induction w s rule: descendants_child_first.induct [case_names step])
  case (step w s)
  let ?f = "\<lambda>c. descendants_child_first w c @ [c]"
  have "distinct (concat (map ?f (live_children w s)))"
  proof (rule distinct_concat_disjoint)
    show "distinct (live_children w s)" using step.prems by (rule live_children_distinct)
    fix c
    assume c: "c \<in> set (live_children w s)"
    show "distinct (?f c)"
      using step.IH [OF c step.prems] live_descendants_below [of c w c]
      by (auto simp: set_descendants_child_first)
    fix d
    assume d: "d \<in> set (live_children w s)" "c \<noteq> d"
    show "set (?f c) \<inter> set (?f d) = {}"
    proof -
      have False if "x \<in> set (?f c)" and "x \<in> set (?f d)" for x
        using live_childrenD [OF c] live_childrenD [OF d(1)] d(2) siblings_disjoint
          child_first_part [OF that(1)] child_first_part [OF that(2)] by blast
      then show ?thesis by blast
    qed
  qed
  then show ?case by (subst descendants_child_first.simps)
qed

lemma teardown_scopes_before:
  "tree_shaped w \<Longrightarrow> below s t \<Longrightarrow> upgrade w t \<Longrightarrow> below s u \<Longrightarrow> below u t \<Longrightarrow> t \<noteq> u \<Longrightarrow>
   before t u (descendants_child_first w s @ [s])"
proof (induction w s rule: descendants_child_first.induct [case_names step])
  case (step w s)
  note tree = step.prems(1)
  let ?f = "\<lambda>c. descendants_child_first w c @ [c]"
  have t: "t \<in> set (descendants_child_first w s)"
    using step.prems below_size [of u t] below_size [of s u]
    by (auto simp: set_descendants_child_first set_live_descendants [OF tree])
  show ?case
  proof (cases "u = s")
    case True
    with t show ?thesis by (intro before_appendI(3)) simp_all
  next
    case False
    have u: "upgrade w u" using chain_upgrade [OF tree] step.prems by blast
    with False step.prems have "u \<in> set (descendants_child_first w s)"
      by (simp add: set_descendants_child_first set_live_descendants [OF tree])
    then obtain c where c: "c \<in> set (live_children w s)" "u \<in> set (?f c)"
      by (subst (asm) descendants_child_first.simps) auto
    have "below c u" by (rule child_first_part [OF c(2)])
    with step.prems have "before t u (?f c)"
      by (intro step.IH [OF c(1)]) (auto intro: below_trans)
    then have "before t u (concat (map ?f (live_children w s)))" by (rule before_concat_same [OF c(1)])
    then show ?thesis
      by (subst descendants_child_first.simps) (intro before_appendI(1))
  qed
qed

subsection \<open>Within one scope\<close>

lemma drop_in_order_eq:
  "distinct is \<Longrightarrow> drop_in_order is es =
   map (\<lambda>i. the (fmlookup es i)) (filter (has_key es) is) @ bt_values (fmfilter (\<lambda>i. i \<notin> set is) es)"
proof (induction "is" arbitrary: es)
  case Nil
  have "fmfilter (\<lambda>i. True) es = es" by (rule fmap_ext) simp
  then show ?case by simp
next
  case (Cons i "is")
  have rest: "fmfilter (\<lambda>j. j \<notin> set is) (fmdrop i es) = fmfilter (\<lambda>j. j \<noteq> i \<and> j \<notin> set is) es"
    by (rule fmap_ext) auto
  show ?case
  proof (cases "fmlookup es i")
    case None
    have "fmfilter (\<lambda>j. j \<notin> set is) es = fmfilter (\<lambda>j. j \<noteq> i \<and> j \<notin> set is) es"
      by (rule fmap_ext) (use None in auto)
    with None Cons show ?thesis by simp
  next
    case (Some e)
    have "filter (has_key (fmdrop i es)) is = filter (has_key es) is"
      and "map (\<lambda>j. the (fmlookup (fmdrop i es) j)) (filter (has_key es) is) =
        map (\<lambda>j. the (fmlookup es j)) (filter (has_key es) is)"
      using Cons.prems by (auto intro!: filter_cong)
    with Some Cons rest show ?thesis by simp
  qed
qed

lemma insert_snapshot_keeps:
  "fmlookup (cg_definitions (fst acc)) i = Some d \<Longrightarrow>
   fmlookup (cg_definitions (fst (insert_snapshot h acc))) i = Some d"
proof (induction h acc rule: insert_snapshot.induct [case_names handle])
  case (handle d' v hs g n graph visited)
  let ?P = "\<lambda>acc. fmlookup (cg_definitions (fst acc)) i = Some d"
  have fold: "?P (fold (\<lambda>(i, h). insert_snapshot h) hs acc)" if "n |\<notin>| visited" and "?P acc" for acc
    by (rule fold_invariant [where Q = "\<lambda>x. x \<in> set hs"]) (use that handle.IH in \<open>auto split: prod.splits\<close>)
  show ?case
    using handle.prems fold by auto
qed

lemma local_id: "ids_match (local_definitions es) \<Longrightarrow> fmlookup es i = Some e \<Longrightarrow> cd_id (ce_definition e) = i"
  unfolding ids_match_def by (drule spec [of _ i], drule spec [of _ "ce_definition e"]) (simp add: local_definitions_def)

lemma insert_entry_lookup:
  "fmlookup (cg_definitions (fst (insert_entry f acc))) i =
   (if cd_id (ce_definition f) = i then Some (ce_definition f) else fmlookup (cg_definitions (fst acc)) i)"
  by (simp add: insert_entry_def graph_insert_def)

lemma runtime_graph_entries:
  fixes es :: "'a entry_map"
  assumes keyed: "ids_match (local_definitions es)" and e: "fmlookup es i = Some e"
  shows "fmlookup (cg_definitions (runtime_graph es)) i = Some (ce_definition e)"
proof -
  let ?P = "\<lambda>acc :: capability_graph \<times> entry_id fset. fmlookup (cg_definitions (fst acc)) i = Some (ce_definition e)"
  have vals: "f = e" if "f \<in> set (bt_values es)" and "cd_id (ce_definition f) = i" for f
  proof -
    from that(1) obtain j where "fmlookup es j = Some f" by (auto simp: in_bt_values)
    with that(2) local_id [OF keyed this] e show ?thesis by simp
  qed
  have fill: "set xs \<subseteq> set (bt_values es) \<Longrightarrow> e \<in> set xs \<Longrightarrow> ?P (fold insert_entry xs acc)" for xs acc
  proof (induction xs rule: rev_induct)
    case (snoc f xs)
    show ?case
    proof (cases "cd_id (ce_definition f) = i")
      case True
      with vals [of f] snoc.prems show ?thesis by (simp add: insert_entry_lookup)
    next
      case False
      with local_id [OF keyed e] have "f \<noteq> e" by blast
      with False snoc show ?thesis by (simp add: insert_entry_lookup)
    qed
  qed simp
  have "e \<in> set (bt_values es)" using e by (auto simp: in_bt_values)
  then have start: "?P (fold insert_entry (bt_values es) (graph_empty, {||}))" by (rule fill [OF subset_refl])
  have inner: "?P (fold (\<lambda>(i, h). insert_snapshot h) hs acc)" if "?P acc" for hs :: "'a resolved_dependencies" and acc
    using that
  proof (induction hs arbitrary: acc)
    case (Cons x hs)
    obtain j h where x: "x = (j, h)" by fastforce
    have "?P (insert_snapshot h acc)" using Cons.prems by (rule insert_snapshot_keeps)
    from Cons.IH [OF this] show ?case by (simp add: x)
  qed simp
  have "?P (fold (\<lambda>e. fold (\<lambda>(i, h). insert_snapshot h) (ce_dependencies e)) xs acc)" if "?P acc" for xs :: "'a capability_entry list" and acc
    using that
  proof (induction xs arbitrary: acc)
    case (Cons x xs)
    from Cons.IH [OF inner [OF Cons.prems]] show ?case by simp
  qed simp
  from this [OF start] show ?thesis unfolding runtime_graph_def .
qed

text \<open>The entries one scope releases, in their order.\<close>

definition released_by :: "'v entry_map \<Rightarrow> 'v capability_entry list" where
  "released_by es = (case runtime_teardown_order es of Ok order \<Rightarrow> drop_in_order order es | _ \<Rightarrow> [])"

lemma runtime_teardown_orderE:
  assumes "runtime_teardown_order es = Ok order"
  obtains r where "resolve (runtime_graph es) = Ok r" and "order = teardown_order r"
  using assms by (auto simp: runtime_teardown_order_def split: res.splits)

lemma released_by_eq:
  assumes keyed: "ids_match (local_definitions es)" and ok: "runtime_teardown_order es = Ok order"
  shows "released_by es = map (\<lambda>i. the (fmlookup es i)) (filter (has_key es) order) \<and> distinct order \<and>
    fset (fmdom es) \<subseteq> set order"
proof -
  obtain r where r: "resolve (runtime_graph es) = Ok r" "order = teardown_order r"
    using ok by (rule runtime_teardown_orderE)
  from r(1) have "distinct (rg_construction_order r)"
    and "set (rg_construction_order r) = fset (fmdom (cg_definitions (runtime_graph es)))"
    by (cases rule: resolve_cases [of "runtime_graph es"]; simp)+
  with r(2) have order: "distinct order" "set order = fset (fmdom (cg_definitions (runtime_graph es)))"
    by (simp_all add: teardown_order_def)
  have "i \<in> set order" if "has_key es i" for i
    using that runtime_graph_entries [OF keyed] by (auto simp: order(2) in_fmdom_iff)
  then have sub: "fset (fmdom es) \<subseteq> set order" by (auto simp: in_fmdom_iff)
  then have "fmfilter (\<lambda>i. i \<notin> set order) es = fmempty"
    by (intro fmap_ext) (auto simp: fmlookup_dom_iff subset_iff)
  with ok order(1) sub show ?thesis by (simp add: released_by_def drop_in_order_eq)
qed

lemma released_by_set:
  assumes "ids_match (local_definitions es)" and "runtime_teardown_order es = Ok order"
  shows "set (released_by es) = set (bt_values es)"
proof -
  have "set (filter (has_key es) order) = fset (fmdom es)"
    using released_by_eq [OF assms] by (auto simp: in_fmdom_iff subset_iff)
  then have "set (released_by es) = (\<lambda>i. the (fmlookup es i)) ` fset (fmdom es)"
    using released_by_eq [OF assms] by simp
  then show ?thesis by (simp add: bt_values_def)
qed

lemma released_by_distinct:
  assumes keyed: "ids_match (local_definitions es)" and ok: "runtime_teardown_order es = Ok order"
  shows "distinct (released_by es)"
proof -
  have "inj_on (\<lambda>i. the (fmlookup es i)) (set (filter (has_key es) order))"
  proof (rule inj_onI)
    fix i j
    assume "i \<in> set (filter (has_key es) order)" "j \<in> set (filter (has_key es) order)"
      and eq: "the (fmlookup es i) = the (fmlookup es j)"
    then obtain e f where "fmlookup es i = Some e" "fmlookup es j = Some f" by auto
    with eq local_id [OF keyed, of i e] local_id [OF keyed, of j f] show "i = j" by simp
  qed
  with released_by_eq [OF assms] show ?thesis by (simp add: distinct_map)
qed

lemma released_by_before:
  assumes keyed: "ids_match (local_definitions es)" and ok: "runtime_teardown_order es = Ok order"
    and e: "fmlookup es i = Some e" and f: "fmlookup es j = Some f"
    and dep: "Dependency j |\<in>| cd_dependencies (ce_definition e)"
  shows "before e f (released_by es)"
proof -
  obtain r where r: "resolve (runtime_graph es) = Ok r" "order = teardown_order r"
    using ok by (rule runtime_teardown_orderE)
  have "j \<in> dep_id ` fset (cd_dependencies (ce_definition e))" using dep by (metis dependency.sel image_eqI)
  then have "j \<in> set (requirements (runtime_graph es) i)"
    by (simp add: requirements_def runtime_graph_entries [OF keyed e])
  from teardown_order_before [OF r(1) this] have "before i j order" by (simp add: r before_def)
  then have "before (the (fmlookup es i)) (the (fmlookup es j)) (released_by es)"
    unfolding released_by_eq [OF keyed ok, THEN conjunct1] by (rule before_map_filter) (use e f in auto)
  with e f show ?thesis by simp
qed

subsection \<open>The whole teardown\<close>

lemma teardown_each_plans:
  "distinct ss \<Longrightarrow> teardown_each ss w = (Ok ps, w') \<Longrightarrow>
   drop_teardown_plans ps = concat (map (\<lambda>t. released_by (ss_entries (scope_at w t))) (filter (is_open w) ss)) \<and>
   (\<forall>t \<in> set ss. is_open w t \<longrightarrow> (\<exists>order. runtime_teardown_order (ss_entries (scope_at w t)) = Ok order))"
proof (induction ss arbitrary: w ps)
  case Nil
  then show ?case by (simp add: drop_teardown_plans_def)
next
  case (Cons s ss)
  show ?case
  proof (cases "is_open w s")
    case False
    with Cons show ?thesis by (simp add: teardown_each_Cons del: teardown_each.simps)
  next
    case True
    define u where "u = scope_write s (closed_state (scope_at w s)) w"
    from True Cons.prems obtain order ps' where
      o: "runtime_teardown_order (ss_entries (scope_at w s)) = Ok order"
      and ps: "ps = \<lparr>tp_entries = ss_entries (scope_at w s), tp_order = order\<rparr> # ps'"
      and rest: "teardown_each ss u = (Ok ps', w')"
      by (auto simp: teardown_each_Cons u_def simp del: teardown_each.simps)
    have same: "scope_at u t = scope_at w t" "is_open u t = is_open w t" if "t \<in> set ss" for t
      using that Cons.prems(1) by (auto simp: u_def)
    have f: "filter (is_open u) ss = filter (is_open w) ss" using same by (intro filter_cong) auto
    have m: "map (\<lambda>t. released_by (ss_entries (scope_at u t))) (filter (is_open w) ss) =
        map (\<lambda>t. released_by (ss_entries (scope_at w t))) (filter (is_open w) ss)"
      using same by (intro map_cong) auto
    have "drop_teardown_plans ps' =
        concat (map (\<lambda>t. released_by (ss_entries (scope_at u t))) (filter (is_open u) ss))"
      using Cons.IH [OF _ rest] Cons.prems(1) by auto
    then have "drop_teardown_plans ps' =
        concat (map (\<lambda>t. released_by (ss_entries (scope_at w t))) (filter (is_open w) ss))"
      by (simp only: f m)
    moreover have "\<exists>order. runtime_teardown_order (ss_entries (scope_at w t)) = Ok order"
      if "t \<in> set ss" and "is_open w t" for t
      using Cons.IH [OF _ rest] Cons.prems(1) same [OF that(1)] that by auto
    moreover have "drop_teardown_plans ps = released_by (ss_entries (scope_at w s)) @ drop_teardown_plans ps'"
      by (simp add: drop_teardown_plans_def ps released_by_def o)
    ultimately show ?thesis using True o by auto
  qed
qed

lemma teardown_released:
  assumes inv: "scope_inv w" and td: "teardown s w = (Ok es, w')"
  shows "es = concat (map (\<lambda>t. released_by (ss_entries (scope_at w t)))
      (filter (is_open w) (descendants_child_first w s @ [s])))"
    and "\<And>t. t \<in> set (descendants_child_first w s @ [s]) \<Longrightarrow> is_open w t \<Longrightarrow>
      \<exists>order. runtime_teardown_order (ss_entries (scope_at w t)) = Ok order"
proof -
  note tree = scope_invD(1) [OF inv]
  let ?ss = "descendants_child_first w s @ [s]"
  from td obtain ps where "teardown_each ?ss w = (Ok ps, w')" and es: "es = drop_teardown_plans ps"
    by (auto simp: teardown_def act_bind_eq_Ok)
  moreover have "distinct ?ss"
    using teardown_scopes_distinct [OF tree, of s] live_descendants_below [of s w s]
    by (auto simp: set_descendants_child_first)
  ultimately have plans: "drop_teardown_plans ps = concat (map (\<lambda>t. released_by (ss_entries (scope_at w t))) (filter (is_open w) ?ss))"
      "\<forall>t \<in> set ?ss. is_open w t \<longrightarrow> (\<exists>order. runtime_teardown_order (ss_entries (scope_at w t)) = Ok order)"
    using teardown_each_plans [of ?ss w ps w'] by blast+
  show "es = concat (map (\<lambda>t. released_by (ss_entries (scope_at w t))) (filter (is_open w) ?ss))"
    using plans(1) es by simp
  show "\<And>t. t \<in> set ?ss \<Longrightarrow> is_open w t \<Longrightarrow>
      \<exists>order. runtime_teardown_order (ss_entries (scope_at w t)) = Ok order"
    using plans(2) by blast
qed

lemma keyed_local: "keyed w \<Longrightarrow> ids_match (local_definitions (ss_entries (scope_at w t)))"
  by (auto simp: keyed_def ids_match_def local_definitions_def)

end
