(* ===== verification/Capability_Properties.thy ===== *)
theory Capability_Properties
  imports Capability_Resolver
begin

text \<open>
  What the capability resolver promises: an exact decision, an order in which everything can be
  constructed and torn down, and an answer that depends on the definitions only.
\<close>

definition demo_caps :: capability_graph where
  "demo_caps = from_definitions
     [depends_on (Id ''db'') (definition_new (Id ''api'') ''service''), definition_new (Id ''db'') ''store'']"

lemmas cap_eval =
  kernis_eval visit_requires.simps visit_capability_def resolve_def requirements_def from_definitions_def
  graph_insert_def graph_empty_def depends_on_def definition_new_def act_bind_def

lemma demo_caps_resolved: "resolve demo_caps = Ok \<lparr>rg_construction_order = [Id ''db'', Id ''api'']\<rparr>"
  by (simp add: cap_eval demo_caps_def)

text \<open>
  C14: \<open>resolve\<close> terminates without a panic on every graph and decides exactly whether it can be
  constructed.  If it succeeds, every requirement is registered, the relation is acyclic, and the
  order lists each registered capability once, after all its requirements.  If it fails, the error
  names a real defect: a requirement of that capability that is not registered, or a path that is a
  cycle.
\<close>

theorem resolver_exact:
  "case resolve g of
      Ok r \<Rightarrow> constructible g \<and> distinct (rg_construction_order r) \<and>
        set (rg_construction_order r) = fset (fmdom (cg_definitions g)) \<and>
        (\<forall>k < length (rg_construction_order r).
           set (requirements g (rg_construction_order r ! k)) \<subseteq> set (take k (rg_construction_order r)))
    | Err e \<Rightarrow> \<not> constructible g \<and> e \<notin> range UnknownCapability \<and>
        (\<forall>i d. e = MissingDependency i d \<longrightarrow> d \<in> set (requirements g i) \<and> \<not> has_key (cg_definitions g) d) \<and>
        (\<forall>p. e = CapabilityCycle p \<longrightarrow> is_cycle (requirements g) p)
    | Panic \<Rightarrow> False"
  by (cases rule: resolve_cases [of g]) (auto simp: deps_first_def broken_def)

theorem resolver_exact_witness: "constructible demo_caps \<and> requirements demo_caps (Id ''api'') = [Id ''db'']"
  using resolver_exact [of demo_caps] by (simp add: demo_caps_resolved) (simp add: cap_eval demo_caps_def)

text \<open>
  Teardown runs in an order in which no capability is torn down while one that requires it is
  still to come: in \<open>teardown_order\<close> every capability stands before all its requirements.
\<close>

theorem teardown_dependents_first:
  assumes "resolve g = Ok r" and "d \<in> set (requirements g i)"
  shows "\<exists>xs ys zs. teardown_order r = xs @ i # ys @ d # zs"
  by (rule teardown_order_before [OF assms])

theorem teardown_dependents_first_witness:
  "\<exists>xs ys zs. teardown_order \<lparr>rg_construction_order = [Id ''db'', Id ''api'']\<rparr> = xs @ Id ''api'' # ys @ Id ''db'' # zs"
proof -
  have "Id ''db'' \<in> set (requirements demo_caps (Id ''api''))" by (simp add: cap_eval demo_caps_def)
  from teardown_dependents_first [OF demo_caps_resolved this] show ?thesis .
qed

text \<open>
  The order in which definitions are inserted does not matter: any two lists of the same
  definitions, one per capability, give the same graph and so the same construction order or error.
\<close>

theorem resolution_order_independent:
  assumes "set ds = set ds'" and "distinct (map cd_id ds)" and "distinct (map cd_id ds')"
  shows "from_definitions ds = from_definitions ds' \<and> resolve (from_definitions ds) = resolve (from_definitions ds')"
proof -
  have "cg_definitions (from_definitions ds) = cg_definitions (from_definitions ds')"
  proof (rule fmap_ext)
    fix i
    have "fmlookup (cg_definitions (from_definitions ds)) i = Some d \<longleftrightarrow>
        fmlookup (cg_definitions (from_definitions ds')) i = Some d" for d
      using assms by (simp add: from_definitions_lookup)
    then show "fmlookup (cg_definitions (from_definitions ds)) i =
        fmlookup (cg_definitions (from_definitions ds')) i" by (metis option.exhaust)
  qed
  then have "from_definitions ds = from_definitions ds'" by simp
  then show ?thesis by simp
qed

theorem resolution_order_independent_witness:
  "from_definitions [definition_new (Id ''a'') ''m'', definition_new (Id ''b'') ''m''] =
   from_definitions [definition_new (Id ''b'') ''m'', definition_new (Id ''a'') ''m'']"
  using resolution_order_independent
    [of "[definition_new (Id ''a'') ''m'', definition_new (Id ''b'') ''m'']"
        "[definition_new (Id ''b'') ''m'', definition_new (Id ''a'') ''m'']"]
  by (simp add: definition_new_def insert_commute)

end
