(* ===== verification/Capability_Scope_Properties.thy ===== *)
theory Capability_Scope_Properties
  imports Capability_Scope_Teardown Capability_Properties
begin

text \<open>
  What the scope hierarchy promises: lookup of the nearest entry, atomic publication that keeps every
  open scope constructible, no stale publication, and a teardown that closes a subtree and releases
  entries before what they require; and two ways in which it does less than its comments say.
\<close>

subsection \<open>Evaluation of small worlds\<close>

lemma live_descendants_eval:
  "live_children w s = [] \<Longrightarrow> live_descendants w s = []"
  "live_children w s = [c] \<Longrightarrow> live_descendants w s = c # live_descendants w c"
  by (subst live_descendants.simps, simp)+

lemma descendants_eval:
  "live_children w s = [] \<Longrightarrow> descendants_child_first w s = []"
  "live_children w s = [c] \<Longrightarrow> descendants_child_first w s = descendants_child_first w c @ [c]"
  by (subst descendants_child_first.simps, simp)+

lemma fmupd_twice: "fmupd k v (fmupd k u m) = fmupd k v m"
  by (rule fmap_ext) auto

lemmas scope_eval =
  cap_eval fmmap_fmupd fmdrop_fmupd fmupd_twice live_descendants_eval descendants_eval
  scope_root_def scope_child_def scope_write_def scope_at_def is_open_def upgrade_def
  publish_preconstructed_def admit_publication_def resolve_dependencies_def deps_get_def
  validate_descendant_admission_def live_children_def has_local_entry_def
  visible_graph_with_entries_def visible_graph_def local_definitions_def scope_parent_def
  check_expectation_locked_def publication_generation_def allocate_entry_id_def u64_checked_succ_def
  generation_checked_next_def validate_candidate_def bt_values_def scope_start_def after_def entry_handle_def
  generation_first_def withdraw_def Let_def

definition demo_db :: capability_definition where
  "demo_db = definition_new (Id ''db'') ''store''"

definition demo_api :: capability_definition where
  "demo_api = depends_on (Id ''db'') (definition_new (Id ''api'') ''service'')"

definition demo_db_handle :: "nat capability_handle" where
  "demo_db_handle = Handle demo_db 10 [] (Generation 1) (EntryId 1)"

definition demo_api_handle :: "nat capability_handle" where
  "demo_api_handle = Handle demo_api 20 [(Id ''db'', demo_db_handle)] (Generation 1) (EntryId 2)"

abbreviation demo_child :: scope_ref where
  "demo_child \<equiv> Child (Root 0) 0"

definition demo_calls :: "nat scope_call list" where
  "demo_calls = [New_root, Publish_value (Root 0) demo_db New [] 10, New_child (Root 0)]"

definition demo_before :: "nat scope_world" where
  "demo_before = the (scope_run demo_calls scope_start)"

definition demo_world :: "nat scope_world" where
  "demo_world = snd (publish_preconstructed demo_child demo_api New [(Id ''db'', demo_db_handle)] 20 demo_before)"

lemmas demo_defs = demo_db_def demo_api_def demo_db_handle_def demo_api_handle_def demo_calls_def

lemma demo_before_run: "scope_run demo_calls scope_start = Some demo_before"
  unfolding demo_before_def by (simp add: scope_eval demo_defs)

lemma demo_publish:
  "publish_preconstructed demo_child demo_api New [(Id ''db'', demo_db_handle)] 20 demo_before =
   (Ok demo_api_handle, demo_world)"
  unfolding demo_world_def demo_before_def by (simp add: scope_eval demo_defs)

lemma demo_child_open: "is_open demo_before demo_child"
  unfolding demo_before_def by (simp add: scope_eval demo_defs)

lemma scope_run_append: "scope_run (cs @ ds) w = (case scope_run cs w of None \<Rightarrow> None | Some u \<Rightarrow> scope_run ds u)"
  by (induction cs arbitrary: w) (auto split: option.splits)

lemma demo_world_run:
  "scope_run (demo_calls @ [Publish_value demo_child demo_api New [(Id ''db'', demo_db_handle)] 20]) scope_start =
   Some demo_world"
  using demo_child_open [THEN is_open_upgrade]
  by (simp add: scope_run_append demo_before_run demo_publish after_def)

lemma demo_scope_inv: "scope_inv demo_before" "scope_inv demo_world"
proof -
  show "scope_inv demo_before" using demo_before_run scope_inv_start by (rule scope_inv_run)
  then show "scope_inv demo_world"
    using scope_inv_step [OF scope_change.publication [OF demo_publish]] by blast
qed

lemma demo_open: "is_open demo_world demo_child" "upgrade demo_world (Root 0)"
  unfolding demo_world_def demo_before_def by (simp_all add: scope_eval demo_defs)

subsection \<open>Lookup\<close>

fun scope_chain :: "scope_ref \<Rightarrow> scope_ref list" where
  "scope_chain (Root r) = [Root r]"
| "scope_chain (Child p k) = Child p k # scope_chain p"

definition nearest :: "'v scope_world \<Rightarrow> scope_ref \<Rightarrow> ident \<Rightarrow> 'v capability_entry \<Rightarrow> bool" where
  "nearest w s i e \<longleftrightarrow>
     (\<exists>as a bs. scope_chain s = as @ a # bs \<and> entry_at w a i = Some e \<and> is_open w a \<and>
        (\<forall>b \<in> set as. is_open w b \<and> entry_at w b i = None))"

lemma nearest_Child:
  "nearest w (Child p k) i e \<longleftrightarrow>
   is_open w (Child p k) \<and>
   (entry_at w (Child p k) i = Some e \<or> entry_at w (Child p k) i = None \<and> nearest w p i e)"
proof
  assume "nearest w (Child p k) i e"
  then obtain as a bs where split: "Child p k # scope_chain p = as @ a # bs"
    and hit: "entry_at w a i = Some e" "is_open w a" "\<forall>b \<in> set as. is_open w b \<and> entry_at w b i = None"
    by (auto simp: nearest_def)
  show "is_open w (Child p k) \<and>
      (entry_at w (Child p k) i = Some e \<or> entry_at w (Child p k) i = None \<and> nearest w p i e)"
  proof (cases as)
    case (Cons b as')
    with split hit have "nearest w p i e" unfolding nearest_def by auto
    with Cons split hit show ?thesis by auto
  qed (use split hit in auto)
next
  assume r: "is_open w (Child p k) \<and>
      (entry_at w (Child p k) i = Some e \<or> entry_at w (Child p k) i = None \<and> nearest w p i e)"
  show "nearest w (Child p k) i e"
  proof (cases "entry_at w (Child p k) i = Some e")
    case True
    with r show ?thesis
      unfolding nearest_def by (intro exI [of _ "[]"] exI [of _ "Child p k"] exI [of _ "scope_chain p"]) auto
  next
    case False
    with r obtain as a bs where "scope_chain p = as @ a # bs" "entry_at w a i = Some e" "is_open w a"
      "\<forall>b \<in> set as. is_open w b \<and> entry_at w b i = None"
      by (auto simp: nearest_def)
    with r False show ?thesis
      unfolding nearest_def by (intro exI [of _ "Child p k # as"] exI [of _ a] exI [of _ bs]) auto
  qed
qed

text \<open>
  A lookup finds the entry of the nearest scope on the way to the root that has one, provided
  that scope and all nearer ones are open, and nothing otherwise; and the graph that admission
  validates candidates against holds exactly the definitions a lookup can find.
\<close>

theorem scope_lookup_nearest:
  assumes "scope_run cs scope_start = Some w"
  shows "(scope_get w s i = Some h \<longleftrightarrow> (\<exists>e. nearest w s i e \<and> h = entry_handle e)) \<and>
    fmlookup (cg_definitions (visible_graph w s)) i = map_option h_definition (scope_get w s i)"
proof
  show "scope_get w s i = Some h \<longleftrightarrow> (\<exists>e. nearest w s i e \<and> h = entry_handle e)"
  proof (induction s)
    case (Child p k)
    then show ?case unfolding nearest_Child by (auto split: option.splits)
  next
    case (Root r)
    have "nearest w (Root r) i e \<longleftrightarrow> is_open w (Root r) \<and> entry_at w (Root r) i = Some e" for e
      by (auto simp: nearest_def Cons_eq_append_conv)
    then show ?case by auto
  qed
  show "fmlookup (cg_definitions (visible_graph w s)) i = map_option h_definition (scope_get w s i)"
    by (rule visible_graph_lookup [OF scope_invD(2) [OF scope_inv_run [OF assms scope_inv_start]]])
qed

theorem scope_lookup_nearest_witness:
  "nearest demo_before demo_child (Id ''db'')
     \<lparr>ce_definition = demo_db, ce_instance = 10, ce_dependencies = [], ce_generation = Generation 1, ce_entry_id = EntryId 1\<rparr>"
proof -
  have "scope_get demo_before demo_child (Id ''db'') = Some demo_db_handle"
    unfolding demo_before_def by (simp add: scope_eval demo_defs)
  with scope_lookup_nearest [OF demo_before_run, of demo_child "Id ''db''" demo_db_handle]
  obtain e where e: "nearest demo_before demo_child (Id ''db'') e" "demo_db_handle = entry_handle e" by blast
  from e(2) have "e = \<lparr>ce_definition = demo_db, ce_instance = 10, ce_dependencies = [],
      ce_generation = Generation 1, ce_entry_id = EntryId 1\<rparr>"
    by (cases e) (simp add: entry_handle_def demo_db_handle_def)
  with e(1) show ?thesis by simp
qed

subsection \<open>Publication\<close>

lemma admit_each_not_Panic: "admit_each w s d cs \<noteq> Panic"
  by (induction cs) (auto simp: res_bind_eq_Panic validate_candidate_not_Panic)

lemma check_snapshot_Panic:
  "check_snapshot i ds hs current = Panic \<Longrightarrow>
   \<exists>d \<in> set ds. deps_get hs (dep_id d) = None \<or> deps_get current (dep_id d) = None"
  by (induction ds) (auto split: option.splits if_splits)

lemma admit_publication_Panic:
  assumes "admit_publication w s d x hs = Panic"
  shows "\<exists>j. Dependency j |\<in>| cd_dependencies d \<and> deps_get hs j = None"
proof -
  let ?es = "ss_entries (scope_at w s)"
  have "\<not> (check_expectation_locked w s (cd_id d) x ?es = Ok u \<and> publication_generation ?es d x = Panic)" for u
    by (auto simp: check_expectation_locked_Ok publication_generation_def
        split: publish_expectation.splits option.splits)
  moreover have "check_expectation_locked w s (cd_id d) x ?es \<noteq> Panic"
    by (auto simp: check_expectation_locked_def split: lifecycle.splits publish_expectation.splits option.splits)
  ultimately obtain current where c: "resolve_dependencies w s d = Ok current"
    "check_snapshot (cd_id d) (bs_list (cd_dependencies d)) hs current = Panic"
    using assms scope_view.always_decides [of w s "cd_id d"] admit_each_not_Panic [of w s d] validate_candidate_not_Panic
    by (auto simp: admit_publication_def res_bind_eq_Panic Let_def resolve_dependencies_def
        validate_descendant_admission_def)
  from check_snapshot_Panic [OF c(2)] obtain e where e: "e \<in> set (bs_list (cd_dependencies d))"
    "deps_get hs (dep_id e) = None \<or> deps_get current (dep_id e) = None" by blast
  then have dep: "Dependency (dep_id e) |\<in>| cd_dependencies d" by simp
  from e(2) resolved_get [OF c(1) dep] have "deps_get hs (dep_id e) = None" by auto
  with dep show ?thesis by blast
qed

text \<open>
  C16: the locked half of a publication succeeds exactly when the scope is open, the dependency
  snapshot is what lookups give at that moment, the expectation holds, and the definitions visible
  from the scope and from every open descendant that would see the candidate stay closed and acyclic.
  It then stores the entry with generation 1, or the successor of the replaced one, and a fresh
  identity, and from then on a lookup of that name gives it in exactly the scopes the candidate
  affects, every other lookup being unchanged.  An error changes nothing; a panic means that the
  identities are exhausted or that the snapshot lacks a requirement.
\<close>

theorem publication_exact:
  "case publish_preconstructed s d x hs v w of
      (Ok h, w') \<Rightarrow>
        admissible w s d x hs (h_generation h) \<and>
        h = Handle d v hs (h_generation h) (EntryId (sw_next_entry_id w)) \<and>
        unat (sw_next_entry_id w') = unat (sw_next_entry_id w) + 1 \<and>
        (\<forall>t j. scope_get w' t j =
           (if j = cd_id d \<and> candidate_affects w s t j then Some h else scope_get w t j))
    | (Err e, w') \<Rightarrow> w' = w \<and> (\<nexists>g. admissible w s d x hs g)
    | (Panic, w') \<Rightarrow>
        w' = w \<and> (sw_next_entry_id w = - 1 \<or> (\<exists>j. Dependency j |\<in>| cd_dependencies d \<and> deps_get hs j = None))"
proof -
  obtain r w' where r: "publish_preconstructed s d x hs v w = (r, w')" by fastforce
  show ?thesis
  proof (cases r)
    case (Ok h)
    obtain g counter e where ok: "admissible w s d x hs g" "u64_checked_succ (sw_next_entry_id w) = Some counter"
      and e: "ce_definition e = d" "ce_instance e = v" "ce_dependencies e = hs" "ce_generation e = g"
        "ce_entry_id e = EntryId (sw_next_entry_id w)" "h = entry_handle e"
      and w': "w' = entry_write s (cd_id d) e (w\<lparr>sw_next_entry_id := counter\<rparr>)"
      using r [unfolded Ok] by (rule publishedE)
    let ?w = "w\<lparr>sw_next_entry_id := counter\<rparr>"
    have "candidate_affects ?w s t j = candidate_affects w s t j" for t j
      by (induction t) (auto simp: has_local_entry_def)
    moreover have "scope_get ?w t j = scope_get w t j" for t j
      by (rule scope_get_cong) (simp add: same_view_def)
    ultimately have "scope_get w' t j =
        (if j = cd_id d \<and> candidate_affects w s t j then Some h else scope_get w t j)" for t j
      using ok(1) scope_get_entry_write [of ?w s "cd_id d" e t j] by (auto simp: w' e(6) admissible_def)
    moreover have "h = Handle d v hs g (EntryId (sw_next_entry_id w))" "h_generation h = g"
      by (simp_all add: e(6) entry_handle_def e(1-5))
    moreover have "unat (sw_next_entry_id w') = unat (sw_next_entry_id w) + 1"
      using ok(2) by (simp add: w' entry_write_def u64_checked_succ_Some)
    ultimately show ?thesis using ok(1) by (auto simp: r Ok)
  next
    case (Err e)
    with r have "admit_publication w s d x hs = Err e"
      by (auto simp: publish_preconstructed_def Let_def split: res.splits option.splits)
    with publish_preconstructed_Err [OF r [unfolded Err]] show ?thesis
      by (simp add: r Err flip: admit_publication_Ok)
  next
    case Panic
    with r have "w' = w" "admit_publication w s d x hs = Panic \<or> sw_next_entry_id w = - 1"
      by (auto simp: publish_preconstructed_def allocate_entry_id_def Let_def u64_checked_succ_None
          split: res.splits option.splits)
    with admit_publication_Panic [of w s d x hs] show ?thesis by (auto simp: r Panic)
  qed
qed

text \<open>
  C15: as long as nothing is withdrawn, however publications, replacements, new scopes and teardowns
  interleave, the definitions visible from an open scope are closed under requirements and acyclic,
  so all of them can be constructed and everything a visible capability requires is itself visible.
\<close>

theorem open_scopes_constructible:
  assumes "scope_run cs scope_start = Some w" and "\<not> may_withdraw cs" and "is_open w s"
  shows "constructible (visible_graph w s) \<and>
    (\<forall>i h j. scope_get w s i = Some h \<longrightarrow> Dependency j |\<in>| cd_dependencies (h_definition h) \<longrightarrow>
       scope_get w s j \<noteq> None)"
proof -
  have keyed: "keyed w" by (rule scope_invD(2) [OF scope_inv_run [OF assms(1) scope_inv_start]])
  have con: "constructible (visible_graph w s)"
    using admission_run [OF assms(1,2) scope_inv_start admission_start] assms(3) by (simp add: admission_ok_def)
  have "scope_get w s j \<noteq> None" if "scope_get w s i = Some h" and "Dependency j |\<in>| cd_dependencies (h_definition h)" for i h j
  proof -
    from that(2) have "j \<in> dep_id ` fset (cd_dependencies (h_definition h))" by (metis dependency.sel image_eqI)
    with that(1) have "j \<in> set (requirements (visible_graph w s) i)"
      by (simp add: requirements_def visible_graph_lookup [OF keyed])
    with con show ?thesis by (auto simp: constructible_def visible_graph_lookup [OF keyed])
  qed
  with con show ?thesis by blast
qed

theorem open_scopes_constructible_witness:
  "constructible (visible_graph demo_world demo_child) \<and> scope_get demo_world demo_child (Id ''db'') \<noteq> None"
proof -
  have get: "scope_get demo_world demo_child (Id ''api'') = Some demo_api_handle"
    unfolding demo_world_def demo_before_def by (simp add: scope_eval demo_defs)
  have dep: "Dependency (Id ''db'') |\<in>| cd_dependencies (h_definition demo_api_handle)"
    by (simp add: demo_api_handle_def demo_api_def depends_on_def)
  have "\<not> may_withdraw (demo_calls @ [Publish_value demo_child demo_api New [(Id ''db'', demo_db_handle)] 20])"
    by (simp add: may_withdraw_def demo_calls_def)
  from open_scopes_constructible [OF demo_world_run this demo_open(1)] get dep show ?thesis by blast
qed

subsection \<open>Stale publications\<close>

text \<open>An entry that is older than a world has not changed since.\<close>

lemma run_old_entries:
  assumes run: "scope_run cs w0 = Some w" and inv: "scope_inv w0"
  shows "next_id w0 \<le> next_id w \<and>
    (\<forall>s i e. entry_at w s i = Some e \<longrightarrow> unat (entry_id_get (ce_entry_id e)) < next_id w0 \<longrightarrow>
       entry_at w0 s i = Some e)"
proof -
  let ?P = "\<lambda>u. scope_inv u \<and> next_id w0 \<le> next_id u \<and>
    (\<forall>s i e. entry_at u s i = Some e \<longrightarrow> unat (entry_id_get (ce_entry_id e)) < next_id w0 \<longrightarrow>
       entry_at w0 s i = Some e)"
  have "?P w"
    using run
  proof (induction rule: scope_run_induct)
    case (step u u')
    have inv': "scope_inv u'" using scope_inv_step step by blast
    from scope_change_entries [OF step(2)] step(1) scope_invD(1)
    consider "only_removes u u'" | s d x hs v h where "publish_preconstructed s d x hs v u = (Ok h, u')" by blast
    then show ?case
    proof cases
      case 1
      with step(1) inv' show ?thesis unfolding only_removes_def by auto
    next
      case 2
      obtain g counter e where c: "u64_checked_succ (sw_next_entry_id u) = Some counter"
        and e: "ce_entry_id e = EntryId (sw_next_entry_id u)"
        and u': "u' = entry_write s (cd_id d) e (u\<lparr>sw_next_entry_id := counter\<rparr>)"
        using 2 by (rule publishedE)
      have "next_id u' = next_id u + 1" using c by (simp add: u' entry_write_def u64_checked_succ_Some)
      with step(1) inv' e show ?thesis by (auto simp: u' split: if_splits)
    qed
  qed (use inv in simp)
  then show ?thesis by blast
qed

text \<open>
  A value constructed from a dependency snapshot is published only while that very snapshot is
  current: whatever other calls ran between the two halves of the publication, if it succeeds, then
  resolving the dependencies at that moment gives the same handles, with the same values, as those the
  factory was given.
\<close>

theorem published_on_current_snapshot:
  assumes start: "scope_run cs0 scope_start = Some w0"
    and prepared: "publish_prepare w0 s d x = Ok hs"
    and between: "scope_run cs w0 = Some w"
    and published: "publish_preconstructed s d x hs v w = (Ok h, w')"
  shows "resolve_dependencies w s d = Ok hs"
proof -
  have inv: "scope_inv w0" by (rule scope_inv_run [OF start scope_inv_start])
  have hs: "resolve_dependencies w0 s d = Ok hs" using prepared by (auto simp: publish_prepare_def)
  have current: "snapshot_current w s d hs"
    using published by (rule publishedE) (simp add: admissible_def)
  have same: "scope_get w s j = deps_get hs j" if j: "Dependency j |\<in>| cd_dependencies d" for j
  proof -
    from current j obtain y c where y: "deps_get hs j = Some y" and c: "scope_get w s j = Some c"
      and ids: "h_entry_id c = h_entry_id y" by (auto simp: snapshot_current_def)
    from resolved_get [OF hs j] y have "scope_get w0 s j = Some y" by simp
    then obtain a0 e0 where e0: "entry_at w0 a0 j = Some e0" "y = entry_handle e0" by (blast dest: scope_get_entry)
    from c obtain a e where e: "entry_at w a j = Some e" "c = entry_handle e" by (blast dest: scope_get_entry)
    have id: "ce_entry_id e = ce_entry_id e0" using ids e0(2) e(2) by (simp add: entry_handle_def)
    have "unat (entry_id_get (ce_entry_id e0)) < next_id w0"
      using scope_invD(4) [OF inv] e0(1) by (simp add: ids_below_def)
    with run_old_entries [OF between inv] e(1) id have old: "entry_at w0 a j = Some e" by metis
    with scope_invD(3) [OF inv] e0(1) id have "a = a0" unfolding ids_unique_def by blast
    with old e0 e(2) c y show ?thesis by simp
  qed
  have keys: "map fst hs = map dep_id (bs_list (cd_dependencies d))"
    using hs by (auto simp: resolve_dependencies_Ok)
  then have dist: "distinct (map fst hs)" using dep_ids_distinct by metis
  show ?thesis
    unfolding resolve_dependencies_Ok
  proof (intro conjI keys ballI, clarify)
    fix j k
    assume jk: "(j, k) \<in> set hs"
    then have "j \<in> set (map fst hs)" by force
    then have "j \<in> dep_id ` fset (cd_dependencies d)" by (simp add: keys)
    then have "Dependency j |\<in>| cd_dependencies d" by auto
    from same [OF this] jk dist show "scope_get w s j = Some k" by (simp add: deps_get_def)
  qed
qed

theorem published_on_current_snapshot_witness:
  "resolve_dependencies demo_before demo_child demo_api = Ok [(Id ''db'', demo_db_handle)]"
proof -
  have "publish_prepare demo_before demo_child demo_api New = Ok [(Id ''db'', demo_db_handle)]"
    unfolding demo_before_def by (simp add: publish_prepare_def check_expectation_def scope_eval demo_defs)
  from published_on_current_snapshot [OF demo_before_run this _ demo_publish, of "[]"] show ?thesis by simp
qed

definition grown :: "scope_ref \<Rightarrow> ident \<Rightarrow> nat \<Rightarrow> 'v scope_world \<Rightarrow> bool" where
  "grown s i n w \<longleftrightarrow>
     upgrade w s \<and>
     (is_open w s \<longrightarrow> (\<exists>e. entry_at w s i = Some e \<and> n \<le> unat (generation_get (ce_generation e))))"

lemma generation_checked_next_val:
  "generation_checked_next g = Some g' \<Longrightarrow> unat (generation_get g') = unat (generation_get g) + 1"
  using gen_ctr.next_Some [of g g'] by (simp add: gen_ctr.val_def)

lemma grown_publish:
  assumes grown: "grown s i n w" and pub: "publish_preconstructed t d x hs v w = (Ok h, w')"
  shows "grown s i n w'"
proof -
  obtain g counter e where adm: "admissible w t d x hs g" and e: "ce_generation e = g"
    and w': "w' = entry_write t (cd_id d) e (w\<lparr>sw_next_entry_id := counter\<rparr>)"
    using pub by (rule publishedE)
  show ?thesis
  proof (cases "t = s \<and> cd_id d = i")
    case True
    with adm grown obtain f where f: "entry_at w s i = Some f" "n \<le> unat (generation_get (ce_generation f))"
      by (auto simp: grown_def admissible_def)
    with adm True have "generation_checked_next (ce_generation f) = Some g"
      by (auto simp: admissible_def expectation_met_def split: publish_expectation.splits)
    from generation_checked_next_val [OF this] f True grown e show ?thesis
      by (auto simp: grown_def w')
  next
    case False
    with grown show ?thesis by (auto simp: grown_def w')
  qed
qed

lemma grown_exec:
  assumes exec: "scope_exec c w = Some w'" and c: "\<not> is_withdraw c" "c \<noteq> Drop_scope s"
    and tree: "tree_shaped w" and grown: "grown s i n w"
  shows "grown s i n w'"
proof -
  have up: "upgrade w s" using grown by (simp add: grown_def)
  show ?thesis
  proof (cases c)
    case New_root
    with exec have w': "w' = snd (scope_root w)" by simp
    have "s \<noteq> Root (sw_roots w)" using fresh_root [OF tree] up by blast
    with grown w' show ?thesis by (auto simp: grown_def scope_root_def)
  next
    case (New_child t)
    with exec have w': "w' = snd (scope_child t w)" by (auto split: if_splits)
    have "s \<noteq> Child t (length (ss_children (scope_at w t)))" using fresh_child [OF tree] up by blast
    with grown w' show ?thesis by (auto simp: grown_def scope_child_def Let_def is_open_def)
  next
    case (Publish_value t d x hs v)
    with exec grown show ?thesis
      by (auto simp: after_Some split: if_splits dest: grown_publish publish_preconstructed_Err)
  next
    case (Provide_value t d hs v)
    with exec grown show ?thesis
      by (auto simp: after_Some provide_value_def split: if_splits res.splits
          dest: grown_publish publish_preconstructed_Err)
  next
    case (Teardown t)
    with exec obtain es where td: "teardown t w = (Ok es, w')"
      by (auto simp: after_Some teardown_not_Err split: if_splits)
    with grown show ?thesis by (auto simp: grown_def teardown_effect is_open_def)
  next
    case (Drop_scope t)
    with exec c grown show ?thesis
      by (auto simp: scope_drop_def grown_def scope_at_fmdrop is_open_def split: if_splits)
  qed (use c in simp)
qed

lemma grown_run:
  "scope_run cs w = Some w' \<Longrightarrow> \<not> may_withdraw cs \<Longrightarrow> Drop_scope s \<notin> set cs \<Longrightarrow> scope_inv w \<Longrightarrow>
   grown s i n w \<Longrightarrow> grown s i n w'"
proof (induction cs arbitrary: w)
  case (Cons c cs)
  then obtain u where u: "scope_exec c w = Some u" "scope_run cs u = Some w'" by (auto split: option.splits)
  have "grown s i n u"
    using Cons.prems by (intro grown_exec [OF u(1)]) (auto simp: may_withdraw_def scope_inv_def)
  moreover have "scope_inv u" using scope_exec_change [OF u(1)] Cons.prems(4) by (rule scope_inv_step)
  ultimately show ?case using Cons u(2) by (simp add: may_withdraw_def)
qed simp

text \<open>
  Of two replacements that expect the same generation at most one takes effect: once one has
  succeeded, the other is refused at any later time, whatever else ran in between, as long as nothing
  is withdrawn.
\<close>

theorem replacement_exclusive:
  assumes start: "scope_run cs0 scope_start = Some w"
    and first: "publish_preconstructed s d (Replace g) hs v w = (Ok h, w1)"
    and between: "scope_run cs w1 = Some w2" "\<not> may_withdraw cs" "Drop_scope s \<notin> set cs"
    and same: "cd_id d' = cd_id d"
  shows "\<not> is_ok (fst (publish_preconstructed s d' (Replace g) hs' v' w2))"
proof
  assume "is_ok (fst (publish_preconstructed s d' (Replace g) hs' v' w2))"
  then obtain h' w3 where second: "publish_preconstructed s d' (Replace g) hs' v' w2 = (Ok h', w3)"
    by (metis is_ok_iff prod.collapse)
  obtain g' counter e where adm: "admissible w s d (Replace g) hs g'" and e: "ce_generation e = g'"
    and w1: "w1 = entry_write s (cd_id d) e (w\<lparr>sw_next_entry_id := counter\<rparr>)"
    using first by (rule publishedE)
  then have succ: "generation_checked_next g = Some g'" by (auto simp: admissible_def expectation_met_def)
  have "grown s (cd_id d) (unat (generation_get g) + 1) w1"
    using generation_checked_next_val [OF succ] e by (simp add: grown_def w1)
  moreover have "scope_inv w1"
    using scope_inv_step [OF scope_change.publication [OF first]] scope_inv_run [OF start scope_inv_start] by blast
  ultimately have "grown s (cd_id d) (unat (generation_get g) + 1) w2" by (intro grown_run [OF between])
  moreover obtain g2 where "admissible w2 s d' (Replace g) hs' g2" using second by (rule publishedE)
  ultimately show False using same by (auto simp: grown_def admissible_def expectation_met_def)
qed

definition demo_db2 :: capability_definition where
  "demo_db2 = with_replay_identity ''db:v2'' demo_db"

theorem replacement_exclusive_witness:
  "\<not> is_ok (fst (publish_preconstructed (Root 0) demo_db (Replace (Generation 1)) [] 12
      (snd (publish_preconstructed (Root 0) demo_db2 (Replace (Generation 1)) [] 11 demo_before))))"
proof -
  let ?p = "publish_preconstructed (Root 0) demo_db2 (Replace (Generation 1)) [] 11 demo_before"
  have "?p = (Ok (Handle demo_db2 11 [] (Generation 2) (EntryId 2)), snd ?p)"
    unfolding demo_before_def by (simp add: scope_eval demo_defs demo_db2_def with_replay_identity_def)
  from replacement_exclusive [OF demo_before_run this, of "[]" "snd ?p" demo_db "[]" 12] show ?thesis
    by (simp add: may_withdraw_def demo_db2_def with_replay_identity_def)
qed

text \<open>
  The documentation of \<open>replace\<close> promises that a stale constructor returns
  \<open>ReplacementConflict\<close> and cannot change the current entry.  Generations start again at 1 when a
  capability is withdrawn and provided anew, so a replacement prepared for the withdrawn publication
  is accepted and replaces an entry it has never seen.
\<close>

theorem stale_replacement_accepted:
  "\<exists>w w' old other new.
     publish_prepare demo_before (Root 0) demo_db2 (Replace (Generation 1)) = Ok [] \<and>
     scope_get demo_before (Root 0) (Id ''db'') = Some old \<and>
     scope_run [Withdraw (Root 0) (Id ''db'') (Generation 1), Publish_value (Root 0) demo_db New [] 30]
       demo_before = Some w \<and>
     scope_get w (Root 0) (Id ''db'') = Some other \<and> h_entry_id other \<noteq> h_entry_id old \<and>
     publish_preconstructed (Root 0) demo_db2 (Replace (Generation 1)) [] 11 w = (Ok new, w') \<and>
     scope_get w' (Root 0) (Id ''db'') = Some new"
  unfolding demo_before_def
  by (simp add: publish_prepare_def check_expectation_def scope_eval demo_defs demo_db2_def with_replay_identity_def)

subsection \<open>Teardown\<close>

text \<open>
  A teardown that returns closes the scope and every descendant still allocated and takes all
  their entries away; it changes no other scope and no allocation; and it releases each of those
  entries exactly once.
\<close>

theorem teardown_closes_subtree:
  assumes start: "scope_run cs scope_start = Some w" and s: "upgrade w s" and td: "teardown s w = (Ok es, w')"
  shows "(\<forall>t. below s t \<longrightarrow> \<not> is_open w' t) \<and>
    (\<forall>t. below s t \<and> is_open w t \<longrightarrow> ss_entries (scope_at w' t) = fmempty) \<and>
    (\<forall>t. \<not> below s t \<longrightarrow> scope_at w' t = scope_at w t) \<and>
    (\<forall>t. upgrade w' t = upgrade w t) \<and>
    set es = {e. \<exists>t i. below s t \<and> is_open w t \<and> entry_at w t i = Some e} \<and>
    distinct (map ce_entry_id es)"
proof (intro conjI)
  have inv: "scope_inv w" by (rule scope_inv_run [OF start scope_inv_start])
  note tree = scope_invD(1) [OF inv] and keyed = keyed_local [OF scope_invD(2) [OF inv]]
  have at: "scope_at w' t = (if below s t \<and> upgrade w t \<and> is_open w t then closed_state (scope_at w t) else scope_at w t)" for t
    by (cases "t = s") (simp_all add: teardown_effect(1) [OF td] set_live_descendants [OF tree] s)
  have closed: "scope_at w' t = closed_state (scope_at w t)" if "below s t" "is_open w t" for t
    using that is_open_upgrade [OF that(2)] by (simp add: at)
  have kept: "scope_at w' t = scope_at w t" if "\<not> (below s t \<and> is_open w t)" for t
    using that by (auto simp: at)
  show "\<forall>t. below s t \<longrightarrow> \<not> is_open w' t"
  proof (intro allI impI)
    fix t
    assume "below s t"
    then show "\<not> is_open w' t"
      using closed [of t] kept [of t] by (cases "is_open w t") (simp_all add: is_open_def)
  qed
  show "\<forall>t. below s t \<and> is_open w t \<longrightarrow> ss_entries (scope_at w' t) = fmempty" by (simp add: closed)
  show "\<forall>t. \<not> below s t \<longrightarrow> scope_at w' t = scope_at w t" by (simp add: kept)
  show "\<forall>t. upgrade w' t = upgrade w t" by (simp add: teardown_effect(2) [OF td])
  let ?L = "descendants_child_first w s @ [s]"
  note L = teardown_scopes_set [OF tree s]
  note es = teardown_released(1) [OF inv td] and ok = teardown_released(2) [OF inv td]
  have Lset: "set (filter (is_open w) ?L) = {t. below s t \<and> is_open w t}"
    by (simp only: set_filter L) (use is_open_upgrade [of w] in blast)
  have part: "set (released_by (ss_entries (scope_at w t))) = {e. \<exists>i. entry_at w t i = Some e}"
    if "t \<in> set ?L" "is_open w t" for t
    using ok [OF that] released_by_set [OF keyed] by (auto simp: in_bt_values)
  have "set es = (\<Union>t \<in> set (filter (is_open w) ?L). set (released_by (ss_entries (scope_at w t))))"
    by (simp add: es)
  also have "\<dots> = (\<Union>t \<in> set (filter (is_open w) ?L). {e. \<exists>i. entry_at w t i = Some e})"
    by (intro SUP_cong refl part) (simp_all only: set_filter mem_Collect_eq)
  also have "\<dots> = {e. \<exists>t i. below s t \<and> is_open w t \<and> entry_at w t i = Some e}"
    unfolding Lset by blast
  finally show all: "set es = {e. \<exists>t i. below s t \<and> is_open w t \<and> entry_at w t i = Some e}" .
  have place: "t = t'" if "entry_at w t i = Some e" "entry_at w t' i' = Some e'" "ce_entry_id e = ce_entry_id e'"
    for t t' i i' e e' using scope_invD(3) [OF inv] that unfolding ids_unique_def by blast
  have "distinct es"
    unfolding es
  proof (rule distinct_concat_disjoint)
    show "distinct (filter (is_open w) ?L)"
      using teardown_scopes_distinct [OF tree, of s] live_descendants_below [of s w s]
      by (auto simp: set_descendants_child_first)
    fix t
    assume "t \<in> set (filter (is_open w) ?L)"
    then have t: "t \<in> set ?L" "is_open w t" by (simp_all only: set_filter mem_Collect_eq)
    with ok released_by_distinct [OF keyed] show "distinct (released_by (ss_entries (scope_at w t)))" by blast
    fix u
    assume "u \<in> set (filter (is_open w) ?L)" and ne: "t \<noteq> u"
    then have u: "u \<in> set ?L" "is_open w u" by (simp_all only: set_filter mem_Collect_eq)
    show "set (released_by (ss_entries (scope_at w t))) \<inter> set (released_by (ss_entries (scope_at w u))) = {}"
      unfolding part [OF t] part [OF u] using place ne by blast
  qed
  moreover have "inj_on ce_entry_id (set es)"
    unfolding all
  proof (rule inj_onI, clarify)
    fix e f t i u j
    assume "entry_at w t i = Some e" "entry_at w u j = Some f" "ce_entry_id e = ce_entry_id f"
    then have "t = u \<and> i = j" "entry_at w t i = Some e" "entry_at w u j = Some f"
      using scope_invD(3) [OF inv] unfolding ids_unique_def by blast+
    then show "e = f" by simp
  qed
  ultimately show "distinct (map ce_entry_id es)" by (simp add: distinct_map)
qed

lemmas teardown_eval =
  scope_eval teardown_def runtime_teardown_order_def runtime_graph_def insert_entry_def
  teardown_order_def drop_teardown_plans_def

definition demo_torn :: "nat capability_entry list" where
  "demo_torn = (case fst (teardown (Root 0) demo_world) of Ok es \<Rightarrow> es | _ \<Rightarrow> [])"

lemma demo_teardown: "teardown (Root 0) demo_world = (Ok demo_torn, snd (teardown (Root 0) demo_world))"
  unfolding demo_torn_def demo_world_def demo_before_def by (simp add: teardown_eval demo_defs)

theorem teardown_closes_subtree_witness:
  "\<not> is_open (snd (teardown (Root 0) demo_world)) demo_child"
  using teardown_closes_subtree [OF demo_world_run demo_open(2) demo_teardown] by simp

lemma entry_handle_inject: "entry_handle e = entry_handle f \<Longrightarrow> e = (f :: 'v capability_entry)"
  by (cases e; cases f) (simp add: entry_handle_def)

text \<open>
  C18: an entry is released before whatever it requires: if an entry of some scope of the subtree
  requires a capability, and a lookup from that scope finds it at an entry that the teardown releases
  too, in the same scope or further up, then the requiring entry comes first.
\<close>

theorem teardown_releases_dependents_first:
  assumes start: "scope_run cs scope_start = Some w" and td: "teardown s w = (Ok es, w')"
    and e: "below s t" "is_open w t" "entry_at w t i = Some e"
    and dep: "Dependency j |\<in>| cd_dependencies (ce_definition e)"
    and f: "scope_get w t j = Some (entry_handle f)" "below s a" "entry_at w a j = Some f"
  shows "\<exists>xs ys zs. es = xs @ e # ys @ f # zs"
proof -
  have inv: "scope_inv w" by (rule scope_inv_run [OF start scope_inv_start])
  note tree = scope_invD(1) [OF inv] and keyed = keyed_local [OF scope_invD(2) [OF inv]]
  let ?L = "descendants_child_first w s @ [s]"
  have up: "upgrade w t" by (rule is_open_upgrade [OF e(2)])
  have s: "upgrade w s" by (rule chain_upgrade [OF tree e(1) up])
  note es = teardown_released(1) [OF inv td] and ok = teardown_released(2) [OF inv td]
  from scope_get_entry [OF f(1)] obtain b g where "below b t" "is_open w b" "entry_at w b j = Some g"
    "entry_handle f = entry_handle g" by blast
  with f(3) scope_invD(3) [OF inv] have a: "below a t" "is_open w a"
    unfolding ids_unique_def using entry_handle_inject by (metis (no_types))+
  have L: "t \<in> set ?L" "a \<in> set ?L"
    unfolding teardown_scopes_set [OF tree s] using e(1) up f(2) is_open_upgrade [OF a(2)] by auto
  obtain ot oa where "runtime_teardown_order (ss_entries (scope_at w t)) = Ok ot"
    and "runtime_teardown_order (ss_entries (scope_at w a)) = Ok oa"
    using ok [OF L(1) e(2)] ok [OF L(2) a(2)] by blast
  note released = released_by_before [OF keyed this(1) e(3) _ dep] released_by_set [OF keyed this(1)]
    released_by_set [OF keyed this(2)]
  have "before e f es"
  proof (cases "t = a")
    case True
    with released(1) f(3) have "before e f (released_by (ss_entries (scope_at w t)))" by blast
    then show ?thesis unfolding es by (rule before_concat_same [rotated]) (use L e(2) in auto)
  next
    case False
    have "before t a ?L" by (rule teardown_scopes_before [OF tree e(1) up f(2) a(1) False])
    from before_map_filter [OF this, of "is_open w" id] e(2) a(2)
    have "before t a (filter (is_open w) ?L)" by simp
    then show ?thesis
      unfolding es by (rule before_concat) (use released(2,3) e(3) f(3) in \<open>auto simp: in_bt_values\<close>)
  qed
  then show ?thesis by (simp add: before_def)
qed

theorem teardown_releases_dependents_first_witness:
  "\<exists>xs ys zs e f. demo_torn = xs @ e # ys @ f # zs \<and> ce_definition e = demo_api \<and> ce_definition f = demo_db"
proof -
  let ?db = "\<lparr>ce_definition = demo_db, ce_instance = 10, ce_dependencies = [], ce_generation = Generation 1,
    ce_entry_id = EntryId 1\<rparr>"
  let ?api = "\<lparr>ce_definition = demo_api, ce_instance = 20, ce_dependencies = [(Id ''db'', demo_db_handle)],
    ce_generation = Generation 1, ce_entry_id = EntryId 2\<rparr>"
  have "entry_at demo_world demo_child (Id ''api'') = Some ?api"
    and "entry_at demo_world (Root 0) (Id ''db'') = Some ?db"
    and "scope_get demo_world demo_child (Id ''db'') = Some (entry_handle ?db)"
    unfolding demo_world_def demo_before_def by (simp_all add: scope_eval demo_defs)
  moreover have "Dependency (Id ''db'') |\<in>| cd_dependencies (ce_definition ?api)"
    by (simp add: demo_api_def depends_on_def)
  ultimately have "\<exists>xs ys zs. demo_torn = xs @ ?api # ys @ ?db # zs"
    by (intro teardown_releases_dependents_first [OF demo_world_run demo_teardown _ demo_open(1)]) auto
  then show ?thesis by (metis capability_entry.select_convs(1))
qed

definition cap_w :: capability_definition where "cap_w = definition_new (Id ''w'') ''k''"
definition cap_y1 :: capability_definition where "cap_y1 = depends_on (Id ''w'') (definition_new (Id ''y'') ''k'')"
definition cap_a :: capability_definition where "cap_a = depends_on (Id ''y'') (definition_new (Id ''a'') ''k'')"
definition cap_y2 :: capability_definition where "cap_y2 = definition_new (Id ''y'') ''k''"
definition cap_w2 :: capability_definition where "cap_w2 = depends_on (Id ''y'') (definition_new (Id ''w'') ''k'')"

definition handle_w :: "nat capability_handle" where
  "handle_w = Handle cap_w 0 [] (Generation 1) (EntryId 1)"

definition handle_y1 :: "nat capability_handle" where
  "handle_y1 = Handle cap_y1 0 [(Id ''w'', handle_w)] (Generation 1) (EntryId 2)"

definition handle_y2 :: "nat capability_handle" where
  "handle_y2 = Handle cap_y2 0 [] (Generation 2) (EntryId 4)"

definition panic_calls :: "nat scope_call list" where
  "panic_calls =
     [New_root,
      Publish_value (Root 0) cap_w New [] 0,
      Publish_value (Root 0) cap_y1 New [(Id ''w'', handle_w)] 0,
      New_child (Root 0),
      Publish_value demo_child cap_a New [(Id ''y'', handle_y1)] 0,
      Publish_value (Root 0) cap_y2 (Replace (Generation 1)) [] 0,
      Publish_value demo_child cap_w2 New [(Id ''y'', handle_y2)] 0]"

lemmas panic_defs = cap_w_def cap_y1_def cap_a_def cap_y2_def cap_w2_def handle_w_def handle_y1_def handle_y2_def

lemma panic_world:
  "\<exists>w. scope_run panic_calls scope_start = Some w \<and> fst (teardown demo_child w) = Panic \<and>
    ss_lifecycle (scope_at (snd (teardown demo_child w)) demo_child) = Closing"
  by (simp add: teardown_eval panic_calls_def panic_defs)

text \<open>
  C20: \<open>teardown\<close> can panic although nothing was withdrawn and every open scope was constructible.
  The graph that orders it mixes the entries of the scope with the definitions of old dependency
  snapshots, and the \<open>expect\<close> on its resolution fails if the mixture has a cycle: here the parent
  provides w and y, which requires w; the child provides a, which requires y; the parent replaces y by
  a version without requirements; and the child provides its own w, which requires the new y.  The
  child's entries are lost with its scope left closing.
\<close>

theorem teardown_may_panic:
  "\<exists>w. scope_run panic_calls scope_start = Some w \<and> admission_ok w \<and>
    fst (teardown demo_child w) = Panic \<and>
    ss_lifecycle (scope_at (snd (teardown demo_child w)) demo_child) = Closing"
proof -
  obtain w where w: "scope_run panic_calls scope_start = Some w" "fst (teardown demo_child w) = Panic"
    "ss_lifecycle (scope_at (snd (teardown demo_child w)) demo_child) = Closing" using panic_world by blast
  have "\<not> may_withdraw panic_calls" by (simp add: may_withdraw_def panic_calls_def)
  from admission_run [OF w(1) this scope_inv_start admission_start] w show ?thesis by blast
qed

end
