(* ===== verification/Capability_Context.thy ===== *)
theory Capability_Context
  imports Capability_Scope_Laws
begin

text \<open>
  The context views of \<open>crates/capability-graph/src/semantic.rs\<close>: a chain of scopes with isolation
  boundaries and configuration overrides, its local-first lookup, and the exact provider bindings and
  epochs that a fiber captures.  A context is immutable; what changes is the world of scopes.
\<close>

subsection \<open>Contexts\<close>

datatype capability_context = Context
  (cx_scope: scope_ref)
  (cx_parent: "capability_context option")
  (cx_isolation: "ident fset")
  (cx_intercepts: "(ident, string) fmap")

fun context_from_scope :: "scope_ref \<Rightarrow> capability_context" where
  "context_from_scope (Root r) = Context (Root r) None {||} fmempty"
| "context_from_scope (Child p k) = Context (Child p k) (Some (context_from_scope p)) {||} fmempty"

definition context_root :: "'v scope_world \<Rightarrow> capability_context \<times> 'v scope_world" where
  "context_root w = (case scope_root w of (s, w') \<Rightarrow> (context_from_scope s, w'))"

fun root_context :: "capability_context \<Rightarrow> capability_context" where
  "root_context (Context s None isos ics) = Context s None isos ics"
| "root_context (Context s (Some p) isos ics) = root_context p"

definition child_context ::
  "capability_context \<Rightarrow> 'v scope_world \<Rightarrow> capability_context \<times> 'v scope_world" where
  "child_context c w =
     (case scope_child (cx_scope c) w of (s, w') \<Rightarrow> (Context s (Some c) {||} fmempty, w'))"

definition context_extend ::
  "capability_context \<Rightarrow> 'v scope_world \<Rightarrow> capability_context \<times> 'v scope_world" where
  "context_extend c w = child_context c w"

definition context_isolate ::
  "ident \<Rightarrow> capability_context \<Rightarrow> 'v scope_world \<Rightarrow> capability_context \<times> 'v scope_world" where
  "context_isolate i c w =
     (case scope_child (cx_scope c) w of (s, w') \<Rightarrow> (Context s (Some c) {|i|} fmempty, w'))"

definition context_intercept ::
  "ident \<Rightarrow> string \<Rightarrow> capability_context \<Rightarrow> 'v scope_world \<Rightarrow> capability_context \<times> 'v scope_world" where
  "context_intercept plugin config c w =
     (case scope_child (cx_scope c) w of
        (s, w') \<Rightarrow> (Context s (Some c) {||} (fmupd plugin config fmempty), w'))"

text \<open>The loop of \<open>get\<close> moves to the parent context until one has a local entry.\<close>

fun context_get :: "'v scope_world \<Rightarrow> capability_context \<Rightarrow> ident \<Rightarrow> 'v capability_handle option" where
  "context_get w (Context s None isos ics) i =
     (if has_local w s i then scope_get w s i else None)"
| "context_get w (Context s (Some p) isos ics) i =
     (if has_local w s i then scope_get w s i
      else if i |\<in>| isos then None
      else context_get w p i)"

fun intercepted_config :: "capability_context \<Rightarrow> ident \<Rightarrow> string option" where
  "intercepted_config (Context s None isos ics) plugin = fmlookup ics plugin"
| "intercepted_config (Context s (Some p) isos ics) plugin =
     (case fmlookup ics plugin of
        Some config \<Rightarrow> Some config
      | None \<Rightarrow> intercepted_config p plugin)"

fun context_resolve_each ::
  "'v scope_world \<Rightarrow> capability_context \<Rightarrow> ident \<Rightarrow> dependency list \<Rightarrow>
   ('v resolved_dependencies, scope_error) res" where
  "context_resolve_each w c i [] = Ok []"
| "context_resolve_each w c i (d # ds) =
     (case context_get w c (dep_id d) of
        None \<Rightarrow> Err (ScopeMissingDependency i (dep_id d))
      | Some h \<Rightarrow> res_bind (context_resolve_each w c i ds) (\<lambda>hs. Ok ((dep_id d, h) # hs)))"

definition context_resolve_dependencies ::
  "'v scope_world \<Rightarrow> capability_context \<Rightarrow> capability_definition \<Rightarrow>
   ('v resolved_dependencies, scope_error) res" where
  "context_resolve_dependencies w c d =
     context_resolve_each w c (cd_id d) (bs_list (cd_dependencies d))"

definition context_provide ::
  "capability_context \<Rightarrow> capability_definition \<Rightarrow>
   ('v resolved_dependencies \<Rightarrow> ('v, string) res) \<Rightarrow>
   ('v scope_world, 'v capability_handle, scope_error) act" where
  "context_provide c d construct w =
     (case context_resolve_dependencies w c d of
        Err e \<Rightarrow> (Err e, w)
      | Panic \<Rightarrow> (Panic, w)
      | Ok _ \<Rightarrow> provide (cx_scope c) d construct w)"

definition context_teardown ::
  "capability_context \<Rightarrow> ('v scope_world, 'v capability_entry list, unit) act" where
  "context_teardown c = teardown (cx_scope c)"

subsection \<open>Bindings and epochs\<close>

record dependency_pin =
  dp_generation :: generation
  dp_entry_id :: entry_id

record dependency_binding =
  db_pins :: "(ident, dependency_pin) fmap"

definition binding_of :: "'v resolved_dependencies \<Rightarrow> dependency_binding" where
  "binding_of hs =
     \<lparr>db_pins = fmap_of_list
        (map (\<lambda>(i, h). (i, \<lparr>dp_generation = h_generation h, dp_entry_id = h_entry_id h\<rparr>)) hs)\<rparr>"

definition binding_pin :: "dependency_binding \<Rightarrow> ident \<Rightarrow> dependency_pin option" where
  "binding_pin b i = fmlookup (db_pins b) i"

definition binding_generation :: "dependency_binding \<Rightarrow> ident \<Rightarrow> generation option" where
  "binding_generation b i = map_option dp_generation (fmlookup (db_pins b) i)"

definition binding_entry_id :: "dependency_binding \<Rightarrow> ident \<Rightarrow> entry_id option" where
  "binding_entry_id b i = map_option dp_entry_id (fmlookup (db_pins b) i)"

definition binding_is_empty :: "dependency_binding \<Rightarrow> bool" where
  "binding_is_empty b \<longleftrightarrow> db_pins b = fmempty"

record dependency_epoch =
  de_transition_token :: u64
  de_binding :: dependency_binding

definition epoch_of :: "u64 \<Rightarrow> 'v resolved_dependencies \<Rightarrow> dependency_epoch" where
  "epoch_of token hs = \<lparr>de_transition_token = token, de_binding = binding_of hs\<rparr>"

definition epoch_ordinal :: "dependency_epoch \<Rightarrow> u64" where
  "epoch_ordinal e = de_transition_token e"

definition epoch_generation :: "dependency_epoch \<Rightarrow> ident \<Rightarrow> generation option" where
  "epoch_generation e i = binding_generation (de_binding e) i"

definition epoch_entry_id :: "dependency_epoch \<Rightarrow> ident \<Rightarrow> entry_id option" where
  "epoch_entry_id e i = binding_entry_id (de_binding e) i"

definition epoch_is_empty :: "dependency_epoch \<Rightarrow> bool" where
  "epoch_is_empty e \<longleftrightarrow> binding_is_empty (de_binding e)"

subsection \<open>Contexts follow the scopes\<close>

text \<open>Every constructor of a context puts its scope below the scope of its parent.\<close>

fun aligned :: "capability_context \<Rightarrow> bool" where
  "aligned (Context s None isos ics) = True"
| "aligned (Context s (Some p) isos ics) \<longleftrightarrow> scope_parent s = Some (cx_scope p) \<and> aligned p"

lemma aligned_constructors:
  "aligned (context_from_scope s)" "aligned (fst (context_root w))"
  "aligned c \<Longrightarrow> aligned (fst (child_context c w))" "aligned c \<Longrightarrow> aligned (fst (context_extend c w))"
  "aligned c \<Longrightarrow> aligned (fst (context_isolate i c w))" "aligned c \<Longrightarrow> aligned (fst (context_intercept i config c w))"
proof -
  show from_scope: "aligned (context_from_scope s)" for s
  proof (induction s)
    case (Child p k)
    then show ?case by (cases p) (simp_all add: scope_parent_def)
  qed simp
  then show "aligned (fst (context_root w))" by (simp add: context_root_def scope_root_def)
qed (simp_all add: context_extend_def child_context_def context_isolate_def context_intercept_def scope_child_def
    Let_def scope_parent_def)

subsection \<open>Lookup through a context\<close>

interpretation context_view: capability_view context_get context_resolve_each
  by unfold_locales simp_all

text \<open>With every scope of the chain open, a plain context finds what its scope finds.\<close>

lemma context_get_open:
  assumes "\<And>a. below a s \<Longrightarrow> is_open w a"
  shows "context_get w (context_from_scope s) i = scope_get w s i"
  using assms
proof (induction s)
  case (Root r)
  then show ?case by (auto simp: has_local_def has_local_entry_def)
next
  case (Child p k)
  then have "context_get w (context_from_scope p) i = scope_get w p i" by simp
  moreover have "is_open w (Child p k)" using Child.prems by simp
  ultimately show ?case
    by (cases "fmlookup (ss_entries (scope_at w (Child p k))) i") (simp_all add: has_local_def has_local_entry_def)
qed

lemma context_get_entry:
  "context_get w c i = Some h \<Longrightarrow>
   \<exists>s e. is_open w s \<and> fmlookup (ss_entries (scope_at w s)) i = Some e \<and> h = entry_handle e"
proof (induction w c i rule: context_get.induct)
  case (1 w s isos ics i)
  then show ?case using scope_get_entry [of w s i h] by (auto split: if_splits)
next
  case (2 w s p isos ics i)
  then show ?case using scope_get_entry [of w s i h] by (auto split: if_splits)
qed

end
