(* ===== verification/Capability_Context_Properties.thy ===== *)
theory Capability_Context_Properties
  imports Capability_Context Capability_Scope_Properties
begin

text \<open>
  What an isolation boundary promises: whatever the scopes outside of it publish, and whenever they do,
  stays invisible inside.
\<close>

subsection \<open>Lines of contexts\<close>

text \<open>\<open>inside b c\<close>: the context \<open>c\<close> was made from \<open>b\<close>, in any number of steps.\<close>

fun inside :: "capability_context \<Rightarrow> capability_context \<Rightarrow> bool" where
  "inside b (Context s None isos ics) \<longleftrightarrow> b = Context s None isos ics"
| "inside b (Context s (Some p) isos ics) \<longleftrightarrow> b = Context s (Some p) isos ics \<or> inside b p"

lemma inside_below: "inside b c \<Longrightarrow> aligned c \<Longrightarrow> below (cx_scope b) (cx_scope c)"
  by (induction b c rule: inside.induct) (auto simp: scope_parent_def split: scope_ref.splits)

lemma isolated_lookup:
  assumes "\<And>t. below (cx_scope b) t \<Longrightarrow> entry_at w t i = None"
    and "inside b c" "aligned c" "i |\<in>| cx_isolation b" "cx_parent b \<noteq> None"
  shows "context_get w c i = None"
  using assms(2,3)
proof (induction c)
  case (Context s par isos ics)
  have own: "\<not> has_local w s i"
    using assms(1) inside_below [OF Context.prems] by (simp add: has_local_def has_local_entry_def)
  show ?case
  proof (cases par)
    case None
    then show ?thesis using own by simp
  next
    case (Some p)
    show ?thesis
    proof (cases "b = Context s par isos ics")
      case True
      with own Some assms(4) show ?thesis by simp
    next
      case False
      with Context Some have "context_get w p i = None" by simp
      with own Some show ?thesis by simp
    qed
  qed
qed

subsection \<open>Histories that leave a subtree alone\<close>

fun publishes_below :: "scope_ref \<Rightarrow> ident \<Rightarrow> 'v scope_call \<Rightarrow> bool" where
  "publishes_below b i (Publish_value s d x hs v) \<longleftrightarrow> below b s \<and> cd_id d = i"
| "publishes_below b i (Provide_value s d hs v) \<longleftrightarrow> below b s \<and> cd_id d = i"
| "publishes_below b i _ \<longleftrightarrow> False"

definition absent_below :: "scope_ref \<Rightarrow> ident \<Rightarrow> 'v scope_world \<Rightarrow> bool" where
  "absent_below b i w \<longleftrightarrow> (\<forall>t. below b t \<longrightarrow> entry_at w t i = None)"

lemma absent_publish:
  assumes "absent_below b i w" "publish_preconstructed s d x hs v w = (Ok h, w')" "\<not> (below b s \<and> cd_id d = i)"
  shows "absent_below b i w'"
proof -
  from assms(2) obtain e counter where "w' = entry_write s (cd_id d) e (w\<lparr>sw_next_entry_id := counter\<rparr>)"
    by (rule publishedE) blast
  with assms(1,3) show ?thesis by (auto simp: absent_below_def)
qed

lemma absent_exec:
  assumes exec: "scope_exec c w = Some w'" and out: "\<not> publishes_below b i c"
    and tree: "tree_shaped w" and absent: "absent_below b i w"
  shows "absent_below b i w'"
proof (cases c)
  case (Publish_value s d x hs v)
  with exec out absent show ?thesis
    by (auto simp: after_Some split: if_splits dest: absent_publish publish_preconstructed_Err)
next
  case (Provide_value s d hs v)
  with exec out absent show ?thesis
    by (auto simp: after_Some provide_value_def split: if_splits res.splits
        dest: absent_publish publish_preconstructed_Err)
next
  case New_root
  with exec fresh_root [OF tree] absent show ?thesis by (auto simp: absent_below_def scope_root_def)
next
  case (New_child s)
  with exec absent show ?thesis by (auto simp: absent_below_def scope_child_def Let_def split: if_splits)
next
  case (Withdraw s i g)
  with exec absent show ?thesis by (auto simp: after_Some absent_below_def withdraw_def split: if_splits option.splits)
next
  case (Teardown s)
  with exec absent show ?thesis
    by (auto simp: after_Some teardown_not_Err absent_below_def teardown_effect split: if_splits)
next
  case (Drop_scope s)
  with exec absent show ?thesis
    by (auto simp: scope_drop_def absent_below_def scope_at_fmdrop split: if_splits)
qed

lemma absent_run:
  "scope_run cs w = Some w' \<Longrightarrow> \<forall>c \<in> set cs. \<not> publishes_below b i c \<Longrightarrow> scope_inv w \<Longrightarrow> absent_below b i w \<Longrightarrow>
   absent_below b i w'"
proof (induction cs arbitrary: w)
  case (Cons c cs)
  then obtain u where u: "scope_exec c w = Some u" "scope_run cs u = Some w'" by (auto split: option.splits)
  with Cons.prems have "absent_below b i u" by (auto intro: absent_exec simp: scope_inv_def)
  moreover have "scope_inv u" using scope_exec_change [OF u(1)] Cons.prems(3) by (rule scope_inv_step)
  ultimately show ?case using Cons u(2) by simp
qed simp

lemma absent_fresh:
  assumes "tree_shaped w" "scope_child s w = (b, w')"
  shows "absent_below b i w'"
proof -
  have b: "b = Child s (length (ss_children (scope_at w s)))" using assms(2) by (auto simp: scope_child_def Let_def)
  have dead: "\<not> upgrade w t" if "below b t" for t
    using that
  proof (induction t)
    case (Root r)
    then show ?case by (simp add: b)
  next
    case (Child p k)
    then show ?case using fresh_child [OF assms(1), of s] tree_shaped_parent [OF assms(1), of p k] by (auto simp: b)
  qed
  have "s \<noteq> t" if "below b t" for t using that by (auto simp: b)
  with assms(2) scope_at_dead [OF dead] show ?thesis by (auto simp: absent_below_def scope_child_def Let_def)
qed

subsection \<open>The boundary holds\<close>

text \<open>
  C38: An isolation boundary holds.  Once a context has been isolated from a capability, neither it nor
  any context made from it, however deep, resolves the capability, in whatever state the scopes outside
  are and whatever is published there later, as long as nothing inside the boundary publishes it; and a
  plugin that requires it is refused there with the missing dependency.  Every other capability is
  resolved as if there were no boundary.
\<close>

theorem isolation_holds:
  assumes "scope_run earlier scope_start = Some w" and "aligned c" and "upgrade w (cx_scope c)"
    and "context_isolate i c w = (b, w')"
    and "scope_run later w' = Some u" and "\<forall>x \<in> set later. \<not> publishes_below (cx_scope b) i x"
    and "inside b d" and "aligned d"
  shows "context_get u d i = None \<and>
    (q |\<in>| cd_dependencies p \<and> dep_id q = i \<longrightarrow>
       (\<exists>j. context_provide d p construct u = (Err (ScopeMissingDependency (cd_id p) j), u))) \<and>
    (j \<noteq> i \<longrightarrow> context_get u b j = context_get u (fst (child_context c w)) j)"
proof -
  have inv: "scope_inv w" using assms(1) scope_inv_start by (rule scope_inv_run)
  obtain s where child: "scope_child (cx_scope c) w = (s, w')" and b: "b = Context s (Some c) {|i|} fmempty"
    using assms(4) by (auto simp: context_isolate_def split: prod.splits)
  have "scope_inv w'" using scope_inv_step [OF scope_change.child [OF assms(3)] inv] by (simp add: child)
  then have "absent_below s i u"
    using absent_run [OF assms(5,6)] absent_fresh [OF scope_invD(1) [OF inv] child] by (simp add: b)
  then have none: "context_get u d i = None"
    using isolated_lookup [of b u i d] assms(7,8) by (simp add: absent_below_def b)
  moreover have "\<exists>j. context_provide d p construct u = (Err (ScopeMissingDependency (cd_id p) j), u)"
    if q: "q |\<in>| cd_dependencies p" "dep_id q = i"
  proof (cases "context_resolve_dependencies u d p")
    case (Ok hs)
    then have "\<exists>h. context_get u d i = Some h"
      using q by (force simp: context_resolve_dependencies_def context_view.resolved_exactly dest: arg_cong [of _ _ set])
    with none show ?thesis by simp
  next
    case (Err e)
    with context_view.refused_by_first_missing [of u d "cd_id p" _ e] show ?thesis
      by (auto simp: context_provide_def context_resolve_dependencies_def)
  qed (simp add: context_resolve_dependencies_def context_view.always_decides)
  ultimately show ?thesis by (simp add: b child_context_def child)
qed

text \<open>Inside a boundary under the scope that provides the store, two levels deep.\<close>

definition demo_boundary :: capability_context where
  "demo_boundary = fst (context_isolate (Id ''db'') (context_from_scope (Root 0)) demo_before)"

definition demo_inside :: capability_context where
  "demo_inside = Context (Child (cx_scope demo_boundary) 0) (Some demo_boundary) {||} fmempty"

theorem isolation_holds_witness:
  "\<exists>u. context_get u (context_from_scope (Root 0)) (Id ''db'') = Some demo_db_handle \<and>
       context_get u demo_inside (Id ''db'') = None"
proof -
  let ?c = "context_from_scope (Root 0)"
  let ?w = "snd (context_isolate (Id ''db'') ?c demo_before)"
  let ?u = "snd (scope_child (cx_scope demo_boundary) ?w)"
  have made: "context_isolate (Id ''db'') ?c demo_before = (demo_boundary, ?w)" by (simp add: demo_boundary_def)
  have up: "upgrade demo_before (Root 0)" unfolding demo_before_def by (simp add: scope_eval demo_defs)
  have run: "scope_run [New_child (cx_scope demo_boundary)] ?w = Some ?u"
    by (simp add: demo_boundary_def context_isolate_def scope_child_def Let_def)
  have b: "demo_boundary = Context (Child (Root 0) 1) (Some (Context (Root 0) None {||} fmempty)) {|Id ''db''|} fmempty"
    unfolding demo_boundary_def demo_before_def
    by (simp add: context_isolate_def scope_eval demo_defs)
  have inside: "inside demo_boundary demo_inside" "aligned demo_inside"
    unfolding demo_inside_def b by (simp_all add: scope_parent_def)
  have found: "context_get ?u ?c (Id ''db'') = Some demo_db_handle"
    unfolding b demo_before_def
    by (simp add: context_isolate_def has_local_def scope_eval demo_defs)
  have "context_get ?u demo_inside (Id ''db'') = None"
    by (rule isolation_holds [THEN conjunct1, OF demo_before_run _ _ made run _ inside]) (simp_all add: up)
  with found show ?thesis by blast
qed

end
