(* ===== verification/Instance_Lifetime.thy ===== *)
theory Instance_Lifetime
  imports Capability_Scope "HOL-Library.Multiset"
begin

text \<open>
  The lifetime of capability instances in \<open>crates/capability-graph/src/runtime.rs\<close>.  An instance slot is
  shared by an \<open>Arc\<close>: one strong reference for the published entry, one for every handle that somebody
  holds, and one for every snapshot of a live slot that contains it.  The last reference that goes away
  drops the slot: first the value, whose cleanup runs, then the handles of its snapshot in the order of
  their names.

  A slot is known by the entry identity of its publication.  The calls are those of the scopes with the
  handles they take and give back; a handle that a call takes must be held, as Rust's ownership demands.
  The slot of a refused publication is never shared: its value is dropped at once and not followed.
\<close>

subsection \<open>Reference counts\<close>

type_synonym 'v slots = "(entry_id \<Rightarrow> nat) \<times> 'v capability_handle list"

text \<open>\<open>Clone\<close> and \<open>Drop\<close> of a handle; the list is the slots released so far, by a handle of each.\<close>

definition clone_handle :: "'v capability_handle \<Rightarrow> 'v slots \<Rightarrow> 'v slots" where
  "clone_handle h s = ((fst s)(h_entry_id h := Suc (fst s (h_entry_id h))), snd s)"

fun drop_handle :: "'v capability_handle \<Rightarrow> 'v slots \<Rightarrow> 'v slots" where
  "drop_handle (Handle d v hs g e) (strong, released) =
     (if strong e = 1
      then fold (\<lambda>(i, h) acc. drop_handle h acc) hs (strong(e := 0), released @ [Handle d v hs g e])
      else (strong(e := strong e - 1), released))"

declare drop_handle.simps [simp del]

definition drop_handles :: "'v capability_handle list \<Rightarrow> 'v slots \<Rightarrow> 'v slots" where
  "drop_handles = fold drop_handle"

definition dependency_handles :: "'v capability_handle \<Rightarrow> 'v capability_handle list" where
  "dependency_handles h = map snd (h_dependencies h)"

subsection \<open>Who holds what\<close>

text \<open>
  The scopes, the handles held outside of scopes and slots, the slots, and the publications so far (kept
  for the statements only).
\<close>

record 'v ownership =
  ow_scopes :: "'v scope_world"
  ow_held :: "'v capability_handle list"
  ow_slots :: "'v slots"
  ow_published :: "'v capability_handle list"

definition own_start :: "'v ownership" where
  "own_start =
     \<lparr>ow_scopes = \<lparr>sw_scopes = fmempty, sw_roots = 0, sw_next_entry_id = 1\<rparr>, ow_held = [],
      ow_slots = (\<lambda>_. 0, []), ow_published = []\<rparr>"

definition holds :: "'v ownership \<Rightarrow> 'v capability_handle list \<Rightarrow> bool" where
  "holds q hs \<longleftrightarrow> mset hs \<subseteq># mset (ow_held q)"

definition own_drop :: "'v capability_handle list \<Rightarrow> 'v ownership \<Rightarrow> 'v ownership" where
  "own_drop hs q = q\<lparr>ow_held := fold remove1 hs (ow_held q), ow_slots := drop_handles hs (ow_slots q)\<rparr>"

definition own_receive :: "'v capability_handle \<Rightarrow> 'v ownership \<Rightarrow> 'v ownership" where
  "own_receive h q = q\<lparr>ow_held := h # ow_held q, ow_slots := clone_handle h (ow_slots q)\<rparr>"

text \<open>
  A publication moves its snapshot in.  The new slot gets a clone of it; the entry and the returned
  handle share the slot; the replaced entry is dropped, then the snapshot itself.
\<close>

definition new_slot :: "'v capability_handle \<Rightarrow> 'v slots \<Rightarrow> 'v slots" where
  "new_slot h s = ((fst s)(h_entry_id h := 2), snd s)"

definition own_publication ::
  "scope_ref \<Rightarrow> ident \<Rightarrow> 'v resolved_dependencies \<Rightarrow> ('v capability_handle, scope_error) res \<times> 'v scope_world \<Rightarrow>
   'v ownership \<Rightarrow> 'v ownership option" where
  "own_publication s i snapshot outcome q =
     (case outcome of
        (Panic, _) \<Rightarrow> None
      | (Err e, w) \<Rightarrow> Some (own_drop (map snd snapshot) (q\<lparr>ow_scopes := w\<rparr>))
      | (Ok h, w) \<Rightarrow>
          let old = (case fmlookup (ss_entries (scope_at (ow_scopes q) s)) i of
                       None \<Rightarrow> []
                     | Some e \<Rightarrow> [entry_handle e]);
              shared = new_slot h (fold clone_handle (map snd snapshot) (ow_slots q))
          in Some (own_drop (map snd snapshot)
               (q\<lparr>ow_scopes := w, ow_held := h # ow_held q, ow_slots := drop_handles old shared,
                 ow_published := ow_published q @ [h]\<rparr>)))"

text \<open>
  All of \<open>publish\<close> with a factory: the snapshot is made of new references, which the second half takes
  over or a failure gives back.
\<close>

definition own_publish ::
  "scope_ref \<Rightarrow> capability_definition \<Rightarrow> publish_expectation \<Rightarrow> ('v resolved_dependencies \<Rightarrow> ('v, string) res) \<Rightarrow>
   ('v ownership, 'v capability_handle, scope_error) act" where
  "own_publish s d x construct q =
     (case publish_prepare (ow_scopes q) s d x of
        Err e \<Rightarrow> (Err e, q)
      | Panic \<Rightarrow> (Panic, q)
      | Ok snapshot \<Rightarrow>
          let prepared = fold own_receive (map snd snapshot) q
          in case map_err (ConstructionFailed (cd_id d)) (construct snapshot) of
               Err e \<Rightarrow> (Err e, own_drop (map snd snapshot) prepared)
             | Panic \<Rightarrow> (Panic, prepared)
             | Ok v \<Rightarrow>
                 let outcome = publish_preconstructed s d x snapshot v (ow_scopes prepared)
                 in (fst outcome,
                     case own_publication s (cd_id d) snapshot outcome prepared of
                       Some q' \<Rightarrow> q'
                     | None \<Rightarrow> prepared))"

text \<open>
  The calls.  The first half of \<open>publish\<close>, which resolves the dependencies, is a lookup of each of them;
  \<open>remove_local\<close> is a withdrawal whose handle is dropped.  \<open>None\<close> is a call that cannot be made, for lack
  of a scope or of a handle, or one that panics.
\<close>

datatype 'v own_call =
    Own_root
  | Own_child scope_ref
  | Own_lookup scope_ref ident
  | Own_clone "'v capability_handle"
  | Own_drop "'v capability_handle"
  | Own_publish scope_ref capability_definition publish_expectation "'v resolved_dependencies" 'v
  | Own_provide_value scope_ref capability_definition "'v resolved_dependencies" 'v
  | Own_withdraw scope_ref ident generation
  | Own_teardown scope_ref
  | Own_drop_scope scope_ref

fun own_exec :: "'v own_call \<Rightarrow> 'v ownership \<Rightarrow> 'v ownership option" where
  "own_exec Own_root q = Some (q\<lparr>ow_scopes := snd (scope_root (ow_scopes q))\<rparr>)"
| "own_exec (Own_child s) q =
     (if upgrade (ow_scopes q) s then Some (q\<lparr>ow_scopes := snd (scope_child s (ow_scopes q))\<rparr>) else None)"
| "own_exec (Own_lookup s i) q =
     (if upgrade (ow_scopes q) s
      then case scope_get (ow_scopes q) s i of None \<Rightarrow> Some q | Some h \<Rightarrow> Some (own_receive h q)
      else None)"
| "own_exec (Own_clone h) q = (if holds q [h] then Some (own_receive h q) else None)"
| "own_exec (Own_drop h) q = (if holds q [h] then Some (own_drop [h] q) else None)"
| "own_exec (Own_publish s d x snapshot v) q =
     (if upgrade (ow_scopes q) s \<and> holds q (map snd snapshot)
      then own_publication s (cd_id d) snapshot (publish_preconstructed s d x snapshot v (ow_scopes q)) q
      else None)"
| "own_exec (Own_provide_value s d snapshot v) q =
     (if upgrade (ow_scopes q) s \<and> holds q (map snd snapshot)
      then own_publication s (cd_id d) snapshot (provide_value s d snapshot v (ow_scopes q)) q
      else None)"
| "own_exec (Own_withdraw s i g) q =
     (if upgrade (ow_scopes q) s
      then case withdraw s i g (ow_scopes q) of
             (Ok h, w) \<Rightarrow>
               Some (q\<lparr>ow_scopes := w, ow_held := h # ow_held q,
                       ow_slots := drop_handle h (clone_handle h (ow_slots q))\<rparr>)
           | (Err e, w) \<Rightarrow> Some (q\<lparr>ow_scopes := w\<rparr>)
           | (Panic, w) \<Rightarrow> None
      else None)"
| "own_exec (Own_teardown s) q =
     (if upgrade (ow_scopes q) s
      then case teardown s (ow_scopes q) of
             (Ok es, w) \<Rightarrow>
               Some (q\<lparr>ow_scopes := w, ow_slots := drop_handles (map entry_handle es) (ow_slots q)\<rparr>)
           | (_, w) \<Rightarrow> None
      else None)"
| "own_exec (Own_drop_scope s) q =
     (if \<not> upgrade (ow_scopes q) s then None
      else if live_children (ow_scopes q) s \<noteq> [] then Some q
      else Some (q\<lparr>ow_scopes := scope_drop s (ow_scopes q),
                   ow_slots := drop_handles (map entry_handle (bt_values (ss_entries (scope_at (ow_scopes q) s))))
                     (ow_slots q)\<rparr>))"

fun own_run :: "'v own_call list \<Rightarrow> 'v ownership \<Rightarrow> 'v ownership option" where
  "own_run [] q = Some q"
| "own_run (c # cs) q = (case own_exec c q of None \<Rightarrow> None | Some q' \<Rightarrow> own_run cs q')"

end
