(* ===== verification/Instance_Lifetime_Laws.thy ===== *)
theory Instance_Lifetime_Laws
  imports Instance_Lifetime Capability_Scope_Laws
begin

text \<open>
  The reference counts are right in every state: a count is the number of references to its slot, a
  slot is live as long as it has one, and a slot is released after every slot that refers to it.
\<close>

subsection \<open>Drops\<close>

lemma drop_handle_eq:
  "drop_handle h (strong, released) =
     (if strong (h_entry_id h) = 1
      then drop_handles (dependency_handles h) (strong(h_entry_id h := 0), released @ [h])
      else (strong(h_entry_id h := strong (h_entry_id h) - 1), released))"
proof (cases h)
  case (Handle d v hs g e)
  have "fold (\<lambda>(i, h) acc. drop_handle h acc) hs = drop_handles (map snd hs)"
    by (induction hs) (auto simp: drop_handles_def)
  with Handle show ?thesis by (simp add: drop_handle.simps dependency_handles_def)
qed

subsection \<open>Counts that are right\<close>

text \<open>
  \<open>R\<close> are the references outside of slots, \<open>L\<close> the live slots.  A count is the number of the references
  to its slot, and the released slots are gone: they are not live, and none comes after a slot that its
  snapshot refers to.
\<close>

definition dependency_mset :: "'v capability_handle \<Rightarrow> 'v capability_handle multiset" where
  "dependency_mset h = mset (dependency_handles h)"

lemma set_dependency_mset [simp]: "set_mset (dependency_mset h) = set (dependency_handles h)"
  by (simp add: dependency_mset_def)

definition references :: "'v capability_handle multiset \<Rightarrow> 'v capability_handle set \<Rightarrow> 'v capability_handle \<Rightarrow> nat" where
  "references R L h = count R h + (\<Sum>x\<in>L. count (dependency_mset x) h)"

definition dependents_first :: "'v capability_handle list \<Rightarrow> bool" where
  "dependents_first hs \<longleftrightarrow> (\<forall>xs x ys. hs = xs @ x # ys \<longrightarrow> set (dependency_handles x) \<inter> set xs = {})"

definition counted :: "'v slots \<Rightarrow> 'v capability_handle multiset \<Rightarrow> 'v capability_handle set \<Rightarrow> bool" where
  "counted s R L \<longleftrightarrow>
     finite L \<and> inj_on h_entry_id (L \<union> set (snd s)) \<and> set_mset R \<subseteq> L \<and>
     (\<forall>x \<in> L. set (dependency_handles x) \<subseteq> L) \<and>
     (\<forall>h \<in> L. fst s (h_entry_id h) = references R L h \<and> 0 < references R L h) \<and>
     (\<forall>e. e \<notin> h_entry_id ` L \<longrightarrow> fst s e = 0) \<and>
     L \<inter> set (snd s) = {} \<and> distinct (snd s) \<and> dependents_first (snd s)"

lemma dependents_first_Nil [simp]: "dependents_first []"
  by (simp add: dependents_first_def)

lemma dependents_first_snoc:
  "dependents_first (hs @ [h]) \<longleftrightarrow> dependents_first hs \<and> set (dependency_handles h) \<inter> set hs = {}"
proof
  assume all: "dependents_first (hs @ [h])"
  have "set (dependency_handles x) \<inter> set xs = {}" if "hs = xs @ x # ys" for xs x ys
    using all that unfolding dependents_first_def by (metis append.assoc append_Cons)
  with all show "dependents_first hs \<and> set (dependency_handles h) \<inter> set hs = {}"
    unfolding dependents_first_def by blast
next
  assume "dependents_first hs \<and> set (dependency_handles h) \<inter> set hs = {}"
  then show "dependents_first (hs @ [h])"
    unfolding dependents_first_def
    by (auto simp: append_eq_append_conv2 append_eq_Cons_conv Cons_eq_append_conv)
qed

lemma dependency_size:
  assumes "x \<in> set (dependency_handles h)"
  shows "size x < size h"
proof (cases h)
  case (Handle d v hs g e)
  with assms obtain i where "(i, x) \<in> set hs" by (auto simp: dependency_handles_def)
  then have "size x < size_list (size_prod (\<lambda>_. 0) size) hs"
    by (rule size_list_estimation) simp
  with Handle show ?thesis by simp
qed

lemma dependency_irrefl: "h \<notin> set (dependency_handles h)"
  using dependency_size by blast

lemma references_add: "references (add_mset h R) L k = references R L k + (if k = h then 1 else 0)"
  by (simp add: references_def)

lemma references_retire:
  assumes "finite L" "h \<in> L"
  shows "references (R + dependency_mset h) (L - {h}) k = references R L k"
  using assms by (simp add: references_def sum.remove)

lemma counted_drop_shared:
  assumes ok: "counted (strong, released) (add_mset h R) L" and "strong (h_entry_id h) \<noteq> 1"
  shows "counted (strong(h_entry_id h := strong (h_entry_id h) - 1), released) R L"
proof -
  have h: "h \<in> L" using ok by (simp add: counted_def)
  have inj: "h_entry_id k = h_entry_id h \<longleftrightarrow> k = h" if "k \<in> L" for k
    using ok h that by (auto simp: counted_def dest: inj_onD)
  have count: "strong (h_entry_id k) = references R L k + (if k = h then 1 else 0)" if "k \<in> L" for k
    using ok that by (auto simp: counted_def references_add)
  show ?thesis
    unfolding counted_def
  proof (intro conjI ballI allI impI)
    fix k assume k: "k \<in> L"
    show "fst (strong(h_entry_id h := strong (h_entry_id h) - 1), released) (h_entry_id k) = references R L k"
      using count [OF k] inj [OF k] by (cases "k = h") simp_all
    show "0 < references R L k"
      using ok k count [OF h] assms(2) by (cases "k = h") (auto simp: counted_def references_add)
  qed (use ok h in \<open>auto simp: counted_def\<close>)
qed

lemma counted_drop_last:
  assumes ok: "counted (strong, released) (add_mset h R) L" and one: "strong (h_entry_id h) = 1"
  shows "counted (strong(h_entry_id h := 0), released @ [h]) (R + dependency_mset h) (L - {h})"
proof -
  have h: "h \<in> L" and fin: "finite L" using ok by (simp_all add: counted_def)
  have inj: "h_entry_id k = h_entry_id h \<longleftrightarrow> k = h" if "k \<in> L" for k
    using ok h that by (auto simp: counted_def dest: inj_onD)
  have none: "references R L h = 0" using ok one h by (auto simp: counted_def references_add)
  then have unused: "h \<notin># R" "\<And>x. x \<in> L \<Longrightarrow> h \<notin> set (dependency_handles x)"
    using fin by (auto simp: references_def count_eq_zero_iff simp flip: set_dependency_mset)
  have slots: "L - {h} \<union> set (released @ [h]) = L \<union> set released" using h by auto
  show ?thesis
    unfolding counted_def
  proof (intro conjI ballI allI impI)
    fix k assume k: "k \<in> L - {h}"
    then show "fst (strong(h_entry_id h := 0), released @ [h]) (h_entry_id k) =
        references (R + dependency_mset h) (L - {h}) k"
      "0 < references (R + dependency_mset h) (L - {h}) k"
      using ok inj [of k] by (auto simp: counted_def references_add references_retire [OF fin h])
    show "set (dependency_handles k) \<subseteq> L - {h}"
      using ok k unused(2) by (auto simp: counted_def)
  next
    fix e assume "e \<notin> h_entry_id ` (L - {h})"
    then show "fst (strong(h_entry_id h := 0), released @ [h]) e = 0"
      using ok by (auto simp: counted_def)
  next
    show "set_mset (R + dependency_mset h) \<subseteq> L - {h}"
      using ok h unused(1) dependency_irrefl by (fastforce simp: counted_def)
    show "dependents_first (snd (strong(h_entry_id h := 0), released @ [h]))"
      using ok h by (fastforce simp: counted_def dependents_first_snoc)
    show "inj_on h_entry_id (L - {h} \<union> set (snd (strong(h_entry_id h := 0), released @ [h])))"
      using ok slots by (simp add: counted_def)
  qed (use ok h in \<open>auto simp: counted_def\<close>)
qed

text \<open>A drop leaves the counts right for the references that remain.\<close>

lemma drop_counted_list:
  assumes "\<And>x s R L. x \<in> set hs \<Longrightarrow> counted s (add_mset x R) L \<Longrightarrow>
      \<exists>L'. counted (drop_handle x s) R L' \<and> L' \<union> set (snd (drop_handle x s)) = L \<union> set (snd s)"
    and "counted s (R + mset hs) L"
  shows "\<exists>L'. counted (drop_handles hs s) R L' \<and> L' \<union> set (snd (drop_handles hs s)) = L \<union> set (snd s)"
  using assms
proof (induction hs arbitrary: s L)
  case (Cons x hs)
  from Cons.prems(2) have "counted s (add_mset x (R + mset hs)) L" by simp
  from Cons.prems(1) [OF _ this] obtain L1 where L1: "counted (drop_handle x s) (R + mset hs) L1"
    "L1 \<union> set (snd (drop_handle x s)) = L \<union> set (snd s)" by auto
  from Cons.IH [OF Cons.prems(1) L1(1)] L1(2) show ?case by (simp add: drop_handles_def)
qed (auto simp: drop_handles_def)

lemma drop_counted:
  "counted s (add_mset h R) L \<Longrightarrow>
   \<exists>L'. counted (drop_handle h s) R L' \<and> L' \<union> set (snd (drop_handle h s)) = L \<union> set (snd s)"
proof (induction "size h" arbitrary: h s R L rule: less_induct)
  case less
  obtain strong released where s: "s = (strong, released)" by fastforce
  show ?case
  proof (cases "strong (h_entry_id h) = 1")
    case True
    let ?s = "(strong(h_entry_id h := 0), released @ [h])"
    have "counted ?s (R + mset (dependency_handles h)) (L - {h})"
      using counted_drop_last [OF less.prems [unfolded s] True] by (simp add: dependency_mset_def)
    from drop_counted_list [OF less.hyps [OF dependency_size] this] obtain L' where
      "counted (drop_handles (dependency_handles h) ?s) R L'"
      "L' \<union> set (snd (drop_handles (dependency_handles h) ?s)) = L - {h} \<union> set (snd ?s)" by blast
    moreover have "h \<in> L" using less.prems by (simp add: counted_def)
    then have "L - {h} \<union> set (snd ?s) = L \<union> set released" by auto
    moreover have "drop_handle h s = drop_handles (dependency_handles h) ?s"
      using True by (simp add: s drop_handle_eq)
    ultimately show ?thesis by (metis s snd_conv)
  next
    case False
    with counted_drop_shared [OF less.prems [unfolded s] False] show ?thesis
      by (auto simp: s drop_handle_eq)
  qed
qed

lemmas drops_counted = drop_counted_list [OF drop_counted]

lemma clone_counted:
  assumes ok: "counted s R L" and h: "h \<in> L"
  shows "counted (clone_handle h s) (add_mset h R) L"
proof -
  have inj: "h_entry_id k = h_entry_id h \<longleftrightarrow> k = h" if "k \<in> L" for k
    using ok h that by (auto simp: counted_def dest: inj_onD)
  then show ?thesis
    using ok h unfolding counted_def clone_handle_def by (auto simp: references_add)
qed

end
