(* ===== verification/Instance_References.thy ===== *)
theory Instance_References
  imports Instance_Lifetime_Laws
begin

text \<open>
  The references that the scopes hold, one for every published entry, and the invariant of the calls:
  the counts are right for the entries and the held handles together.
\<close>

subsection \<open>The references of the scopes\<close>

definition entries_mset :: "'v entry_map \<Rightarrow> 'v capability_handle multiset" where
  "entries_mset es = mset (map entry_handle (bt_values es))"

definition entry_handles :: "'v scope_world \<Rightarrow> 'v capability_handle multiset" where
  "entry_handles w = (\<Sum>s\<in>fset (fmdom (sw_scopes w)). entries_mset (ss_entries (scope_at w s)))"

lemma entries_mset_keys:
  "entries_mset es = image_mset (\<lambda>k. entry_handle (the (fmlookup es k))) (mset_set (fset (fmdom es)))"
proof -
  have "mset (bt_keys es) = mset_set (fset (fmdom es))"
    using mset_set_set [OF distinct_bt_keys, of es] by simp
  moreover have "entries_mset es = image_mset (\<lambda>k. entry_handle (the (fmlookup es k))) (mset (bt_keys es))"
    by (simp add: entries_mset_def bt_values_def mset_map image_mset.compositionality o_def)
  ultimately show ?thesis by simp
qed

lemma entries_mset_empty [simp]: "entries_mset fmempty = {#}"
  by (simp add: entries_mset_def)

lemma entries_mset_drop:
  assumes "fmlookup es i = Some e"
  shows "entries_mset es = add_mset (entry_handle e) (entries_mset (fmdrop i es))"
proof -
  define A where "A = fset (fmdom es) - {i}"
  have A: "fset (fmdom es) = insert i A" "i \<notin> A" "finite A"
    using assms by (auto simp: A_def fmlookup_dom_iff)
  have "image_mset (\<lambda>k. entry_handle (the (fmlookup es k))) (mset_set A) = entries_mset (fmdrop i es)"
    unfolding entries_mset_keys using A(2,3) by (auto intro!: image_mset_cong simp: A_def)
  then show ?thesis
    unfolding entries_mset_keys [of es] A(1) using A(2,3) assms by simp
qed

lemma entries_mset_upd:
  assumes "fmlookup es i = None"
  shows "entries_mset (fmupd i e es) = add_mset (entry_handle e) (entries_mset es)"
proof -
  have "fmdrop i (fmupd i e es) = es" using assms by (intro fmap_ext) (auto simp: fmlookup_drop)
  with entries_mset_drop [of "fmupd i e es" i e] show ?thesis by simp
qed

lemma entries_mset_replace:
  assumes "fmlookup es i = Some x"
  shows "add_mset (entry_handle x) (entries_mset (fmupd i e es)) = add_mset (entry_handle e) (entries_mset es)"
proof -
  have "fmdrop i (fmupd i e es) = fmdrop i es" by (intro fmap_ext) (auto simp: fmlookup_drop)
  with entries_mset_drop [of "fmupd i e es" i e] entries_mset_drop [OF assms] show ?thesis by simp
qed

lemma entry_handles_write:
  "entry_handles (scope_write s st w) + entries_mset (ss_entries (scope_at w s)) =
   entry_handles w + entries_mset (ss_entries st)"
proof -
  define A where "A = fset (fmdom (sw_scopes w)) - {s}"
  have A: "s \<notin> A" "finite A" by (auto simp: A_def)
  have rest: "(\<Sum>t\<in>A. entries_mset (ss_entries (scope_at (scope_write s st w) t))) =
      (\<Sum>t\<in>A. entries_mset (ss_entries (scope_at w t)))"
    using A(1) by (intro sum.cong) auto
  have "fset (fmdom (sw_scopes (scope_write s st w))) = insert s A" by (auto simp: scope_write_def A_def)
  then have "entry_handles (scope_write s st w) =
      entries_mset (ss_entries st) + (\<Sum>t\<in>A. entries_mset (ss_entries (scope_at w t)))"
    unfolding entry_handles_def using A rest by simp
  moreover have "entry_handles w =
      entries_mset (ss_entries (scope_at w s)) + (\<Sum>t\<in>A. entries_mset (ss_entries (scope_at w t)))"
  proof (cases "upgrade w s")
    case True
    then have "fset (fmdom (sw_scopes w)) = insert s A" by (auto simp: upgrade_def fmlookup_dom_iff A_def)
    with A show ?thesis by (simp add: entry_handles_def)
  next
    case False
    then have "A = fset (fmdom (sw_scopes w))" by (auto simp: upgrade_def fmlookup_dom_iff A_def)
    with False show ?thesis by (simp add: entry_handles_def scope_at_dead)
  qed
  ultimately show ?thesis by simp
qed

lemma entry_handles_cong:
  "sw_scopes w' = sw_scopes w \<Longrightarrow> entry_handles w' = entry_handles w"
  by (simp add: entry_handles_def scope_at_def)

lemma entry_handles_root:
  assumes "tree_shaped w"
  shows "entry_handles (snd (scope_root w)) = entry_handles w"
  using entry_handles_write [of "Root (sw_roots w)" _ "w\<lparr>sw_roots := Suc (sw_roots w)\<rparr>"] fresh_root [OF assms]
    entry_handles_cong [of "w\<lparr>sw_roots := Suc (sw_roots w)\<rparr>" w]
  by (simp add: scope_root_def scope_at_dead upgrade_def)

lemma entry_handles_child:
  assumes "tree_shaped w" "upgrade w s"
  shows "entry_handles (snd (scope_child s w)) = entry_handles w"
proof -
  let ?k = "length (ss_children (scope_at w s))"
  let ?u = "scope_write s ((scope_at w s)\<lparr>ss_children := ss_children (scope_at w s) @ [?k]\<rparr>) w"
  have fresh: "\<not> upgrade w (Child s ?k)" by (rule fresh_child [OF assms(1)])
  then have "\<not> upgrade ?u (Child s ?k)" by simp
  then have "entry_handles (snd (scope_child s w)) = entry_handles ?u"
    using entry_handles_write [of "Child s ?k" _ ?u] by (simp add: scope_child_def Let_def scope_at_dead)
  also have "\<dots> = entry_handles w"
    using entry_handles_write [of s "(scope_at w s)\<lparr>ss_children := ss_children (scope_at w s) @ [?k]\<rparr>" w] by simp
  finally show ?thesis .
qed

lemma entry_handles_withdraw:
  assumes "withdraw s i g w = (Ok h, w')"
  shows "entry_handles w = add_mset h (entry_handles w')"
proof -
  from assms obtain e where e: "fmlookup (ss_entries (scope_at w s)) i = Some e" "h = entry_handle e"
    "w' = scope_write s ((scope_at w s)\<lparr>ss_entries := fmdrop i (ss_entries (scope_at w s))\<rparr>) w"
    by (auto simp: withdraw_def split: if_splits option.splits)
  with entry_handles_write [of s "(scope_at w s)\<lparr>ss_entries := fmdrop i (ss_entries (scope_at w s))\<rparr>" w]
    entries_mset_drop [OF e(1)] show ?thesis by simp
qed

lemma entry_handles_drop:
  assumes "upgrade w s"
  shows "entry_handles w =
    entry_handles (w\<lparr>sw_scopes := fmdrop s (sw_scopes w)\<rparr>) + entries_mset (ss_entries (scope_at w s))"
proof -
  let ?w = "w\<lparr>sw_scopes := fmdrop s (sw_scopes w)\<rparr>"
  have "entry_handles ?w = (\<Sum>t\<in>fset (fmdom (sw_scopes w)) - {s}. entries_mset (ss_entries (scope_at w t)))"
    unfolding entry_handles_def by (auto intro!: sum.cong simp: scope_at_fmdrop fmlookup_dom_iff)
  moreover have "s \<in> fset (fmdom (sw_scopes w))" using assms by (auto simp: upgrade_def fmlookup_dom_iff)
  ultimately show ?thesis by (simp add: entry_handles_def sum.remove)
qed

lemma mset_drop_in_order: "mset (map entry_handle (drop_in_order is es)) = entries_mset es"
proof (induction "is" es rule: drop_in_order.induct)
  case (2 i "is" es)
  then show ?case
    using entries_mset_drop [of es i] by (cases "fmlookup es i") simp_all
qed (simp add: entries_mset_def)

lemma entry_handles_teardown_each:
  "teardown_each ss w = (Ok ps, w') \<Longrightarrow>
   entry_handles w = entry_handles w' + mset (map entry_handle (drop_teardown_plans ps))"
proof (induction ss arbitrary: w ps)
  case (Cons s ss)
  show ?case
  proof (cases "is_open w s")
    case False
    with Cons show ?thesis by (auto simp: teardown_each_Cons simp del: teardown_each.simps)
  next
    case True
    with Cons.prems obtain order ps' where ps:
      "ps = \<lparr>tp_entries = ss_entries (scope_at w s), tp_order = order\<rparr> # ps'"
      "teardown_each ss (scope_write s (closed_state (scope_at w s)) w) = (Ok ps', w')"
      by (auto simp: teardown_each_Cons simp del: teardown_each.simps)
    have "entry_handles w =
        entry_handles (scope_write s (closed_state (scope_at w s)) w) + entries_mset (ss_entries (scope_at w s))"
      using entry_handles_write [of s "closed_state (scope_at w s)" w] by (simp add: closed_state_def)
    with Cons.IH [OF ps(2)] mset_drop_in_order [of order "ss_entries (scope_at w s)"]
    show ?thesis by (simp add: ps(1) drop_teardown_plans_def add.commute add.left_commute)
  qed
qed (simp add: drop_teardown_plans_def)

lemma entry_handles_teardown:
  "teardown s w = (Ok es, w') \<Longrightarrow> entry_handles w = entry_handles w' + mset (map entry_handle es)"
  using entry_handles_teardown_each by (auto simp: teardown_def act_bind_eq_Ok)

lemma entry_handles_entry:
  assumes "fmlookup (ss_entries (scope_at w s)) i = Some e"
  shows "entry_handle e \<in># entry_handles w"
proof -
  have "upgrade w s" using assms scope_at_dead [of w s] by fastforce
  from entry_handles_drop [OF this] entries_mset_drop [OF assms] show ?thesis by simp
qed

text \<open>A publication adds the new entry and takes away the entry that it replaces.\<close>

definition replaced_handles :: "'v scope_world \<Rightarrow> scope_ref \<Rightarrow> ident \<Rightarrow> 'v capability_handle list" where
  "replaced_handles w s i =
     (case fmlookup (ss_entries (scope_at w s)) i of None \<Rightarrow> [] | Some e \<Rightarrow> [entry_handle e])"

lemma entry_handles_publish:
  assumes "publish_preconstructed s d x snapshot v w = (Ok h, w')"
  shows "add_mset h (entry_handles w) = entry_handles w' + mset (replaced_handles w s (cd_id d))"
proof -
  from assms obtain e counter where e: "h = entry_handle e"
    "w' = entry_write s (cd_id d) e (w\<lparr>sw_next_entry_id := counter\<rparr>)" by (rule publishedE) blast
  let ?es = "ss_entries (scope_at w s)"
  have "entry_handles w' + entries_mset ?es = entry_handles w + entries_mset (fmupd (cd_id d) e ?es)"
    using entry_handles_write [of s _ "w\<lparr>sw_next_entry_id := counter\<rparr>"]
      entry_handles_cong [of "w\<lparr>sw_next_entry_id := counter\<rparr>" w]
    unfolding e(2) entry_write_def by simp
  moreover have "entries_mset (fmupd (cd_id d) e ?es) + mset (replaced_handles w s (cd_id d)) =
      add_mset h (entries_mset ?es)"
    using entries_mset_upd [of ?es "cd_id d" e] entries_mset_replace [of ?es "cd_id d" _ e]
    by (cases "fmlookup ?es (cd_id d)") (simp_all add: replaced_handles_def e(1))
  ultimately have "entry_handles w' + mset (replaced_handles w s (cd_id d)) + entries_mset ?es =
      add_mset h (entry_handles w) + entries_mset ?es"
    by (metis (no_types, lifting) add.assoc add.commute union_mset_add_mset_right)
  then show ?thesis by simp
qed

subsection \<open>The slots of the publications\<close>

definition slots_ok :: "'v slots \<Rightarrow> 'v capability_handle multiset \<Rightarrow> 'v capability_handle set \<Rightarrow> bool" where
  "slots_ok s R P \<longleftrightarrow>
     (\<forall>x \<in> P. set (dependency_handles x) \<subseteq> P) \<and> (\<exists>L. counted s R L \<and> L \<union> set (snd s) = P)"

lemma slots_drop: "slots_ok s (R + mset hs) P \<Longrightarrow> slots_ok (drop_handles hs s) R P"
  using drops_counted unfolding slots_ok_def by blast

lemma slots_drop_one: "slots_ok s (add_mset h R) P \<Longrightarrow> slots_ok (drop_handle h s) R P"
  using slots_drop [of s R "[h]"] by (simp add: drop_handles_def)

lemma slots_clone:
  assumes "slots_ok s R P" "h \<in># R"
  shows "slots_ok (clone_handle h s) (add_mset h R) P"
proof -
  from assms(1) obtain L where L: "counted s R L" "L \<union> set (snd s) = P" by (auto simp: slots_ok_def)
  with assms(2) have "h \<in> L" by (auto simp: counted_def)
  with clone_counted [OF L(1)] L(2) have "\<exists>L. counted (clone_handle h s) (add_mset h R) L \<and> L \<union> set (snd (clone_handle h s)) = P"
    by (auto simp: clone_handle_def)
  with assms(1) show ?thesis unfolding slots_ok_def by blast
qed

lemma slots_clones:
  "slots_ok s R P \<Longrightarrow> set hs \<subseteq> set_mset R \<Longrightarrow> slots_ok (fold clone_handle hs s) (R + mset hs) P"
proof (induction hs arbitrary: s R)
  case (Cons h hs)
  from Cons.IH [OF slots_clone [OF Cons.prems(1), of h]] Cons.prems(2) show ?case by auto
qed simp

lemma slots_new:
  assumes ok: "slots_ok s (R + mset (dependency_handles h)) P" and new: "h_entry_id h \<notin> h_entry_id ` P"
  shows "slots_ok (new_slot h s) (add_mset h (add_mset h R)) (insert h P)"
proof -
  from ok obtain L where L: "counted s (R + mset (dependency_handles h)) L" "L \<union> set (snd s) = P"
    by (auto simp: slots_ok_def)
  from new L(2) have fresh: "h \<notin> L" "h \<notin> set (snd s)" "h_entry_id h \<notin> h_entry_id ` L"
    "h_entry_id h \<notin> h_entry_id ` set (snd s)" by auto
  have fin: "finite L" and R: "set_mset R \<subseteq> L" and deps: "set (dependency_handles h) \<subseteq> L"
    "\<And>x. x \<in> L \<Longrightarrow> set (dependency_handles x) \<subseteq> L" using L(1) by (auto simp: counted_def)
  have unused: "h \<notin># R" "\<And>x. x \<in> insert h L \<Longrightarrow> h \<notin> set (dependency_handles x)" using R deps fresh(1) by auto
  have count: "references (add_mset h (add_mset h R)) (insert h L) k =
      (if k = h then 2 else references (R + mset (dependency_handles h)) L k)" for k
  proof (cases "k = h")
    case True
    have "(\<Sum>x\<in>insert h L. count (dependency_mset x) h) = 0"
      using unused(2) fin by (auto simp: count_eq_zero_iff)
    with True unused(1) show ?thesis by (simp add: references_def count_eq_zero_iff del: sum.insert)
  next
    case False
    with fin fresh(1) show ?thesis by (simp add: references_def dependency_mset_def)
  qed
  have "counted (new_slot h s) (add_mset h (add_mset h R)) (insert h L)"
    unfolding counted_def
  proof (intro conjI ballI allI impI)
    fix k assume k: "k \<in> insert h L"
    with fresh(3) have "h_entry_id k = h_entry_id h \<longleftrightarrow> k = h" by (metis imageI insertE)
    with k L(1) show "fst (new_slot h s) (h_entry_id k) = references (add_mset h (add_mset h R)) (insert h L) k"
      "0 < references (add_mset h (add_mset h R)) (insert h L) k"
      by (auto simp: count new_slot_def counted_def)
    show "set (dependency_handles k) \<subseteq> insert h L" using k deps by auto
  next
    fix e assume "e \<notin> h_entry_id ` insert h L"
    with L(1) show "fst (new_slot h s) e = 0" by (auto simp: new_slot_def counted_def)
  next
    have "inj_on h_entry_id (insert h (L \<union> set (snd s)))"
      using L(1) fresh by (auto simp: counted_def)
    then show "inj_on h_entry_id (insert h L \<union> set (snd (new_slot h s)))" by (simp add: new_slot_def)
  qed (use L(1) fresh R fin in \<open>auto simp: new_slot_def counted_def\<close>)
  moreover have "set (dependency_handles x) \<subseteq> insert h P" if "x \<in> insert h P" for x
    using that ok deps(1) L(2) by (auto simp: slots_ok_def)
  ultimately show ?thesis
    using L(2) unfolding slots_ok_def by (intro conjI ballI exI [of _ "insert h L"]) (simp_all add: new_slot_def)
qed

subsection \<open>The invariant of the calls\<close>

definition held_in :: "'v scope_world \<Rightarrow> 'v capability_handle list \<Rightarrow> 'v capability_handle multiset" where
  "held_in w hs = entry_handles w + mset hs"

definition own_inv :: "'v ownership \<Rightarrow> bool" where
  "own_inv q \<longleftrightarrow>
     scope_inv (ow_scopes q) \<and>
     slots_ok (ow_slots q) (held_in (ow_scopes q) (ow_held q)) (set (ow_published q)) \<and>
     (\<forall>h \<in> set (ow_published q). unat (entry_id_get (h_entry_id h)) < next_id (ow_scopes q))"

lemma own_invI:
  assumes "scope_inv w" "slots_ok s (held_in w hs) (set ps)"
    "\<And>h. h \<in> set ps \<Longrightarrow> unat (entry_id_get (h_entry_id h)) < next_id w"
  shows "own_inv \<lparr>ow_scopes = w, ow_held = hs, ow_slots = s, ow_published = ps\<rparr>"
  using assms by (simp add: own_inv_def)

lemma mset_fold_remove1: "mset hs \<subseteq># mset ks \<Longrightarrow> mset (fold remove1 hs ks) + mset hs = mset ks"
proof (induction hs arbitrary: ks)
  case (Cons h hs)
  then have "mset hs \<subseteq># mset (remove1 h ks)"
    by (metis insert_subset_eq_iff mset.simps(2) mset_remove1)
  moreover have "h \<in># mset ks" using Cons.prems by (auto dest: mset_subset_eqD)
  ultimately show ?case using Cons.IH by simp
qed simp

lemma own_drop_inv:
  assumes "own_inv q" "holds q hs"
  shows "own_inv (own_drop hs q)"
proof -
  have "held_in (ow_scopes q) (ow_held q) = held_in (ow_scopes q) (fold remove1 hs (ow_held q)) + mset hs"
    using mset_fold_remove1 [of hs "ow_held q"] assms(2) by (simp add: held_in_def holds_def)
  with assms(1) show ?thesis by (auto simp: own_inv_def own_drop_def intro: slots_drop)
qed

lemma own_receive_inv:
  assumes "own_inv q" "h \<in># held_in (ow_scopes q) (ow_held q)"
  shows "own_inv (own_receive h q)"
  using assms slots_clone [of "ow_slots q" _ _ h] by (simp add: own_inv_def own_receive_def held_in_def)

text \<open>A call that moves references away from the scopes, to the caller or to nobody.\<close>

lemma own_step_inv:
  assumes "own_inv q" and change: "scope_change b (ow_scopes q) w"
    and ids: "next_id (ow_scopes q) \<le> next_id w"
    and slots: "slots_ok s (held_in w hs) (set (ow_published q))"
  shows "own_inv (q\<lparr>ow_scopes := w, ow_held := hs, ow_slots := s\<rparr>)"
  using assms by (fastforce simp: own_inv_def intro: scope_inv_step)

lemma own_publication_inv:
  assumes inv: "own_inv q" and held: "holds q (map snd snapshot)"
    and pub: "publish_preconstructed s d x snapshot v (ow_scopes q) = (Ok h, w)"
  shows "own_inv (the (own_publication s (cd_id d) snapshot (Ok h, w) q))"
proof -
  let ?w = "ow_scopes q" and ?hs = "map snd snapshot"
  from pub obtain e counter where e: "ce_dependencies e = snapshot" "ce_entry_id e = EntryId (sw_next_entry_id ?w)"
    "h = entry_handle e" "u64_checked_succ (sw_next_entry_id ?w) = Some counter"
    "w = entry_write s (cd_id d) e (?w\<lparr>sw_next_entry_id := counter\<rparr>)" by (rule publishedE) blast
  have ids: "next_id w = next_id ?w + 1" "unat (entry_id_get (h_entry_id h)) = next_id ?w"
    using e(2-5) by (simp_all add: entry_write_def u64_checked_succ_Some entry_handle_def)
  have deps: "dependency_handles h = ?hs" using e by (simp add: dependency_handles_def entry_handle_def)
  have fresh: "h_entry_id h \<notin> h_entry_id ` set (ow_published q)"
    using inv ids(2) by (fastforce simp: own_inv_def)
  have "set ?hs \<subseteq> set_mset (held_in ?w (ow_held q))"
    using set_mset_mono [OF held [unfolded holds_def]] by (auto simp: held_in_def)
  with inv have "slots_ok (fold clone_handle ?hs (ow_slots q)) (held_in ?w (ow_held q) + mset ?hs) (set (ow_published q))"
    by (intro slots_clones) (simp_all add: own_inv_def)
  then have "slots_ok (new_slot h (fold clone_handle ?hs (ow_slots q)))
      (add_mset h (add_mset h (held_in ?w (ow_held q)))) (set (ow_published q @ [h]))"
    using slots_new [of _ _ h] fresh by (simp add: deps)
  moreover have "add_mset h (add_mset h (held_in ?w (ow_held q))) =
      held_in w (h # ow_held q) + mset (replaced_handles ?w s (cd_id d))"
    using entry_handles_publish [OF pub] by (simp add: held_in_def)
  ultimately have "slots_ok (drop_handles (replaced_handles ?w s (cd_id d))
      (new_slot h (fold clone_handle ?hs (ow_slots q)))) (held_in w (h # ow_held q)) (set (ow_published q @ [h]))"
    by (metis slots_drop)
  moreover have "scope_inv w" using inv scope_change.publication [OF pub] scope_inv_step by (auto simp: own_inv_def)
  moreover have "unat (entry_id_get (h_entry_id k)) < next_id w" if "k \<in> set (ow_published q @ [h])" for k
    using that inv ids by (auto simp: own_inv_def)
  ultimately have "own_inv (q\<lparr>ow_scopes := w, ow_held := h # ow_held q,
      ow_slots := drop_handles (replaced_handles ?w s (cd_id d)) (new_slot h (fold clone_handle ?hs (ow_slots q))),
      ow_published := ow_published q @ [h]\<rparr>)" (is "own_inv ?q")
    by (auto simp: own_inv_def)
  moreover have "holds ?q ?hs" using held by (auto simp: holds_def intro: subset_mset.order_trans)
  ultimately show ?thesis
    using own_drop_inv by (simp add: own_publication_def Let_def replaced_handles_def)
qed

lemma publication_outcome_inv:
  assumes inv: "own_inv q" and held: "holds q (map snd snapshot)"
    and outcome: "r = publish_preconstructed s d x snapshot v (ow_scopes q) \<or> (\<exists>e. r = (Err e, ow_scopes q)) \<or> fst r = Panic"
    and exec: "own_publication s (cd_id d) snapshot r q = Some q'"
  shows "own_inv q'"
proof (cases "fst r")
  case (Ok h)
  with outcome obtain w where r: "r = (Ok h, w)" "publish_preconstructed s d x snapshot v (ow_scopes q) = (Ok h, w)"
    by (cases r) auto
  from own_publication_inv [OF inv held r(2)] exec show ?thesis by (simp add: r(1))
next
  case (Err e)
  with outcome have "r = (Err e, ow_scopes q)" by (cases r) (auto dest: publish_preconstructed_Err [OF sym])
  with exec inv held show ?thesis by (auto simp: own_publication_def own_drop_inv)
next
  case Panic
  with exec show ?thesis by (cases r) (simp add: own_publication_def)
qed

lemma provide_value_outcome:
  "provide_value s d snapshot v w = publish_preconstructed s d New snapshot v w \<or>
   (\<exists>e. provide_value s d snapshot v w = (Err e, w)) \<or> fst (provide_value s d snapshot v w) = Panic"
  by (simp add: provide_value_def split: res.splits)

lemma scope_get_held: "scope_get w s i = Some h \<Longrightarrow> h \<in># held_in w hs"
  using scope_get_entry [of w s i h] entry_handles_entry by (fastforce simp: held_in_def)

lemma own_invD:
  assumes "own_inv q"
  shows "tree_shaped (ow_scopes q)"
    and "slots_ok (ow_slots q) (held_in (ow_scopes q) (ow_held q)) (set (ow_published q))"
  using assms scope_invD(1) by (auto simp: own_inv_def)

text \<open>References that the scopes give up are dropped.\<close>

lemma own_released_inv:
  assumes "own_inv q" "scope_change b (ow_scopes q) w" "next_id (ow_scopes q) \<le> next_id w"
    and "entry_handles (ow_scopes q) = entry_handles w + mset hs"
  shows "own_inv (q\<lparr>ow_scopes := w, ow_slots := drop_handles hs (ow_slots q)\<rparr>)"
proof -
  have "slots_ok (ow_slots q) (held_in w (ow_held q) + mset hs) (set (ow_published q))"
    using own_invD(2) [OF assms(1)] assms(4) by (simp add: held_in_def ac_simps)
  from own_step_inv [OF assms(1-3) slots_drop [OF this]] show ?thesis by simp
qed

lemma own_new_scope_inv:
  assumes "own_inv q" "scope_change b (ow_scopes q) w" "sw_next_entry_id w = sw_next_entry_id (ow_scopes q)"
    and "entry_handles w = entry_handles (ow_scopes q)"
  shows "own_inv (q\<lparr>ow_scopes := w\<rparr>)"
  using own_released_inv [OF assms(1,2), of "[]"] assms(3,4) by (simp add: drop_handles_def)

lemma own_withdraw_inv:
  assumes inv: "own_inv q" and wd: "withdraw s i g (ow_scopes q) = (Ok h, w)"
  shows "own_inv (q\<lparr>ow_scopes := w, ow_held := h # ow_held q,
      ow_slots := drop_handle h (clone_handle h (ow_slots q))\<rparr>)"
proof -
  have "held_in (ow_scopes q) (ow_held q) = held_in w (h # ow_held q)"
    using entry_handles_withdraw [OF wd] by (simp add: held_in_def)
  with own_invD(2) [OF inv]
  have "slots_ok (drop_handle h (clone_handle h (ow_slots q))) (held_in w (h # ow_held q)) (set (ow_published q))"
    by (intro slots_drop_one slots_clone) (simp_all add: held_in_def)
  moreover have "sw_next_entry_id w = sw_next_entry_id (ow_scopes q)"
    using wd by (auto simp: withdraw_def split: if_splits option.splits)
  ultimately show ?thesis by (intro own_step_inv [OF inv scope_change.withdrawal [OF wd]]) simp_all
qed

lemma own_exec_inv:
  assumes inv: "own_inv q" and exec: "own_exec c q = Some q'"
  shows "own_inv q'"
proof (cases c)
  case Own_root
  with exec own_new_scope_inv [OF inv scope_change.root] entry_handles_root [OF own_invD(1) [OF inv]]
  show ?thesis by (auto simp: scope_root_def)
next
  case (Own_child s)
  with exec have s: "upgrade (ow_scopes q) s" "q' = q\<lparr>ow_scopes := snd (scope_child s (ow_scopes q))\<rparr>"
    by (simp_all split: if_splits)
  with own_new_scope_inv [OF inv scope_change.child [OF s(1)]] entry_handles_child [OF own_invD(1) [OF inv] s(1)]
  show ?thesis by (simp add: scope_child_def Let_def)
next
  case (Own_lookup s i)
  with exec inv own_receive_inv [OF inv scope_get_held] show ?thesis
    by (auto split: if_splits option.splits)
next
  case (Own_clone h)
  with exec have "h \<in># held_in (ow_scopes q) (ow_held q)" "q' = own_receive h q"
    by (auto simp: holds_def held_in_def split: if_splits)
  with own_receive_inv [OF inv] show ?thesis by simp
next
  case (Own_drop h)
  with exec own_drop_inv [OF inv] show ?thesis by (auto split: if_splits)
next
  case (Own_publish s d x snapshot v)
  with exec publication_outcome_inv [OF inv _ disjI1 [OF refl]] show ?thesis by (auto split: if_splits)
next
  case (Own_provide_value s d snapshot v)
  with exec publication_outcome_inv [OF inv _ provide_value_outcome] show ?thesis by (auto split: if_splits)
next
  case (Own_withdraw s i g)
  have "w = ow_scopes q" if "withdraw s i g (ow_scopes q) = (Err e, w)" for e w
    using that by (auto simp: withdraw_def split: if_splits option.splits)
  with Own_withdraw exec inv own_withdraw_inv [OF inv] show ?thesis
    by (auto split: if_splits prod.splits res.splits)
next
  case (Own_teardown s)
  with exec obtain es w where td: "upgrade (ow_scopes q) s" "teardown s (ow_scopes q) = (Ok es, w)"
    and q': "q' = q\<lparr>ow_scopes := w, ow_slots := drop_handles (map entry_handle es) (ow_slots q)\<rparr>"
    by (auto split: if_splits prod.splits res.splits)
  from own_released_inv [OF inv scope_change.teardown [OF td] _ entry_handles_teardown [OF td(2)]]
    teardown_effect(4) [OF td(2)] show ?thesis by (simp add: q')
next
  case (Own_drop_scope s)
  show ?thesis
  proof (cases "upgrade (ow_scopes q) s \<and> live_children (ow_scopes q) s = []")
    case True
    then have "own_inv (q\<lparr>ow_scopes := scope_drop s (ow_scopes q),
        ow_slots := drop_handles (map entry_handle (bt_values (ss_entries (scope_at (ow_scopes q) s)))) (ow_slots q)\<rparr>)"
      using entry_handles_drop [of "ow_scopes q" s]
      by (intro own_released_inv [OF inv]) (auto simp: scope_drop_def entries_mset_def intro: scope_change.deallocation)
    with True exec show ?thesis by (simp add: Own_drop_scope)
  next
    case False
    with exec inv show ?thesis by (auto simp: Own_drop_scope split: if_splits)
  qed
qed

lemma own_start_inv: "own_inv (own_start :: 'v ownership)"
  using scope_inv_start
  by (simp add: own_inv_def own_start_def scope_start_def held_in_def slots_ok_def counted_def entry_handles_def)

lemma own_run_inv: "own_run cs q = Some q' \<Longrightarrow> own_inv q \<Longrightarrow> own_inv q'"
proof (induction cs arbitrary: q)
  case (Cons c cs)
  then show ?case using own_exec_inv by (auto split: option.splits)
qed simp

text \<open>
  The whole of \<open>publish\<close> keeps the invariant: it is lookups followed by the second half, and the world it
  leaves is the one \<open>publish\<close> leaves.
\<close>

lemma own_receive_fields [simp]:
  "ow_scopes (own_receive h q) = ow_scopes q" "ow_published (own_receive h q) = ow_published q"
  by (simp_all add: own_receive_def)

lemma own_receives_inv:
  "own_inv q \<Longrightarrow> \<forall>h \<in> set hs. \<exists>s i. scope_get (ow_scopes q) s i = Some h \<Longrightarrow>
   own_inv (fold own_receive hs q) \<and> ow_scopes (fold own_receive hs q) = ow_scopes q \<and>
   mset (ow_held (fold own_receive hs q)) = mset (ow_held q) + mset hs"
proof (induction hs arbitrary: q)
  case (Cons h hs)
  then obtain s i where "scope_get (ow_scopes q) s i = Some h" by auto
  from own_receive_inv [OF Cons.prems(1) scope_get_held [OF this]] Cons.IH [of "own_receive h q"] Cons.prems(2)
  show ?case by (simp add: own_receive_def)
qed simp

lemma publish_prepare_found:
  assumes "publish_prepare w s d x = Ok snapshot" "h \<in> set (map snd snapshot)"
  shows "\<exists>s i. scope_get w s i = Some h"
  using assms by (fastforce simp: publish_prepare_def resolve_dependencies_Ok split: prod.splits)

lemma own_publish_inv:
  assumes inv: "own_inv q" and run: "own_publish s d x construct q = (r, q')" and "r \<noteq> Panic"
  shows "own_inv q' \<and> publish s d x construct (ow_scopes q) = (r, ow_scopes q')"
proof (cases "publish_prepare (ow_scopes q) s d x")
  case (Ok snapshot)
  let ?q = "fold own_receive (map snd snapshot) q"
  have q: "own_inv ?q" "ow_scopes ?q = ow_scopes q" "holds ?q (map snd snapshot)"
    using own_receives_inv [OF inv, of "map snd snapshot"] publish_prepare_found [OF Ok]
    by (auto simp: holds_def)
  show ?thesis
  proof (cases "construct snapshot")
    case (Ok v)
    let ?o = "publish_preconstructed s d x snapshot v (ow_scopes q)"
    have r: "r = fst ?o" "q' = (case own_publication s (cd_id d) snapshot ?o ?q of Some q' \<Rightarrow> q' | None \<Rightarrow> ?q)"
      using run \<open>publish_prepare _ _ _ _ = _\<close> Ok q(2) by (auto simp: own_publish_def Let_def)
    with \<open>r \<noteq> Panic\<close> obtain u where u: "own_publication s (cd_id d) snapshot ?o ?q = Some u"
      by (cases ?o; cases "fst ?o") (auto simp: own_publication_def)
    moreover have "own_inv u" by (rule publication_outcome_inv [OF q(1,3) _ u]) (unfold q(2), rule disjI1, rule refl)
    moreover have "ow_scopes u = snd ?o"
      using u by (auto simp: own_publication_def own_drop_def Let_def split: res.splits prod.splits)
    ultimately show ?thesis
      using r \<open>publish_prepare _ _ _ _ = _\<close> Ok by (simp add: publish_def prod_eq_iff)
  next
    case (Err e)
    with run \<open>publish_prepare _ _ _ _ = _\<close> own_drop_inv [OF q(1,3)] q(2) show ?thesis
      by (auto simp: own_publish_def publish_def Let_def own_drop_def)
  next
    case Panic
    with run \<open>publish_prepare _ _ _ _ = _\<close> \<open>r \<noteq> Panic\<close> show ?thesis by (auto simp: own_publish_def Let_def)
  qed
qed (use assms in \<open>auto simp: own_publish_def publish_def\<close>)

end
