(* ===== verification/Instance_Lifetime_Properties.thy ===== *)
theory Instance_Lifetime_Properties
  imports Instance_References Capability_Scope_Properties
begin

text \<open>
  What the shared ownership of instances promises: the cleanup of a published value runs exactly once,
  exactly when nothing can reach the value any more, and a value outlives everything that was built on it.
\<close>

subsection \<open>What can reach an instance\<close>

inductive own_alive :: "'v ownership \<Rightarrow> 'v capability_handle \<Rightarrow> bool" for q where
  held: "h \<in> set (ow_held q) \<Longrightarrow> own_alive q h"
| published: "fmlookup (ss_entries (scope_at (ow_scopes q) s)) i = Some e \<Longrightarrow> own_alive q (entry_handle e)"
| snapshot: "own_alive q x \<Longrightarrow> h \<in> set (dependency_handles x) \<Longrightarrow> own_alive q h"

lemma entry_handlesE:
  assumes "h \<in># entry_handles w"
  obtains s i e where "fmlookup (ss_entries (scope_at w s)) i = Some e" "h = entry_handle e"
proof -
  from assms obtain s where "h \<in># entries_mset (ss_entries (scope_at w s))"
    by (auto simp: entry_handles_def set_mset_sum)
  then obtain i where i: "i |\<in>| fmdom (ss_entries (scope_at w s))"
    "h = entry_handle (the (fmlookup (ss_entries (scope_at w s)) i))" by (auto simp: entries_mset_keys)
  then show ?thesis using that by (fastforce simp: fmlookup_dom_iff)
qed

lemma counted_alive:
  assumes ok: "counted s (held_in (ow_scopes q) (ow_held q)) L"
  shows "h \<in> L \<longleftrightarrow> own_alive q h"
proof
  have fin: "finite L" using ok by (simp add: counted_def)
  have root: "own_alive q k" if "k \<in># held_in (ow_scopes q) (ow_held q)" for k
    using that by (auto simp: held_in_def elim!: entry_handlesE intro: own_alive.intros)
  assume "h \<in> L"
  then show "own_alive q h"
  proof (induction "Max (size ` L) - size h" arbitrary: h rule: less_induct)
    case less
    from ok less.prems have "0 < references (held_in (ow_scopes q) (ow_held q)) L h" by (auto simp: counted_def)
    then consider "h \<in># held_in (ow_scopes q) (ow_held q)" | x where "x \<in> L" "h \<in> set (dependency_handles x)"
      using sum.neutral [of L "\<lambda>x. count (dependency_mset x) h"]
      by (fastforce simp: references_def count_eq_zero_iff)
    then show ?case
    proof cases
      case 2
      moreover have "size x \<le> Max (size ` L)" using fin 2(1) by simp
      ultimately have "own_alive q x" using less.hyps dependency_size [OF 2(2)] by (meson diff_less_mono2 order_less_le_trans)
      then show ?thesis using 2(2) by (rule own_alive.snapshot)
    qed (rule root)
  qed
next
  assume "own_alive q h"
  then show "h \<in> L"
  proof induction
    case (published s i e)
    from entry_handles_entry [OF this] ok show ?case by (auto simp: counted_def held_in_def)
  qed (use ok in \<open>auto simp: counted_def held_in_def\<close>)
qed

lemma own_run_slots:
  assumes "own_run cs own_start = Some q"
  shows "\<exists>L. counted (ow_slots q) (held_in (ow_scopes q) (ow_held q)) L \<and>
    L \<union> set (snd (ow_slots q)) = set (ow_published q) \<and>
    (\<forall>x \<in> set (ow_published q). set (dependency_handles x) \<subseteq> set (ow_published q))"
  using own_run_inv [OF assms own_start_inv] by (simp add: own_inv_def slots_ok_def)

subsection \<open>A small history\<close>

text \<open>A service is built on a store; both are withdrawn, the store first, and their guards dropped.\<close>

definition demo_service_handle :: "nat capability_handle" where
  "demo_service_handle = Handle demo_api 20 [(Id ''db'', demo_db_handle)] (Generation 1) (EntryId 2)"

definition demo_lifetime :: "nat own_call list" where
  "demo_lifetime =
     [Own_root, Own_publish (Root 0) demo_db New [] 10,
      Own_publish (Root 0) demo_api New [(Id ''db'', demo_db_handle)] 20,
      Own_withdraw (Root 0) (Id ''db'') (Generation 1), Own_drop demo_db_handle,
      Own_withdraw (Root 0) (Id ''api'') (Generation 1), Own_drop demo_service_handle]"

definition demo_owned :: "nat ownership" where
  "demo_owned = the (own_run (demo_lifetime @ [Own_drop demo_service_handle]) own_start)"

lemma demo_lifetime_run:
  "own_run (demo_lifetime @ [Own_drop demo_service_handle]) own_start = Some demo_owned"
  "snd (ow_slots demo_owned) = [demo_service_handle, demo_db_handle]"
  "ow_published demo_owned = [demo_db_handle, demo_service_handle]"
  unfolding demo_owned_def
  by (simp_all add: demo_lifetime_def own_start_def scope_eval demo_defs demo_service_handle_def holds_def
      own_publication_def own_drop_def drop_handles_def drop_handle_eq dependency_handles_def clone_handle_def
      new_slot_def)

subsection \<open>Exactly once, and in order\<close>

text \<open>
  C17: The value of a published instance is released exactly once and exactly when nothing reaches it any
  more.  After any history of publications, replacements, withdrawals, teardowns and drops, an instance
  has been released iff it is neither held, nor published in some scope, nor in the dependency snapshot of
  an instance that can itself be reached; no instance is released twice, and none that can be reached has
  been released.
\<close>

theorem instance_released_exactly:
  assumes "own_run cs own_start = Some q"
  shows "distinct (snd (ow_slots q)) \<and>
    (h \<in> set (snd (ow_slots q)) \<longleftrightarrow> h \<in> set (ow_published q) \<and> \<not> own_alive q h)"
proof
  from own_run_slots [OF assms] obtain L where L: "counted (ow_slots q) (held_in (ow_scopes q) (ow_held q)) L"
    "L \<union> set (snd (ow_slots q)) = set (ow_published q)" by blast
  show "distinct (snd (ow_slots q))" using L(1) by (simp add: counted_def)
  show "h \<in> set (snd (ow_slots q)) \<longleftrightarrow> h \<in> set (ow_published q) \<and> \<not> own_alive q h"
    using counted_alive [OF L(1), of h] L unfolding counted_def by blast
qed

theorem instance_released_exactly_witness: "\<not> own_alive demo_owned demo_db_handle"
  using instance_released_exactly [OF demo_lifetime_run(1), of demo_db_handle] by (simp add: demo_lifetime_run)

text \<open>
  C19: A value outlives everything that was built on it.  In any history, when an instance is released
  none of the exact instances of its dependency snapshot has been released before it, however the
  providers were replaced or withdrawn in the meantime; they were published, and are released later or
  still live.
\<close>

theorem dependencies_outlive_dependents:
  assumes "own_run cs own_start = Some q" and "snd (ow_slots q) = xs @ x # ys" and "h \<in> set (dependency_handles x)"
  shows "h \<notin> set (xs @ [x]) \<and> (h \<in> set ys \<or> own_alive q h)"
proof
  from own_run_slots [OF assms(1)] obtain L where L: "counted (ow_slots q) (held_in (ow_scopes q) (ow_held q)) L"
    "L \<union> set (snd (ow_slots q)) = set (ow_published q)"
    and closed: "\<forall>x \<in> set (ow_published q). set (dependency_handles x) \<subseteq> set (ow_published q)"
    by blast
  then have "dependents_first (snd (ow_slots q))" by (simp add: counted_def)
  with assms(2,3) dependency_irrefl [of x] show later: "h \<notin> set (xs @ [x])"
    unfolding dependents_first_def by auto
  have "h \<in> L \<union> set (snd (ow_slots q))" using closed L(2) assms(2,3) by auto
  with later assms(2) counted_alive [OF L(1)] show "h \<in> set ys \<or> own_alive q h" by auto
qed

theorem dependencies_outlive_dependents_witness: "demo_db_handle \<notin> set ([] @ [demo_service_handle])"
  by (rule dependencies_outlive_dependents [where ys = "[demo_db_handle]", THEN conjunct1, OF demo_lifetime_run(1)])
    (simp_all add: demo_lifetime_run dependency_handles_def demo_service_handle_def)

end
