(* ===== verification/Runtime_Core.thy ===== *)
theory Runtime_Core
  imports Recovery_Classify Stream_Buffers Capability_Context
begin

text \<open>
  The coordinator of \<open>crates/runtime-core/src/lib.rs\<close>: one run over a workflow graph, a durable store
  with its compatibility journal, a capability context and three observation streams.  Every method is
  translated with the state it leaves behind when it fails; the scopes that a call reads are the
  argument \<open>w\<close>, since they are shared with the rest of the process and change only between the calls
  of a single-threaded coordinator.
\<close>

subsection \<open>Attempts and configuration\<close>

record 'v capability_pin =
  cp_capability :: ident
  cp_generation :: generation
  cp_entry_id :: entry_id
  cp_replay_identity :: capability_replay_identity
  cp_handle :: "'v capability_handle"

record 'v task_attempt =
  ta_run :: run_id
  ta_task :: ident
  ta_attempt :: attempt_id
  ta_operation :: "operation_id option"
  ta_pins :: "'v capability_pin list"

definition attempt_capability :: "'v task_attempt \<Rightarrow> ident \<Rightarrow> 'v capability_pin option" where
  "attempt_capability a i = find (\<lambda>p. cp_capability p = i) (ta_pins a)"

record effect_spec =
  es_operation :: operation_id
  es_semantics :: effect_semantics

record task_config =
  tc_required :: "(ident, string option) fmap"
  tc_effect :: "effect_spec option"

definition config_new :: task_config where
  "config_new = \<lparr>tc_required = fmempty, tc_effect = None\<rparr>"

definition require_capability :: "ident \<Rightarrow> task_config \<Rightarrow> task_config" where
  "require_capability i c =
     (if has_key (tc_required c) i then c else c\<lparr>tc_required := fmupd i None (tc_required c)\<rparr>)"

definition require_capability_with_identity :: "ident \<Rightarrow> string \<Rightarrow> task_config \<Rightarrow> task_config" where
  "require_capability_with_identity i s c = c\<lparr>tc_required := fmupd i (Some s) (tc_required c)\<rparr>"

definition with_effect :: "operation_id \<Rightarrow> effect_semantics \<Rightarrow> task_config \<Rightarrow> task_config" where
  "with_effect i sem c = c\<lparr>tc_effect := Some \<lparr>es_operation = i, es_semantics = sem\<rparr>\<rparr>"

definition config_required :: "task_config \<Rightarrow> ident list" where
  "config_required c = bt_keys (tc_required c)"

subsection \<open>Observations, results and errors\<close>

datatype runtime_event =
    TaskStarted run_id ident attempt_id
  | TaskProgress ident u8
  | TaskCompleted run_id ident attempt_id
  | Telemetry string

datatype step_result =
    StepCompleted ident attempt_id
  | EffectPending ident attempt_id operation_id
  | Blocked ident "operation_id option" recovery_action
  | Idle

datatype cancellation =
    NotDispatched ident
  | AlreadyDispatched ident operation_id attempt_id

datatype runtime_error =
    RE_Workflow workflow_graph_error
  | RE_Capability scope_error
  | RE_Journal journal_error
  | RE_Store store_error
  | RE_Stream sequence_error
  | RE_UnknownTask ident
  | RE_MissingCapability ident ident
  | RE_CapabilityReplayMismatch ident ident
  | RE_AttemptIdExhausted
  | RE_CancelledBeforeDispatch ident
  | RE_CancelledAfterDispatch ident operation_id
  | RE_ReconciliationRequired operation_id
  | RE_OutcomeAlreadyKnown operation_id
  | RE_ProgressBackpressure
  | RE_ExecutionBackpressure "runtime_event stream_item"

text \<open>
  A store error prints a broken invariant by its derived \<open>Debug\<close> form, code the compiler generates;
  it is the parameter \<open>debug_invariant\<close>.
\<close>

fun show_store_error :: "(store_invariant \<Rightarrow> string) \<Rightarrow> store_error \<Rightarrow> string" where
  "show_store_error debug_invariant (SE_RunNotFound run) = ''durable run not found: '' @ show_run run"
| "show_store_error debug_invariant (SE_RunAlreadyExists run) = ''durable run already exists: '' @ show_run run"
| "show_store_error debug_invariant (SE_RevisionConflict e a) =
     ''durable revision conflict: expected '' @ show_store_revision e @ '', actual '' @ show_store_revision a"
| "show_store_error debug_invariant (SE_IdempotencyConflict k) =
     ''idempotency key reused with a conflicting mutation: '' @ key_text k"
| "show_store_error debug_invariant SE_EmptyIdempotencyKey = ''idempotency key is empty''"
| "show_store_error debug_invariant SE_EmptyCommit = ''durable commit contains no mutations''"
| "show_store_error debug_invariant (SE_InvariantViolation v) =
     ''durable invariant violation: '' @ debug_invariant v"
| "show_store_error debug_invariant (SE_RevisionExhausted c) =
     ''durable revision exhausted at '' @ show_store_revision c"

fun show_runtime_error :: "(store_invariant \<Rightarrow> string) \<Rightarrow> runtime_error \<Rightarrow> string" where
  "show_runtime_error debug_invariant (RE_Workflow e) = ''workflow error: '' @ show_workflow_graph_error e"
| "show_runtime_error debug_invariant (RE_Capability e) = ''capability error: '' @ show_scope_error e"
| "show_runtime_error debug_invariant (RE_Journal e) = ''journal error: '' @ show_journal_error e"
| "show_runtime_error debug_invariant (RE_Store e) =
     ''durable store error: '' @ show_store_error debug_invariant e"
| "show_runtime_error debug_invariant (RE_Stream e) = ''stream error: '' @ show_sequence_error e"
| "show_runtime_error debug_invariant (RE_UnknownTask t) = ''unknown task: '' @ show_ident t"
| "show_runtime_error debug_invariant (RE_MissingCapability t c) =
     ''task '' @ show_ident t @ '' requires unavailable capability '' @ show_ident c"
| "show_runtime_error debug_invariant (RE_CapabilityReplayMismatch t c) =
     (''task '' @ show_ident t @ '' capability '' @ show_ident c) @
     '' does not match its durable replay identity''"
| "show_runtime_error debug_invariant RE_AttemptIdExhausted = ''task attempt identity exhausted''"
| "show_runtime_error debug_invariant (RE_CancelledBeforeDispatch t) =
     ''task '' @ show_ident t @ '' was cancelled before dispatch''"
| "show_runtime_error debug_invariant (RE_CancelledAfterDispatch t i) =
     ''task '' @ show_ident t @ '' was cancelled after dispatch of '' @ show_operation i"
| "show_runtime_error debug_invariant (RE_ReconciliationRequired i) =
     ''effect '' @ show_operation i @ '' requires reconciliation''"
| "show_runtime_error debug_invariant (RE_OutcomeAlreadyKnown i) =
     ''effect '' @ show_operation i @ '' already has a known outcome''"
| "show_runtime_error debug_invariant RE_ProgressBackpressure = ''progress stream is backpressured''"
| "show_runtime_error debug_invariant (RE_ExecutionBackpressure item) = ''execution stream is backpressured''"

subsection \<open>The runtime\<close>

text \<open>
  Of the reactive capability runtime inside the coordinator only its context is used.
\<close>

record 'v runtime =
  rt_run :: run_id
  rt_workflow :: workflow_graph
  rt_context :: capability_context
  rt_journal :: durable_journal
  rt_store :: in_memory_store
  rt_store_revision :: store_revision
  rt_configs :: "(ident, task_config) fmap"
  rt_attempts :: "'v task_attempt list"
  rt_pending :: "('v task_attempt \<times> runtime_event stream_item) option"
  rt_cancelled :: "ident fset"
  rt_next_attempt :: u64
  rt_execution_sequencer :: stream_sequencer
  rt_progress_sequencer :: stream_sequencer
  rt_telemetry_sequencer :: stream_sequencer
  rt_execution :: "runtime_event lossless_buffer"
  rt_progress :: "(ident, runtime_event) coalescing_buffer"
  rt_telemetry :: "runtime_event lossy_buffer"

definition expect :: "('a, 'e) res \<Rightarrow> ('a, 'f) res" where
  "expect r = (case r of Ok a \<Rightarrow> Ok a | Err _ \<Rightarrow> Panic | Panic \<Rightarrow> Panic)"

definition stream_id :: "string \<Rightarrow> (ident, runtime_error) res" where
  "stream_id s = expect (id_new s)"

fun build_configs ::
  "workflow_graph \<Rightarrow> (ident \<times> task_config) list \<Rightarrow> (ident, task_config) fmap \<Rightarrow>
   ((ident, task_config) fmap, runtime_error) res" where
  "build_configs g [] configs = Ok configs"
| "build_configs g ((t, c) # rest) configs =
     (if graph_task g t = None then Err (RE_UnknownTask t)
      else build_configs g rest (fmupd t c configs))"

definition build ::
  "run_id \<Rightarrow> workflow_graph \<Rightarrow> scope_ref \<Rightarrow> (ident \<times> task_config) list \<Rightarrow> durable_journal \<Rightarrow>
   in_memory_store \<Rightarrow> store_revision \<Rightarrow> ('v runtime, runtime_error) res" where
  "build run g scope configs journal store revision =
     res_bind (build_configs g configs fmempty) (\<lambda>cs.
     res_bind (stream_id ''runtime-events'') (\<lambda>events.
     res_bind (stream_id ''runtime-progress'') (\<lambda>progress.
     res_bind (stream_id ''runtime-telemetry'') (\<lambda>telemetry.
     res_bind (expect (lossless_new 128)) (\<lambda>execution_buffer.
     res_bind (expect (coalescing_new 8)) (\<lambda>progress_buffer.
     res_bind (expect (lossy_new 1)) (\<lambda>telemetry_buffer.
     Ok \<lparr>rt_run = run, rt_workflow = g, rt_context = context_from_scope scope, rt_journal = journal,
         rt_store = store, rt_store_revision = revision, rt_configs = cs, rt_attempts = [],
         rt_pending = None, rt_cancelled = {||}, rt_next_attempt = 1,
         rt_execution_sequencer = sequencer_new events, rt_progress_sequencer = sequencer_new progress,
         rt_telemetry_sequencer = sequencer_new telemetry, rt_execution = execution_buffer,
         rt_progress = progress_buffer, rt_telemetry = telemetry_buffer\<rparr>)))))))"

definition start_run ::
  "run_id \<Rightarrow> workflow_graph \<Rightarrow> scope_ref \<Rightarrow> (ident \<times> task_config) list \<Rightarrow>
   ('v runtime, runtime_error) res" where
  "start_run run g scope configs =
     (case create_run run store_new of
        (Ok revision, store) \<Rightarrow> build run g scope configs journal_new store revision
      | (Err e, _) \<Rightarrow> Err (RE_Store e)
      | (Panic, _) \<Rightarrow> Panic)"

subsection \<open>Queries\<close>

definition durable_state :: "'v runtime \<Rightarrow> (durable_run_state, runtime_error) res" where
  "durable_state r = map_err RE_Store (load_run (rt_store r) (rt_run r))"

definition runtime_scope :: "'v runtime \<Rightarrow> scope_ref" where
  "runtime_scope r = cx_scope (rt_context r)"

text \<open>\<open>attempt_for_task\<close>: the attempt whose start waits for the stream, or the newest one.\<close>

definition attempt_for_task :: "'v runtime \<Rightarrow> ident \<Rightarrow> operation_id option \<Rightarrow> attempt_id option" where
  "attempt_for_task r t op =
     (let matches = (\<lambda>a. ta_task a = t \<and> ta_operation a = op);
          newest = map_option ta_attempt (find matches (rev (rt_attempts r)))
      in case rt_pending r of
           None \<Rightarrow> newest
         | Some (a, _) \<Rightarrow> if matches a then Some (ta_attempt a) else newest)"

definition pending_attempt :: "'v runtime \<Rightarrow> ident \<Rightarrow> operation_id \<Rightarrow> attempt_id option" where
  "pending_attempt r t i = attempt_for_task r t (Some i)"

subsection \<open>Capability pins\<close>

text \<open>The loop over the required capabilities, in the order of their names.\<close>

fun capture_each ::
  "'v scope_world \<Rightarrow> capability_context \<Rightarrow> ident \<Rightarrow> (ident \<times> string option) list \<Rightarrow>
   ('v capability_pin list, runtime_error) res" where
  "capture_each w c t [] = Ok []"
| "capture_each w c t ((i, configured) # rest) =
     (case context_get w c i of
        None \<Rightarrow> Err (RE_MissingCapability t i)
      | Some h \<Rightarrow>
          if configured \<noteq> None \<and> configured \<noteq> Some (h_replay_identity h)
          then Err (RE_CapabilityReplayMismatch t i)
          else res_bind (capture_each w c t rest) (\<lambda>pins.
                 Ok (\<lparr>cp_capability = i, cp_generation = h_generation h, cp_entry_id = h_entry_id h,
                      cp_replay_identity = \<lparr>cri_capability = i, cri_definition = h_replay_identity h\<rparr>,
                      cp_handle = h\<rparr> # pins)))"

definition required_of :: "'v runtime \<Rightarrow> ident \<Rightarrow> (ident \<times> string option) list" where
  "required_of r t =
     (case fmlookup (rt_configs r) t of
        None \<Rightarrow> []
      | Some c \<Rightarrow> map (\<lambda>i. (i, the (fmlookup (tc_required c) i))) (bt_keys (tc_required c)))"

text \<open>The identities a restart expects, by capability; of two with the same name the last counts.\<close>

definition expected_identities ::
  "capability_replay_identity list \<Rightarrow> (ident, capability_replay_identity) fmap" where
  "expected_identities xs = fmap_of_list (rev (map (\<lambda>x. (cri_capability x, x)) xs))"

definition pins_match ::
  "(ident, capability_replay_identity) fmap \<Rightarrow> 'v capability_pin list \<Rightarrow> bool" where
  "pins_match m pins \<longleftrightarrow>
     fcard (fmdom m) = length pins \<and>
     list_all (\<lambda>p. fmlookup m (cp_capability p) = Some (cp_replay_identity p)) pins"

definition capture_capability_pins ::
  "'v scope_world \<Rightarrow> 'v runtime \<Rightarrow> ident \<Rightarrow> capability_replay_identity list option \<Rightarrow>
   ('v capability_pin list, runtime_error) res" where
  "capture_capability_pins w r t expected =
     res_bind (capture_each w (rt_context r) t (required_of r t)) (\<lambda>pins.
       case expected of
         None \<Rightarrow> Ok pins
       | Some xs \<Rightarrow>
           let m = expected_identities xs
           in if pins_match m pins then Ok pins
              else Err (RE_CapabilityReplayMismatch t
                     (case pins of
                        p # _ \<Rightarrow> cp_capability p
                      | [] \<Rightarrow> (case bt_keys m of k # _ \<Rightarrow> k | [] \<Rightarrow> Id ''durable-capability-mismatch''))))"

subsection \<open>Starting again\<close>

fun restore_attempts ::
  "'v scope_world \<Rightarrow> attempt_admission list \<Rightarrow> 'v runtime \<Rightarrow> ('v runtime, runtime_error) res" where
  "restore_attempts w [] r = Ok r"
| "restore_attempts w (ad # ads) r =
     res_bind (capture_capability_pins w r (aa_task ad) (Some (aa_capabilities ad))) (\<lambda>pins.
       restore_attempts w ads
         (r\<lparr>rt_attempts := rt_attempts r @
              [\<lparr>ta_run = aa_run ad, ta_task = aa_task ad, ta_attempt = aa_attempt ad,
                ta_operation = aa_operation ad, ta_pins = pins\<rparr>]\<rparr>))"

text \<open>The addition at the end overflows only on \<open>2 ^ 64 - 1\<close> admissions; an overflow is a panic.\<close>

definition restore_run ::
  "'v scope_world \<Rightarrow> run_id \<Rightarrow> workflow_graph \<Rightarrow> scope_ref \<Rightarrow> (ident \<times> task_config) list \<Rightarrow>
   in_memory_store \<Rightarrow> ('v runtime, runtime_error) res" where
  "restore_run w run g scope configs store =
     res_bind (map_err RE_Store (load_run store run)) (\<lambda>state.
     res_bind (map_err RE_Journal (from_durable_state state)) (\<lambda>journal.
     res_bind (build run g scope configs journal store (ds_revision state)) (\<lambda>r0.
     res_bind (restore_attempts w (ds_admission_history state)
         (r0\<lparr>rt_cancelled := fset_of_list (map cn_task (run_cancellations state))\<rparr>)) (\<lambda>r.
     case u64_checked_succ (of_nat (length (ds_admission_history state))) of
       None \<Rightarrow> Panic
     | Some n \<Rightarrow> Ok (r\<lparr>rt_next_attempt := n\<rparr>)))))"

subsection \<open>Configuration and workflow\<close>

definition configure_task :: "ident \<Rightarrow> task_config \<Rightarrow> ('v runtime, unit, runtime_error) act" where
  "configure_task t c r =
     (if graph_task (rt_workflow r) t = None then (Err (RE_UnknownTask t), r)
      else (Ok (), r\<lparr>rt_configs := fmupd t c (rt_configs r)\<rparr>))"

definition apply_workflow_mutation ::
  "revision \<Rightarrow> mutation_batch \<Rightarrow> ('v runtime, workflow_mutation_record, runtime_error) act" where
  "apply_workflow_mutation expected batch r =
     (case apply_batch expected batch (rt_workflow r) of
        (x, g) \<Rightarrow> (map_err RE_Workflow x, r\<lparr>rt_workflow := g\<rparr>))"

definition complete_in_workflow :: "ident \<Rightarrow> ('v runtime, completion_record, runtime_error) act" where
  "complete_in_workflow t r =
     (case complete_task t (rt_workflow r) of
        (x, g) \<Rightarrow> (map_err RE_Workflow x, r\<lparr>rt_workflow := g\<rparr>))"

subsection \<open>Durable facts\<close>

definition commit_durable :: "string \<Rightarrow> durable_mutation list \<Rightarrow> ('v runtime, store_revision, runtime_error) act" where
  "commit_durable key ms r =
     (case idempotency_key_new key of
        Err e \<Rightarrow> (Err (RE_Store e), r)
      | Panic \<Rightarrow> (Panic, r)
      | Ok k \<Rightarrow>
          (case commit \<lparr>cq_run = rt_run r, cq_expected = rt_store_revision r, cq_key = k, cq_mutations = ms\<rparr>
                  (rt_store r) of
             (Ok result, s) \<Rightarrow>
               (Ok (ct_revision result), r\<lparr>rt_store := s, rt_store_revision := ct_revision result\<rparr>)
           | (Err e, s) \<Rightarrow> (Err (RE_Store e), r\<lparr>rt_store := s\<rparr>)
           | (Panic, s) \<Rightarrow> (Panic, r\<lparr>rt_store := s\<rparr>)))"

text \<open>
  The end of \<open>record_effect_intent\<close>, \<open>dispatch_effect\<close> and \<open>record_effect_outcome\<close>: the fact is
  admitted to a copy of the journal, committed, and only then the copy replaces the journal.
\<close>

definition admit_and_commit ::
  "journal_fact \<Rightarrow> string \<Rightarrow> durable_mutation \<Rightarrow> ('v runtime, unit, runtime_error) act" where
  "admit_and_commit f key m r =
     (case persist f (rt_journal r) of
        (Err e, _) \<Rightarrow> (Err (RE_Journal e), r)
      | (Panic, _) \<Rightarrow> (Panic, r)
      | (Ok _, candidate) \<Rightarrow>
          act_bind (commit_durable key [m]) (\<lambda>_ r'. (Ok (), r'\<lparr>rt_journal := candidate\<rparr>)) r)"

definition record_effect_intent ::
  "ident \<Rightarrow> operation_id \<Rightarrow> effect_semantics \<Rightarrow> ('v runtime, unit, runtime_error) act" where
  "record_effect_intent t i sem r =
     (if graph_task (rt_workflow r) t = None then (Err (RE_UnknownTask t), r)
      else if graph_is_completed (rt_workflow r) t then (Err (RE_Workflow (TaskAlreadyCompleted t)), r)
      else let it = \<lparr>ei_task = t, ei_operation = i, ei_semantics = sem\<rparr>
           in admit_and_commit (FactIntent it) (''intent:'' @ show_operation i) (RecordIntent it) r)"

definition record_effect_outcome ::
  "operation_id \<Rightarrow> attempt_id \<Rightarrow> known_effect_outcome \<Rightarrow> ('v runtime, unit, runtime_error) act" where
  "record_effect_outcome i a out r =
     (let oc = \<lparr>oc_operation = i, oc_attempt = a, oc_outcome = out\<rparr>
      in admit_and_commit (FactOutcome oc) (''outcome:'' @ show_attempt a) (RecordOutcome oc) r)"

subsection \<open>Observations\<close>

definition emit_execution :: "runtime_event \<Rightarrow> ('v runtime, runtime_event stream_item, runtime_error) act" where
  "emit_execution ev r =
     (case sequencer_emit ev (rt_execution_sequencer r) of
        (x, sq) \<Rightarrow> (map_err RE_Stream x, r\<lparr>rt_execution_sequencer := sq\<rparr>))"

definition enqueue_execution :: "runtime_event stream_item \<Rightarrow> ('v runtime, unit, runtime_error) act" where
  "enqueue_execution item r =
     (case lossless_try_push item (rt_execution r) of
        (Ok _, b) \<Rightarrow> (Ok (), r\<lparr>rt_execution := b\<rparr>)
      | (Err (Backpressure it), b) \<Rightarrow> (Err (RE_ExecutionBackpressure it), r\<lparr>rt_execution := b\<rparr>)
      | (Panic, b) \<Rightarrow> (Panic, r\<lparr>rt_execution := b\<rparr>))"

definition emit_completed :: "ident \<Rightarrow> attempt_id \<Rightarrow> ('v runtime, unit, runtime_error) act" where
  "emit_completed t a r =
     act_bind (emit_execution (TaskCompleted (rt_run r) t a)) enqueue_execution r"

definition emit_progress :: "ident \<Rightarrow> u8 \<Rightarrow> ('v runtime, unit, runtime_error) act" where
  "emit_progress t progress r =
     (case sequencer_emit (TaskProgress t progress) (rt_progress_sequencer r) of
        (Err e, sq) \<Rightarrow> (Err (RE_Stream e), r\<lparr>rt_progress_sequencer := sq\<rparr>)
      | (Panic, sq) \<Rightarrow> (Panic, r\<lparr>rt_progress_sequencer := sq\<rparr>)
      | (Ok item, sq) \<Rightarrow>
          (case coalescing_try_push \<lparr>ki_key = t, ki_item = item\<rparr> (rt_progress r) of
             (x, b) \<Rightarrow>
               (map_err (\<lambda>_. RE_ProgressBackpressure) x,
                r\<lparr>rt_progress_sequencer := sq, rt_progress := b\<rparr>)))"

definition emit_telemetry :: "string \<Rightarrow> ('v runtime, unit, runtime_error) act" where
  "emit_telemetry message r =
     (case sequencer_emit (Telemetry message) (rt_telemetry_sequencer r) of
        (Err e, sq) \<Rightarrow> (Err (RE_Stream e), r\<lparr>rt_telemetry_sequencer := sq\<rparr>)
      | (Panic, sq) \<Rightarrow> (Panic, r\<lparr>rt_telemetry_sequencer := sq\<rparr>)
      | (Ok item, sq) \<Rightarrow>
          (Ok (), r\<lparr>rt_telemetry_sequencer := sq, rt_telemetry := snd (lossy_push item (rt_telemetry r))\<rparr>))"

function drain_lossless :: "'t lossless_buffer \<Rightarrow> 't stream_item list \<times> 't lossless_buffer" where
  "drain_lossless b =
     (case lossless_pop b of
        (None, b') \<Rightarrow> ([], b')
      | (Some x, b') \<Rightarrow> (case drain_lossless b' of (xs, b'') \<Rightarrow> (x # xs, b'')))"
  by pat_completeness auto

termination drain_lossless
  by (relation "measure (\<lambda>b. length (lb_items b))") (auto simp: lossless_pop_def split: list.splits)

function drain_coalescing ::
  "('k, 't) coalescing_buffer \<Rightarrow> ('k, 't) keyed_item list \<times> ('k, 't) coalescing_buffer" where
  "drain_coalescing b =
     (case coalescing_pop b of
        (None, b') \<Rightarrow> ([], b')
      | (Some x, b') \<Rightarrow> (case drain_coalescing b' of (xs, b'') \<Rightarrow> (x # xs, b'')))"
  by pat_completeness auto

termination drain_coalescing
  by (relation "measure (\<lambda>b. length (cb_items b))") (auto simp: coalescing_pop_def split: list.splits)

function drain_lossy :: "'t lossy_buffer \<Rightarrow> 't stream_item list \<times> 't lossy_buffer" where
  "drain_lossy b =
     (case lossy_pop b of
        (None, b') \<Rightarrow> ([], b')
      | (Some x, b') \<Rightarrow> (case drain_lossy b' of (xs, b'') \<Rightarrow> (x # xs, b'')))"
  by pat_completeness auto

termination drain_lossy
  by (relation "measure (\<lambda>b. length (yb_items b))") (auto simp: lossy_pop_def split: list.splits)

declare drain_lossless.simps [simp del] drain_coalescing.simps [simp del] drain_lossy.simps [simp del]

definition drain_execution_events :: "'v runtime \<Rightarrow> runtime_event stream_item list \<times> 'v runtime" where
  "drain_execution_events r =
     (case drain_lossless (rt_execution r) of (xs, b) \<Rightarrow> (xs, r\<lparr>rt_execution := b\<rparr>))"

definition drain_progress_events :: "'v runtime \<Rightarrow> (ident, runtime_event) keyed_item list \<times> 'v runtime" where
  "drain_progress_events r =
     (case drain_coalescing (rt_progress r) of (xs, b) \<Rightarrow> (xs, r\<lparr>rt_progress := b\<rparr>))"

definition drain_telemetry_events :: "'v runtime \<Rightarrow> runtime_event stream_item list \<times> 'v runtime" where
  "drain_telemetry_events r =
     (case drain_lossy (rt_telemetry r) of (xs, b) \<Rightarrow> (xs, r\<lparr>rt_telemetry := b\<rparr>))"

definition retry_execution_event ::
  "runtime_event stream_item \<Rightarrow> ('v runtime, unit, runtime_error) act" where
  "retry_execution_event item r =
     (case rt_pending r of
        Some (attempt, pending_item) \<Rightarrow>
          (case enqueue_execution pending_item (r\<lparr>rt_pending := None\<rparr>) of
             (Ok _, r') \<Rightarrow> (Ok (), r'\<lparr>rt_attempts := rt_attempts r' @ [attempt]\<rparr>)
           | (Err e, r') \<Rightarrow> (Err e, r'\<lparr>rt_pending := Some (attempt, pending_item)\<rparr>)
           | (Panic, r') \<Rightarrow> (Panic, r'))
      | None \<Rightarrow> enqueue_execution item r)"

subsection \<open>Attempts\<close>

definition attempt_name :: "run_id \<Rightarrow> u64 \<Rightarrow> string" where
  "attempt_name run n = show_run run @ ''-attempt-'' @ show_u64 n"

definition admission_of :: "'v task_attempt \<Rightarrow> attempt_admission" where
  "admission_of a =
     \<lparr>aa_run = ta_run a, aa_task = ta_task a, aa_attempt = ta_attempt a, aa_operation = ta_operation a,
      aa_capabilities = map cp_replay_identity (ta_pins a)\<rparr>"

text \<open>The end of \<open>begin_attempt\<close>, after the admission is durable: the start is announced, and an
  attempt whose announcement does not fit the stream is kept aside.\<close>

definition announce_start ::
  "'v task_attempt \<Rightarrow> runtime_event stream_item \<Rightarrow> ('v runtime, attempt_id, runtime_error) act" where
  "announce_start a item r =
     (case enqueue_execution item r of
        (Ok _, r') \<Rightarrow> (Ok (ta_attempt a), r'\<lparr>rt_attempts := rt_attempts r' @ [a]\<rparr>)
      | (Err e, r') \<Rightarrow>
          (Err e, case e of
                    RE_ExecutionBackpressure it \<Rightarrow> r'\<lparr>rt_pending := Some (a, it)\<rparr>
                  | _ \<Rightarrow> r')
      | (Panic, r') \<Rightarrow> (Panic, r'))"

definition start_attempt :: "'v task_attempt \<Rightarrow> ('v runtime, attempt_id, runtime_error) act" where
  "start_attempt a r =
     (case u64_checked_succ (rt_next_attempt r) of
        None \<Rightarrow> (Err RE_AttemptIdExhausted, r)
      | Some n \<Rightarrow>
          act_bind (emit_execution (TaskStarted (rt_run r) (ta_task a) (ta_attempt a)))
            (announce_start a) (r\<lparr>rt_next_attempt := n\<rparr>))"

definition begin_attempt ::
  "'v scope_world \<Rightarrow> ident \<Rightarrow> operation_id option \<Rightarrow> ('v runtime, attempt_id, runtime_error) act" where
  "begin_attempt w t op r =
     (case capture_capability_pins w r t None of
        Err e \<Rightarrow> (Err e, r)
      | Panic \<Rightarrow> (Panic, r)
      | Ok pins \<Rightarrow>
          (case attempt_id_new (attempt_name (rt_run r) (rt_next_attempt r)) of
             Err _ \<Rightarrow> (Panic, r)
           | Panic \<Rightarrow> (Panic, r)
           | Ok a \<Rightarrow>
               (let attempt = \<lparr>ta_run = rt_run r, ta_task = t, ta_attempt = a, ta_operation = op,
                               ta_pins = pins\<rparr>
                in act_bind (commit_durable (''admit:'' @ show_attempt a) [AdmitAttempt (admission_of attempt)])
                     (\<lambda>_. start_attempt attempt) r)))"

text \<open>The attempt an earlier call began, or a new one.\<close>

definition resume_or_begin ::
  "'v scope_world \<Rightarrow> ident \<Rightarrow> operation_id option \<Rightarrow> ('v runtime, attempt_id, runtime_error) act" where
  "resume_or_begin w t op r =
     (case attempt_for_task r t op of
        Some a \<Rightarrow> (Ok a, r)
      | None \<Rightarrow> begin_attempt w t op r)"

subsection \<open>Effects\<close>

text \<open>Which attempt carries the dispatch, by the state of the effect.\<close>

definition dispatch_attempt ::
  "'v scope_world \<Rightarrow> effect_intent \<Rightarrow> operation_id \<Rightarrow> ('v runtime, attempt_id, runtime_error) act" where
  "dispatch_attempt w it i r =
     (case journal_state (rt_journal r) i of
        Prepared \<Rightarrow> resume_or_begin w (ei_task it) (Some i) r
      | OutcomeUnknown \<Rightarrow>
          if ei_semantics it = NonIdempotent then (Err (RE_ReconciliationRequired i), r)
          else begin_attempt w (ei_task it) (Some i) r
      | OutcomeKnown _ \<Rightarrow> (Err (RE_OutcomeAlreadyKnown i), r)
      | NotPrepared \<Rightarrow> (Panic, r))"

definition dispatch_effect ::
  "'v scope_world \<Rightarrow> operation_id \<Rightarrow> ('v runtime, attempt_id, runtime_error) act" where
  "dispatch_effect w i r =
     (case journal_intent (rt_journal r) i of
        Err e \<Rightarrow> (Err (RE_Journal e), r)
      | Panic \<Rightarrow> (Panic, r)
      | Ok it \<Rightarrow>
          if ei_task it |\<in>| rt_cancelled r
          then (Err (if journal_state (rt_journal r) i = OutcomeUnknown
                     then RE_CancelledAfterDispatch (ei_task it) i
                     else RE_CancelledBeforeDispatch (ei_task it)), r)
          else act_bind (dispatch_attempt w it i)
                 (\<lambda>a. let d = \<lparr>dr_operation = i, dr_attempt = a\<rparr>
                      in act_bind (admit_and_commit (FactDispatch d) (''dispatch:'' @ show_attempt a)
                                     (RecordDispatch d))
                           (\<lambda>_ r'. (Ok a, r'))) r)"

definition recover :: "operation_id \<Rightarrow> ('v runtime, recovery_decision, runtime_error) act" where
  "recover i r =
     (case map_err RE_Journal (classify_recovery (rt_workflow r) (rt_journal r) i) of
        Err e \<Rightarrow> (Err e, r)
      | Panic \<Rightarrow> (Panic, r)
      | Ok decision \<Rightarrow>
          if rd_action decision \<noteq> CompleteWithoutReexecution then (Ok decision, r)
          else case journal_intent (rt_journal r) i of
                 Err e \<Rightarrow> (Err (RE_Journal e), r)
               | Panic \<Rightarrow> (Panic, r)
               | Ok it \<Rightarrow>
                   (case known_outcome (rt_journal r) i of
                      None \<Rightarrow> (Panic, r)
                    | Some oc \<Rightarrow>
                        if graph_is_completed (rt_workflow r) (ei_task it) then (Ok decision, r)
                        else act_bind (complete_in_workflow (ei_task it))
                               (\<lambda>_. act_bind (emit_completed (ei_task it) (oc_attempt oc))
                                      (\<lambda>_ r'. (Ok decision, r'))) r))"

definition cancel_task :: "ident \<Rightarrow> ('v runtime, cancellation, runtime_error) act" where
  "cancel_task t r =
     (if graph_task (rt_workflow r) t = None then (Err (RE_UnknownTask t), r)
      else
        let op = journal_operation_for_task (rt_journal r) t;
            attempt = Option.bind op (\<lambda>i. attempt_for_task r t (Some i));
            dispatched = Option.bind op (latest_dispatch (rt_journal r))
        in act_bind
             (commit_durable (''cancel:'' @ show_ident t)
                [RecordCancellation \<lparr>cn_run = rt_run r, cn_task = t, cn_operation = op, cn_attempt = attempt\<rparr>])
             (\<lambda>_ r'.
                (Ok (case (op, dispatched) of
                       (Some i, Some d) \<Rightarrow> AlreadyDispatched t i (dr_attempt d)
                     | _ \<Rightarrow> NotDispatched t),
                 r'\<lparr>rt_cancelled := finsert t (rt_cancelled r')\<rparr>)) r)"

subsection \<open>The scheduler\<close>

definition ensure_configured_effect ::
  "ident \<Rightarrow> ('v runtime, (operation_id \<times> effect_semantics) option, runtime_error) act" where
  "ensure_configured_effect t r =
     (case journal_operation_for_task (rt_journal r) t of
        Some i \<Rightarrow>
          (map_err RE_Journal
             (res_bind (journal_intent (rt_journal r) i) (\<lambda>it. Ok (Some (i, ei_semantics it)))), r)
      | None \<Rightarrow>
          (case Option.bind (fmlookup (rt_configs r) t) tc_effect of
             None \<Rightarrow> (Ok None, r)
           | Some e \<Rightarrow>
               act_bind (record_effect_intent t (es_operation e) (es_semantics e))
                 (\<lambda>_ r'. (Ok (Some (es_operation e, es_semantics e)), r')) r))"

definition complete_with :: "ident \<Rightarrow> attempt_id \<Rightarrow> ('v runtime, step_result, runtime_error) act" where
  "complete_with t a =
     act_bind (complete_in_workflow t)
       (\<lambda>_. act_bind (emit_completed t a) (\<lambda>_ r. (Ok (StepCompleted t a), r)))"

text \<open>The \<open>match\<close> of \<open>step_task\<close> on the state of the task's effect.\<close>

definition step_effect ::
  "'v scope_world \<Rightarrow> ident \<Rightarrow> operation_id \<Rightarrow> ('v runtime, step_result, runtime_error) act" where
  "step_effect w t i r =
     (case journal_state (rt_journal r) i of
        Prepared \<Rightarrow> act_bind (resume_or_begin w t (Some i)) (\<lambda>a r'. (Ok (EffectPending t a i), r')) r
      | OutcomeUnknown \<Rightarrow>
          (map_err RE_Journal
             (res_bind (classify_recovery (rt_workflow r) (rt_journal r) i)
                (\<lambda>decision. Ok (Blocked t (Some i) (rd_action decision)))), r)
      | OutcomeKnown Succeeded \<Rightarrow>
          (case known_outcome (rt_journal r) i of
             None \<Rightarrow> (Panic, r)
           | Some oc \<Rightarrow> complete_with t (oc_attempt oc) r)
      | OutcomeKnown Failed \<Rightarrow> (Ok (Blocked t (Some i) ObserveFailure), r)
      | NotPrepared \<Rightarrow> (Panic, r))"

definition step_task :: "'v scope_world \<Rightarrow> ident \<Rightarrow> ('v runtime, step_result, runtime_error) act" where
  "step_task w t =
     act_bind (ensure_configured_effect t)
       (\<lambda>operation.
          case operation of
            None \<Rightarrow> act_bind (resume_or_begin w t None) (complete_with t)
          | Some (i, _) \<Rightarrow> step_effect w t i)"

definition runtime_step :: "'v scope_world \<Rightarrow> ('v runtime, step_result, runtime_error) act" where
  "runtime_step w r =
     (case rt_pending r of
        Some (_, item) \<Rightarrow> (Err (RE_ExecutionBackpressure item), r)
      | None \<Rightarrow>
          (case find (\<lambda>t. t |\<notin>| rt_cancelled r) (ready_tasks (rt_workflow r)) of
             Some t \<Rightarrow> step_task w t r
           | None \<Rightarrow> (Ok Idle, r)))"

subsection \<open>Running until blocked\<close>

lemma act_bind_frame:
  "(\<And>s. p (snd (m s)) = p s) \<Longrightarrow> (\<And>a s. p (snd (f a s)) = p s) \<Longrightarrow> p (snd (act_bind m f s)) = p s"
  by (cases "m s"; cases "fst (m s)") (simp_all add: act_bind_def, (metis snd_conv)+)

text \<open>Only \<open>complete\<close> and \<open>apply_batch\<close> touch the workflow.\<close>

lemma workflow_frames [simp]:
  "rt_workflow (snd (commit_durable key ms r)) = rt_workflow r"
  "rt_workflow (snd (emit_execution ev r)) = rt_workflow r"
  "rt_workflow (snd (enqueue_execution item r)) = rt_workflow r"
  by (simp_all add: commit_durable_def emit_execution_def enqueue_execution_def
      split: res.split prod.split push_error.split)

lemma workflow_frame_admit [simp]: "rt_workflow (snd (admit_and_commit f key m r)) = rt_workflow r"
  by (auto simp: admit_and_commit_def intro!: act_bind_frame split: res.split prod.split)

lemma workflow_frame_completed [simp]: "rt_workflow (snd (emit_completed t a r)) = rt_workflow r"
  by (auto simp: emit_completed_def intro!: act_bind_frame)

lemma workflow_frame_announce [simp]: "rt_workflow (snd (announce_start a item r)) = rt_workflow r"
  by (simp add: announce_start_def enqueue_execution_def lossless_try_push_def)

lemma workflow_frame_start [simp]: "rt_workflow (snd (start_attempt a r)) = rt_workflow r"
  by (simp add: start_attempt_def act_bind_frame [of rt_workflow] split: option.split)

lemma workflow_frame_begin [simp]: "rt_workflow (snd (begin_attempt w t op r)) = rt_workflow r"
  by (auto simp: begin_attempt_def Let_def intro!: act_bind_frame split: res.split)

lemma workflow_frame_resume [simp]: "rt_workflow (snd (resume_or_begin w t op r)) = rt_workflow r"
  by (simp add: resume_or_begin_def split: option.split)

lemma workflow_frame_intent [simp]: "rt_workflow (snd (record_effect_intent t i sem r)) = rt_workflow r"
  by (simp add: record_effect_intent_def Let_def)

lemma workflow_frame_ensure [simp]: "rt_workflow (snd (ensure_configured_effect t r)) = rt_workflow r"
  by (auto simp: ensure_configured_effect_def split: option.split intro!: act_bind_frame)

lemma complete_with_Ok:
  assumes "complete_with t a r = (Ok x, r')"
  shows "x = StepCompleted t a \<and> t \<in> set (ready_tasks (rt_workflow r)) \<and>
    rt_workflow r' = with_completion t (rt_workflow r)"
proof -
  from assms obtain u r1 r2 v where
    one: "complete_in_workflow t r = (Ok u, r1)" and two: "emit_completed t a r1 = (Ok v, r2)"
    and x: "x = StepCompleted t a" "r' = r2"
    by (auto simp: complete_with_def act_bind_eq_Ok)
  from one have "complete_task t (rt_workflow r) = (Ok u, rt_workflow r1)"
    by (auto simp: complete_in_workflow_def split: prod.splits)
  with two x workflow_frame_completed [of t a r1] show ?thesis by (simp add: complete_task_Ok)
qed

lemma step_task_completed:
  assumes "step_task w t r = (Ok (StepCompleted t' a), r')"
  shows "t' = t \<and> t \<in> set (ready_tasks (rt_workflow r)) \<and> rt_workflow r' = with_completion t (rt_workflow r)"
proof -
  from assms obtain operation r1 where one: "ensure_configured_effect t r = (Ok operation, r1)"
    and two: "(case operation of None \<Rightarrow> act_bind (resume_or_begin w t None) (complete_with t)
          | Some (i, _) \<Rightarrow> step_effect w t i) r1 = (Ok (StepCompleted t' a), r')"
    by (auto simp: step_task_def act_bind_eq_Ok)
  have g: "rt_workflow r1 = rt_workflow r" using workflow_frame_ensure [of t r] one by simp
  show ?thesis
  proof (cases operation)
    case None
    with two obtain b r2 where "resume_or_begin w t None r1 = (Ok b, r2)"
      "complete_with t b r2 = (Ok (StepCompleted t' a), r')" by (auto simp: act_bind_eq_Ok)
    with complete_with_Ok workflow_frame_resume [of w t None r1] g show ?thesis by fastforce
  next
    case (Some i_sem)
    with two obtain i where "step_effect w t i r1 = (Ok (StepCompleted t' a), r')"
      by (cases i_sem) simp
    then obtain oc :: outcome_record where "complete_with t (oc_attempt oc) r1 = (Ok (StepCompleted t' a), r')"
      by (auto simp: step_effect_def act_bind_eq_Ok
          split: recovered_effect_state.splits known_effect_outcome.splits option.splits)
    with complete_with_Ok g show ?thesis by fastforce
  qed
qed

lemma runtime_step_completed:
  assumes "runtime_step w r = (Ok (StepCompleted t a), r')"
  shows "t \<in> set (ready_tasks (rt_workflow r)) \<and> t |\<notin>| rt_cancelled r \<and>
    rt_workflow r' = with_completion t (rt_workflow r)"
  using assms
  by (auto simp: runtime_step_def find_Some_iff dest: step_task_completed split: option.splits prod.splits)

definition unfinished :: "workflow_graph \<Rightarrow> nat" where
  "unfinished g = card (fset (fmdom (wt_tasks (wg_topology g))) - fset (ef_completed (wg_facts g)))"

lemma unfinished_completion:
  assumes "t \<in> set (ready_tasks g)"
  shows "unfinished (with_completion t g) < unfinished g"
  unfolding unfinished_def with_completion_simps
proof (rule psubset_card_mono)
  show "finite (fset (fmdom (wt_tasks (wg_topology g))) - fset (ef_completed (wg_facts g)))" by simp
  have "t \<in> fset (fmdom (wt_tasks (wg_topology g)))" "t \<notin> fset (ef_completed (wg_facts g))"
    using assms by (auto simp: set_ready_tasks contains_task_def in_fmdom_iff fact_completed_def)
  then show "fset (fmdom (wt_tasks (wg_topology g))) - fset (finsert t (ef_completed (wg_facts g)))
    \<subset> fset (fmdom (wt_tasks (wg_topology g))) - fset (ef_completed (wg_facts g))" by auto
qed

function run_until_blocked :: "'v scope_world \<Rightarrow> ('v runtime, step_result list, runtime_error) act" where
  "run_until_blocked w r =
     (case runtime_step w r of
        (Ok result, r') \<Rightarrow>
          (case result of
             StepCompleted t a \<Rightarrow>
               (case run_until_blocked w r' of
                  (Ok results, r'') \<Rightarrow> (Ok (result # results), r'')
                | (Err e, r'') \<Rightarrow> (Err e, r'')
                | (Panic, r'') \<Rightarrow> (Panic, r''))
           | _ \<Rightarrow> (Ok [result], r'))
      | (Err e, r') \<Rightarrow> (Err e, r')
      | (Panic, r') \<Rightarrow> (Panic, r'))"
  by pat_completeness auto

termination run_until_blocked
proof (relation "measure (\<lambda>(w, r). unfinished (rt_workflow r))", goal_cases)
  case (2 w r x r' result t a)
  then have "runtime_step w r = (Ok (StepCompleted t a), r')" by simp
  from runtime_step_completed [OF this] unfinished_completion show ?case by auto
qed simp

declare run_until_blocked.simps [simp del]

end
