(* ===== verification/Runtime_Laws.thy ===== *)
theory Runtime_Laws
  imports Runtime_Core
begin

text \<open>
  The library behind the properties of the coordinator: every public call is a sequence of the few
  primitive transitions \<open>coord_step\<close>, which keep the invariant \<open>rt_ok\<close>: the in-memory tables mirror
  the durable run, attempts are numbered without gaps, and dispatches keep their discipline.
\<close>

subsection \<open>Identifiers that are never blank\<close>

lemma blank_bytes_mem: "blank_bytes xs \<Longrightarrow> x \<in> set xs \<Longrightarrow> x \<le> 32 \<or> 0x80 \<le> x"
proof (induction "length xs" arbitrary: xs rule: less_induct)
  case less
  obtain a ys where xs: "xs = a # ys" using less.prems(2) by (cases xs) auto
  show ?case
  proof (cases "9 \<le> a \<and> a \<le> 13 \<or> a = 32")
    case True
    with less.prems less.hyps [of ys] show ?thesis by (auto simp: xs)
  next
    case no_space: False
    with less.prems(1) obtain b zs where ys: "ys = b # zs" by (cases ys) (auto simp: xs)
    show ?thesis
    proof (cases "a = 0xC2 \<and> (b = 0x85 \<or> b = 0xA0)")
      case True
      with less.prems less.hyps [of zs] show ?thesis by (auto simp: xs ys)
    next
      case False
      with no_space less.prems(1) obtain c vs where zs: "zs = c # vs" "blank3 a b c" "blank_bytes vs"
        by (cases zs) (auto simp: xs ys split: if_splits)
      then have "0x80 \<le> a" "0x80 \<le> b" "0x80 \<le> c" by (auto simp: blank3_def)
      with less.prems(2) less.hyps [of vs] zs show ?thesis by (auto simp: xs ys)
    qed
  qed
qed

lemma not_blank:
  assumes "c \<in> set s" and "32 < (of_char c :: nat)" and "(of_char c :: nat) < 0x80"
  shows "\<not> trim_is_empty s"
  using blank_bytes_mem [of "map of_char s" "of_char c"] assms by (auto simp: trim_is_empty_def)

lemma attempt_name_visible: "\<not> trim_is_empty (attempt_name run n)"
  by (rule not_blank [of "CHR ''-''"]) (simp_all add: attempt_name_def)

lemma keys_visible:
  "\<not> trim_is_empty (''intent:'' @ s)" "\<not> trim_is_empty (''dispatch:'' @ s)"
  "\<not> trim_is_empty (''outcome:'' @ s)" "\<not> trim_is_empty (''cancel:'' @ s)"
  "\<not> trim_is_empty (''admit:'' @ s)"
  by (rule not_blank [of "CHR '':''"], simp_all)+

definition attempt_nth :: "run_id \<Rightarrow> nat \<Rightarrow> attempt_id" where
  "attempt_nth run n = AttemptId (Id (show_run run @ ''-attempt-'' @ show_nat n))"

lemma attempt_nth_inject [simp]: "attempt_nth run m = attempt_nth run n \<longleftrightarrow> m = n"
  by (simp add: attempt_nth_def show_nat_inject)

lemma attempt_id_new_name: "attempt_id_new (attempt_name run n) = Ok (attempt_nth run (unat n))"
  using attempt_name_visible [of run n]
  by (simp add: attempt_id_new_def id_new_def) (simp add: attempt_name_def attempt_nth_def show_u64_def)

subsection \<open>The invariant\<close>

definition durable_of :: "'v runtime \<Rightarrow> durable_run_state option" where
  "durable_of r = fmlookup (ms_runs (rt_store r)) (rt_run r)"

definition mirror_ok :: "'v runtime \<Rightarrow> durable_run_state \<Rightarrow> bool" where
  "mirror_ok r st \<longleftrightarrow>
     store_inv (rt_store r) \<and> durable_of r = Some st \<and> ds_revision st = rt_store_revision r \<and>
     mirrors (rt_journal r) st \<and> rt_cancelled r = fmdom (ds_cancellations st)"

text \<open>The admitted attempts are number 1 to \<open>n\<close>; the next number is \<open>n + 1\<close>, as far as a \<open>u64\<close> goes.\<close>

definition numbered :: "run_id \<Rightarrow> u64 \<Rightarrow> durable_run_state \<Rightarrow> bool" where
  "numbered run k st \<longleftrightarrow>
     map aa_attempt (ds_admission_history st) =
       map (\<lambda>n. attempt_nth run (Suc n)) [0..<length (ds_admission_history st)] \<and>
     length (ds_admission_history st) < 2 ^ 64 \<and>
     unat k = min (Suc (length (ds_admission_history st))) (2 ^ 64 - 1)"

definition held_attempts :: "'v runtime \<Rightarrow> 'v task_attempt list" where
  "held_attempts r = rt_attempts r @ (case rt_pending r of None \<Rightarrow> [] | Some (a, _) \<Rightarrow> [a])"

definition admitted :: "durable_run_state \<Rightarrow> 'v task_attempt \<Rightarrow> bool" where
  "admitted st a \<longleftrightarrow>
     (\<exists>ad. fmlookup (ds_admissions st) (ta_attempt a) = Some ad \<and>
        aa_task ad = ta_task a \<and> aa_operation ad = ta_operation a)"

definition disciplined :: "durable_run_state \<Rightarrow> bool" where
  "disciplined st \<longleftrightarrow>
     (\<forall>i it. fmlookup (ds_intents st) i = Some it \<longrightarrow> ei_semantics it = NonIdempotent \<longrightarrow>
        length (run_dispatches st i) \<le> 1)"

definition rt_ok :: "'v runtime \<Rightarrow> durable_run_state \<Rightarrow> bool" where
  "rt_ok r st \<longleftrightarrow>
     graph_inv (rt_workflow r) \<and> mirror_ok r st \<and> numbered (rt_run r) (rt_next_attempt r) st \<and>
     (\<forall>a \<in> set (held_attempts r). admitted st a) \<and> disciplined st"

lemma mirror_okD:
  assumes "mirror_ok r st"
  shows "store_inv (rt_store r)" "durable_of r = Some st" "ds_revision st = rt_store_revision r"
    "mirrors (rt_journal r) st" "rt_cancelled r = fmdom (ds_cancellations st)" "run_inv st" "facts_ok st"
    "ds_run st = rt_run r"
proof -
  show *: "store_inv (rt_store r)" "durable_of r = Some st" "ds_revision st = rt_store_revision r"
    "mirrors (rt_journal r) st" "rt_cancelled r = fmdom (ds_cancellations st)"
    using assms by (simp_all add: mirror_ok_def)
  then show "run_inv st" "ds_run st = rt_run r" by (auto simp: store_inv_def durable_of_def)
  then show "facts_ok st" by (simp add: run_inv_def)
qed

lemma mirror_ok_queries:
  assumes "mirror_ok r st"
  shows "latest_dispatch (rt_journal r) i = run_latest_dispatch st i"
    "known_outcome (rt_journal r) i = run_latest_outcome st i"
    "journal_state (rt_journal r) i = run_effect_state st i"
    "dj_intents (rt_journal r) = ds_intents st"
    "journal_operation_for_task (rt_journal r) = run_operation_for_task st"
    "t |\<in>| rt_cancelled r \<longleftrightarrow> run_is_cancelled st t"
  using mirrors_queries [OF mirror_okD(7) [OF assms] mirror_okD(4) [OF assms]] mirror_okD(4,5) [OF assms]
  by (auto simp: mirrors_def journal_operation_for_task_def run_operation_for_task_def fun_eq_iff
      run_is_cancelled_def in_fmdom_iff)

lemma rt_okD:
  assumes "rt_ok r st"
  shows "graph_inv (rt_workflow r)" "mirror_ok r st" "numbered (rt_run r) (rt_next_attempt r) st"
    "\<And>a. a \<in> set (held_attempts r) \<Longrightarrow> admitted st a" "disciplined st"
  using assms by (auto simp: rt_ok_def)

lemma rt_ok_unique: "rt_ok r st \<Longrightarrow> rt_ok r st' \<Longrightarrow> st = st'"
  by (simp add: rt_ok_def mirror_ok_def)

subsection \<open>A commit of the coordinator\<close>

text \<open>The run after \<open>m\<close> was applied to it and recorded under a key.\<close>

abbreviation stamped ::
  "string \<Rightarrow> durable_mutation \<Rightarrow> store_revision \<Rightarrow> durable_run_state \<Rightarrow> durable_run_state" where
  "stamped key m v st \<equiv>
     st\<lparr>ds_revision := v, ds_idempotency := fmupd (IdempotencyKey key) ([m], v) (ds_idempotency st)\<rparr>"

abbreviation with_durable :: "durable_run_state \<Rightarrow> 'v runtime \<Rightarrow> 'v runtime" where
  "with_durable st r \<equiv>
     r\<lparr>rt_store := (rt_store r)\<lparr>ms_runs := fmupd (rt_run r) st (ms_runs (rt_store r))\<rparr>,
       rt_store_revision := ds_revision st\<rparr>"

lemma with_durable_same: "mirror_ok r st \<Longrightarrow> with_durable st r = r"
  using mirror_okD(2,3) [of r st] by (simp add: durable_of_def fmupd_same)

lemma commit_durable_cases:
  assumes ok: "mirror_ok r st" and key: "\<not> trim_is_empty key"
  obtains (refused) e where "commit_durable key [m] r = (Err (RE_Store e), r)"
  | (again) "commit_durable key [m] r = (Ok (rt_store_revision r), r)" "on_record m st"
  | (applied) v st1 where "apply_durable m st = (Ok (), st1)"
      "fmlookup (ds_idempotency st) (IdempotencyKey key) = None"
      "commit_durable key [m] r = (Ok v, with_durable (stamped key m v st1) r)"
      "store_inv (rt_store (with_durable (stamped key m v st1) r))" "run_extends st st1" "facts_ok st1"
proof -
  let ?q = "\<lparr>cq_run = rt_run r, cq_expected = rt_store_revision r, cq_key = IdempotencyKey key,
    cq_mutations = [m]\<rparr>"
  note d = mirror_okD [OF ok]
  have st: "fmlookup (ms_runs (rt_store r)) (rt_run r) = Some st" using d(2) by (simp add: durable_of_def)
  have same: "(rt_store r)\<lparr>ms_runs := fmupd (rt_run r) st (ms_runs (rt_store r))\<rparr> = rt_store r"
    using st by (simp add: fmupd_same)
  have unfold: "commit_durable key [m] r =
      (case commit ?q (rt_store r) of
         (Ok result, s) \<Rightarrow> (Ok (ct_revision result), r\<lparr>rt_store := s, rt_store_revision := ct_revision result\<rparr>)
       | (Err e, s) \<Rightarrow> (Err (RE_Store e), r\<lparr>rt_store := s\<rparr>)
       | (Panic, s) \<Rightarrow> (Panic, r\<lparr>rt_store := s\<rparr>))"
    using key by (simp add: commit_durable_def idempotency_key_new_def)
  show thesis
  proof (cases rule: commit_state_cases [of st ?q])
    case (replayed v)
    then have "on_record m st" using d(6) by (fastforce simp: run_inv_def)
    moreover have "commit ?q (rt_store r) = (Ok \<lparr>ct_revision = ds_revision st, ct_replayed = True\<rparr>, rt_store r)"
      using replayed st same by (simp add: commit_def)
    ultimately show thesis using again d(3) by (simp add: unfold)
  next
    case (committed v st1)
    then have m: "apply_durable m st = (Ok (), st1)" by (simp add: act_bind_eq_Ok)
    have c: "commit ?q (rt_store r) = (Ok \<lparr>ct_revision = v, ct_replayed = False\<rparr>,
        (rt_store r)\<lparr>ms_runs := fmupd (rt_run r) (stamped key m v st1) (ms_runs (rt_store r))\<rparr>)"
      using committed st by (simp add: commit_def)
    show thesis
    proof (rule applied [OF m])
      show "commit_durable key [m] r = (Ok v, with_durable (stamped key m v st1) r)"
        by (simp add: unfold c)
      show "store_inv (rt_store (with_durable (stamped key m v st1) r))"
        using mem.put_ok [OF c d(1)] by simp
    qed (use committed apply_durable_keeps [OF d(7) m] in simp_all)
  next
    case (refused e)
    then have "commit ?q (rt_store r) = (Err e, rt_store r)"
      using st same by (simp add: commit_def)
    then show thesis using that(1) by (simp add: unfold)
  qed
qed

lemma admit_and_commit_cases:
  assumes ok: "mirror_ok r st" and key: "\<not> trim_is_empty key"
  obtains (refused) e where "admit_and_commit f key (mutation_of f) r = (Err e, r)"
  | (again) "admit_and_commit f key (mutation_of f) r = (Ok (), r)" "on_record (mutation_of f) st"
      "persist f (rt_journal r) = (Ok (), rt_journal r)"
  | (applied) v st1 j where "apply_durable (mutation_of f) st = (Ok (), st1)"
      "persist f (rt_journal r) = (Ok (), j)"
      "admit_and_commit f key (mutation_of f) r =
         (Ok (), (with_durable (stamped key (mutation_of f) v st1) r)\<lparr>rt_journal := j\<rparr>)"
      "store_inv (rt_store (with_durable (stamped key (mutation_of f) v st1) r))"
      "run_extends st st1" "facts_ok st1"
proof -
  note d = mirror_okD [OF ok]
  obtain x j where p: "persist f (rt_journal r) = (x, j)" by fastforce
  show thesis
  proof (cases x)
    case (Ok u)
    with p have p: "persist f (rt_journal r) = (Ok (), j)" by simp
    from ok key show thesis
    proof (cases rule: commit_durable_cases [where m = "mutation_of f"])
      case (refused e)
      then show thesis using that(1) p by (simp add: admit_and_commit_def act_bind_def)
    next
      case again
      with mirrors_persist_again [OF d(4) p] have "j = rt_journal r" by simp
      with again that(2) p show thesis by (simp add: admit_and_commit_def act_bind_def)
    next
      case (applied v st1)
      then show thesis using that(3) [OF applied(1) p _ applied(4,5,6)] p
        by (simp add: admit_and_commit_def act_bind_def)
    qed
  next
    case (Err e)
    with p that(1) show thesis by (simp add: admit_and_commit_def)
  next
    case Panic
    with p persist_no_panic [of f "rt_journal r"] show thesis by simp
  qed
qed

subsection \<open>The primitive transitions\<close>

text \<open>
  \<open>same_facts\<close>: nothing changed but configuration, streams, numbering and attempts;
  \<open>quiet\<close>: nor the numbering, and no attempt was added.
\<close>

definition same_facts :: "'v runtime \<Rightarrow> 'v runtime \<Rightarrow> bool" where
  "same_facts r r' \<longleftrightarrow>
     rt_run r' = rt_run r \<and> rt_workflow r' = rt_workflow r \<and> rt_journal r' = rt_journal r \<and>
     rt_store r' = rt_store r \<and> rt_store_revision r' = rt_store_revision r \<and>
     rt_cancelled r' = rt_cancelled r"

definition quiet :: "'v runtime \<Rightarrow> 'v runtime \<Rightarrow> bool" where
  "quiet r r' \<longleftrightarrow>
     same_facts r r' \<and> rt_next_attempt r' = rt_next_attempt r \<and>
     set (held_attempts r') \<subseteq> set (held_attempts r)"

definition numbered_start :: "'v task_attempt \<Rightarrow> 'v runtime \<Rightarrow> 'v runtime \<Rightarrow> bool" where
  "numbered_start a r r' \<longleftrightarrow>
     same_facts r r' \<and> set (held_attempts r') \<subseteq> insert a (set (held_attempts r)) \<and>
     (case u64_checked_succ (rt_next_attempt r) of
        None \<Rightarrow> rt_next_attempt r' = rt_next_attempt r
      | Some n \<Rightarrow> rt_next_attempt r' = n)"

inductive coord_step :: "'v runtime \<Rightarrow> 'v runtime \<Rightarrow> bool" where
  cs_quiet: "quiet r r' \<Longrightarrow> coord_step r r'"
| cs_mutate: "apply_batch v b (rt_workflow r) = (Ok rc, g) \<Longrightarrow> coord_step r (r\<lparr>rt_workflow := g\<rparr>)"
| cs_complete: "t \<in> set (ready_tasks (rt_workflow r)) \<Longrightarrow>
    (\<And>i. journal_operation_for_task (rt_journal r) t = Some i \<Longrightarrow>
       journal_state (rt_journal r) i = OutcomeKnown Succeeded) \<Longrightarrow>
    coord_step r (r\<lparr>rt_workflow := with_completion t (rt_workflow r)\<rparr>)"
| cs_intent: "\<not> graph_is_completed (rt_workflow r) (ei_task it) \<Longrightarrow>
    admit_and_commit (FactIntent it) (''intent:'' @ show_operation (ei_operation it)) (RecordIntent it) r =
      (Ok (), r') \<Longrightarrow>
    coord_step r r'"
| cs_dispatch: "fmlookup (dj_intents (rt_journal r)) (dr_operation d) = Some it \<Longrightarrow>
    ei_task it |\<notin>| rt_cancelled r \<Longrightarrow>
    journal_state (rt_journal r) (dr_operation d) = Prepared \<or>
    journal_state (rt_journal r) (dr_operation d) = OutcomeUnknown \<and> ei_semantics it = Idempotent \<Longrightarrow>
    admit_and_commit (FactDispatch d) (''dispatch:'' @ show_attempt (dr_attempt d)) (RecordDispatch d) r =
      (Ok (), r') \<Longrightarrow>
    coord_step r r'"
| cs_outcome: "admit_and_commit (FactOutcome oc) (''outcome:'' @ show_attempt (oc_attempt oc)) (RecordOutcome oc) r =
      (Ok (), r') \<Longrightarrow>
    coord_step r r'"
| cs_cancel: "commit_durable (''cancel:'' @ show_ident (cn_task c)) [RecordCancellation c] r = (Ok v, r') \<Longrightarrow>
    coord_step r (r'\<lparr>rt_cancelled := finsert (cn_task c) (rt_cancelled r')\<rparr>)"
| cs_admit: "ta_task a |\<notin>| rt_cancelled r \<Longrightarrow> ta_attempt a = attempt_nth (rt_run r) (unat (rt_next_attempt r)) \<Longrightarrow>
    commit_durable (''admit:'' @ show_attempt (ta_attempt a)) [AdmitAttempt (admission_of a)] r = (Ok v, r') \<Longrightarrow>
    numbered_start a r' r'' \<Longrightarrow>
    coord_step r r''"

text \<open>How the durable run may differ after some steps.\<close>

definition run_after :: "durable_run_state \<Rightarrow> durable_run_state \<Rightarrow> bool" where
  "run_after st st' \<longleftrightarrow>
     run_extends st st' \<and>
     (\<exists>xs. ds_admission_history st' = ds_admission_history st @ xs \<and>
        (\<forall>ad \<in> set xs. \<not> run_is_cancelled st (aa_task ad)))"

lemma run_after_refl: "run_after st st"
  by (simp add: run_after_def run_extends_refl)

lemma run_after_extends: "run_after st st' \<Longrightarrow> run_extends st st'"
  by (simp add: run_after_def)

lemma run_after_cancelled: "run_after st st' \<Longrightarrow> run_is_cancelled st t \<Longrightarrow> run_is_cancelled st' t"
  using cancelled_mono unfolding run_after_def run_extends_def by blast

lemma run_after_trans:
  assumes "run_after a b" and "run_after b c" and "facts_ok b"
  shows "run_after a c"
proof -
  from assms obtain xs ys where
    "ds_admission_history b = ds_admission_history a @ xs" "\<forall>ad \<in> set xs. \<not> run_is_cancelled a (aa_task ad)"
    "ds_admission_history c = ds_admission_history b @ ys" "\<forall>ad \<in> set ys. \<not> run_is_cancelled b (aa_task ad)"
    unfolding run_after_def by blast
  then have "\<exists>zs. ds_admission_history c = ds_admission_history a @ zs \<and>
      (\<forall>ad \<in> set zs. \<not> run_is_cancelled a (aa_task ad))"
    using run_after_cancelled [OF assms(1)] by (intro exI [of _ "xs @ ys"]) auto
  moreover have "run_extends a c" using assms run_extends_trans unfolding run_after_def by blast
  ultimately show ?thesis by (simp add: run_after_def)
qed

lemma run_after_same_admissions:
  "run_extends st st' \<Longrightarrow> ds_admission_history st' = ds_admission_history st \<Longrightarrow> run_after st st'"
  by (simp add: run_after_def)

lemma stamped_simps [simp]:
  "numbered run k (st\<lparr>ds_revision := v, ds_idempotency := keys\<rparr>) = numbered run k st"
  "admitted (st\<lparr>ds_revision := v, ds_idempotency := keys\<rparr>) a = admitted st a"
  "disciplined (st\<lparr>ds_revision := v, ds_idempotency := keys\<rparr>) = disciplined st"
  "run_after st0 (st\<lparr>ds_revision := v, ds_idempotency := keys\<rparr>) = run_after st0 st"
  by (simp_all add: numbered_def admitted_def disciplined_def run_after_def run_dispatches_def)

lemma numbered_cong:
  "ds_admission_history st' = ds_admission_history st \<Longrightarrow> numbered run k st' = numbered run k st"
  by (simp add: numbered_def)

lemma admitted_extends: "run_extends st st' \<Longrightarrow> admitted st a \<Longrightarrow> admitted st' a"
  by (auto simp: admitted_def run_extends_def keeps_map_def)

lemma disciplined_cong:
  "ds_intents st' = ds_intents st \<Longrightarrow> ds_dispatch_history st' = ds_dispatch_history st \<Longrightarrow>
   disciplined st' = disciplined st"
  by (simp add: disciplined_def run_dispatches_def)

lemma held_attempts_cong:
  "rt_attempts r' = rt_attempts r \<Longrightarrow> rt_pending r' = rt_pending r \<Longrightarrow> held_attempts r' = held_attempts r"
  by (simp add: held_attempts_def)

text \<open>The invariant after a commit took effect.\<close>

lemma rt_ok_applied:
  assumes ok: "rt_ok r st" and inv: "store_inv (rt_store (with_durable (stamped key m v st1) r))"
    and ext: "run_extends st st1"
    and same: "rt_run r' = rt_run r" "rt_workflow r' = rt_workflow r"
      "rt_store r' = rt_store (with_durable (stamped key m v st1) r)" "rt_store_revision r' = v"
    and mirror: "mirrors (rt_journal r') st1" "rt_cancelled r' = fmdom (ds_cancellations st1)"
    and num: "numbered (rt_run r) (rt_next_attempt r') st1"
    and held: "\<And>a. a \<in> set (held_attempts r') \<Longrightarrow> a \<in> set (held_attempts r) \<or> admitted st1 a"
    and disc: "disciplined st1"
  shows "rt_ok r' (stamped key m v st1)"
proof -
  have "mirror_ok r' (stamped key m v st1)"
    using inv same mirror by (simp add: mirror_ok_def durable_of_def)
  moreover have "admitted st1 a" if "a \<in> set (held_attempts r')" for a
    using held [OF that] rt_okD(4) [OF ok, of a] admitted_extends [OF ext] by blast
  ultimately show ?thesis using rt_okD(1) [OF ok] same num disc by (simp add: rt_ok_def)
qed

lemma rt_ok_same:
  assumes "rt_ok r st" and "same_facts r r'" and "rt_next_attempt r' = rt_next_attempt r"
    and "\<And>a. a \<in> set (held_attempts r') \<Longrightarrow> admitted st a"
  shows "rt_ok r' st"
  using assms by (auto simp: rt_ok_def same_facts_def mirror_ok_def durable_of_def)

lemma rt_ok_quiet: "rt_ok r st \<Longrightarrow> quiet r r' \<Longrightarrow> rt_ok r' st"
  by (rule rt_ok_same) (auto simp: quiet_def rt_ok_def)

subsection \<open>Every primitive transition keeps the invariant\<close>

lemma unfold_facts:
  "record_intent it st = (Ok (), st') \<Longrightarrow>
     ds_admission_history st' = ds_admission_history st \<and> ds_dispatch_history st' = ds_dispatch_history st \<and>
     ds_cancellations st' = ds_cancellations st"
  "record_cancellation c st = (Ok (), st') \<Longrightarrow>
     ds_admission_history st' = ds_admission_history st \<and> ds_dispatch_history st' = ds_dispatch_history st \<and>
     ds_intents st' = ds_intents st \<and> ds_cancellations st' = fmupd (cn_task c) c (ds_cancellations st)"
  "record_dispatch d st = (Ok (), st') \<Longrightarrow>
     ds_admission_history st' = ds_admission_history st \<and> ds_cancellations st' = ds_cancellations st \<and>
     ds_intents st' = ds_intents st \<and> ds_dispatch_history st' = ds_dispatch_history st @ [d]"
  "record_outcome r st = (Ok (), st') \<Longrightarrow>
     ds_admission_history st' = ds_admission_history st \<and> ds_cancellations st' = ds_cancellations st \<and>
     ds_intents st' = ds_intents st \<and> ds_dispatch_history st' = ds_dispatch_history st"
  by (auto elim!: record_intent_Ok record_cancellation_Ok record_dispatch_Ok record_outcome_Ok
      simp: fmupd_same)

lemma disciplined_intent:
  assumes ok: "facts_ok st" "disciplined st" and a: "record_intent it st = (Ok (), st')"
  shows "disciplined st'"
  using a
proof (cases rule: record_intent_Ok)
  case again
  with ok show ?thesis by simp
next
  case new
  have "run_dispatches st (ei_operation it) = []"
    using ok(1) new(1) unfolding facts_ok_def run_dispatches_ok_def run_dispatches_def
    by (fastforce simp: filter_empty_conv)
  with ok(2) show ?thesis by (auto simp: new(3) disciplined_def run_dispatches_def)
qed

lemma disciplined_dispatch:
  assumes ok: "disciplined st" and a: "record_dispatch d st = (Ok (), st')"
    and it: "fmlookup (ds_intents st) (dr_operation d) = Some it"
    and guard: "run_dispatches st (dr_operation d) = [] \<or> ei_semantics it = Idempotent"
  shows "disciplined st'"
  using ok it guard unfold_facts(3) [OF a] by (auto simp: disciplined_def run_dispatches_def)

lemma fact_frame:
  "apply_durable (mutation_of f) st = (Ok (), st') \<Longrightarrow>
     ds_admission_history st' = ds_admission_history st \<and> ds_cancellations st' = ds_cancellations st"
  by (cases f) (auto dest: unfold_facts)

text \<open>A fact that the journal and the store admit; what is left to the three kinds is the discipline.\<close>

lemma admit_and_commit_ok:
  assumes ok: "rt_ok r st" and key: "\<not> trim_is_empty key"
    and a: "admit_and_commit f key (mutation_of f) r = (Ok (), r')"
    and disc: "\<And>st1. apply_durable (mutation_of f) st = (Ok (), st1) \<Longrightarrow> disciplined st1"
  shows "\<exists>st'. rt_ok r' st' \<and> run_after st st' \<and> rt_run r' = rt_run r"
proof -
  note d = rt_okD [OF ok]
  from d(2) key show ?thesis
  proof (cases rule: admit_and_commit_cases [where f = f])
    case (refused e)
    with a show ?thesis by simp
  next
    case again
    with a ok show ?thesis by (auto intro: run_after_refl)
  next
    case (applied v st1 j)
    let ?st = "stamped key (mutation_of f) v st1"
    note u = fact_frame [OF applied(1)]
    have r': "r' = (with_durable ?st r)\<lparr>rt_journal := j\<rparr>" using applied(3) a by simp
    have "rt_ok r' ?st"
    proof (rule rt_ok_applied [OF ok applied(4,5)])
      show "mirrors (rt_journal r') st1"
        using mirrors_persist [OF mirror_okD(4) [OF d(2)] applied(2,1)] by (simp add: r')
      show "rt_cancelled r' = fmdom (ds_cancellations st1)"
        using mirror_okD(5) [OF d(2)] u by (simp add: r')
      show "numbered (rt_run r) (rt_next_attempt r') st1"
        using d(3) u numbered_cong [of st1 st] by (simp add: r')
      show "a \<in> set (held_attempts r) \<or> admitted st1 a" if "a \<in> set (held_attempts r')" for a
        using that by (simp add: r' held_attempts_def)
    qed (simp_all add: r' disc [OF applied(1)])
    then show ?thesis
      using run_after_same_admissions [OF applied(5)] u by (intro exI [of _ ?st]) (simp add: r')
  qed
qed

lemma coord_dispatch_ok:
  assumes ok: "rt_ok r st"
    and it: "fmlookup (dj_intents (rt_journal r)) (dr_operation d) = Some it"
    and guard: "journal_state (rt_journal r) (dr_operation d) = Prepared \<or> ei_semantics it = Idempotent"
    and a: "admit_and_commit (FactDispatch d) (''dispatch:'' @ s) (RecordDispatch d) r = (Ok (), r')"
  shows "\<exists>st'. rt_ok r' st' \<and> run_after st st' \<and> rt_run r' = rt_run r"
proof (rule admit_and_commit_ok [OF ok keys_visible(2), of "FactDispatch d"])
  note q = mirror_ok_queries [OF rt_okD(2) [OF ok]]
  fix st1
  assume "apply_durable (mutation_of (FactDispatch d)) st = (Ok (), st1)"
  then have "record_dispatch d st = (Ok (), st1)" by simp
  moreover have "run_dispatches st (dr_operation d) = [] \<or> ei_semantics it = Idempotent"
    using guard by (auto simp: q rv.state_Prepared run_latest_dispatch_def)
  ultimately show "disciplined st1"
    using disciplined_dispatch [OF rt_okD(5) [OF ok]] it by (simp add: q)
qed (use a in simp)

lemma coord_intent_ok:
  assumes ok: "rt_ok r st"
    and a: "admit_and_commit (FactIntent it) (''intent:'' @ s) (RecordIntent it) r = (Ok (), r')"
  shows "\<exists>st'. rt_ok r' st' \<and> run_after st st' \<and> rt_run r' = rt_run r"
  by (rule admit_and_commit_ok [OF ok keys_visible(1), of "FactIntent it"])
    (use a disciplined_intent [OF mirror_okD(7) [OF rt_okD(2) [OF ok]] rt_okD(5) [OF ok]] in auto)

lemma coord_outcome_ok:
  assumes ok: "rt_ok r st"
    and a: "admit_and_commit (FactOutcome oc) (''outcome:'' @ s) (RecordOutcome oc) r = (Ok (), r')"
  shows "\<exists>st'. rt_ok r' st' \<and> run_after st st' \<and> rt_run r' = rt_run r"
  by (rule admit_and_commit_ok [OF ok keys_visible(3), of "FactOutcome oc"])
    (use a disciplined_cong [of _ st] rt_okD(5) [OF ok] in \<open>auto dest: unfold_facts(4)\<close>)

lemma coord_cancel_ok:
  assumes ok: "rt_ok r st" and key: "\<not> trim_is_empty key"
    and a: "commit_durable key [RecordCancellation c] r = (Ok u, r1)"
  shows "\<exists>st'. rt_ok (r1\<lparr>rt_cancelled := finsert (cn_task c) (rt_cancelled r1)\<rparr>) st' \<and> run_after st st' \<and>
    rt_run r1 = rt_run r"
proof -
  note d = rt_okD [OF ok]
  from d(2) key show ?thesis
  proof (cases rule: commit_durable_cases [where m = "RecordCancellation c"])
    case (refused e)
    with a show ?thesis by simp
  next
    case again
    then have "cn_task c |\<in>| fmdom (ds_cancellations st)" by (auto simp: in_fmdom_iff)
    then have "finsert (cn_task c) (rt_cancelled r) = rt_cancelled r"
      using mirror_okD(5) [OF d(2)] by (simp add: finsert_absorb)
    moreover have "r1 = r" using a again by simp
    ultimately show ?thesis using ok by (auto intro: run_after_refl)
  next
    case (applied v st1)
    let ?st = "stamped key (RecordCancellation c) v st1"
    from applied(1) have rc: "record_cancellation c st = (Ok (), st1)" by simp
    note f = unfold_facts(2) [OF rc]
    have r1: "r1 = with_durable ?st r" using applied(3) a by auto
    have "rt_ok (r1\<lparr>rt_cancelled := finsert (cn_task c) (rt_cancelled r1)\<rparr>) ?st"
    proof (rule rt_ok_applied [OF ok applied(4,5)])
      show "mirrors (rt_journal (r1\<lparr>rt_cancelled := finsert (cn_task c) (rt_cancelled r1)\<rparr>)) st1"
        using mirrors_cancellation [OF mirror_okD(4) [OF d(2)] rc] by (simp add: r1)
      show "rt_cancelled (r1\<lparr>rt_cancelled := finsert (cn_task c) (rt_cancelled r1)\<rparr>) =
          fmdom (ds_cancellations st1)"
        using mirror_okD(5) [OF d(2)] f by (simp add: r1)
      show "numbered (rt_run r) (rt_next_attempt (r1\<lparr>rt_cancelled := finsert (cn_task c) (rt_cancelled r1)\<rparr>)) st1"
        using d(3) f numbered_cong [of st1 st] by (simp add: r1)
      show "disciplined st1" using d(5) f disciplined_cong [of st1 st] by simp
      show "a \<in> set (held_attempts r) \<or> admitted st1 a"
        if "a \<in> set (held_attempts (r1\<lparr>rt_cancelled := finsert (cn_task c) (rt_cancelled r1)\<rparr>))" for a
        using that by (simp add: r1 held_attempts_def)
    qed (simp_all add: r1)
    then show ?thesis
      using run_after_same_admissions [OF applied(5)] f by (intro exI [of _ ?st]) (simp add: r1)
  qed
qed


lemma numbered_range:
  assumes "numbered run k st"
  shows "aa_attempt ` set (ds_admission_history st) = attempt_nth run ` {1..length (ds_admission_history st)}"
proof -
  have "aa_attempt ` set (ds_admission_history st) = set (map aa_attempt (ds_admission_history st))" by simp
  also have "\<dots> = (\<lambda>n. attempt_nth run (Suc n)) ` {0..<length (ds_admission_history st)}"
    using assms by (simp add: numbered_def del: set_map) simp
  also have "\<dots> = attempt_nth run ` {1..length (ds_admission_history st)}"
    by (simp add: image_image [symmetric] atLeastLessThanSuc_atLeastAtMost [symmetric])
  finally show ?thesis .
qed

lemma admitted_attempts:
  assumes "facts_ok st"
  shows "fmlookup (ds_admissions st) a \<noteq> None \<longleftrightarrow> a \<in> aa_attempt ` set (ds_admission_history st)"
proof -
  have "fmlookup (ds_admissions st) a = Some ad \<longleftrightarrow> ad \<in> set (ds_admission_history st) \<and> aa_attempt ad = a" for ad
    using assms by (simp add: facts_ok_def admissions_ok_def ledger_def)
  then show ?thesis by (auto simp: image_iff)
qed

lemma coord_admit_ok:
  assumes ok: "rt_ok r st" and key: "\<not> trim_is_empty key"
    and free: "ta_task a |\<notin>| rt_cancelled r"
    and name: "ta_attempt a = attempt_nth (rt_run r) (unat (rt_next_attempt r))"
    and a: "commit_durable key [AdmitAttempt (admission_of a)] r = (Ok u, r1)"
    and start: "numbered_start a r1 r2"
  shows "\<exists>st'. rt_ok r2 st' \<and> run_after st st' \<and> rt_run r2 = rt_run r"
proof -
  note d = rt_okD [OF ok]
  let ?n = "length (ds_admission_history st)" and ?k = "unat (rt_next_attempt r)"
  have num: "?k = min (Suc ?n) (2 ^ 64 - 1)" "?n < 2 ^ 64" using d(3) by (simp_all add: numbered_def)
  have ad: "aa_attempt (admission_of a) = ta_attempt a" "aa_task (admission_of a) = ta_task a"
    "aa_operation (admission_of a) = ta_operation a" by (simp_all add: admission_of_def)
  have known: "fmlookup (ds_admissions st) (ta_attempt a) \<noteq> None \<longleftrightarrow> ?k \<le> ?n"
  proof -
    have "fmlookup (ds_admissions st) (ta_attempt a) \<noteq> None \<longleftrightarrow>
        ta_attempt a \<in> aa_attempt ` set (ds_admission_history st)"
      by (rule admitted_attempts [OF mirror_okD(7) [OF d(2)]])
    also have "\<dots> \<longleftrightarrow> ?k \<in> {1..?n}"
      unfolding numbered_range [OF d(3)] name by auto
    finally show ?thesis using num by auto
  qed
  from d(2) key show ?thesis
  proof (cases rule: commit_durable_cases [where m = "AdmitAttempt (admission_of a)"])
    case (refused e)
    with a show ?thesis by simp
  next
    case again
    then have r1: "r1 = r" and rec: "fmlookup (ds_admissions st) (ta_attempt a) = Some (admission_of a)"
      using a ad by auto
    then have "?k \<le> ?n" using known by simp
    then have "?k = 2 ^ 64 - 1" using num by linarith
    then have "u64_checked_succ (rt_next_attempt r) = None" by (simp add: u64_checked_succ_def)
    with start r1 have "same_facts r r2" "rt_next_attempt r2 = rt_next_attempt r"
      "set (held_attempts r2) \<subseteq> insert a (set (held_attempts r))" by (simp_all add: numbered_start_def)
    moreover have "admitted st a" using rec ad by (simp add: admitted_def)
    ultimately have "rt_ok r2 st" using rt_ok_same [OF ok, of r2] d(4) by blast
    then show ?thesis using \<open>same_facts r r2\<close> by (auto simp: same_facts_def intro: run_after_refl)
  next
    case (applied v st1)
    let ?st = "stamped key (AdmitAttempt (admission_of a)) v st1"
    from applied(1) have "admit_attempt (admission_of a) st = (Ok (), st1)" by simp
    from admit_attempt_Ok [OF this] ad have new: "fmlookup (ds_admissions st) (ta_attempt a) = None"
      and st1: "st1 = st\<lparr>ds_admissions := fmupd (ta_attempt a) (admission_of a) (ds_admissions st),
        ds_admission_history := ds_admission_history st @ [admission_of a]\<rparr>" by auto
    have "\<not> ?k \<le> ?n" using known new by simp
    then have k: "?k = Suc ?n" using num by linarith
    have r1: "r1 = with_durable ?st r" using applied(3) a by auto
    have s: "same_facts r1 r2" "set (held_attempts r2) \<subseteq> insert a (set (held_attempts r))"
      "unat (rt_next_attempt r2) = min (Suc (Suc ?n)) (2 ^ 64 - 1)"
    proof -
      show "same_facts r1 r2" using start by (simp add: numbered_start_def)
      show "set (held_attempts r2) \<subseteq> insert a (set (held_attempts r))"
        using start by (simp add: numbered_start_def r1 held_attempts_def)
      have "rt_next_attempt r1 = rt_next_attempt r" by (simp add: r1)
      with start have "case u64_checked_succ (rt_next_attempt r) of
          None \<Rightarrow> rt_next_attempt r2 = rt_next_attempt r | Some n \<Rightarrow> rt_next_attempt r2 = n"
        by (simp add: numbered_start_def cong: option.case_cong)
      then show "unat (rt_next_attempt r2) = min (Suc (Suc ?n)) (2 ^ 64 - 1)"
        using k unat_u64_less [of "rt_next_attempt r"]
        by (cases "u64_checked_succ (rt_next_attempt r)")
          (auto simp: u64_checked_succ_None unat_max_u64 u64_checked_succ_Some)
    qed
    have "rt_ok r2 ?st"
    proof (rule rt_ok_applied [OF ok applied(4,5)])
      show "mirrors (rt_journal r2) st1"
        using s(1) mirror_okD(4) [OF d(2)] by (simp add: same_facts_def r1 st1 mirrors_def run_dispatches_def)
      show "rt_cancelled r2 = fmdom (ds_cancellations st1)"
        using s(1) mirror_okD(5) [OF d(2)] by (simp add: same_facts_def r1 st1)
      show "numbered (rt_run r) (rt_next_attempt r2) st1"
      proof -
        have "map aa_attempt (ds_admission_history st) = map (\<lambda>n. attempt_nth (rt_run r) (Suc n)) [0..<?n]"
          using d(3) by (simp add: numbered_def)
        moreover have "Suc ?n < 2 ^ 64" using k unat_u64_less [of "rt_next_attempt r"] by simp
        ultimately show ?thesis unfolding numbered_def using s(3) k name ad by (simp add: st1)
      qed
      show "disciplined st1" using d(5) by (simp add: st1 disciplined_def run_dispatches_def)
      have "admitted st1 a" using ad by (simp add: admitted_def st1)
      then show "b \<in> set (held_attempts r) \<or> admitted st1 b" if "b \<in> set (held_attempts r2)" for b
        using that s(2) by auto
    qed (use s(1) in \<open>simp_all add: same_facts_def r1\<close>)
    moreover have "run_after st ?st"
      using applied(5) free mirror_ok_queries(6) [OF d(2)] ad by (simp add: run_after_def st1)
    ultimately show ?thesis using s(1) by (auto simp: same_facts_def r1)
  qed
qed

theorem coord_step_ok:
  assumes "coord_step r r'" and "rt_ok r st"
  shows "\<exists>st'. rt_ok r' st' \<and> run_after st st' \<and> rt_run r' = rt_run r"
  using assms
proof (cases rule: coord_step.cases)
  case (cs_quiet)
  with assms(2) rt_ok_quiet show ?thesis by (auto simp: quiet_def same_facts_def intro: run_after_refl)
next
  case (cs_mutate v b rc g)
  have "graph_inv g" by (rule graph_inv_batch [OF rt_okD(1) [OF assms(2)] cs_mutate(2)])
  with cs_mutate assms(2) have "rt_ok r' st"
    by (simp add: rt_ok_def mirror_ok_def durable_of_def held_attempts_def)
  with cs_mutate show ?thesis by (auto intro: run_after_refl)
next
  case (cs_complete t)
  have "graph_inv (with_completion t (rt_workflow r))"
    using graph_inv_complete [OF rt_okD(1) [OF assms(2)]] cs_complete(2) by (auto simp: complete_task_Ok)
  with cs_complete assms(2) have "rt_ok r' st"
    by (simp add: rt_ok_def mirror_ok_def durable_of_def held_attempts_def)
  with cs_complete show ?thesis by (auto intro: run_after_refl)
next
  case (cs_intent it)
  show ?thesis by (rule coord_intent_ok [OF assms(2) cs_intent(2)])
next
  case (cs_dispatch d it)
  show ?thesis by (rule coord_dispatch_ok [OF assms(2) cs_dispatch(1) _ cs_dispatch(4)]) (use cs_dispatch in auto)
next
  case (cs_outcome oc)
  show ?thesis by (rule coord_outcome_ok [OF assms(2) cs_outcome])
next
  case (cs_cancel c v r1)
  with coord_cancel_ok [OF assms(2) keys_visible(4) cs_cancel(2)] show ?thesis by auto
next
  case (cs_admit a v r1)
  show ?thesis by (rule coord_admit_ok [OF assms(2) keys_visible(5) cs_admit])
qed

lemma coord_steps_ok:
  assumes "coord_step\<^sup>*\<^sup>* r r'" and "rt_ok r st"
  shows "\<exists>st'. rt_ok r' st' \<and> run_after st st' \<and> rt_run r' = rt_run r"
  using assms(1)
proof (induction rule: rtranclp_induct)
  case base
  with assms(2) show ?case by (auto intro: run_after_refl)
next
  case (step r1 r2)
  then obtain st1 where st1: "rt_ok r1 st1" "run_after st st1" "rt_run r1 = rt_run r" by blast
  from coord_step_ok [OF step(2) st1(1)] obtain st2 where "rt_ok r2 st2" "run_after st1 st2" "rt_run r2 = rt_run r1"
    by blast
  with st1 mirror_okD(7) [OF rt_okD(2) [OF st1(1)]] show ?case by (auto intro: run_after_trans)
qed

end
