(* ===== verification/Runtime_Calls.thy ===== *)
theory Runtime_Calls
  imports Runtime_Laws
begin

text \<open>
  Every public call of the coordinator is a sequence of primitive transitions and does not panic; the
  runtimes a process can have, over any sequence of calls and restarts; and the invariant on all of
  them.
\<close>

subsection \<open>Sequences of transitions\<close>

text \<open>From \<open>r\<close> the action does not panic, goes by primitive transitions, and a result satisfies \<open>P\<close>.\<close>

definition runs ::
  "('v runtime, 'a, runtime_error) act \<Rightarrow> 'v runtime \<Rightarrow> ('a \<Rightarrow> 'v runtime \<Rightarrow> bool) \<Rightarrow> bool" where
  "runs m r P \<longleftrightarrow>
     (case m r of (x, r') \<Rightarrow> x \<noteq> Panic \<and> coord_step\<^sup>*\<^sup>* r r' \<and> (\<forall>a. x = Ok a \<longrightarrow> P a r'))"

lemma runsI:
  assumes "\<And>x r'. m r = (x, r') \<Longrightarrow> x \<noteq> Panic \<and> coord_step\<^sup>*\<^sup>* r r' \<and> (\<forall>a. x = Ok a \<longrightarrow> P a r')"
  shows "runs m r P"
  using assms by (auto simp: runs_def split: prod.split)

lemma runsD:
  assumes "runs m r P" and "m r = (x, r')"
  shows "x \<noteq> Panic" "coord_step\<^sup>*\<^sup>* r r'" "\<And>a. x = Ok a \<Longrightarrow> P a r'"
  using assms by (auto simp: runs_def)

lemma runs_bind:
  assumes "runs m r P" and "\<And>a r'. P a r' \<Longrightarrow> coord_step\<^sup>*\<^sup>* r r' \<Longrightarrow> runs (f a) r' Q"
  shows "runs (act_bind m f) r Q"
proof -
  obtain x r1 where x: "m r = (x, r1)" by fastforce
  note d = runsD [OF assms(1) x]
  show ?thesis
  proof (cases x)
    case (Ok a)
    from assms(2) [OF d(3) [OF Ok] d(2)] d(2) x Ok show ?thesis
      by (auto simp: runs_def act_bind_def split: prod.split)
  qed (use d x in \<open>auto simp: runs_def act_bind_def\<close>)
qed

lemma runs_mono: "runs m r P \<Longrightarrow> (\<And>a r'. P a r' \<Longrightarrow> Q a r') \<Longrightarrow> runs m r Q"
  by (auto simp: runs_def)

lemma runs_return: "P a r \<Longrightarrow> runs (\<lambda>r. (Ok a, r)) r P"
  by (simp add: runs_def)

lemma runs_err: "m r = (Err e, r) \<Longrightarrow> runs m r P"
  by (simp add: runs_def)

lemma quiet_refl: "quiet r r"
  by (simp add: quiet_def same_facts_def)

lemma quiet_trans: "quiet r r' \<Longrightarrow> quiet r' r'' \<Longrightarrow> quiet r r''"
  by (auto simp: quiet_def same_facts_def)

lemma runs_quiet:
  assumes "\<And>x r'. m r = (x, r') \<Longrightarrow> x \<noteq> Panic \<and> quiet r r'"
  shows "runs m r (\<lambda>_ r'. quiet r r')"
  by (rule runsI) (use assms coord_step.cs_quiet in blast)

subsection \<open>Observations\<close>

lemma sequencer_emit_no_panic: "fst (sequencer_emit p sq) \<noteq> Panic"
  by (simp add: sequencer_emit_def Let_def)

lemma emit_execution_quiet:
  assumes "emit_execution ev r = (x, r')"
  shows "x \<noteq> Panic \<and> quiet r r' \<and> rt_attempts r' = rt_attempts r \<and> rt_pending r' = rt_pending r \<and>
    rt_execution r' = rt_execution r"
  using assms sequencer_emit_no_panic [of ev "rt_execution_sequencer r"]
  by (auto simp: emit_execution_def quiet_def same_facts_def held_attempts_def split: prod.splits)

lemma enqueue_execution_quiet:
  assumes "enqueue_execution item r = (x, r')"
  shows "x \<noteq> Panic \<and> quiet r r' \<and> rt_attempts r' = rt_attempts r \<and> rt_pending r' = rt_pending r \<and>
    (x = Ok () \<or> x = Err (RE_ExecutionBackpressure item) \<and> r' = r)"
  using assms
  by (auto simp: enqueue_execution_def lossless_try_push_def quiet_def same_facts_def held_attempts_def
      split: if_splits)

lemma emit_completed_quiet:
  assumes "emit_completed t a r = (x, r')"
  shows "x \<noteq> Panic \<and> quiet r r'"
proof -
  obtain y r1 where y: "emit_execution (TaskCompleted (rt_run r) t a) r = (y, r1)" by fastforce
  note e = emit_execution_quiet [OF y]
  show ?thesis
  proof (cases y)
    case (Ok item)
    with assms y have "enqueue_execution item r1 = (x, r')" by (simp add: emit_completed_def act_bind_def)
    from enqueue_execution_quiet [OF this] e show ?thesis by (auto intro: quiet_trans)
  qed (use assms y e in \<open>auto simp: emit_completed_def act_bind_def\<close>)
qed

lemma start_attempt_numbered:
  assumes "start_attempt a r = (x, r')"
  shows "x \<noteq> Panic \<and> numbered_start a r r'"
proof (cases "u64_checked_succ (rt_next_attempt r)")
  case None
  with assms show ?thesis by (auto simp: start_attempt_def numbered_start_def same_facts_def)
next
  case (Some n)
  let ?r = "r\<lparr>rt_next_attempt := n\<rparr>"
  obtain y r1 where y: "emit_execution (TaskStarted (rt_run r) (ta_task a) (ta_attempt a)) ?r = (y, r1)"
    by fastforce
  note e = emit_execution_quiet [OF y]
  have lift: "quiet ?r r2 \<Longrightarrow> numbered_start a r r2" for r2
    using Some by (auto simp: quiet_def numbered_start_def same_facts_def held_attempts_def)
  show ?thesis
  proof (cases y)
    case (Ok item)
    obtain z r2 where z: "enqueue_execution item r1 = (z, r2)" by fastforce
    note q = enqueue_execution_quiet [OF z]
    have r2: "same_facts r r2" "rt_next_attempt r2 = n" "rt_attempts r2 = rt_attempts r" "rt_pending r2 = rt_pending r"
      using e q by (auto simp: quiet_def same_facts_def)
    have "start_attempt a r = announce_start a item r1"
      using Some y Ok by (simp add: start_attempt_def act_bind_def)
    then have x: "(x, r') = announce_start a item r1" using assms by simp
    from q consider "z = Ok ()" | "z = Err (RE_ExecutionBackpressure item)" by blast
    then have "x \<noteq> Panic \<and> same_facts r r' \<and> rt_next_attempt r' = n \<and>
        set (held_attempts r') \<subseteq> insert a (set (held_attempts r))"
      by cases (use x z r2 in \<open>auto simp: announce_start_def same_facts_def held_attempts_def split: option.splits\<close>)
    with Some show ?thesis by (simp add: numbered_start_def)
  qed (use assms y e lift Some in \<open>auto simp: start_attempt_def act_bind_def\<close>)
qed

subsection \<open>Attempts\<close>

lemma capture_each_no_panic: "capture_each w c t xs \<noteq> Panic"
  by (induction w c t xs rule: capture_each.induct) (auto simp: res_bind_eq_Panic split: option.split)

lemma capture_no_panic: "capture_capability_pins w r t expected \<noteq> Panic"
  by (auto simp: capture_capability_pins_def res_bind_eq_Panic capture_each_no_panic Let_def split: option.splits)

text \<open>What an attempt leaves as it was.\<close>

definition same_plan :: "'v runtime \<Rightarrow> 'v runtime \<Rightarrow> bool" where
  "same_plan r r' \<longleftrightarrow>
     rt_run r' = rt_run r \<and> rt_workflow r' = rt_workflow r \<and> rt_journal r' = rt_journal r \<and>
     rt_cancelled r' = rt_cancelled r"

lemma runs_begin_attempt:
  assumes ok: "rt_ok r st" and free: "t |\<notin>| rt_cancelled r"
  shows "runs (begin_attempt w t op) r (\<lambda>_ r'. same_plan r r')"
proof -
  show ?thesis
  proof (cases "capture_capability_pins w r t None")
    case (Ok pins)
    define a where "a = \<lparr>ta_run = rt_run r, ta_task = t, ta_attempt = attempt_nth (rt_run r) (unat (rt_next_attempt r)),
      ta_operation = op, ta_pins = pins\<rparr>"
    let ?key = "''admit:'' @ show_attempt (ta_attempt a)"
    have unfold: "begin_attempt w t op r =
        act_bind (commit_durable ?key [AdmitAttempt (admission_of a)]) (\<lambda>_. start_attempt a) r"
      using Ok by (simp add: begin_attempt_def attempt_id_new_name a_def Let_def)
    from rt_okD(2) [OF ok] keys_visible(5) show ?thesis
    proof (cases rule: commit_durable_cases [where m = "AdmitAttempt (admission_of a)" and key = ?key])
      case (refused e)
      then show ?thesis by (intro runs_err) (simp add: unfold act_bind_def)
    next
      case again
      obtain x r' where x: "start_attempt a r = (x, r')" by fastforce
      note s = start_attempt_numbered [OF x]
      have "coord_step r r'"
        by (rule cs_admit [of a r _ r]) (use again s free in \<open>auto simp: a_def\<close>)
      with again x s show ?thesis
        by (auto simp: runs_def unfold act_bind_def same_plan_def numbered_start_def same_facts_def)
    next
      case (applied v st1)
      let ?r = "with_durable (stamped ?key (AdmitAttempt (admission_of a)) v st1) r"
      obtain x r' where x: "start_attempt a ?r = (x, r')" by fastforce
      note s = start_attempt_numbered [OF x]
      have "coord_step r r'"
        by (rule cs_admit [OF _ _ applied(3)]) (use s free in \<open>auto simp: a_def\<close>)
      moreover have "begin_attempt w t op r = (x, r')" using applied(3) x by (simp add: unfold act_bind_def)
      moreover have "same_plan r r'"
        using s by (simp add: same_plan_def numbered_start_def same_facts_def)
      ultimately show ?thesis using s by (auto simp: runs_def)
    qed
  next
    case (Err e)
    then show ?thesis by (intro runs_err) (simp add: begin_attempt_def)
  next
    case Panic
    with capture_no_panic show ?thesis by blast
  qed
qed

lemma runs_resume_or_begin:
  assumes "rt_ok r st" and "t |\<notin>| rt_cancelled r"
  shows "runs (resume_or_begin w t op) r (\<lambda>_ r'. same_plan r r')"
proof (cases "attempt_for_task r t op")
  case None
  with runs_begin_attempt [OF assms, of w op] show ?thesis by (simp add: runs_def resume_or_begin_def)
next
  case (Some a)
  then show ?thesis by (simp add: runs_def resume_or_begin_def same_plan_def)
qed

subsection \<open>Facts\<close>

lemma same_plan_refl: "same_plan r r"
  by (simp add: same_plan_def)

text \<open>What a fact admitted through the coordinator leaves as it was, and the journal it leaves.\<close>

definition fact_admitted :: "journal_fact \<Rightarrow> 'v runtime \<Rightarrow> 'v runtime \<Rightarrow> bool" where
  "fact_admitted f r r' \<longleftrightarrow>
     rt_run r' = rt_run r \<and> rt_workflow r' = rt_workflow r \<and> rt_cancelled r' = rt_cancelled r \<and>
     rt_attempts r' = rt_attempts r \<and> rt_pending r' = rt_pending r \<and>
     persist f (rt_journal r) = (Ok (), rt_journal r')"

lemma runs_admit_and_commit:
  assumes ok: "rt_ok r st" and key: "\<not> trim_is_empty key"
    and step: "\<And>r'. admit_and_commit f key (mutation_of f) r = (Ok (), r') \<Longrightarrow> coord_step r r'"
  shows "runs (admit_and_commit f key (mutation_of f)) r (\<lambda>_. fact_admitted f r)"
proof -
  from rt_okD(2) [OF ok] key show ?thesis
  proof (cases rule: admit_and_commit_cases [where f = f])
    case (refused e)
    then show ?thesis by (rule runs_err)
  next
    case again
    then show ?thesis by (simp add: runs_def fact_admitted_def)
  next
    case (applied v st1 j)
    from step [OF applied(3)] applied(2,3) show ?thesis
      by (auto simp: runs_def fact_admitted_def)
  qed
qed

lemma runs_record_effect_intent:
  assumes ok: "rt_ok r st"
  shows "runs (record_effect_intent t i sem) r
    (\<lambda>_ r'. rt_workflow r' = rt_workflow r \<and> rt_cancelled r' = rt_cancelled r \<and>
       journal_operation_for_task (rt_journal r') t = Some i)"
proof -
  let ?it = "\<lparr>ei_task = t, ei_operation = i, ei_semantics = sem\<rparr>"
  show ?thesis
  proof (cases "graph_task (rt_workflow r) t = None \<or> graph_is_completed (rt_workflow r) t")
    case True
    then obtain e where "record_effect_intent t i sem r = (Err e, r)"
      by (cases "graph_task (rt_workflow r) t = None") (auto simp: record_effect_intent_def)
    then show ?thesis by (rule runs_err)
  next
    case False
    then have unfold: "record_effect_intent t i sem r =
        admit_and_commit (FactIntent ?it) (''intent:'' @ show_operation i) (mutation_of (FactIntent ?it)) r"
      by (auto simp: record_effect_intent_def Let_def)
    have "runs (admit_and_commit (FactIntent ?it) (''intent:'' @ show_operation i) (mutation_of (FactIntent ?it))) r
        (\<lambda>_. fact_admitted (FactIntent ?it) r)"
      by (rule runs_admit_and_commit [OF ok keys_visible(1)])
        (rule coord_step.cs_intent [of r ?it], use False in simp_all)
    moreover have "journal_operation_for_task (rt_journal r') t = Some i"
      if "fact_admitted (FactIntent ?it) r r'" for r'
    proof -
      from that have "persist_intent ?it (rt_journal r) = (Ok (), rt_journal r')" by (simp add: fact_admitted_def)
      then have "rt_journal r' = (rt_journal r)\<lparr>dj_task_operations := fmupd t i (dj_task_operations (rt_journal r)),
          dj_intents := fmupd i ?it (dj_intents (rt_journal r))\<rparr>"
        by (cases rule: persist_intent_cases [of "rt_journal r" ?it]) auto
      then show ?thesis by (simp add: journal_operation_for_task_def)
    qed
    ultimately show ?thesis by (auto simp: runs_def unfold fact_admitted_def split: prod.splits)
  qed
qed

lemma runs_record_effect_outcome:
  assumes ok: "rt_ok r st"
  shows "runs (record_effect_outcome i a out) r (\<lambda>_ _. True)"
proof -
  let ?oc = "\<lparr>oc_operation = i, oc_attempt = a, oc_outcome = out\<rparr>"
  have "runs (admit_and_commit (FactOutcome ?oc) (''outcome:'' @ show_attempt a) (mutation_of (FactOutcome ?oc))) r
      (\<lambda>_. fact_admitted (FactOutcome ?oc) r)"
    by (rule runs_admit_and_commit [OF ok keys_visible(3)])
      (rule coord_step.cs_outcome [of ?oc], simp)
  then show ?thesis by (simp add: runs_def record_effect_outcome_def Let_def split: prod.splits)
qed

lemma rt_ok_operation:
  assumes "rt_ok r st" and "journal_operation_for_task (rt_journal r) t = Some i"
  shows "\<exists>it. journal_intent (rt_journal r) i = Ok it \<and> fmlookup (dj_intents (rt_journal r)) i = Some it \<and>
    ei_task it = t \<and> journal_state (rt_journal r) i \<noteq> NotPrepared"
proof -
  note d = mirror_okD [OF rt_okD(2) [OF assms(1)]]
  have "\<exists>it. fmlookup (dj_intents (rt_journal r)) i = Some it \<and> ei_task it = t"
    using d(4,7) assms(2) unfolding mirrors_def facts_ok_def run_intents_ok_def journal_operation_for_task_def
    by auto
  then show ?thesis by (auto simp: journal_intent_def jv.state_NotPrepared)
qed

lemma rt_ok_intent:
  assumes "rt_ok r st" and "fmlookup (dj_intents (rt_journal r)) i = Some it"
  shows "journal_operation_for_task (rt_journal r) (ei_task it) = Some i"
  using mirror_okD(4,7) [OF rt_okD(2) [OF assms(1)]] assms(2)
  unfolding mirrors_def facts_ok_def run_intents_ok_def journal_operation_for_task_def by auto

lemma runs_dispatch_effect:
  assumes ok: "rt_ok r st"
  shows "runs (dispatch_effect w i) r (\<lambda>a r'. \<exists>r1. coord_step\<^sup>*\<^sup>* r r1 \<and> same_plan r r1 \<and>
    fact_admitted (FactDispatch \<lparr>dr_operation = i, dr_attempt = a\<rparr>) r1 r')"
proof (cases "fmlookup (dj_intents (rt_journal r)) i")
  case None
  then show ?thesis by (intro runs_err) (simp add: dispatch_effect_def journal_intent_def)
next
  case (Some it)
  show ?thesis
  proof (cases "ei_task it |\<in>| rt_cancelled r")
    case True
    with Some show ?thesis by (auto intro!: runs_err simp: dispatch_effect_def journal_intent_def)
  next
    case free: False
    let ?guard = "journal_state (rt_journal r) i = Prepared \<or>
      journal_state (rt_journal r) i = OutcomeUnknown \<and> ei_semantics it = Idempotent"
    have attempt: "runs (dispatch_attempt w it i) r (\<lambda>_ r'. same_plan r r' \<and> ?guard)"
    proof (cases "journal_state (rt_journal r) i")
      case Prepared
      with runs_resume_or_begin [OF ok free, of w "Some i"] show ?thesis
        by (simp add: runs_def dispatch_attempt_def)
    next
      case OutcomeUnknown
      with runs_begin_attempt [OF ok free, of w "Some i"] show ?thesis
        by (cases "ei_semantics it") (simp_all add: runs_def dispatch_attempt_def)
    qed (use Some in \<open>auto intro!: runs_err simp: dispatch_attempt_def jv.state_NotPrepared\<close>)
    have "runs (act_bind (dispatch_attempt w it i)
        (\<lambda>a. act_bind (admit_and_commit (FactDispatch \<lparr>dr_operation = i, dr_attempt = a\<rparr>)
            (''dispatch:'' @ show_attempt a) (RecordDispatch \<lparr>dr_operation = i, dr_attempt = a\<rparr>))
          (\<lambda>_ r'. (Ok a, r')))) r
      (\<lambda>a r'. \<exists>r1. coord_step\<^sup>*\<^sup>* r r1 \<and> same_plan r r1 \<and>
         fact_admitted (FactDispatch \<lparr>dr_operation = i, dr_attempt = a\<rparr>) r1 r')"
    proof (rule runs_bind [OF attempt])
      fix a r1
      assume a: "same_plan r r1 \<and> ?guard" and steps: "coord_step\<^sup>*\<^sup>* r r1"
      from coord_steps_ok [OF steps ok] obtain st1 where ok1: "rt_ok r1 st1" by blast
      let ?d = "\<lparr>dr_operation = i, dr_attempt = a\<rparr>"
      have "runs (admit_and_commit (FactDispatch ?d) (''dispatch:'' @ show_attempt a) (mutation_of (FactDispatch ?d))) r1
          (\<lambda>_. fact_admitted (FactDispatch ?d) r1)"
        by (rule runs_admit_and_commit [OF ok1 keys_visible(2)])
          (rule coord_step.cs_dispatch [of r1 ?d it], use a free Some in \<open>simp_all add: same_plan_def\<close>)
      then have adm: "runs (admit_and_commit (FactDispatch ?d) (''dispatch:'' @ show_attempt a) (RecordDispatch ?d)) r1
          (\<lambda>_. fact_admitted (FactDispatch ?d) r1)" by simp
      show "runs (act_bind (admit_and_commit (FactDispatch ?d) (''dispatch:'' @ show_attempt a) (RecordDispatch ?d))
          (\<lambda>_ r'. (Ok a, r'))) r1
        (\<lambda>a r'. \<exists>r1. coord_step\<^sup>*\<^sup>* r r1 \<and> same_plan r r1 \<and>
           fact_admitted (FactDispatch \<lparr>dr_operation = i, dr_attempt = a\<rparr>) r1 r')"
        by (rule runs_bind [OF adm]) (use a steps in \<open>auto simp: runs_def\<close>)
    qed
    with Some free show ?thesis by (simp add: runs_def dispatch_effect_def journal_intent_def Let_def)
  qed
qed

lemma cs_complete_quiet:
  assumes guard: "\<And>i. journal_operation_for_task (rt_journal r) t = Some i \<Longrightarrow>
      journal_state (rt_journal r) i = OutcomeKnown Succeeded"
  shows "runs (complete_in_workflow t) r
    (\<lambda>_ r'. t \<in> set (ready_tasks (rt_workflow r)) \<and> r' = r\<lparr>rt_workflow := with_completion t (rt_workflow r)\<rparr>)"
proof (cases rule: complete_task_cases [of t "rt_workflow r"])
  case ready
  with cs_complete [OF ready(1) guard] show ?thesis by (auto simp: runs_def complete_in_workflow_def)
qed (auto simp: runs_def complete_in_workflow_def)

lemma runs_emit_completed: "runs (emit_completed t a) r (\<lambda>_. quiet r)"
  by (rule runs_quiet) (rule emit_completed_quiet)

text \<open>A completion, with its announcement.\<close>

definition completed_now :: "ident \<Rightarrow> 'v runtime \<Rightarrow> 'v runtime \<Rightarrow> bool" where
  "completed_now t r r' \<longleftrightarrow>
     t \<in> set (ready_tasks (rt_workflow r)) \<and> rt_workflow r' = with_completion t (rt_workflow r)"

lemma runs_complete_with:
  assumes "\<And>i. journal_operation_for_task (rt_journal r) t = Some i \<Longrightarrow>
      journal_state (rt_journal r) i = OutcomeKnown Succeeded"
  shows "runs (complete_with t a) r (\<lambda>x r'. x = StepCompleted t a \<and> completed_now t r r')"
  unfolding complete_with_def
proof (rule runs_bind [OF cs_complete_quiet])
  fix u r1
  assume "t \<in> set (ready_tasks (rt_workflow r)) \<and> r1 = r\<lparr>rt_workflow := with_completion t (rt_workflow r)\<rparr>"
  then show "runs (act_bind (emit_completed t a) (\<lambda>_ r. (Ok (StepCompleted t a), r))) r1
      (\<lambda>x r'. x = StepCompleted t a \<and> completed_now t r r')"
    by (intro runs_bind [OF runs_emit_completed])
      (auto simp: runs_def completed_now_def quiet_def same_facts_def)
qed (rule assms)

lemma runs_recover:
  assumes ok: "rt_ok r st"
  shows "runs (recover i) r (\<lambda>_ _. True)"
proof (cases "fmlookup (dj_intents (rt_journal r)) i")
  case None
  then show ?thesis by (intro runs_err) (simp add: recover_def classify_decides)
next
  case (Some it)
  let ?dec = "decide i it (latest_dispatch (rt_journal r) i) (known_outcome (rt_journal r) i)
    (graph_task (rt_workflow r) (ei_task it) \<noteq> None) (graph_is_completed (rt_workflow r) (ei_task it))"
  show ?thesis
  proof (cases "rd_action ?dec = CompleteWithoutReexecution")
    case False
    with Some show ?thesis by (simp add: runs_def recover_def classify_decides)
  next
    case True
    then obtain oc where oc: "known_outcome (rt_journal r) i = Some oc" "oc_outcome oc = Succeeded"
      "\<not> graph_is_completed (rt_workflow r) (ei_task it)"
      by (cases "known_outcome (rt_journal r) i"; cases "latest_dispatch (rt_journal r) i")
        (auto simp: invariant_decision_def split: if_splits)
    have "journal_state (rt_journal r) i = OutcomeKnown Succeeded"
      using oc Some by (simp add: jv.state_OutcomeKnown)
    then have guard: "journal_state (rt_journal r) k = OutcomeKnown Succeeded"
      if "journal_operation_for_task (rt_journal r) (ei_task it) = Some k" for k
      using that rt_ok_intent [OF ok Some] by simp
    have "runs (act_bind (complete_in_workflow (ei_task it))
        (\<lambda>_. act_bind (emit_completed (ei_task it) (oc_attempt oc)) (\<lambda>_ r'. (Ok ?dec, r')))) r (\<lambda>_ _. True)"
      by (rule runs_bind [OF cs_complete_quiet [OF guard]], assumption)
        (rule runs_bind [OF runs_emit_completed], simp add: runs_def)
    with True Some oc show ?thesis by (simp add: runs_def recover_def classify_decides journal_intent_def)
  qed
qed

lemma runs_cancel_task:
  assumes ok: "rt_ok r st"
  shows "runs (cancel_task t) r (\<lambda>_ r'. t |\<in>| rt_cancelled r')"
proof (cases "graph_task (rt_workflow r) t")
  case None
  then show ?thesis by (intro runs_err) (simp add: cancel_task_def)
next
  case (Some tk)
  define c where "c = \<lparr>cn_run = rt_run r, cn_task = t,
      cn_operation = journal_operation_for_task (rt_journal r) t,
      cn_attempt = Option.bind (journal_operation_for_task (rt_journal r) t) (\<lambda>i. attempt_for_task r t (Some i))\<rparr>"
  have c: "cn_task c = t" by (simp add: c_def)
  obtain v where unfold: "cancel_task t r =
      act_bind (commit_durable (''cancel:'' @ show_ident t) [RecordCancellation c])
        (\<lambda>_ r'. (Ok v, r'\<lparr>rt_cancelled := finsert t (rt_cancelled r')\<rparr>)) r"
    using Some by (simp add: cancel_task_def c_def Let_def)
  show ?thesis
  proof (cases "commit_durable (''cancel:'' @ show_ident t) [RecordCancellation c] r")
    case (Pair x r1)
    show ?thesis
    proof (cases x)
      case (Ok u)
      with Pair cs_cancel [of c r u r1] c have "coord_step r (r1\<lparr>rt_cancelled := finsert t (rt_cancelled r1)\<rparr>)"
        by simp
      with Pair Ok show ?thesis by (auto simp: runs_def unfold act_bind_def)
    next
      case (Err e)
      from rt_okD(2) [OF ok] keys_visible(4) have "r1 = r"
        by (cases rule: commit_durable_cases [where m = "RecordCancellation c" and key = "''cancel:'' @ show_ident t"])
          (use Pair Err in simp_all)
      with Pair Err show ?thesis by (intro runs_err [of _ _ e]) (simp add: unfold act_bind_def)
    next
      case Panic
      from rt_okD(2) [OF ok] keys_visible(4) have False
        by (cases rule: commit_durable_cases [where m = "RecordCancellation c" and key = "''cancel:'' @ show_ident t"])
          (use Pair Panic in simp_all)
      then show ?thesis ..
    qed
  qed
qed

subsection \<open>The scheduler\<close>

lemma runs_ensure_configured_effect:
  assumes ok: "rt_ok r st"
  shows "runs (ensure_configured_effect t) r
    (\<lambda>x r'. rt_workflow r' = rt_workflow r \<and> rt_cancelled r' = rt_cancelled r \<and>
       journal_operation_for_task (rt_journal r') t = map_option fst x)"
proof (cases "journal_operation_for_task (rt_journal r) t")
  case (Some i)
  with rt_ok_operation [OF ok Some] show ?thesis by (auto simp: runs_def ensure_configured_effect_def)
next
  case None
  show ?thesis
  proof (cases "Option.bind (fmlookup (rt_configs r) t) tc_effect")
    case None
    with \<open>journal_operation_for_task (rt_journal r) t = None\<close> show ?thesis
      by (simp add: runs_def ensure_configured_effect_def)
  next
    case (Some e)
    have "runs (act_bind (record_effect_intent t (es_operation e) (es_semantics e))
          (\<lambda>_ r'. (Ok (Some (es_operation e, es_semantics e)), r'))) r
        (\<lambda>x r'. rt_workflow r' = rt_workflow r \<and> rt_cancelled r' = rt_cancelled r \<and>
           journal_operation_for_task (rt_journal r') t = map_option fst x)"
      by (rule runs_bind [OF runs_record_effect_intent [OF ok]]) (simp add: runs_def)
    with None Some show ?thesis by (simp add: runs_def ensure_configured_effect_def)
  qed
qed

lemma runs_step_effect:
  assumes ok: "rt_ok r st" and free: "t |\<notin>| rt_cancelled r"
    and op: "journal_operation_for_task (rt_journal r) t = Some i"
  shows "runs (step_effect w t i) r
    (\<lambda>x r'. \<forall>t' a. x = StepCompleted t' a \<longrightarrow> t' = t \<and> completed_now t r r')"
proof -
  from rt_ok_operation [OF ok op] obtain it where it: "fmlookup (dj_intents (rt_journal r)) i = Some it"
    "journal_state (rt_journal r) i \<noteq> NotPrepared" by blast
  show ?thesis
  proof (cases "journal_state (rt_journal r) i")
    case NotPrepared
    with it show ?thesis by simp
  next
    case Prepared
    have "runs (act_bind (resume_or_begin w t (Some i)) (\<lambda>a r'. (Ok (EffectPending t a i), r'))) r
        (\<lambda>x r'. \<forall>t' a. x = StepCompleted t' a \<longrightarrow> t' = t \<and> completed_now t r r')"
      by (rule runs_bind [OF runs_resume_or_begin [OF ok free]]) (simp add: runs_def)
    with Prepared show ?thesis by (simp add: runs_def step_effect_def)
  next
    case OutcomeUnknown
    with it show ?thesis by (simp add: runs_def step_effect_def classify_decides)
  next
    case (OutcomeKnown out)
    then obtain oc where oc: "known_outcome (rt_journal r) i = Some oc" by (auto simp: jv.state_OutcomeKnown)
    show ?thesis
    proof (cases out)
      case Succeeded
      have "runs (complete_with t (oc_attempt oc)) r
          (\<lambda>x r'. x = StepCompleted t (oc_attempt oc) \<and> completed_now t r r')"
        by (rule runs_complete_with) (use op OutcomeKnown Succeeded in simp)
      then have "runs (complete_with t (oc_attempt oc)) r
          (\<lambda>x r'. \<forall>t' a. x = StepCompleted t' a \<longrightarrow> t' = t \<and> completed_now t r r')"
        by (rule runs_mono) simp
      with OutcomeKnown Succeeded oc show ?thesis by (simp add: runs_def step_effect_def)
    next
      case Failed
      with OutcomeKnown show ?thesis by (simp add: runs_def step_effect_def)
    qed
  qed
qed

lemma runs_step_task:
  assumes ok: "rt_ok r st" and free: "t |\<notin>| rt_cancelled r"
  shows "runs (step_task w t) r (\<lambda>x r'. \<forall>t' a. x = StepCompleted t' a \<longrightarrow> t' = t \<and> completed_now t r r')"
  unfolding step_task_def
proof (rule runs_bind [OF runs_ensure_configured_effect [OF ok]])
  fix x r1
  assume x: "rt_workflow r1 = rt_workflow r \<and> rt_cancelled r1 = rt_cancelled r \<and>
      journal_operation_for_task (rt_journal r1) t = map_option fst x"
    and steps: "coord_step\<^sup>*\<^sup>* r r1"
  from coord_steps_ok [OF steps ok] obtain st1 where ok1: "rt_ok r1 st1" by blast
  have free1: "t |\<notin>| rt_cancelled r1" using x free by simp
  have lift: "completed_now t r1 r' \<Longrightarrow> completed_now t r r'" for r'
    using x by (simp add: completed_now_def)
  show "runs (case x of None \<Rightarrow> act_bind (resume_or_begin w t None) (complete_with t)
          | Some (i, uu) \<Rightarrow> step_effect w t i) r1
      (\<lambda>x r'. \<forall>t' a. x = StepCompleted t' a \<longrightarrow> t' = t \<and> completed_now t r r')"
  proof (cases x)
    case None
    have "runs (act_bind (resume_or_begin w t None) (complete_with t)) r1
        (\<lambda>x r'. \<forall>t' a. x = StepCompleted t' a \<longrightarrow> t' = t \<and> completed_now t r r')"
    proof (rule runs_bind [OF runs_resume_or_begin [OF ok1 free1]])
      fix a r2
      assume "same_plan r1 r2"
      then have r2: "rt_workflow r2 = rt_workflow r1" "journal_operation_for_task (rt_journal r2) t = None"
        using x None by (simp_all add: same_plan_def)
      have "runs (complete_with t a) r2 (\<lambda>x r'. x = StepCompleted t a \<and> completed_now t r2 r')"
        by (rule runs_complete_with) (use r2 in simp)
      then show "runs (complete_with t a) r2
          (\<lambda>x r'. \<forall>t' a. x = StepCompleted t' a \<longrightarrow> t' = t \<and> completed_now t r r')"
        by (rule runs_mono) (use r2 x in \<open>simp add: completed_now_def\<close>)
    qed
    with None show ?thesis by simp
  next
    case (Some i_sem)
    with x have "journal_operation_for_task (rt_journal r1) t = Some (fst i_sem)" by simp
    note op = this
    have "runs (step_effect w t (fst i_sem)) r1
        (\<lambda>x r'. \<forall>t' a. x = StepCompleted t' a \<longrightarrow> t' = t \<and> completed_now t r r')"
      by (rule runs_mono [OF runs_step_effect [OF ok1 free1 op]]) (use lift in blast)
    with Some show ?thesis by (cases i_sem) simp
  qed
qed

lemma runs_runtime_step:
  assumes ok: "rt_ok r st"
  shows "runs (runtime_step w) r
    (\<lambda>x r'. \<forall>t a. x = StepCompleted t a \<longrightarrow> t |\<notin>| rt_cancelled r \<and> completed_now t r r')"
proof (cases "rt_pending r")
  case (Some p)
  then show ?thesis by (cases p) (simp add: runs_def runtime_step_def)
next
  case None
  show ?thesis
  proof (cases "find (\<lambda>t. t |\<notin>| rt_cancelled r) (ready_tasks (rt_workflow r))")
    case (Some t)
    then have free: "t |\<notin>| rt_cancelled r" by (auto simp: find_Some_iff)
    have "runs (step_task w t) r
        (\<lambda>x r'. \<forall>t a. x = StepCompleted t a \<longrightarrow> t |\<notin>| rt_cancelled r \<and> completed_now t r r')"
      by (rule runs_mono [OF runs_step_task [OF ok free]]) (use free in blast)
    with None Some show ?thesis by (simp add: runs_def runtime_step_def)
  next
    case no_task: None
    with None show ?thesis by (simp add: runs_def runtime_step_def)
  qed
qed

lemma run_until_blocked_stops:
  "runtime_step w r = (Ok res, r1) \<Longrightarrow> (\<And>t a. res \<noteq> StepCompleted t a) \<Longrightarrow>
     run_until_blocked w r = (Ok [res], r1)"
  "runtime_step w r = (Err e, r1) \<Longrightarrow> run_until_blocked w r = (Err e, r1)"
  by (subst run_until_blocked.simps, auto split: step_result.split)+

lemma runs_run_until_blocked:
  "rt_ok r st \<Longrightarrow> runs (run_until_blocked w) r (\<lambda>_ _. True)"
proof (induction w r arbitrary: st rule: run_until_blocked.induct)
  case (1 w r)
  obtain x r1 where x: "runtime_step w r = (x, r1)" by fastforce
  note d = runsD [OF runs_runtime_step [OF "1.prems"] x]
  show ?case
  proof (cases x)
    case (Ok res)
    show ?thesis
    proof (cases res)
      case (StepCompleted t a)
      from coord_steps_ok [OF d(2) "1.prems"] obtain st1 where "rt_ok r1 st1" by blast
      with "1.IH" [OF x [symmetric] Ok StepCompleted] have "runs (run_until_blocked w) r1 (\<lambda>_ _. True)" by blast
      with x Ok StepCompleted d(2) show ?thesis
        unfolding runs_def by (subst run_until_blocked.simps) (auto split: prod.splits res.splits)
    qed (use run_until_blocked_stops(1) [of w r res r1] x Ok d(2) in \<open>simp_all add: runs_def\<close>)
  next
    case (Err e)
    with x d(2) run_until_blocked_stops(2) [of w r e r1] show ?thesis by (simp add: runs_def)
  qed (use d in simp)
qed

subsection \<open>Calls, restarts and reachable runtimes\<close>

datatype runtime_call =
    CallConfigure ident task_config
  | CallMutate revision mutation_batch
  | CallIntent ident operation_id effect_semantics
  | CallDispatch operation_id
  | CallOutcome operation_id attempt_id known_effect_outcome
  | CallRecover operation_id
  | CallCancel ident
  | CallStep
  | CallRun
  | CallProgress ident u8
  | CallTelemetry string
  | CallRetry "runtime_event stream_item"
  | CallDrainExecution
  | CallDrainProgress
  | CallDrainTelemetry

definition no_value :: "('a, 'e) res \<times> 's \<Rightarrow> (unit, 'e) res \<times> 's" where
  "no_value m = (res_bind (fst m) (\<lambda>_. Ok ()), snd m)"

definition no_error :: "'a \<times> 's \<Rightarrow> (unit, 'e) res \<times> 's" where
  "no_error m = (Ok (), snd m)"

primrec runtime_exec :: "'v scope_world \<Rightarrow> runtime_call \<Rightarrow> ('v runtime, unit, runtime_error) act" where
  "runtime_exec w (CallConfigure t c) r = configure_task t c r"
| "runtime_exec w (CallMutate v b) r = no_value (apply_workflow_mutation v b r)"
| "runtime_exec w (CallIntent t i sem) r = record_effect_intent t i sem r"
| "runtime_exec w (CallDispatch i) r = no_value (dispatch_effect w i r)"
| "runtime_exec w (CallOutcome i a out) r = record_effect_outcome i a out r"
| "runtime_exec w (CallRecover i) r = no_value (recover i r)"
| "runtime_exec w (CallCancel t) r = no_value (cancel_task t r)"
| "runtime_exec w CallStep r = no_value (runtime_step w r)"
| "runtime_exec w CallRun r = no_value (run_until_blocked w r)"
| "runtime_exec w (CallProgress t p) r = emit_progress t p r"
| "runtime_exec w (CallTelemetry m) r = emit_telemetry m r"
| "runtime_exec w (CallRetry item) r = retry_execution_event item r"
| "runtime_exec w CallDrainExecution r = no_error (drain_execution_events r)"
| "runtime_exec w CallDrainProgress r = no_error (drain_progress_events r)"
| "runtime_exec w CallDrainTelemetry r = no_error (drain_telemetry_events r)"

lemma runs_no_value: "runs m r P \<Longrightarrow> runs (\<lambda>r. no_value (m r)) r (\<lambda>_ _. True)"
  by (cases "m r") (auto simp: runs_def no_value_def res_bind_eq_Panic)

lemma runs_True: "runs m r P \<Longrightarrow> runs m r (\<lambda>_ _. True)"
  by (rule runs_mono) simp_all

lemma retry_quiet:
  assumes "retry_execution_event item r = (x, r')"
  shows "x \<noteq> Panic \<and> quiet r r'"
proof (cases "rt_pending r")
  case None
  with assms have "enqueue_execution item r = (x, r')" by (simp add: retry_execution_event_def)
  from enqueue_execution_quiet [OF this] show ?thesis by simp
next
  case (Some p)
  obtain a pending where p: "p = (a, pending)" by fastforce
  obtain z r1 where z: "enqueue_execution pending (r\<lparr>rt_pending := None\<rparr>) = (z, r1)" by fastforce
  from enqueue_execution_quiet [OF z] Some p z assms show ?thesis
    by (auto simp: retry_execution_event_def quiet_def same_facts_def held_attempts_def)
qed

theorem runs_runtime_exec:
  assumes ok: "rt_ok r st"
  shows "runs (runtime_exec w c) r (\<lambda>_ _. True)"
proof -
  have quiet: "runs (runtime_exec w c) r (\<lambda>_ _. True)"
    if "\<And>x r'. runtime_exec w c r = (x, r') \<Longrightarrow> x \<noteq> Panic \<and> quiet r r'"
    using runs_True [OF runs_quiet [of "runtime_exec w c" r, OF that]] .
  show ?thesis
  proof (cases c)
    case (CallConfigure t cfg)
    then show ?thesis
      by (intro quiet) (auto simp: configure_task_def quiet_def same_facts_def held_attempts_def split: if_splits)
  next
    case (CallMutate v b)
    have "runs (apply_workflow_mutation v b) r (\<lambda>_ _. True)"
    proof (cases rule: apply_batch_cases [OF graph_inv_topo_ok [OF rt_okD(1) [OF ok]], of v b])
      case (1 e)
      then show ?thesis by (intro runs_err [of _ _ "RE_Workflow e"]) (simp add: apply_workflow_mutation_def)
    next
      case (2 g1 resulting rc)
      with cs_mutate [OF 2(6)] show ?thesis by (auto simp: runs_def apply_workflow_mutation_def)
    qed
    from runs_no_value [OF this] CallMutate show ?thesis by (simp add: runs_def)
  next
    case (CallIntent t i sem)
    with runs_True [OF runs_record_effect_intent [OF ok]] show ?thesis by (simp add: runs_def)
  next
    case (CallDispatch i)
    with runs_no_value [OF runs_dispatch_effect [OF ok]] show ?thesis by (simp add: runs_def)
  next
    case (CallOutcome i a out)
    with runs_record_effect_outcome [OF ok] show ?thesis by (simp add: runs_def)
  next
    case (CallRecover i)
    with runs_no_value [OF runs_recover [OF ok]] show ?thesis by (simp add: runs_def)
  next
    case (CallCancel t)
    with runs_no_value [OF runs_cancel_task [OF ok]] show ?thesis by (simp add: runs_def)
  next
    case CallStep
    with runs_no_value [OF runs_runtime_step [OF ok]] show ?thesis by (simp add: runs_def)
  next
    case CallRun
    with runs_no_value [OF runs_run_until_blocked [OF ok]] show ?thesis by (simp add: runs_def)
  next
    case (CallProgress t p)
    have "fst (sequencer_emit (TaskProgress t p) (rt_progress_sequencer r)) \<noteq> Panic"
      by (rule sequencer_emit_no_panic)
    moreover have "fst (coalescing_try_push it b) \<noteq> Panic"
      for it :: "(ident, runtime_event) keyed_item" and b
      by (cases rule: coalescing_push_cases [of it b]) simp_all
    ultimately show ?thesis
      by (intro quiet)
        (auto simp: CallProgress emit_progress_def quiet_def same_facts_def held_attempts_def
          split: prod.splits res.splits, (metis fst_conv)+)
  next
    case (CallTelemetry m)
    have "fst (sequencer_emit (Telemetry m) (rt_telemetry_sequencer r)) \<noteq> Panic"
      by (rule sequencer_emit_no_panic)
    then show ?thesis
      by (intro quiet)
        (auto simp: CallTelemetry emit_telemetry_def quiet_def same_facts_def held_attempts_def
          split: prod.splits res.splits)
  next
    case (CallRetry item)
    with retry_quiet show ?thesis by (intro quiet) simp
  next
    case CallDrainExecution
    then show ?thesis
      by (intro quiet) (auto simp: no_error_def drain_execution_events_def quiet_def same_facts_def held_attempts_def split: prod.splits)
  next
    case CallDrainProgress
    then show ?thesis
      by (intro quiet) (auto simp: no_error_def drain_progress_events_def quiet_def same_facts_def held_attempts_def split: prod.splits)
  next
    case CallDrainTelemetry
    then show ?thesis
      by (intro quiet) (auto simp: no_error_def drain_telemetry_events_def quiet_def same_facts_def held_attempts_def split: prod.splits)
  qed
qed

text \<open>What \<open>build\<close> puts into a runtime.\<close>

definition fresh_runtime :: "'v runtime \<Rightarrow> bool" where
  "fresh_runtime r \<longleftrightarrow> rt_attempts r = [] \<and> rt_pending r = None \<and> rt_cancelled r = {||} \<and> rt_next_attempt r = 1"

lemma build_Ok:
  assumes "build run g scope configs j s v = Ok r"
  shows "fresh_runtime r \<and> rt_run r = run \<and> rt_workflow r = g \<and> rt_context r = context_from_scope scope \<and>
    rt_journal r = j \<and> rt_store r = s \<and> rt_store_revision r = v \<and>
    build_configs g configs fmempty = Ok (rt_configs r)"
  using assms by (auto simp: build_def fresh_runtime_def)

lemma rt_ok_start:
  assumes g: "graph_inv g" and r: "start_run run g scope configs = Ok r"
  shows "rt_ok r (run_state_new run) \<and> rt_run r = run"
proof -
  have "create_run run store_new = (Ok store_revision_initial, store_new\<lparr>ms_runs := fmupd run (run_state_new run) fmempty\<rparr>)"
    by (simp add: create_run_def store_new_def)
  with r have b: "build run g scope configs journal_new (store_new\<lparr>ms_runs := fmupd run (run_state_new run) fmempty\<rparr>)
      store_revision_initial = Ok r" by (simp add: start_run_def)
  have "store_inv (store_new\<lparr>ms_runs := fmupd run (run_state_new run) fmempty\<rparr>)"
    by (simp add: store_inv_def run_inv_new)
  moreover have "mirrors journal_new (run_state_new run)"
    by (simp add: mirrors_def journal_new_def run_state_new_def attempts_of_def run_dispatches_def)
  moreover have "numbered run 1 (run_state_new run)" "disciplined (run_state_new run)"
    by (simp_all add: numbered_def disciplined_def run_state_new_def)
  ultimately show ?thesis
    using build_Ok [OF b] g
    by (auto simp: rt_ok_def mirror_ok_def durable_of_def held_attempts_def fresh_runtime_def run_state_new_def)
qed

lemma restore_attempts_Ok:
  assumes "restore_attempts w ads r = Ok r'"
  shows "same_facts r r' \<and> rt_next_attempt r' = rt_next_attempt r \<and> rt_pending r' = rt_pending r \<and>
    rt_context r' = rt_context r \<and> rt_configs r' = rt_configs r \<and>
    (\<exists>as. rt_attempts r' = rt_attempts r @ as \<and> list_all2 (\<lambda>ad a.
       ta_run a = aa_run ad \<and> ta_task a = aa_task ad \<and> ta_attempt a = aa_attempt ad \<and>
       ta_operation a = aa_operation ad \<and>
       capture_capability_pins w r (aa_task ad) (Some (aa_capabilities ad)) = Ok (ta_pins a)) ads as)"
  using assms
proof (induction ads arbitrary: r)
  case (Cons ad ads)
  then obtain pins where pins: "capture_capability_pins w r (aa_task ad) (Some (aa_capabilities ad)) = Ok pins"
    and rest: "restore_attempts w ads
       (r\<lparr>rt_attempts := rt_attempts r @ [\<lparr>ta_run = aa_run ad, ta_task = aa_task ad,
          ta_attempt = aa_attempt ad, ta_operation = aa_operation ad, ta_pins = pins\<rparr>]\<rparr>) = Ok r'" by auto
  have same: "capture_capability_pins w (r\<lparr>rt_attempts := as\<rparr>) t e = capture_capability_pins w r t e" for as t e
    by (simp add: capture_capability_pins_def required_of_def)
  from Cons.IH [OF rest] show ?case
    by (auto simp: same_facts_def same pins)
qed (simp add: same_facts_def)

lemma restore_run_Ok:
  assumes r: "restore_run w run g scope configs store = Ok r"
  obtains st j where "load_run store run = Ok st" "from_durable_state st = Ok j"
    "rt_run r = run" "rt_workflow r = g" "rt_context r = context_from_scope scope" "rt_journal r = j" "rt_store r = store"
    "rt_store_revision r = ds_revision st" "rt_pending r = None"
    "rt_cancelled r = fset_of_list (map cn_task (run_cancellations st))"
    "u64_checked_succ (of_nat (length (ds_admission_history st))) = Some (rt_next_attempt r)"
    "list_all2 (\<lambda>ad a. ta_run a = aa_run ad \<and> ta_task a = aa_task ad \<and> ta_attempt a = aa_attempt ad \<and>
       ta_operation a = aa_operation ad \<and>
       capture_capability_pins w r (aa_task ad) (Some (aa_capabilities ad)) = Ok (ta_pins a))
     (ds_admission_history st) (rt_attempts r)"
proof -
  from r obtain st j and r0 r1 :: "'a runtime" and n where
    st: "load_run store run = Ok st" and j: "from_durable_state st = Ok j"
    and b: "build run g scope configs j store (ds_revision st) = Ok r0"
    and rest: "restore_attempts w (ds_admission_history st)
         (r0\<lparr>rt_cancelled := fset_of_list (map cn_task (run_cancellations st))\<rparr>) = Ok r1"
    and n: "u64_checked_succ (of_nat (length (ds_admission_history st))) = Some n"
    and r1: "r = r1\<lparr>rt_next_attempt := n\<rparr>"
    unfolding restore_run_def by (auto split: option.splits simp del: load_run_Ok)
  note b = build_Ok [OF b]
  note a = restore_attempts_Ok [OF rest]
  have same: "capture_capability_pins w r t e =
      capture_capability_pins w (r0\<lparr>rt_cancelled := fset_of_list (map cn_task (run_cancellations st))\<rparr>) t e" for t e
    using a by (simp add: capture_capability_pins_def required_of_def r1)
  show thesis
    by (rule that [OF st j]) (use a b n in \<open>auto simp: r1 same_facts_def fresh_runtime_def same [unfolded r1]\<close>)
qed

lemma list_all2_in2: "list_all2 P xs ys \<Longrightarrow> y \<in> set ys \<Longrightarrow> \<exists>x \<in> set xs. P x y"
  by (induction rule: list_all2_induct) auto

lemma cancelled_tasks:
  assumes "facts_ok st"
  shows "fset_of_list (map cn_task (run_cancellations st)) = fmdom (ds_cancellations st)"
proof (rule fset_eqI)
  fix t
  have named: "cn_task c = k" if "fmlookup (ds_cancellations st) k = Some c" for k c
    using assms that unfolding facts_ok_def cancellations_ok_def by blast
  have "t |\<in>| fset_of_list (map cn_task (run_cancellations st)) \<longleftrightarrow>
      (\<exists>c k. fmlookup (ds_cancellations st) k = Some c \<and> cn_task c = t)"
    by (auto simp: fset_of_list_elem run_cancellations_def in_bt_values image_iff Bex_def simp del: fset_of_list_map)
  also have "\<dots> \<longleftrightarrow> (\<exists>c. fmlookup (ds_cancellations st) t = Some c)" using named by blast
  finally show "t |\<in>| fset_of_list (map cn_task (run_cancellations st)) \<longleftrightarrow> t |\<in>| fmdom (ds_cancellations st)"
    by (simp add: in_fmdom_iff)
qed

lemma numbered_restored:
  assumes n: "numbered run k st" and m: "u64_checked_succ (of_nat (length (ds_admission_history st))) = Some m"
  shows "numbered run m st"
proof -
  have "unat (of_nat (length (ds_admission_history st)) :: u64) = length (ds_admission_history st)"
    by (rule unat_of_nat_u64) (use n in \<open>simp add: numbered_def\<close>)
  with m have "Suc (length (ds_admission_history st)) < 2 ^ 64" "unat m = Suc (length (ds_admission_history st))"
    by (simp_all add: u64_checked_succ_Some)
  with n show ?thesis by (simp add: numbered_def)
qed

lemma rt_ok_restore:
  assumes g: "graph_inv g" and old: "rt_ok r st" and r': "restore_run w (rt_run r) g scope configs (rt_store r) = Ok r'"
  shows "rt_ok r' st \<and> rt_run r' = rt_run r"
proof -
  note d = mirror_okD [OF rt_okD(2) [OF old]]
  from r' obtain st' j where st': "load_run (rt_store r) (rt_run r) = Ok st'" and j: "from_durable_state st' = Ok j"
    and e: "rt_run r' = rt_run r" "rt_workflow r' = g" "rt_journal r' = j" "rt_store r' = rt_store r"
      "rt_store_revision r' = ds_revision st'" "rt_pending r' = None"
      "rt_cancelled r' = fset_of_list (map cn_task (run_cancellations st'))"
    and n: "u64_checked_succ (of_nat (length (ds_admission_history st'))) = Some (rt_next_attempt r')"
    and as: "list_all2 (\<lambda>ad a. ta_run a = aa_run ad \<and> ta_task a = aa_task ad \<and> ta_attempt a = aa_attempt ad \<and>
       ta_operation a = aa_operation ad \<and>
       capture_capability_pins w r' (aa_task ad) (Some (aa_capabilities ad)) = Ok (ta_pins a))
     (ds_admission_history st') (rt_attempts r')"
    by (rule restore_run_Ok)
  have same: "st' = st" using st' d(2) by (simp add: durable_of_def)
  have "mirror_ok r' st"
    using d(1,2) e from_durable_state_mirrors [OF d(7)] j cancelled_tasks [OF d(7)]
    unfolding same by (simp add: mirror_ok_def durable_of_def)
  moreover have "numbered (rt_run r') (rt_next_attempt r') st"
    using numbered_restored [OF rt_okD(3) [OF old]] n unfolding same e(1) .
  moreover have "admitted st a" if a: "a \<in> set (held_attempts r')" for a
  proof -
    from a e(6) have "a \<in> set (rt_attempts r')" by (simp add: held_attempts_def)
    from list_all2_in2 [OF as this] obtain ad where ad: "ad \<in> set (ds_admission_history st)"
      "ta_task a = aa_task ad" "ta_attempt a = aa_attempt ad" "ta_operation a = aa_operation ad"
      unfolding same by blast
    have "ledger aa_attempt (ds_admissions st) (ds_admission_history st)"
      using d(7) by (simp add: facts_ok_def admissions_ok_def)
    from ledger_known [OF this ad(1)] ad show ?thesis by (simp add: admitted_def)
  qed
  ultimately show ?thesis using g rt_okD(5) [OF old] e(1,2) by (simp add: rt_ok_def)
qed

text \<open>
  One runtime after another in the life of a run: a public call, with whatever scopes it finds, or a
  restart from the durable facts with some workflow, scope and configuration.
\<close>

inductive runtime_next :: "'v runtime \<Rightarrow> 'v runtime \<Rightarrow> bool" where
  nx_call: "runtime_exec w c r = (x, r') \<Longrightarrow> runtime_next r r'"
| nx_restart: "graph_reachable g \<Longrightarrow> restore_run w (rt_run r) g scope configs (rt_store r) = Ok r' \<Longrightarrow>
    runtime_next r r'"

inductive runtime_reachable :: "'v runtime \<Rightarrow> bool" where
  rr_start: "graph_reachable g \<Longrightarrow> start_run run g scope configs = Ok r \<Longrightarrow> runtime_reachable r"
| rr_next: "runtime_reachable r \<Longrightarrow> runtime_next r r' \<Longrightarrow> runtime_reachable r'"

lemma runtime_next_ok:
  assumes "runtime_next r r'" and "rt_ok r st"
  shows "\<exists>st'. rt_ok r' st' \<and> run_after st st' \<and> rt_run r' = rt_run r"
  using assms(1)
proof cases
  case (nx_call w c x)
  from coord_steps_ok [OF runsD(2) [OF runs_runtime_exec [OF assms(2)] nx_call] assms(2)] show ?thesis .
next
  case (nx_restart g w scope configs)
  from rt_ok_restore [OF reachable_graph_inv [OF nx_restart(1)] assms(2) nx_restart(2)] show ?thesis
    by (auto intro: run_after_refl)
qed

lemma runtime_reachable_ok: "runtime_reachable r \<Longrightarrow> \<exists>st. rt_ok r st"
proof (induction rule: runtime_reachable.induct)
  case (rr_start g run scope configs r)
  with rt_ok_start reachable_graph_inv show ?case by blast
next
  case (rr_next r r')
  with runtime_next_ok show ?case by blast
qed

lemma runtime_later_ok:
  assumes "runtime_next\<^sup>*\<^sup>* r r'" and "rt_ok r st"
  shows "\<exists>st'. rt_ok r' st' \<and> run_after st st' \<and> rt_run r' = rt_run r"
  using assms(1)
proof (induction rule: rtranclp_induct)
  case base
  with assms(2) show ?case by (auto intro: run_after_refl)
next
  case (step r1 r2)
  then obtain st1 where st1: "rt_ok r1 st1" "run_after st st1" "rt_run r1 = rt_run r" by blast
  from runtime_next_ok [OF step(2) st1(1)] obtain st2 where "rt_ok r2 st2" "run_after st1 st2" "rt_run r2 = rt_run r1"
    by blast
  with st1 mirror_okD(7) [OF rt_okD(2) [OF st1(1)]] show ?case by (auto intro: run_after_trans)
qed

end
