(* ===== verification/Runtime_Properties.thy ===== *)
theory Runtime_Properties
  imports Runtime_Calls Durable_Properties
begin

text \<open>
  What the coordinator promises over the whole life of a run, restarts included: its in-memory view is
  the durable one, no call panics, attempts are numbered without gap or reuse, a non-idempotent effect
  is dispatched once, a cancellation and a known outcome are final, a task is completed only on a
  recorded success, and the scheduler comes to a stop.
\<close>

subsection \<open>What one transition keeps\<close>

lemma admit_and_commit_Ok:
  assumes "admit_and_commit f key m r = (Ok (), r')"
  shows "persist f (rt_journal r) = (Ok (), rt_journal r') \<and> rt_workflow r' = rt_workflow r \<and>
    rt_cancelled r' = rt_cancelled r"
proof -
  from assms obtain j where j: "persist f (rt_journal r) = (Ok (), j)"
    and c: "act_bind (commit_durable key [m]) (\<lambda>_ r'. (Ok (), r'\<lparr>rt_journal := j\<rparr>)) r = (Ok (), r')"
    by (auto simp: admit_and_commit_def split: prod.splits res.splits)
  then obtain v r1 where "commit_durable key [m] r = (Ok v, r1)" "r' = r1\<lparr>rt_journal := j\<rparr>"
    by (auto simp: act_bind_eq_Ok)
  with j show ?thesis by (auto simp: commit_durable_def split: res.splits prod.splits)
qed

lemma commit_durable_frame:
  "commit_durable key ms r = (x, r') \<Longrightarrow>
     rt_journal r' = rt_journal r \<and> rt_workflow r' = rt_workflow r \<and> rt_cancelled r' = rt_cancelled r"
  by (auto simp: commit_durable_def split: res.splits prod.splits)

lemma persist_keeps_known:
  assumes k: "journal_state j i = OutcomeKnown k" and p: "persist f j = (Ok (), j')"
    and d: "\<And>d. f = FactDispatch d \<Longrightarrow> journal_state j (dr_operation d) \<noteq> OutcomeKnown k"
  shows "journal_state j' i = OutcomeKnown k"
proof -
  from k obtain r where r: "has_key (dj_intents j) i" "known_outcome j i = Some r" "oc_outcome r = k"
    by (auto simp: jv.state_OutcomeKnown)
  have "has_key (dj_intents j') i \<and> known_outcome j' i = Some r"
  proof (cases f)
    case (FactIntent it)
    with p r show ?thesis
      by (cases rule: persist_intent_cases [of j it]) (auto simp: known_outcome_def)
  next
    case (FactDispatch dis)
    with d k have "dr_operation dis \<noteq> i" by auto
    with FactDispatch p r show ?thesis
      by (cases rule: persist_dispatch_cases [of j dis]) (auto simp: known_outcome_def)
  next
    case (FactOutcome oc)
    from r(2) obtain as a where "fmlookup (dj_operation_attempts j) i = Some as" "last_opt as = Some a"
      "fmlookup (dj_outcomes j) a = Some r" by (auto simp: known_outcome_def bind_eq_Some_conv)
    with FactOutcome p r show ?thesis
      by (cases rule: persist_outcome_cases [of j oc]) (auto simp: known_outcome_def)
  qed
  with r(3) show ?thesis by (simp add: jv.state_OutcomeKnown)
qed

lemma coord_step_known:
  assumes "coord_step r r'" and k: "journal_state (rt_journal r) i = OutcomeKnown k"
  shows "journal_state (rt_journal r') i = OutcomeKnown k"
  using assms(1)
proof cases
  case (cs_intent it)
  from persist_keeps_known [OF k, of "FactIntent it"] admit_and_commit_Ok [OF cs_intent(2)] show ?thesis by simp
next
  case (cs_dispatch d it)
  from persist_keeps_known [OF k, of "FactDispatch d"] admit_and_commit_Ok [OF cs_dispatch(4)] cs_dispatch(3)
  show ?thesis by auto
next
  case (cs_outcome oc)
  from persist_keeps_known [OF k, of "FactOutcome oc"] admit_and_commit_Ok [OF cs_outcome] show ?thesis by simp
next
  case (cs_cancel c v r1)
  with k commit_durable_frame [OF cs_cancel(2)] show ?thesis by simp
next
  case (cs_admit a v r1)
  with k commit_durable_frame [OF cs_admit(3)] show ?thesis by (simp add: numbered_start_def same_facts_def)
qed (use k in \<open>simp_all add: quiet_def same_facts_def\<close>)

text \<open>A completed task gets no operation of its own any more.\<close>

lemma persist_operation:
  assumes "persist f j = (Ok (), j')" and "\<And>it. f = FactIntent it \<Longrightarrow> ei_task it \<noteq> t"
  shows "journal_operation_for_task j' t = journal_operation_for_task j t"
proof (cases f)
  case (FactIntent it)
  with assms show ?thesis
    by (cases rule: persist_intent_cases [of j it]) (auto simp: journal_operation_for_task_def)
next
  case (FactDispatch d)
  with assms show ?thesis
    by (cases rule: persist_dispatch_cases [of j d]) (auto simp: journal_operation_for_task_def)
next
  case (FactOutcome oc)
  with assms show ?thesis
    by (cases rule: persist_outcome_cases [of j oc]) (auto simp: journal_operation_for_task_def)
qed

lemma coord_step_operation:
  assumes "coord_step r r'" and fin: "graph_is_completed (rt_workflow r) t"
  shows "journal_operation_for_task (rt_journal r') t = journal_operation_for_task (rt_journal r) t"
  using assms(1)
proof cases
  case (cs_intent it)
  have "ei_task it \<noteq> t" using cs_intent(1) fin by auto
  then show ?thesis
    using admit_and_commit_Ok [OF cs_intent(2)] by (intro persist_operation [of "FactIntent it"]) auto
next
  case (cs_dispatch d it)
  from admit_and_commit_Ok [OF cs_dispatch(4)] show ?thesis
    by (intro persist_operation [of "FactDispatch d"]) auto
next
  case (cs_outcome oc)
  from admit_and_commit_Ok [OF cs_outcome] show ?thesis
    by (intro persist_operation [of "FactOutcome oc"]) auto
next
  case (cs_cancel c v r1)
  with commit_durable_frame [OF cs_cancel(2)] show ?thesis by simp
next
  case (cs_admit a v r1)
  with commit_durable_frame [OF cs_admit(3)] show ?thesis by (simp add: numbered_start_def same_facts_def)
qed (simp_all add: quiet_def same_facts_def)

definition completed_on_success :: "'v runtime \<Rightarrow> ident \<Rightarrow> bool" where
  "completed_on_success r t \<longleftrightarrow>
     graph_is_completed (rt_workflow r) t \<and>
     (\<forall>i. journal_operation_for_task (rt_journal r) t = Some i \<longrightarrow>
        journal_state (rt_journal r) i = OutcomeKnown Succeeded)"

lemma batch_completed:
  assumes "topo_ok g" and "apply_batch v b g = (Ok rc, g')"
  shows "graph_is_completed g' t = graph_is_completed g t"
  using apply_batch_Ok [OF assms] by (simp add: extends_graph_def graph_is_completed_def)

lemma coord_step_workflow:
  assumes "coord_step r r'"
  obtains (same) "rt_workflow r' = rt_workflow r"
  | (mutated) v b rc where "apply_batch v b (rt_workflow r) = (Ok rc, rt_workflow r')"
  | (completed) t where "rt_workflow r' = with_completion t (rt_workflow r)" "completed_on_success r' t"
  using assms
proof cases
  case (cs_intent it)
  with same admit_and_commit_Ok [OF cs_intent(2)] show ?thesis by simp
next
  case (cs_dispatch d it)
  with same admit_and_commit_Ok [OF cs_dispatch(4)] show ?thesis by simp
next
  case (cs_outcome oc)
  with same admit_and_commit_Ok [OF cs_outcome] show ?thesis by simp
next
  case (cs_cancel c v r1)
  with same commit_durable_frame [OF cs_cancel(2)] show ?thesis by simp
next
  case (cs_admit a v r1)
  with same commit_durable_frame [OF cs_admit(3)] show ?thesis by (simp add: numbered_start_def same_facts_def)
next
  case (cs_complete t)
  show ?thesis
    by (rule completed [of t]) (use cs_complete in \<open>simp_all add: completed_on_success_def graph_is_completed_def\<close>)
qed (use same mutated in \<open>simp_all add: quiet_def same_facts_def\<close>)

lemma coord_step_completions:
  assumes step: "coord_step r r'" and ok: "rt_ok r st"
  shows "graph_is_completed (rt_workflow r) t \<Longrightarrow> graph_is_completed (rt_workflow r') t" (is "?p \<Longrightarrow> ?q")
    and "graph_is_completed (rt_workflow r') t \<Longrightarrow> \<not> graph_is_completed (rt_workflow r) t \<Longrightarrow>
      completed_on_success r' t"
proof -
  have "(?p \<longrightarrow> ?q) \<and> (?q \<longrightarrow> \<not> ?p \<longrightarrow> completed_on_success r' t)"
    using step
  proof (cases rule: coord_step_workflow)
    case (mutated v b rc)
    from batch_completed [OF graph_inv_topo_ok [OF rt_okD(1) [OF ok]] mutated, of t] show ?thesis by simp
  next
    case (completed t')
    then show ?thesis by (auto simp: graph_is_completed_def)
  qed simp
  then show "?p \<Longrightarrow> ?q" "?q \<Longrightarrow> \<not> ?p \<Longrightarrow> completed_on_success r' t" by blast+
qed

lemma completed_on_success_step:
  assumes "coord_step r r'" and "rt_ok r st" and "completed_on_success r t"
  shows "completed_on_success r' t"
  using assms(3) coord_step_completions(1) [OF assms(1,2)] coord_step_known [OF assms(1)]
    coord_step_operation [OF assms(1), of t]
  by (auto simp: completed_on_success_def)

lemma coord_steps_completions:
  assumes "coord_step\<^sup>*\<^sup>* r r'" and "rt_ok r st"
    and "graph_is_completed (rt_workflow r') t" and "\<not> graph_is_completed (rt_workflow r) t"
  shows "completed_on_success r' t"
  using assms(1,3)
proof (induction rule: rtranclp_induct)
  case base
  with assms(4) show ?case by simp
next
  case (step r1 r2)
  from coord_steps_ok [OF step(1) assms(2)] obtain st1 where ok: "rt_ok r1 st1" by blast
  show ?case
  proof (cases "graph_is_completed (rt_workflow r1) t")
    case True
    from completed_on_success_step [OF step(2) ok step.IH [OF True]] show ?thesis .
  next
    case False
    from coord_step_completions(2) [OF step(2) ok step.prems False] show ?thesis .
  qed
qed

subsection \<open>A run with one effect\<close>

definition demo_world :: "unit scope_world" where
  "demo_world = snd (scope_root \<lparr>sw_scopes = fmempty, sw_roots = 0, sw_next_entry_id = 1\<rparr>)"

definition demo_config :: task_config where
  "demo_config = with_effect demo_op NonIdempotent config_new"

definition demo_fresh :: "unit runtime" where
  "demo_fresh =
     \<lparr>rt_run = demo_run, rt_workflow = demo_graph, rt_context = context_from_scope (Root 0),
      rt_journal = journal_new, rt_store = port_run create_run commit [OpCreate demo_run] store_new,
      rt_store_revision = StoreRevision 0, rt_configs = fmupd (Id ''a'') demo_config fmempty,
      rt_attempts = [], rt_pending = None, rt_cancelled = {||}, rt_next_attempt = 1,
      rt_execution_sequencer = sequencer_new (Id ''runtime-events''),
      rt_progress_sequencer = sequencer_new (Id ''runtime-progress''),
      rt_telemetry_sequencer = sequencer_new (Id ''runtime-telemetry''),
      rt_execution = \<lparr>lb_capacity = 128, lb_items = []\<rparr>, rt_progress = \<lparr>cb_capacity = 8, cb_items = []\<rparr>,
      rt_telemetry = \<lparr>yb_capacity = 1, yb_items = []\<rparr>\<rparr>"

lemmas demo_graph_eval = demo_graph_def task_a_def task_b_def demo_batch_def

lemma demo_starts: "start_run demo_run demo_graph (Root 0) [(Id ''a'', demo_config)] = Ok demo_fresh"
  by (simp add: start_run_def build_def demo_fresh_def stream_id_def expect_def id_new_visible
      lossless_new_def coalescing_new_def lossy_new_def store_new_def create_run_def
      store_revision_initial_def demo_run_def graph_task_def topo_task_def demo_graph_eval)

text \<open>The calls: a step records the intent and begins the attempt, then dispatch and outcome.\<close>

definition demo_pending :: "unit runtime" where
  "demo_pending = snd (runtime_exec demo_world CallStep demo_fresh)"

definition demo_sent :: "unit runtime" where
  "demo_sent = snd (runtime_exec demo_world (CallDispatch demo_op) demo_pending)"

definition demo_known :: "unit runtime" where
  "demo_known = snd (runtime_exec demo_world (CallOutcome demo_op (attempt_nth demo_run 1) Succeeded) demo_sent)"

definition demo_stopped :: "unit runtime" where
  "demo_stopped = snd (runtime_exec demo_world (CallCancel (Id ''a'')) demo_pending)"

lemmas runtime_eval =
  runtime_step_def step_task_def ensure_configured_effect_def journal_operation_for_task_def
  record_effect_intent_def admit_and_commit_def commit_durable_def idempotency_key_new_def
  keys_visible [simplified] Let_def persist_intent_def persist_dispatch_def persist_outcome_def
  journal_new_def attempts_of_def commit_def commit_state_def store_eval store_new_def journal_state_def
  known_outcome_def latest_dispatch_def with_effect_def config_new_def graph_task_def topo_task_def
  graph_is_completed_def fact_completed_def step_effect_def resume_or_begin_def begin_attempt_def
  attempt_for_task_def capture_capability_pins_def required_of_def attempt_id_new_name start_attempt_def
  announce_start_def emit_execution_def enqueue_execution_def sequencer_emit_def sequencer_new_def
  lossless_try_push_def sequence_first_def sequence_checked_next_def admission_of_def attempt_nth_def
  show_nat_unfold digit_char_def show_run_def dispatch_effect_def journal_intent_def dispatch_attempt_def
  record_effect_outcome_def last_opt_def no_value_def cancel_task_def durable_state_def demo_config_def
  demo_defs demo_graph_eval demo_ready [unfolded demo_graph_eval]

lemmas demo_runtimes = demo_stopped_def demo_known_def demo_sent_def demo_pending_def demo_fresh_def

lemma runtime_reachable_exec: "runtime_reachable r \<Longrightarrow> runtime_reachable (snd (runtime_exec w c r))"
  by (metis nx_call prod.collapse rr_next)

lemma demo_reachables:
  "runtime_reachable demo_fresh" "runtime_reachable demo_pending" "runtime_reachable demo_sent"
  "runtime_reachable demo_known" "runtime_reachable demo_stopped"
proof -
  note exec = runtime_reachable_exec
  show fresh: "runtime_reachable demo_fresh" by (rule rr_start [OF demo_reachable demo_starts])
  show pending: "runtime_reachable demo_pending" unfolding demo_pending_def by (rule exec [OF fresh])
  show sent: "runtime_reachable demo_sent" unfolding demo_sent_def by (rule exec [OF pending])
  show "runtime_reachable demo_known" unfolding demo_known_def by (rule exec [OF sent])
  show "runtime_reachable demo_stopped" unfolding demo_stopped_def by (rule exec [OF pending])
qed

lemma demo_states:
  "journal_state (rt_journal demo_pending) demo_op = Prepared"
  "journal_state (rt_journal demo_sent) demo_op = OutcomeUnknown"
  "journal_state (rt_journal demo_known) demo_op = OutcomeKnown Succeeded"
  "rt_cancelled demo_stopped = {|Id ''a''|}"
  by (simp_all add: demo_runtimes runtime_eval)

subsection \<open>The view in memory\<close>

lemma durable_state_of: "durable_state r = Ok st \<longleftrightarrow> durable_of r = Some st"
  by (simp add: durable_state_def durable_of_def)

lemma reachable_durable:
  assumes "runtime_reachable r" and "durable_state r = Ok st"
  shows "rt_ok r st"
  using runtime_reachable_ok [OF assms(1)] assms(2) by (auto simp: durable_state_of rt_ok_def mirror_ok_def)

lemma runtime_mirrors_store_loaded: "runtime_reachable r \<Longrightarrow> \<exists>st. durable_state r = Ok st"
  using runtime_reachable_ok [of r] by (auto simp: durable_state_of rt_ok_def mirror_ok_def)

text \<open>
  C9: in every runtime a process can have, after any calls and restarts, the store holds the run at the
  revision the runtime remembers, the journal in memory answers every query as the durable facts do,
  and the cancelled tasks are those durably cancelled: a failed commit leaves no trace in memory and a
  successful one is never lost from it.
\<close>

theorem runtime_mirrors_store:
  assumes "runtime_reachable r"
  shows "\<exists>st. durable_state r = Ok st \<and> ds_revision st = rt_store_revision r \<and>
    dj_intents (rt_journal r) = ds_intents st \<and>
    journal_operation_for_task (rt_journal r) = run_operation_for_task st \<and>
    latest_dispatch (rt_journal r) = run_latest_dispatch st \<and>
    known_outcome (rt_journal r) = run_latest_outcome st \<and>
    journal_state (rt_journal r) = run_effect_state st \<and>
    rt_cancelled r = fmdom (ds_cancellations st)"
proof -
  from runtime_reachable_ok [OF assms] obtain st where ok: "mirror_ok r st" by (auto simp: rt_ok_def)
  note q = mirror_ok_queries [OF ok] mirror_okD [OF ok]
  show ?thesis by (intro exI [of _ st]) (auto simp: durable_state_of q fun_eq_iff)
qed

theorem runtime_mirrors_store_witness:
  "\<exists>st. durable_state demo_sent = Ok st \<and> run_effect_state st demo_op = OutcomeUnknown"
proof -
  from runtime_mirrors_store [OF demo_reachables(3)] obtain st where
    "durable_state demo_sent = Ok st" "journal_state (rt_journal demo_sent) = run_effect_state st" by blast
  with demo_states(2) show ?thesis by auto
qed

text \<open>
  C10: no public call panics, on any runtime a process can have and whatever the scopes are: the
  \<open>expect\<close>s and \<open>unreachable!\<close>s of the coordinator and of everything it calls are never hit.
\<close>

theorem coordinator_never_panics:
  assumes "runtime_reachable r"
  shows "fst (runtime_exec w c r) \<noteq> Panic"
proof -
  from runtime_reachable_ok [OF assms] obtain st where ok: "rt_ok r st" by blast
  obtain x r' where x: "runtime_exec w c r = (x, r')" by fastforce
  from runsD(1) [OF runs_runtime_exec [OF ok] x] x show ?thesis by simp
qed

theorem coordinator_never_panics_witness:
  "fst (runtime_exec demo_world (CallRecover demo_op) demo_known) \<noteq> Panic"
  by (rule coordinator_never_panics [OF demo_reachables(4)])

text \<open>
  C31: the attempts of a run are numbered 1, 2, 3, ... in the order of their durable admission, over all
  restarts, without gap, reuse or wrap-around: the next number is one more than the number of
  admissions until the largest \<open>u64\<close>, where it stops.
\<close>

theorem attempts_numbered:
  assumes "runtime_reachable r" and "durable_state r = Ok st"
  shows "map aa_attempt (ds_admission_history st) =
      map (attempt_nth (rt_run r)) [1..<Suc (length (ds_admission_history st))] \<and>
    distinct (map aa_attempt (ds_admission_history st)) \<and>
    length (ds_admission_history st) < 2 ^ 64 \<and>
    unat (rt_next_attempt r) = min (Suc (length (ds_admission_history st))) (2 ^ 64 - 1)"
proof -
  have n: "numbered (rt_run r) (rt_next_attempt r) st" by (rule rt_okD(3) [OF reachable_durable [OF assms]])
  then have "map aa_attempt (ds_admission_history st) =
      map (attempt_nth (rt_run r)) (map Suc [0..<length (ds_admission_history st)])"
    unfolding numbered_def map_map o_def by blast
  also have "map Suc [0..<length (ds_admission_history st)] = [1..<Suc (length (ds_admission_history st))]"
    by (simp only: map_Suc_upt One_nat_def)
  finally have ids: "map aa_attempt (ds_admission_history st) =
      map (attempt_nth (rt_run r)) [1..<Suc (length (ds_admission_history st))]" .
  have "distinct (map (attempt_nth (rt_run r)) [1..<Suc (length (ds_admission_history st))])"
    by (simp only: distinct_map distinct_upt) (simp add: inj_on_def)
  with ids n show ?thesis unfolding numbered_def by simp
qed

theorem attempts_numbered_witness:
  "\<exists>st. durable_state demo_sent = Ok st \<and> map aa_attempt (ds_admission_history st) = [attempt_nth demo_run 1]"
proof -
  obtain st where st: "durable_state demo_sent = Ok st" "length (ds_admission_history st) = 1"
    by (simp add: demo_runtimes runtime_eval)
  have "rt_run demo_sent = demo_run" by (simp add: demo_runtimes runtime_eval)
  with attempts_numbered [OF demo_reachables(3) st(1)] st show ?thesis by simp
qed

subsection \<open>Dispatches, cancellations and outcomes\<close>

text \<open>
  C11: a non-idempotent effect is dispatched at most once in the whole life of a run, over any calls,
  failures and restarts.
\<close>

theorem non_idempotent_dispatched_once:
  assumes "runtime_reachable r" and "durable_state r = Ok st"
    and "fmlookup (ds_intents st) i = Some it" and "ei_semantics it = NonIdempotent"
  shows "length (run_dispatches st i) \<le> 1"
  using rt_okD(5) [OF reachable_durable [OF assms(1,2)]] assms(3,4) by (simp add: disciplined_def)

theorem non_idempotent_dispatched_once_witness:
  "\<exists>st. durable_state demo_sent = Ok st \<and> length (run_dispatches st demo_op) \<le> 1"
proof -
  obtain st where st: "durable_state demo_sent = Ok st" "fmlookup (ds_intents st) demo_op = Some demo_intent"
    by (simp add: demo_runtimes runtime_eval)
  from non_idempotent_dispatched_once [OF demo_reachables(3) st] st show ?thesis by (simp add: demo_intent_def)
qed

text \<open>
  C13: a cancellation is final.  Whatever calls and restarts follow, the task stays cancelled, no attempt
  of it is admitted any more, and no dispatch of it is added.
\<close>

theorem cancellation_is_final:
  assumes "runtime_reachable r" and "durable_state r = Ok st" and "t |\<in>| rt_cancelled r"
    and "runtime_next\<^sup>*\<^sup>* r r'" and "durable_state r' = Ok st'"
  shows "t |\<in>| rt_cancelled r' \<and>
    filter (\<lambda>ad. aa_task ad = t) (ds_admission_history st') = filter (\<lambda>ad. aa_task ad = t) (ds_admission_history st) \<and>
    (\<forall>d \<in> set (ds_dispatch_history st') - set (ds_dispatch_history st).
       \<forall>ad. fmlookup (ds_admissions st') (dr_attempt d) = Some ad \<longrightarrow> aa_task ad \<noteq> t)"
proof -
  note ok = reachable_durable [OF assms(1,2)]
  from runtime_later_ok [OF assms(4) ok] assms(5) have ok': "rt_ok r' st'" and after: "run_after st st'"
    by (auto simp: durable_state_of rt_ok_def mirror_ok_def)
  have c: "run_is_cancelled st t" using mirror_ok_queries(6) [OF rt_okD(2) [OF ok]] assms(3) by simp
  then have "t |\<in>| rt_cancelled r'"
    using mirror_ok_queries(6) [OF rt_okD(2) [OF ok']] run_after_cancelled [OF after] by simp
  moreover from after obtain xs where "ds_admission_history st' = ds_admission_history st @ xs"
    "\<forall>ad \<in> set xs. \<not> run_is_cancelled st (aa_task ad)" by (auto simp: run_after_def)
  then have "filter (\<lambda>ad. aa_task ad = t) (ds_admission_history st') =
      filter (\<lambda>ad. aa_task ad = t) (ds_admission_history st)"
    using c by (auto simp: filter_empty_conv)
  moreover from after obtain ys where "ds_dispatch_history st' = ds_dispatch_history st @ ys"
    "\<forall>d \<in> set ys. \<forall>ad. fmlookup (ds_admissions st') (dr_attempt d) = Some ad \<longrightarrow> \<not> run_is_cancelled st (aa_task ad)"
    unfolding run_after_def run_extends_def by blast
  then have "\<forall>d \<in> set (ds_dispatch_history st') - set (ds_dispatch_history st).
       \<forall>ad. fmlookup (ds_admissions st') (dr_attempt d) = Some ad \<longrightarrow> aa_task ad \<noteq> t"
    using c by auto
  ultimately show ?thesis by blast
qed

theorem cancellation_is_final_witness:
  "\<exists>st'. durable_state (snd (runtime_exec demo_world CallRun demo_stopped)) = Ok st' \<and>
     Id ''a'' |\<in>| rt_cancelled (snd (runtime_exec demo_world CallRun demo_stopped)) \<and>
     length (filter (\<lambda>ad. aa_task ad = Id ''a'') (ds_admission_history st')) = 1"
proof -
  let ?r = "snd (runtime_exec demo_world CallRun demo_stopped)"
  obtain st where st: "durable_state demo_stopped = Ok st"
    "length (filter (\<lambda>ad. aa_task ad = Id ''a'') (ds_admission_history st)) = 1"
    by (simp add: demo_runtimes runtime_eval)
  have later: "runtime_next\<^sup>*\<^sup>* demo_stopped ?r" by (metis nx_call prod.collapse r_into_rtranclp)
  from runtime_mirrors_store_loaded [OF runtime_reachable_exec [OF demo_reachables(5)], of demo_world CallRun]
  obtain st' where st': "durable_state ?r = Ok st'" by blast
  have "Id ''a'' |\<in>| rt_cancelled demo_stopped" by (simp add: demo_states)
  from cancellation_is_final [OF demo_reachables(5) st(1) this later st'] st(2) st' show ?thesis by auto
qed

text \<open>
  A known outcome is final.  Once the latest dispatch of an operation has a recorded outcome, no
  call and no restart ever changes it or makes it unknown again: the coordinator never uses the
  journal's leave to dispatch after an outcome.
\<close>

theorem known_outcome_is_final:
  assumes "runtime_reachable r" and "journal_state (rt_journal r) i = OutcomeKnown k"
    and "runtime_next\<^sup>*\<^sup>* r r'"
  shows "journal_state (rt_journal r') i = OutcomeKnown k"
  using assms(3)
proof (induction rule: rtranclp_induct)
  case base
  show ?case by (rule assms(2))
next
  case (step r1 r2)
  from runtime_reachable_ok [OF assms(1)] runtime_later_ok [OF step(1)] obtain st where ok: "rt_ok r1 st" by blast
  from step(2) show ?case
  proof cases
    case (nx_call w c x)
    have "coord_step\<^sup>*\<^sup>* r1 r2" by (rule runsD(2) [OF runs_runtime_exec [OF ok] nx_call])
    then show ?thesis by (induction rule: rtranclp_induct) (use step.IH coord_step_known in auto)
  next
    case (nx_restart g w scope configs)
    from rt_ok_restore [OF reachable_graph_inv [OF nx_restart(1)] ok nx_restart(2)] have "rt_ok r2 st" by simp
    with step.IH mirror_ok_queries(3) [OF rt_okD(2)] ok show ?thesis by metis
  qed
qed

theorem known_outcome_is_final_witness:
  "journal_state (rt_journal (snd (runtime_exec demo_world (CallDispatch demo_op) demo_known))) demo_op =
     OutcomeKnown Succeeded"
  by (rule known_outcome_is_final [OF demo_reachables(4) demo_states(3)]) (metis nx_call prod.collapse r_into_rtranclp)

text \<open>
  C12: a call completes a task that owns an external effect only when the latest dispatch of that effect
  has a recorded success, also when it completes many tasks in a row.
\<close>

theorem completed_only_on_success:
  assumes "runtime_reachable r" and "runtime_exec w c r = (x, r')"
    and "graph_is_completed (rt_workflow r') t" and "\<not> graph_is_completed (rt_workflow r) t"
    and "journal_operation_for_task (rt_journal r') t = Some i"
  shows "journal_state (rt_journal r') i = OutcomeKnown Succeeded"
proof -
  from runtime_reachable_ok [OF assms(1)] obtain st where ok: "rt_ok r st" by blast
  from coord_steps_completions [OF runsD(2) [OF runs_runtime_exec [OF ok] assms(2)] ok assms(3,4)] assms(5)
  show ?thesis by (simp add: completed_on_success_def)
qed

theorem completed_only_on_success_witness:
  "journal_state (rt_journal (snd (runtime_exec demo_world CallStep demo_known))) demo_op = OutcomeKnown Succeeded"
proof -
  let ?r = "snd (runtime_exec demo_world CallStep demo_known)"
  have "graph_is_completed (rt_workflow ?r) (Id ''a'')" "\<not> graph_is_completed (rt_workflow demo_known) (Id ''a'')"
    "journal_operation_for_task (rt_journal ?r) (Id ''a'') = Some demo_op"
    by (simp_all add: demo_runtimes runtime_eval complete_with_def complete_in_workflow_def
        demo_complete [unfolded demo_graph_eval] demo_done_def with_completion_def emit_completed_def)
  from completed_only_on_success [OF demo_reachables(4) _ this, of demo_world CallStep] show ?thesis
    by (metis prod.collapse)
qed

end
