(* ===== verification/Runtime_Scheduler_Properties.thy ===== *)
theory Runtime_Scheduler_Properties
  imports Runtime_Properties
begin

text \<open>
  What single operations of the coordinator do: the scheduler loop runs to a stop and reports exactly
  the tasks it completed, a dispatch is exact on every branch, a restart resumes the run as it was, and
  two ways in which the announcement of an attempt is lost.
\<close>

subsection \<open>The scheduler loop\<close>

lemma unfinished_exact:
  assumes "t \<in> set (ready_tasks g)"
  shows "unfinished g = Suc (unfinished (with_completion t g))"
proof -
  let ?A = "fset (fmdom (wt_tasks (wg_topology g)))" and ?B = "fset (ef_completed (wg_facts g))"
  have t: "t \<in> ?A - ?B"
    using assms by (auto simp: set_ready_tasks contains_task_def in_fmdom_iff fact_completed_def)
  have "?A - insert t ?B = (?A - ?B) - {t}" by auto
  with card_Suc_Diff1 [OF _ t] show ?thesis by (simp add: unfinished_def)
qed

lemma step_task_not_idle: "step_task w t r \<noteq> (Ok Idle, r')"
proof
  assume "step_task w t r = (Ok Idle, r')"
  then obtain operation r1 where "ensure_configured_effect t r = (Ok operation, r1)"
    and two: "(case operation of None \<Rightarrow> act_bind (resume_or_begin w t None) (complete_with t)
          | Some (i, _) \<Rightarrow> step_effect w t i) r1 = (Ok Idle, r')"
    by (auto simp: step_task_def act_bind_eq_Ok)
  show False
  proof (cases operation)
    case None
    with two show ?thesis by (auto simp: act_bind_eq_Ok dest!: complete_with_Ok)
  next
    case (Some p)
    with two show ?thesis
      by (cases p) (auto simp: step_effect_def act_bind_eq_Ok dest!: complete_with_Ok
          split: recovered_effect_state.splits known_effect_outcome.splits option.splits)
  qed
qed

lemma runtime_step_idle:
  assumes "runtime_step w r = (Ok Idle, r')"
  shows "r' = r \<and> (\<forall>t \<in> set (ready_tasks (rt_workflow r)). t |\<in>| rt_cancelled r)"
  using assms step_task_not_idle
  by (auto simp: runtime_step_def find_None_iff split: option.splits prod.splits)

lemma step_task_workflow:
  assumes "step_task w t r = (Ok res, r')" and "\<And>t a. res \<noteq> StepCompleted t a"
  shows "rt_workflow r' = rt_workflow r"
proof -
  from assms obtain operation r1 where one: "ensure_configured_effect t r = (Ok operation, r1)"
    and two: "(case operation of None \<Rightarrow> act_bind (resume_or_begin w t None) (complete_with t)
          | Some (i, _) \<Rightarrow> step_effect w t i) r1 = (Ok res, r')"
    by (auto simp: step_task_def act_bind_eq_Ok)
  have g: "rt_workflow r1 = rt_workflow r" using workflow_frame_ensure [of t r] one by simp
  show ?thesis
  proof (cases operation)
    case None
    with two assms(2) show ?thesis by (auto simp: act_bind_eq_Ok dest!: complete_with_Ok)
  next
    case (Some p)
    then obtain i where i: "step_effect w t i r1 = (Ok res, r')" using two by (cases p) simp
    have "rt_workflow r' = rt_workflow r1"
    proof (cases "journal_state (rt_journal r1) i = Prepared")
      case True
      with i obtain a where "resume_or_begin w t (Some i) r1 = (Ok a, r')"
        by (auto simp: step_effect_def act_bind_eq_Ok)
      with workflow_frame_resume [of w t "Some i" r1] show ?thesis by simp
    next
      case False
      with i assms(2) show ?thesis
        by (auto simp: step_effect_def dest!: complete_with_Ok
            split: recovered_effect_state.splits known_effect_outcome.splits option.splits)
    qed
    with g show ?thesis by simp
  qed
qed

lemma runtime_step_workflow:
  assumes "runtime_step w r = (Ok res, r')" and "\<And>t a. res \<noteq> StepCompleted t a"
  shows "rt_workflow r' = rt_workflow r"
  using assms(1) step_task_workflow [OF _ assms(2)] by (auto simp: runtime_step_def split: option.splits prod.splits)

lemma run_until_blocked_report:
  assumes "rt_ok r st" and "run_until_blocked w r = (Ok rs, r')"
  shows "\<exists>cs final. rs = map (\<lambda>(t, a). StepCompleted t a) cs @ [final] \<and> (\<forall>t a. final \<noteq> StepCompleted t a) \<and>
    (\<forall>t \<in> fst ` set cs. t |\<notin>| rt_cancelled r) \<and>
    unfinished (rt_workflow r) = unfinished (rt_workflow r') + length cs \<and>
    logged_tasks (rt_workflow r') = logged_tasks (rt_workflow r) @ map fst cs \<and>
    (final = Idle \<longrightarrow> (\<forall>t \<in> set (ready_tasks (rt_workflow r')). t |\<in>| rt_cancelled r'))"
  using assms
proof (induction w r arbitrary: st rs r' rule: run_until_blocked.induct)
  case (1 w r)
  obtain x r1 where x: "runtime_step w r = (x, r1)" by fastforce
  from "1.prems"(2) x obtain res where res: "x = Ok res"
    by (cases x) (auto simp: run_until_blocked.simps [of w r])
  note d = runsD [OF runs_runtime_step [OF "1.prems"(1)] x]
  from coord_steps_ok [OF d(2) "1.prems"(1)] obtain st1 where st1: "rt_ok r1 st1" "run_after st st1" by blast
  show ?case
  proof (cases "\<exists>t a. res = StepCompleted t a")
    case True
    then obtain t a where ta: "res = StepCompleted t a" by blast
    with "1.prems"(2) x res obtain rs1 where rest: "run_until_blocked w r1 = (Ok rs1, r')" "rs = res # rs1"
      by (auto simp: run_until_blocked.simps [of w r] split: prod.splits res.splits)
    from d(3) [OF res] ta have now: "t |\<notin>| rt_cancelled r" "completed_now t r r1" by simp_all
    from "1.IH" [OF x [symmetric] res ta st1(1) rest(1)] obtain cs final where
      rs1: "rs1 = map (\<lambda>(t, a). StepCompleted t a) cs @ [final]" "\<forall>t a. final \<noteq> StepCompleted t a"
      and free: "\<forall>t \<in> fst ` set cs. t |\<notin>| rt_cancelled r1"
      and count: "unfinished (rt_workflow r1) = unfinished (rt_workflow r') + length cs"
      and log: "logged_tasks (rt_workflow r') = logged_tasks (rt_workflow r1) @ map fst cs"
      and idle: "final = Idle \<longrightarrow> (\<forall>t \<in> set (ready_tasks (rt_workflow r')). t |\<in>| rt_cancelled r')"
      by blast
    have mono: "k |\<in>| rt_cancelled r \<Longrightarrow> k |\<in>| rt_cancelled r1" for k
      using run_after_cancelled [OF st1(2)] mirror_ok_queries(6) [OF rt_okD(2)] st1(1) "1.prems"(1) by blast
    have "unfinished (rt_workflow r) = unfinished (rt_workflow r') + length ((t, a) # cs)"
      using now(2) count unfinished_exact [of t "rt_workflow r"] by (simp add: completed_now_def)
    moreover have "logged_tasks (rt_workflow r') = logged_tasks (rt_workflow r) @ map fst ((t, a) # cs)"
      using now(2) log by (simp add: completed_now_def)
    moreover have "\<forall>k \<in> fst ` set ((t, a) # cs). k |\<notin>| rt_cancelled r" using now(1) free mono by auto
    moreover have "rs = map (\<lambda>(t, a). StepCompleted t a) ((t, a) # cs) @ [final]" using rest(2) rs1(1) ta by simp
    ultimately show ?thesis using rs1(2) idle by (intro exI [of _ "(t, a) # cs"] exI [of _ final]) simp
  next
    case False
    with run_until_blocked_stops(1) [of w r res r1] x res have stop: "run_until_blocked w r = (Ok [res], r1)" by simp
    have "rt_workflow r1 = rt_workflow r" using runtime_step_workflow [OF x [unfolded res]] False by auto
    moreover have "\<forall>t \<in> set (ready_tasks (rt_workflow r1)). t |\<in>| rt_cancelled r1" if "res = Idle"
      using runtime_step_idle x res that by blast
    ultimately show ?thesis
      using stop "1.prems"(2) False by (intro exI [of _ "[]"] exI [of _ res]) auto
  qed
qed

text \<open>
  C32: \<open>run_until_blocked\<close> comes to a stop on every reachable runtime, whatever its graph: it does not
  panic, and when it succeeds it reports the tasks it completed, none of them cancelled, in the order in
  which the completion log records them, then one result that is no completion.  It makes one step more
  than it completes tasks, so at most as many as there are unfinished tasks plus one; if it ends idle,
  every task still ready is cancelled.
\<close>

theorem run_until_blocked_stops_and_reports:
  assumes "runtime_reachable r"
  shows "case run_until_blocked w r of
      (Panic, _) \<Rightarrow> False
    | (Err e, _) \<Rightarrow> True
    | (Ok rs, r') \<Rightarrow>
        (\<exists>cs final. rs = map (\<lambda>(t, a). StepCompleted t a) cs @ [final] \<and> (\<forall>t a. final \<noteq> StepCompleted t a) \<and>
           length rs \<le> unfinished (rt_workflow r) + 1 \<and>
           unfinished (rt_workflow r) = unfinished (rt_workflow r') + length cs \<and>
           logged_tasks (rt_workflow r') = logged_tasks (rt_workflow r) @ map fst cs \<and>
           (\<forall>t \<in> fst ` set cs. t |\<notin>| rt_cancelled r) \<and>
           (final = Idle \<longrightarrow> (\<forall>t \<in> set (ready_tasks (rt_workflow r')). t |\<in>| rt_cancelled r')))"
proof -
  from runtime_reachable_ok [OF assms] obtain st where ok: "rt_ok r st" by blast
  obtain x r' where x: "run_until_blocked w r = (x, r')" by fastforce
  show ?thesis
  proof (cases x)
    case (Ok rs)
    with x have "run_until_blocked w r = (Ok rs, r')" by simp
    from run_until_blocked_report [OF ok this] x Ok show ?thesis by fastforce
  next
    case Panic
    with runsD(1) [OF runs_run_until_blocked [OF ok] x] show ?thesis by simp
  qed (use x in simp)
qed

theorem run_until_blocked_stops_and_reports_witness:
  "\<exists>rs r'. run_until_blocked demo_world demo_stopped = (Ok rs, r') \<and> length rs \<le> 3"
proof -
  have "runtime_step demo_world demo_stopped = (Ok Idle, demo_stopped)"
    by (simp add: demo_runtimes runtime_eval)
  then have "run_until_blocked demo_world demo_stopped = (Ok [Idle], demo_stopped)"
    by (intro run_until_blocked_stops) simp_all
  moreover have "unfinished (rt_workflow demo_stopped) \<le> 2"
    by (simp add: demo_runtimes runtime_eval unfinished_def card_insert_if)
  ultimately show ?thesis
    using run_until_blocked_stops_and_reports [OF demo_reachables(5), of demo_world] by auto
qed

subsection \<open>Dispatch\<close>

lemma journal_frames [simp]:
  "rt_journal (snd (commit_durable key ms r)) = rt_journal r"
  "rt_journal (snd (emit_execution ev r)) = rt_journal r"
  "rt_journal (snd (announce_start a item r)) = rt_journal r"
  by (simp_all add: commit_durable_def emit_execution_def announce_start_def enqueue_execution_def
      lossless_try_push_def split: res.split prod.split)

lemma journal_frame_start [simp]: "rt_journal (snd (start_attempt a r)) = rt_journal r"
  by (simp add: start_attempt_def act_bind_frame [of rt_journal] split: option.split)

lemma journal_frame_begin [simp]: "rt_journal (snd (begin_attempt w t op r)) = rt_journal r"
  by (auto simp: begin_attempt_def Let_def intro!: act_bind_frame split: res.split)

lemma journal_frame_dispatch_attempt [simp]: "rt_journal (snd (dispatch_attempt w it i r)) = rt_journal r"
  by (simp add: dispatch_attempt_def resume_or_begin_def split: recovered_effect_state.split option.split)

lemma admit_and_commit_Err:
  "admit_and_commit f key m r = (Err e, r') \<Longrightarrow> rt_journal r' = rt_journal r"
  by (auto simp: admit_and_commit_def act_bind_def commit_durable_def split: res.splits prod.splits)

lemma dispatch_effect_Err:
  assumes "dispatch_effect w i r = (Err e, r')"
  shows "rt_journal r' = rt_journal r"
proof (cases "journal_intent (rt_journal r) i")
  case (Ok it)
  obtain x r1 where x: "dispatch_attempt w it i r = (x, r1)" by fastforce
  have r1: "rt_journal r1 = rt_journal r" using journal_frame_dispatch_attempt [of w it i r] x by simp
  show ?thesis
  proof (cases "ei_task it |\<in>| rt_cancelled r")
    case False
    show ?thesis
    proof (cases x)
      case (Ok a)
      let ?d = "\<lparr>dr_operation = i, dr_attempt = a\<rparr>"
      obtain y r2 where y: "admit_and_commit (FactDispatch ?d) (''dispatch:'' @ show_attempt a) (RecordDispatch ?d) r1 = (y, r2)"
        by fastforce
      have "dispatch_effect w i r = act_bind (admit_and_commit (FactDispatch ?d) (''dispatch:'' @ show_attempt a)
          (RecordDispatch ?d)) (\<lambda>_ r'. (Ok a, r')) r1"
        using \<open>journal_intent (rt_journal r) i = _\<close> False x Ok by (simp add: dispatch_effect_def act_bind_def Let_def)
      with assms y have "y = Err e" "r2 = r'" by (cases y; simp add: act_bind_def)+
      with y admit_and_commit_Err r1 show ?thesis by metis
    qed (use assms Ok False x r1 in \<open>auto simp: dispatch_effect_def act_bind_def\<close>)
  qed (use assms Ok in \<open>auto simp: dispatch_effect_def\<close>)
qed (use assms in \<open>auto simp: dispatch_effect_def\<close>)

lemma mirror_attempts: "mirror_ok r st \<Longrightarrow> map dr_attempt (run_dispatches st k) = attempts_of (rt_journal r) k"
  by (simp add: mirror_ok_def mirrors_def)

text \<open>
  \<open>dispatch_effect\<close> is exact.  It succeeds only for a recorded intent of a task that is not
  cancelled, when the effect was never dispatched, or its outcome is unknown and it is idempotent; it
  then adds exactly one durable dispatch, of the attempt it returns, and the outcome becomes unknown.
  On an error no dispatch of any operation was added.
\<close>

theorem dispatch_effect_exact:
  assumes "runtime_reachable r" and "durable_state r = Ok st"
  shows "case dispatch_effect w i r of
      (Ok a, r') \<Rightarrow>
        (\<exists>it st'. fmlookup (ds_intents st) i = Some it \<and> ei_task it |\<notin>| rt_cancelled r \<and>
           (run_effect_state st i = Prepared \<or> run_effect_state st i = OutcomeUnknown \<and> ei_semantics it = Idempotent) \<and>
           durable_state r' = Ok st' \<and> run_effect_state st' i = OutcomeUnknown \<and>
           (\<forall>k. map dr_attempt (run_dispatches st' k) =
              map dr_attempt (run_dispatches st k) @ (if k = i then [a] else [])))
    | (Err e, r') \<Rightarrow>
        (\<exists>st'. durable_state r' = Ok st' \<and>
           (\<forall>k. map dr_attempt (run_dispatches st' k) = map dr_attempt (run_dispatches st k)))
    | (Panic, _) \<Rightarrow> False"
proof -
  note ok = reachable_durable [OF assms]
  note q = mirror_ok_queries [OF rt_okD(2) [OF ok]]
  obtain x r' where x: "dispatch_effect w i r = (x, r')" by fastforce
  note d = runsD [OF runs_dispatch_effect [OF ok] x]
  from coord_steps_ok [OF d(2) ok] obtain st' where ok': "rt_ok r' st'" by blast
  then have st': "durable_state r' = Ok st'" by (simp add: durable_state_of rt_ok_def mirror_ok_def)
  note q' = mirror_ok_queries [OF rt_okD(2) [OF ok']]
  note att = mirror_attempts [OF rt_okD(2) [OF ok]] mirror_attempts [OF rt_okD(2) [OF ok']]
  show ?thesis
  proof (cases x)
    case (Ok a)
    from d(3) [OF Ok] obtain r1 where "same_plan r r1"
      "fact_admitted (FactDispatch \<lparr>dr_operation = i, dr_attempt = a\<rparr>) r1 r'" by blast
    then have p: "persist_dispatch \<lparr>dr_operation = i, dr_attempt = a\<rparr> (rt_journal r) = (Ok (), rt_journal r')"
      by (simp add: fact_admitted_def same_plan_def)
    define j where "j = rt_journal r'"
    have "attempts_of j k = attempts_of (rt_journal r) k @ (if k = i then [a] else [])" for k
      using p unfolding j_def [symmetric]
      by (cases rule: persist_dispatch_cases [of "rt_journal r" "\<lparr>dr_operation = i, dr_attempt = a\<rparr>"])
        (auto simp: attempts_of_def)
    then have atts: "\<forall>k. map dr_attempt (run_dispatches st' k) =
        map dr_attempt (run_dispatches st k) @ (if k = i then [a] else [])"
      by (simp add: att j_def)
    obtain it where it: "fmlookup (ds_intents st) i = Some it"
      using x Ok by (cases "fmlookup (ds_intents st) i") (simp_all add: dispatch_effect_def journal_intent_def q)
    have free: "ei_task it |\<notin>| rt_cancelled r"
      using x Ok it by (auto simp: dispatch_effect_def journal_intent_def q split: if_splits)
    have guard: "run_effect_state st i = Prepared \<or>
        run_effect_state st i = OutcomeUnknown \<and> ei_semantics it = Idempotent"
    proof -
      have "\<exists>u. dispatch_attempt w it i r = u \<and> is_ok (fst u)"
        using x Ok it free
        by (cases "dispatch_attempt w it i r"; cases "fst (dispatch_attempt w it i r)")
          (auto simp: dispatch_effect_def journal_intent_def q act_bind_def)
      then show ?thesis
        by (cases "ei_semantics it"; cases "run_effect_state st i") (auto simp: dispatch_attempt_def q)
    qed
    have "run_effect_state st' i = OutcomeUnknown"
    proof -
      have "has_key (dj_intents j) i \<and> latest_dispatch j i = Some \<lparr>dr_operation = i, dr_attempt = a\<rparr> \<and>
          fmlookup (dj_outcomes j) a = fmlookup (dj_outcomes (rt_journal r)) a \<and>
          fmlookup (dj_dispatches (rt_journal r)) a = None \<and> known_outcome j i = fmlookup (dj_outcomes j) a"
        using p unfolding j_def [symmetric]
        by (cases rule: persist_dispatch_cases [of "rt_journal r" "\<lparr>dr_operation = i, dr_attempt = a\<rparr>"])
          (auto simp: attempts_of_def latest_dispatch_def known_outcome_def)
      moreover have "fmlookup (dj_outcomes (rt_journal r)) a = None" if "fmlookup (dj_dispatches (rt_journal r)) a = None"
      proof (rule ccontr)
        assume "fmlookup (dj_outcomes (rt_journal r)) a \<noteq> None"
        then obtain oc where "fmlookup (ds_outcomes st) a = Some oc"
          using mirror_okD(4) [OF rt_okD(2) [OF ok]] by (auto simp: mirrors_def)
        moreover have facts: "run_outcomes_ok st"
          using mirror_okD(7) [OF rt_okD(2) [OF ok]] by (simp add: facts_ok_def)
        ultimately have "oc \<in> set (ds_outcome_history st)" "oc_attempt oc = a"
          unfolding run_outcomes_ok_def ledger_def by blast+
        with facts have "fmlookup (ds_dispatches st) a \<noteq> None" unfolding run_outcomes_ok_def by blast
        with that mirror_okD(4) [OF rt_okD(2) [OF ok]] show False by (simp add: mirrors_def)
      qed
      ultimately have "journal_state j i = OutcomeUnknown" by (simp add: jv.state_OutcomeUnknown)
      then show ?thesis by (simp add: j_def q')
    qed
    with x Ok it free guard st' atts show ?thesis by auto
  next
    case (Err e)
    with x dispatch_effect_Err [of w i r e r'] st' att show ?thesis by auto
  next
    case Panic
    with d(1) show ?thesis by simp
  qed
qed

theorem dispatch_effect_exact_witness:
  "\<exists>st. durable_state demo_sent = Ok st \<and>
     map dr_attempt (run_dispatches st demo_op) = [attempt_nth demo_run 1]"
proof -
  obtain st where st: "durable_state demo_pending = Ok st" "run_dispatches st demo_op = []"
    by (simp add: demo_runtimes runtime_eval run_dispatches_def)
  have "dispatch_effect demo_world demo_op demo_pending = (Ok (attempt_nth demo_run 1), demo_sent)"
    unfolding demo_sent_def runtime_exec.simps no_value_def
    by (simp add: demo_runtimes runtime_eval)
  with dispatch_effect_exact [OF demo_reachables(2) st(1), where w = demo_world and i = demo_op] st(2)
  show ?thesis by auto
qed

subsection \<open>Restart\<close>

text \<open>What the pins captured for a restart satisfy.\<close>

lemma capture_expected:
  assumes "capture_capability_pins w r t (Some xs) = Ok pins"
  shows "fcard (fmdom (expected_identities xs)) = length pins \<and>
    (\<forall>p \<in> set pins. fmlookup (expected_identities xs) (cp_capability p) = Some (cp_replay_identity p))"
  using assms by (auto simp: capture_capability_pins_def pins_match_def Let_def list_all_iff split: if_splits)

lemma expected_identities_in: "fmlookup (expected_identities xs) i = Some x \<Longrightarrow> x \<in> set xs \<and> cri_capability x = i"
  by (auto simp: expected_identities_def fmlookup_of_list dest!: map_of_SomeD)

lemma capture_each_pins:
  "capture_each w c t xs = Ok pins \<Longrightarrow> map cp_capability pins = map fst xs \<and>
   (\<forall>p \<in> set pins. context_get w c (cp_capability p) = Some (cp_handle p) \<and>
      cp_generation p = h_generation (cp_handle p) \<and> cp_entry_id p = h_entry_id (cp_handle p) \<and>
      cp_replay_identity p = \<lparr>cri_capability = cp_capability p, cri_definition = h_replay_identity (cp_handle p)\<rparr>)"
  by (induction w c t xs arbitrary: pins rule: capture_each.induct) (auto split: option.splits if_splits)

lemma capture_pins:
  assumes "capture_capability_pins w r t e = Ok pins"
  shows "map cp_capability pins = map fst (required_of r t)"
    "p \<in> set pins \<Longrightarrow> context_get w (rt_context r) (cp_capability p) = Some (cp_handle p)"
    "p \<in> set pins \<Longrightarrow> cp_replay_identity p =
       \<lparr>cri_capability = cp_capability p, cri_definition = h_replay_identity (cp_handle p)\<rparr>"
proof -
  from assms have "capture_each w (rt_context r) t (required_of r t) = Ok pins"
    by (auto simp: capture_capability_pins_def Let_def split: option.splits if_splits)
  from capture_each_pins [OF this]
  show "map cp_capability pins = map fst (required_of r t)"
    "p \<in> set pins \<Longrightarrow> context_get w (rt_context r) (cp_capability p) = Some (cp_handle p)"
    "p \<in> set pins \<Longrightarrow> cp_replay_identity p =
       \<lparr>cri_capability = cp_capability p, cri_definition = h_replay_identity (cp_handle p)\<rparr>" by auto
qed

lemma distinct_required: "distinct (map fst (required_of r t))"
  by (simp add: required_of_def comp_def split: option.split)

text \<open>The identities of the pins are exactly those that were admitted.\<close>

lemma pins_are_expected:
  assumes "capture_capability_pins w r t (Some xs) = Ok pins"
  shows "cp_replay_identity ` set pins = fmran' (expected_identities xs)"
proof -
  let ?m = "expected_identities xs"
  note e = capture_expected [OF assms]
  have "distinct (map cp_capability pins)"
    using capture_pins(1) [OF assms] distinct_required [of r t] by simp
  then have "card (cp_capability ` set pins) = fcard (fmdom ?m)"
    using e distinct_card [of "map cp_capability pins"] by simp
  moreover have "cp_capability ` set pins \<subseteq> fset (fmdom ?m)" using e by (auto simp: in_fmdom_iff)
  ultimately have dom: "cp_capability ` set pins = fset (fmdom ?m)"
    by (intro card_subset_eq) (simp_all add: fcard.rep_eq)
  show ?thesis
  proof
    show "cp_replay_identity ` set pins \<subseteq> fmran' ?m"
    proof
      fix x
      assume "x \<in> cp_replay_identity ` set pins"
      then obtain p where "p \<in> set pins" "x = cp_replay_identity p" by auto
      with e have "fmlookup ?m (cp_capability p) = Some x" by simp
      then show "x \<in> fmran' ?m" by (auto simp: fmlookup_ran'_iff)
    qed
    show "fmran' ?m \<subseteq> cp_replay_identity ` set pins"
    proof
      fix x
      assume "x \<in> fmran' ?m"
      then obtain i where i: "fmlookup ?m i = Some x" by (auto simp: fmlookup_ran'_iff)
      then have "i \<in> fset (fmdom ?m)" by (simp add: in_fmdom_iff)
      then have "i \<in> cp_capability ` set pins" unfolding dom .
      then obtain p where p: "p \<in> set pins" "cp_capability p = i" by auto
      with e i have "x = cp_replay_identity p" by auto
      with p(1) show "x \<in> cp_replay_identity ` set pins" by simp
    qed
  qed
qed

text \<open>
  C33: a restart resumes the run.  A runtime restored from the durable facts of another, whatever
  workflow, scope and configuration it is given, has the same store and revision, the same cancelled
  tasks and the same knowledge of every effect; it holds one attempt for every admission, in order,
  with the same task and operation, none waiting for the stream; each attempt pins, from the current
  context, capabilities with exactly the replay identities that were durably admitted; and the next
  attempt number is one more than the number of admissions.
\<close>

theorem restart_resumes:
  assumes "runtime_reachable r" and "durable_state r = Ok st" and "graph_reachable g"
    and "restore_run w (rt_run r) g scope configs (rt_store r) = Ok r'"
  shows "rt_store r' = rt_store r \<and> rt_store_revision r' = rt_store_revision r \<and>
    rt_cancelled r' = rt_cancelled r \<and> journal_state (rt_journal r') = journal_state (rt_journal r) \<and>
    rt_pending r' = None \<and>
    map ta_attempt (rt_attempts r') = map aa_attempt (ds_admission_history st) \<and>
    list_all2 (\<lambda>ad a. ta_task a = aa_task ad \<and> ta_operation a = aa_operation ad \<and>
       cp_replay_identity ` set (ta_pins a) = fmran' (expected_identities (aa_capabilities ad)) \<and>
       (\<forall>p \<in> set (ta_pins a). context_get w (context_from_scope scope) (cp_capability p) = Some (cp_handle p)))
      (ds_admission_history st) (rt_attempts r') \<and>
    unat (rt_next_attempt r') = Suc (length (ds_admission_history st))"
proof -
  note ok = reachable_durable [OF assms(1,2)]
  note d = mirror_okD [OF rt_okD(2) [OF ok]]
  have "rt_ok r' st"
    using rt_ok_restore [OF reachable_graph_inv [OF assms(3)] ok assms(4)] by simp
  note d' = mirror_okD [OF rt_okD(2) [OF this]] and q' = mirror_ok_queries(3) [OF rt_okD(2) [OF this]]
  from assms(4) obtain st' j where st': "load_run (rt_store r) (rt_run r) = Ok st'"
    and e: "rt_store r' = rt_store r" "rt_pending r' = None" "rt_context r' = context_from_scope scope"
    and n: "u64_checked_succ (of_nat (length (ds_admission_history st'))) = Some (rt_next_attempt r')"
    and as: "list_all2 (\<lambda>ad a. ta_run a = aa_run ad \<and> ta_task a = aa_task ad \<and> ta_attempt a = aa_attempt ad \<and>
       ta_operation a = aa_operation ad \<and>
       capture_capability_pins w r' (aa_task ad) (Some (aa_capabilities ad)) = Ok (ta_pins a))
     (ds_admission_history st') (rt_attempts r')"
    by (rule restore_run_Ok)
  have same: "st' = st" using st' d(2) by (simp add: durable_of_def)
  have ids: "map ta_attempt (rt_attempts r') = map aa_attempt (ds_admission_history st)"
    using as unfolding same by (induction rule: list_all2_induct) auto
  have pins: "list_all2 (\<lambda>ad a. ta_task a = aa_task ad \<and> ta_operation a = aa_operation ad \<and>
       cp_replay_identity ` set (ta_pins a) = fmran' (expected_identities (aa_capabilities ad)) \<and>
       (\<forall>p \<in> set (ta_pins a). context_get w (context_from_scope scope) (cp_capability p) = Some (cp_handle p)))
      (ds_admission_history st) (rt_attempts r')"
    using as unfolding same
    by (rule list_all2_mono) (use pins_are_expected capture_pins(2) e(3) in fastforce)
  have "length (ds_admission_history st) < 2 ^ 64" using rt_okD(3) [OF ok] by (simp add: numbered_def)
  then have "unat (rt_next_attempt r') = Suc (length (ds_admission_history st))"
    using n unfolding same by (simp add: u64_checked_succ_Some unat_of_nat_u64)
  moreover have "journal_state (rt_journal r') = journal_state (rt_journal r)"
    using q' mirror_ok_queries(3) [OF rt_okD(2) [OF ok]] by (simp add: fun_eq_iff)
  ultimately show ?thesis using e(1,2) d(3,5) d'(3,5) ids pins by simp
qed

lemma demo_restarts:
  "\<exists>r'. restore_run demo_world (rt_run demo_sent) demo_graph (Root 0) [(Id ''a'', demo_config)] (rt_store demo_sent) = Ok r'"
  by (simp add: demo_runtimes runtime_eval restore_run_def from_durable_state_def run_intents_def bt_values_def
      kernis_eval build_def stream_id_def expect_def id_new_visible lossless_new_def coalescing_new_def
      lossy_new_def pins_match_def expected_identities_def fcard_fempty)

theorem restart_resumes_witness:
  "\<exists>r'. restore_run demo_world (rt_run demo_sent) demo_graph (Root 0) [(Id ''a'', demo_config)] (rt_store demo_sent) = Ok r' \<and>
     journal_state (rt_journal r') demo_op = OutcomeUnknown \<and> map ta_attempt (rt_attempts r') = [attempt_nth demo_run 1]"
proof -
  from demo_restarts obtain r' where
    r': "restore_run demo_world (rt_run demo_sent) demo_graph (Root 0) [(Id ''a'', demo_config)] (rt_store demo_sent) = Ok r'"
    by blast
  obtain st where st: "durable_state demo_sent = Ok st" "map aa_attempt (ds_admission_history st) = [attempt_nth demo_run 1]"
    by (simp add: demo_runtimes runtime_eval)
  from restart_resumes [OF demo_reachables(3) st(1) demo_reachable r'] st(2) demo_states(2) r'
  show ?thesis by auto
qed

subsection \<open>Announcements that are lost\<close>

text \<open>
  \<open>retry_execution_event\<close> ignores the item it is asked to retry while the start of an attempt is
  waiting: it enqueues the waiting item instead and reports success, so a completion event that was
  rejected before, and is handed back for a retry, is not in the lossless stream afterwards.
\<close>

theorem retry_ignores_its_item:
  assumes "rt_pending r = Some (a, waiting)" and "length (lb_items (rt_execution r)) \<noteq> lb_capacity (rt_execution r)"
  shows "retry_execution_event item r =
    (Ok (), r\<lparr>rt_pending := None, rt_attempts := rt_attempts r @ [a],
              rt_execution := (rt_execution r)\<lparr>lb_items := lb_items (rt_execution r) @ [waiting]\<rparr>\<rparr>)"
  using assms by (simp add: retry_execution_event_def enqueue_execution_def lossless_try_push_def)

definition demo_rejected :: "runtime_event stream_item" where
  "demo_rejected = \<lparr>si_stream = Id ''runtime-events'', si_sequence = Sequence 1,
     si_payload = TaskCompleted demo_run (Id ''a'') (attempt_nth demo_run 1)\<rparr>"

definition demo_waiting :: "unit runtime" where
  "demo_waiting = demo_fresh\<lparr>rt_pending :=
     Some (\<lparr>ta_run = demo_run, ta_task = Id ''b'', ta_attempt = attempt_nth demo_run 2, ta_operation = None, ta_pins = []\<rparr>,
           \<lparr>si_stream = Id ''runtime-events'', si_sequence = Sequence 2,
            si_payload = TaskStarted demo_run (Id ''b'') (attempt_nth demo_run 2)\<rparr>)\<rparr>"

theorem retry_ignores_its_item_witness:
  "fst (retry_execution_event demo_rejected demo_waiting) = Ok () \<and>
   demo_rejected \<notin> set (lb_items (rt_execution (snd (retry_execution_event demo_rejected demo_waiting))))"
proof -
  obtain a waiting where p: "rt_pending demo_waiting = Some (a, waiting)" "waiting \<noteq> demo_rejected"
    by (simp add: demo_waiting_def demo_rejected_def)
  have space: "lb_items (rt_execution demo_waiting) = []" "lb_capacity (rt_execution demo_waiting) = 128"
    by (simp_all add: demo_waiting_def demo_fresh_def)
  from retry_ignores_its_item [OF p(1), of demo_rejected] space p(2) show ?thesis by simp
qed

text \<open>
  C34: \<open>dispatch_effect\<close> overwrites an attempt whose start is waiting for the stream.  When the lossless
  stream is full and the start of another task's attempt is waiting, a dispatch that has to begin an
  attempt of its own puts it in the place of the waiting one: the first attempt, durably admitted, is
  then neither among the attempts nor waiting, and its start is never announced.
\<close>

theorem dispatch_loses_waiting_attempt:
  assumes waiting: "rt_pending r = Some (b, q)" "b \<notin> set (rt_attempts r)" "ta_task b \<noteq> ei_task it"
    and full: "length (lb_items (rt_execution r)) = lb_capacity (rt_execution r)"
    and effect: "fmlookup (dj_intents (rt_journal r)) i = Some it" "journal_state (rt_journal r) i = Prepared"
      "ei_task it |\<notin>| rt_cancelled r" "attempt_for_task r (ei_task it) (Some i) = None"
    and pins: "capture_capability_pins w r (ei_task it) None = Ok pins"
    and a: "a = \<lparr>ta_run = rt_run r, ta_task = ei_task it, ta_attempt = attempt_nth (rt_run r) (unat (rt_next_attempt r)),
      ta_operation = Some i, ta_pins = pins\<rparr>"
    and commits: "commit_durable (''admit:'' @ show_attempt (ta_attempt a)) [AdmitAttempt (admission_of a)] r = (Ok v, r1)"
    and more: "u64_checked_succ (rt_next_attempt r) = Some n" "\<not> sq_exhausted (rt_execution_sequencer r)"
  shows "\<exists>item r'. dispatch_effect w i r = (Err (RE_ExecutionBackpressure item), r') \<and>
    rt_pending r' = Some (a, item) \<and> b \<notin> set (held_attempts r')"
proof -
  have r1: "rt_execution r1 = rt_execution r" "rt_execution_sequencer r1 = rt_execution_sequencer r"
    "rt_attempts r1 = rt_attempts r" "rt_next_attempt r1 = rt_next_attempt r" "rt_run r1 = rt_run r"
    using commits by (auto simp: commit_durable_def split: res.splits prod.splits)
  obtain item sq where item: "sequencer_emit (TaskStarted (rt_run r) (ta_task a) (ta_attempt a)) (rt_execution_sequencer r) =
      (Ok item, sq)" using more(2) by (simp add: sequencer_emit_def Let_def)
  define r2 where "r2 = r1\<lparr>rt_next_attempt := n, rt_execution_sequencer := sq, rt_pending := Some (a, item)\<rparr>"
  have "start_attempt a r1 = (Err (RE_ExecutionBackpressure item), r2)"
    using more(1) r1 item full
    by (simp add: start_attempt_def act_bind_def emit_execution_def announce_start_def enqueue_execution_def
        lossless_try_push_def r2_def)
  then have "begin_attempt w (ei_task it) (Some i) r = (Err (RE_ExecutionBackpressure item), r2)"
    using pins commits unfolding begin_attempt_def attempt_id_new_name
    by (simp add: a Let_def act_bind_def)
  then have "dispatch_effect w i r = (Err (RE_ExecutionBackpressure item), r2)"
    using effect by (simp add: dispatch_effect_def journal_intent_def dispatch_attempt_def resume_or_begin_def act_bind_def)
  moreover have "b \<notin> set (held_attempts r2)" using waiting r1(3) by (auto simp: held_attempts_def r2_def a)
  ultimately show ?thesis by (auto simp: r2_def)
qed

definition demo_full :: "unit runtime" where
  "demo_full = (snd (runtime_exec demo_world (CallIntent (Id ''a'') demo_op NonIdempotent) demo_fresh))
     \<lparr>rt_pending := rt_pending demo_waiting, rt_execution := \<lparr>lb_capacity = 1, lb_items = [demo_rejected]\<rparr>\<rparr>"

theorem dispatch_loses_waiting_attempt_witness:
  "\<exists>item r' b. rt_pending demo_full = Some (b, the (map_option snd (rt_pending demo_waiting))) \<and>
     dispatch_effect demo_world demo_op demo_full = (Err (RE_ExecutionBackpressure item), r') \<and>
     b \<notin> set (held_attempts r')"
proof -
  note eval = demo_full_def demo_waiting_def demo_rejected_def demo_runtimes runtime_eval
  obtain b q where p: "rt_pending demo_waiting = Some (b, q)" "ta_task b = Id ''b''" by (simp add: demo_waiting_def)
  have w: "rt_pending demo_full = Some (b, q)" "rt_attempts demo_full = []"
    using p by (simp_all add: demo_full_def) (simp add: demo_runtimes runtime_eval)
  have run: "rt_run demo_full = demo_run" "rt_next_attempt demo_full = 1"
    by (simp_all add: eval)
  have e: "fmlookup (dj_intents (rt_journal demo_full)) demo_op = Some demo_intent"
    "journal_state (rt_journal demo_full) demo_op = Prepared" "ei_task demo_intent |\<notin>| rt_cancelled demo_full"
    "attempt_for_task demo_full (ei_task demo_intent) (Some demo_op) = None"
    "capture_capability_pins demo_world demo_full (ei_task demo_intent) None = Ok []"
    "length (lb_items (rt_execution demo_full)) = lb_capacity (rt_execution demo_full)"
    "u64_checked_succ (rt_next_attempt demo_full) = Some 2" "\<not> sq_exhausted (rt_execution_sequencer demo_full)"
    by (simp_all add: eval)
  define a :: "unit task_attempt" where "a = \<lparr>ta_run = rt_run demo_full, ta_task = ei_task demo_intent,
      ta_attempt = attempt_nth (rt_run demo_full) (unat (rt_next_attempt demo_full)),
      ta_operation = Some demo_op, ta_pins = []\<rparr>"
  obtain v r1 where c: "commit_durable (''admit:'' @ show_attempt (ta_attempt a)) [AdmitAttempt (admission_of a)] demo_full = (Ok v, r1)"
    by (simp add: a_def eval)
  from dispatch_loses_waiting_attempt [OF w(1) _ _ e(6) e(1-5) a_def c e(7,8)] w p show ?thesis
    by (auto simp: demo_intent_def)
qed

end
