(* ===== verification/Effect_Scope.thy ===== *)
theory Effect_Scope
  imports Capability_Context
begin

text \<open>
  The owned effects of \<open>crates/capability-graph/src/semantic.rs\<close>: \<open>ScopedEffect\<close>, \<open>EffectStack\<close>,
  \<open>EffectScope\<close>, \<open>EffectError\<close>.

  An \<open>EffectScope\<close> is an \<open>Arc\<close> of its stack: here an address into a heap of stacks, so that clones
  are equal addresses.  A disposer is code of the embedder (\<open>Foreign\<close>, a token whose behaviour is the
  parameter \<open>call\<close>: what the callback returns, and what the world is when it returns, whatever other
  tasks did in the meantime) or the closure that \<open>EffectScope::child\<close> makes (\<open>DisposeScope\<close>).  The
  world of the callbacks extends the heap, so the record of the heap is extensible.  A callback can
  register effects in a scope that is not yet disposed, so the disposal loop has no bound of its own:
  \<open>None\<close> stands for a disposal that never returns.
\<close>

subsection \<open>Effects and errors\<close>

datatype effect_scope = EffectScope nat

datatype 'd disposer = Foreign 'd | DisposeScope effect_scope

record 'd scoped_effect =
  se_label :: string
  se_disposer :: "'d disposer option"

definition effect_sync :: "string \<Rightarrow> 'd \<Rightarrow> 'd scoped_effect" where
  "effect_sync label d = \<lparr>se_label = label, se_disposer = Some (Foreign d)\<rparr>"

definition effect_asynchronous :: "string \<Rightarrow> 'd disposer \<Rightarrow> 'd scoped_effect" where
  "effect_asynchronous label d = \<lparr>se_label = label, se_disposer = Some d\<rparr>"

datatype effect_error =
    EffectClosed
  | DisposerFailed string string
  | EffectScopeError string

definition effect_error_from_scope :: "scope_error \<Rightarrow> effect_error" where
  "effect_error_from_scope e = EffectScopeError (show_scope_error e)"

fun show_effect_error :: "effect_error \<Rightarrow> string" where
  "show_effect_error EffectClosed = ''effect scope is closed''"
| "show_effect_error (DisposerFailed label reason) =
     ''effect '' @ label @ '' cleanup failed: '' @ reason"
| "show_effect_error (EffectScopeError reason) = reason"

subsection \<open>Stacks\<close>

record 'd effect_stack =
  es_effects :: "'d scoped_effect list"
  es_closed :: bool

definition effect_stack_new :: "'d effect_stack" where
  "effect_stack_new = \<lparr>es_effects = [], es_closed = False\<rparr>"

definition stack_push :: "'d scoped_effect \<Rightarrow> ('d effect_stack, unit, effect_error) act" where
  "stack_push e st =
     (if es_closed st then (Err EffectClosed, st)
      else (Ok (), st\<lparr>es_effects := es_effects st @ [e]\<rparr>))"

text \<open>What \<open>dispose_all\<close> does under the lock: close the stack and take its effects.\<close>

definition stack_take :: "'d effect_stack \<Rightarrow> 'd scoped_effect list \<times> 'd effect_stack" where
  "stack_take st = (es_effects st, \<lparr>es_effects = [], es_closed = True\<rparr>)"

subsection \<open>Scopes\<close>

record 'd effect_heap =
  eh_stacks :: "(effect_scope, 'd effect_stack) fmap"
  eh_next :: nat

text \<open>Whoever calls an operation holds the scope, so its stack is allocated.\<close>

definition stack_at :: "('d, 'z) effect_heap_scheme \<Rightarrow> effect_scope \<Rightarrow> 'd effect_stack" where
  "stack_at w s = (case fmlookup (eh_stacks w) s of Some st \<Rightarrow> st | None \<Rightarrow> effect_stack_new)"

definition stack_write ::
  "effect_scope \<Rightarrow> 'd effect_stack \<Rightarrow> ('d, 'z) effect_heap_scheme \<Rightarrow> ('d, 'z) effect_heap_scheme" where
  "stack_write s st w = w\<lparr>eh_stacks := fmupd s st (eh_stacks w)\<rparr>"

definition effect_scope_new ::
  "('d, 'z) effect_heap_scheme \<Rightarrow> effect_scope \<times> ('d, 'z) effect_heap_scheme" where
  "effect_scope_new w =
     (EffectScope (eh_next w),
      stack_write (EffectScope (eh_next w)) effect_stack_new (w\<lparr>eh_next := Suc (eh_next w)\<rparr>))"

definition effect_register ::
  "effect_scope \<Rightarrow> 'd scoped_effect \<Rightarrow> (('d, 'z) effect_heap_scheme, unit, effect_error) act" where
  "effect_register s e w =
     (case stack_push e (stack_at w s) of (r, st) \<Rightarrow> (r, stack_write s st w))"

definition effect_child ::
  "effect_scope \<Rightarrow> string \<Rightarrow> (('d, 'z) effect_heap_scheme, effect_scope, effect_error) act" where
  "effect_child s label w =
     (case effect_scope_new w of (c, w') \<Rightarrow>
        act_bind (effect_register s (effect_asynchronous label (DisposeScope c)))
          (\<lambda>_ w''. (Ok c, w'')) w')"

text \<open>What the closure made by \<open>child\<close> returns once the child has been disposed.\<close>

fun nested_outcome :: "(effect_error list, unit) res \<Rightarrow> (unit, string) res" where
  "nested_outcome (Ok errors) =
     (if errors = [] then Ok ()
      else Err (''nested effect cleanup failed: '' @ show_nat (length errors) @ '' error(s)''))"
| "nested_outcome (Err u) = Panic"
| "nested_outcome Panic = Panic"

text \<open>
  The loop of \<open>run_effects\<close> pops the last effect.  A disposer that panics unwinds the loop.
\<close>

partial_function (option) run_effects ::
  "('d \<Rightarrow> (('d, 'z) effect_heap_scheme, unit, string) act) \<Rightarrow> 'd scoped_effect list \<Rightarrow>
   effect_error list \<Rightarrow> ('d, 'z) effect_heap_scheme \<Rightarrow>
   ((effect_error list, unit) res \<times> ('d, 'z) effect_heap_scheme) option" where
  "run_effects call es errors w =
     (if es = [] then Some (Ok errors, w)
      else case se_disposer (last es) of
        None \<Rightarrow> run_effects call (butlast es) errors w
      | Some d \<Rightarrow>
          Option.bind
            (case d of
               Foreign k \<Rightarrow> Some (call k w)
             | DisposeScope s \<Rightarrow>
                 (case stack_take (stack_at w s) of (taken, st) \<Rightarrow>
                    Option.bind (run_effects call taken [] (stack_write s st w))
                      (\<lambda>(r, w'). Some (nested_outcome r, w'))))
            (\<lambda>(r, w'). case r of
               Ok _ \<Rightarrow> run_effects call (butlast es) errors w'
             | Err reason \<Rightarrow>
                 run_effects call (butlast es) (errors @ [DisposerFailed (se_label (last es)) reason]) w'
             | Panic \<Rightarrow> Some (Panic, w')))"

text \<open>\<open>EffectStack::dispose_all\<close>, for a stack that is not shared.\<close>

definition stack_dispose_all ::
  "('d \<Rightarrow> (('d, 'z) effect_heap_scheme, unit, string) act) \<Rightarrow> 'd effect_stack \<Rightarrow>
   ('d, 'z) effect_heap_scheme \<Rightarrow>
   ((effect_error list, unit) res \<times> 'd effect_stack \<times> ('d, 'z) effect_heap_scheme) option" where
  "stack_dispose_all call st w =
     (case stack_take st of (taken, st') \<Rightarrow>
        Option.bind (run_effects call taken [] w) (\<lambda>(r, w'). Some (r, st', w')))"

definition effect_dispose_all ::
  "('d \<Rightarrow> (('d, 'z) effect_heap_scheme, unit, string) act) \<Rightarrow> effect_scope \<Rightarrow>
   ('d, 'z) effect_heap_scheme \<Rightarrow>
   ((effect_error list, unit) res \<times> ('d, 'z) effect_heap_scheme) option" where
  "effect_dispose_all call s w =
     (case stack_take (stack_at w s) of (taken, st) \<Rightarrow> run_effects call taken [] (stack_write s st w))"

end
