(* ===== verification/Fiber_Runtime.thy ===== *)
theory Fiber_Runtime
  imports Effect_Scope
begin

text \<open>
  Plugins and fibers of \<open>crates/capability-graph/src/semantic.rs\<close>: plugin definitions and runtimes,
  the registry, and the lifecycle of a fiber (\<open>drive\<close>, \<open>unload\<close>, disposal, withdrawal).

  The fibers, the plugin runtimes, the effect stacks and the scopes are one world.  What the program
  shares through an \<open>Arc\<close> is reached by its address; a plugin runtime is alive as long as its address
  is in the world, which is when a \<open>Weak\<close> reference to it can be upgraded.

  A plugin factory is code of the embedder, a token whose behaviour is the parameter \<open>factory\<close>; so are
  the disposers (\<open>call\<close>) and the validators.  An awaited callback maps the world to its result and to
  the world when it returns, so everything that other tasks do while a fiber waits (registering
  effects, publishing or withdrawing providers, asking this fiber for a restart or for its disposal)
  is in that map.  The asynchronous lock \<open>transition\<close> makes the locked parts of one fiber exclude each
  other: a method that takes it is split into what it does before the lock (\<open>\<dots>_request\<close>) and under it
  (\<open>\<dots>_locked\<close>), so that other calls can come in between; under the plain name the lock is free.
  The loop of \<open>drive\<close> has no bound, since the dependencies can change during every load: \<open>None\<close> is a
  call that never returns.
\<close>

subsection \<open>Identities and states\<close>

datatype fiber_id = FiberId u64

primrec fiber_id_get :: "fiber_id \<Rightarrow> u64" where
  "fiber_id_get (FiberId w) = w"

instantiation fiber_id :: linorder
begin

definition less_eq_fiber_id :: "fiber_id \<Rightarrow> fiber_id \<Rightarrow> bool" where
  "less_eq_fiber_id a b \<longleftrightarrow> fiber_id_get a \<le> fiber_id_get b"

definition less_fiber_id :: "fiber_id \<Rightarrow> fiber_id \<Rightarrow> bool" where
  "less_fiber_id a b \<longleftrightarrow> fiber_id_get a < fiber_id_get b"

instance
proof
  fix a b c :: fiber_id
  show "a < b \<longleftrightarrow> a \<le> b \<and> \<not> b \<le> a" by (auto simp: less_eq_fiber_id_def less_fiber_id_def)
  show "a \<le> a" by (simp add: less_eq_fiber_id_def)
  show "a \<le> b \<Longrightarrow> b \<le> c \<Longrightarrow> a \<le> c" by (simp add: less_eq_fiber_id_def)
  show "a \<le> b \<Longrightarrow> b \<le> a \<Longrightarrow> a = b" by (cases a; cases b) (simp add: less_eq_fiber_id_def)
  show "a \<le> b \<or> b \<le> a" by (simp add: less_eq_fiber_id_def linear)
qed

end

lemma fiber_id_order [simp, kernis_eval]:
  "FiberId a \<le> FiberId b \<longleftrightarrow> a \<le> b" "FiberId a < FiberId b \<longleftrightarrow> a < b"
  by (simp_all add: less_eq_fiber_id_def less_fiber_id_def)

datatype fiber_state =
    FiberPending
  | FiberLoading
  | FiberActive
  | FiberFailed
  | FiberUnloading
  | FiberDisposed

fun fiber_state_as_raw :: "fiber_state \<Rightarrow> u8" where
  "fiber_state_as_raw FiberPending = 0"
| "fiber_state_as_raw FiberLoading = 1"
| "fiber_state_as_raw FiberActive = 2"
| "fiber_state_as_raw FiberFailed = 3"
| "fiber_state_as_raw FiberUnloading = 4"
| "fiber_state_as_raw FiberDisposed = 5"

definition fiber_state_from_raw :: "u8 \<Rightarrow> fiber_state" where
  "fiber_state_from_raw raw =
     (if raw = 0 then FiberPending
      else if raw = 1 then FiberLoading
      else if raw = 2 then FiberActive
      else if raw = 3 then FiberFailed
      else if raw = 4 then FiberUnloading
      else FiberDisposed)"

lemma fiber_state_from_as_raw [simp]: "fiber_state_from_raw (fiber_state_as_raw s) = s"
  by (cases s) (simp_all add: fiber_state_from_raw_def)

text \<open>The derived \<open>Debug\<close> form prints the name of the variant.\<close>

fun debug_fiber_state :: "fiber_state \<Rightarrow> string" where
  "debug_fiber_state FiberPending = ''Pending''"
| "debug_fiber_state FiberLoading = ''Loading''"
| "debug_fiber_state FiberActive = ''Active''"
| "debug_fiber_state FiberFailed = ''Failed''"
| "debug_fiber_state FiberUnloading = ''Unloading''"
| "debug_fiber_state FiberDisposed = ''Disposed''"

subsection \<open>Errors\<close>

datatype fiber_error =
    FiberIsDisposed
  | InvalidConfig ident string
  | InitializationFailed ident string "effect_error list"
  | FiberScopeError scope_error
  | InactiveEffect fiber_state
  | FiberIdExhausted
  | FiberCleanup "effect_error list"
  | FiberEffectError effect_error

fun show_fiber_error :: "fiber_error \<Rightarrow> string" where
  "show_fiber_error FiberIsDisposed = ''fiber is disposed''"
| "show_fiber_error (InvalidConfig plugin reason) =
     ''invalid config for plugin '' @ show_ident plugin @ '': '' @ reason"
| "show_fiber_error (InitializationFailed plugin reason cleanup) =
     ''plugin '' @ show_ident plugin @ '' initialization failed: '' @ reason"
| "show_fiber_error (FiberScopeError e) = show_scope_error e"
| "show_fiber_error (InactiveEffect s) =
     ''cannot create effect while fiber is '' @ debug_fiber_state s"
| "show_fiber_error FiberIdExhausted = ''fiber id exhausted''"
| "show_fiber_error (FiberCleanup errors) =
     ''fiber cleanup failed with '' @ show_nat (length errors) @ '' error(s)''"
| "show_fiber_error (FiberEffectError e) = show_effect_error e"

datatype registry_error =
    RegistryDuplicate ident
  | RegistryUnknown ident
  | RegistryFiberError fiber_error
  | RegistryDispose ident "fiber_error list"

fun show_registry_error :: "registry_error \<Rightarrow> string" where
  "show_registry_error (RegistryDuplicate i) = ''plugin runtime already registered: '' @ show_ident i"
| "show_registry_error (RegistryUnknown i) = ''unknown plugin runtime: '' @ show_ident i"
| "show_registry_error (RegistryFiberError e) = show_fiber_error e"
| "show_registry_error (RegistryDispose plugin errors) =
     ''disposing plugin '' @ show_ident plugin @ '' failed with '' @ show_nat (length errors) @ '' error(s)''"

subsection \<open>Definitions, runtimes, fibers\<close>

record 'f plugin_definition =
  pd_id :: ident
  pd_capability :: capability_definition
  pd_factory :: 'f
  pd_validator :: "string \<Rightarrow> (unit, string) res"

definition plugin_definition_new :: "ident \<Rightarrow> capability_definition \<Rightarrow> 'f \<Rightarrow> 'f plugin_definition" where
  "plugin_definition_new i c k =
     \<lparr>pd_id = i, pd_capability = c, pd_factory = k, pd_validator = (\<lambda>_. Ok ())\<rparr>"

definition with_validator ::
  "(string \<Rightarrow> (unit, string) res) \<Rightarrow> 'f plugin_definition \<Rightarrow> 'f plugin_definition" where
  "with_validator v d = d\<lparr>pd_validator := v\<rparr>"

text \<open>The fibers of a runtime are shared with their owners, so the map holds their identities.\<close>

record 'f plugin_runtime =
  pr_definition :: "'f plugin_definition"
  pr_fibers :: "fiber_id fset"

definition runtime_id :: "'f plugin_runtime \<Rightarrow> ident" where
  "runtime_id r = pd_id (pr_definition r)"

definition fiber_count :: "'f plugin_runtime \<Rightarrow> nat" where
  "fiber_count r = fcard (pr_fibers r)"

record ('v, 'f) fiber =
  fb_runtime :: nat
  fb_context :: capability_context
  fb_definition :: "'f plugin_definition"
  fb_config :: string
  fb_state :: u8
  fb_requested_epoch :: u64
  fb_dispose_requested :: bool
  fb_force_reload :: bool
  fb_handle :: "'v capability_handle option"
  fb_dependency_epoch :: "dependency_epoch option"
  fb_loading_binding :: "dependency_binding option"
  fb_effects :: effect_scope
  fb_last_cleanup_errors :: "effect_error list"
  fb_error :: "string option"

text \<open>
  \<open>sm_next_fiber_id\<close> is the static counter of the process; \<open>sm_watched\<close> holds the lists of watched
  fibers of the coordinators (\<open>reactive.rs\<close>), by their address, since foreign code can watch a fiber.
\<close>

record ('d, 'v, 'f) semantic_world = "'d effect_heap" +
  sm_scopes :: "'v scope_world"
  sm_fibers :: "(fiber_id, ('v, 'f) fiber) fmap"
  sm_runtimes :: "(nat, 'f plugin_runtime) fmap"
  sm_next_runtime :: nat
  sm_next_fiber_id :: u64
  sm_watched :: "(nat, fiber_id fset) fmap"
  sm_next_coordinator :: nat

record 'v plugin_load_context =
  lc_context :: capability_context
  lc_config :: string
  lc_dependencies :: "'v resolved_dependencies"
  lc_effects :: effect_scope

definition load_context_effect ::
  "'v plugin_load_context \<Rightarrow> 'd scoped_effect \<Rightarrow> (('d, 'z) effect_heap_scheme, unit, effect_error) act" where
  "load_context_effect lc e = effect_register (lc_effects lc) e"

definition fiber_new ::
  "nat \<Rightarrow> capability_context \<Rightarrow> 'f plugin_definition \<Rightarrow> string \<Rightarrow> effect_scope \<Rightarrow> ('v, 'f) fiber" where
  "fiber_new r c d config effects =
     \<lparr>fb_runtime = r, fb_context = c, fb_definition = d, fb_config = config,
      fb_state = fiber_state_as_raw FiberPending, fb_requested_epoch = 0, fb_dispose_requested = False,
      fb_force_reload = False, fb_handle = None, fb_dependency_epoch = None, fb_loading_binding = None,
      fb_effects = effects, fb_last_cleanup_errors = [], fb_error = None\<rparr>"

text \<open>Whoever calls a method of a fiber or of a runtime holds it, so it is in the world.\<close>

definition fiber_at :: "('d, 'v, 'f) semantic_world \<Rightarrow> fiber_id \<Rightarrow> ('v, 'f) fiber" where
  "fiber_at w f = the (fmlookup (sm_fibers w) f)"

definition fiber_update ::
  "fiber_id \<Rightarrow> (('v, 'f) fiber \<Rightarrow> ('v, 'f) fiber) \<Rightarrow> ('d, 'v, 'f) semantic_world \<Rightarrow>
   ('d, 'v, 'f) semantic_world" where
  "fiber_update f g w = w\<lparr>sm_fibers := fmupd f (g (fiber_at w f)) (sm_fibers w)\<rparr>"

definition runtime_at :: "('d, 'v, 'f) semantic_world \<Rightarrow> nat \<Rightarrow> 'f plugin_runtime" where
  "runtime_at w r = the (fmlookup (sm_runtimes w) r)"

subsection \<open>Observations of a fiber\<close>

definition fiber_state :: "('d, 'v, 'f) semantic_world \<Rightarrow> fiber_id \<Rightarrow> fiber_state" where
  "fiber_state w f = fiber_state_from_raw (fb_state (fiber_at w f))"

definition set_state ::
  "fiber_id \<Rightarrow> fiber_state \<Rightarrow> ('d, 'v, 'f) semantic_world \<Rightarrow> ('d, 'v, 'f) semantic_world" where
  "set_state f s = fiber_update f (\<lambda>x. x\<lparr>fb_state := fiber_state_as_raw s\<rparr>)"

definition plugin_id :: "('d, 'v, 'f) semantic_world \<Rightarrow> fiber_id \<Rightarrow> ident" where
  "plugin_id w f = pd_id (fb_definition (fiber_at w f))"

definition fiber_capability :: "('d, 'v, 'f) semantic_world \<Rightarrow> fiber_id \<Rightarrow> capability_definition" where
  "fiber_capability w f = pd_capability (fb_definition (fiber_at w f))"

definition fiber_binding :: "('d, 'v, 'f) semantic_world \<Rightarrow> fiber_id \<Rightarrow> dependency_binding option" where
  "fiber_binding w f = map_option de_binding (fb_dependency_epoch (fiber_at w f))"

definition declares_dependency :: "('d, 'v, 'f) semantic_world \<Rightarrow> fiber_id \<Rightarrow> ident \<Rightarrow> bool" where
  "declares_dependency w f i \<longleftrightarrow>
     (\<exists>d \<in> set (bs_list (cd_dependencies (fiber_capability w f))). dep_id d = i)"

definition resolve_fiber ::
  "('d, 'v, 'f) semantic_world \<Rightarrow> fiber_id \<Rightarrow> ('v resolved_dependencies, scope_error) res" where
  "resolve_fiber w f =
     context_resolve_dependencies (sm_scopes w) (fb_context (fiber_at w f)) (fiber_capability w f)"

definition current_binding ::
  "('d, 'v, 'f) semantic_world \<Rightarrow> fiber_id \<Rightarrow> dependency_binding option" where
  "current_binding w f = (case resolve_fiber w f of Ok hs \<Rightarrow> Some (binding_of hs) | _ \<Rightarrow> None)"

definition needs_reconciliation :: "('d, 'v, 'f) semantic_world \<Rightarrow> fiber_id \<Rightarrow> bool" where
  "needs_reconciliation w f =
     (case fiber_state w f of
        FiberActive \<Rightarrow> current_binding w f \<noteq> fiber_binding w f
      | FiberLoading \<Rightarrow> current_binding w f \<noteq> fb_loading_binding (fiber_at w f)
      | FiberPending \<Rightarrow>
          cd_dependencies (fiber_capability w f) \<noteq> {||} \<and> current_binding w f \<noteq> None
      | FiberFailed \<Rightarrow> False
      | FiberDisposed \<Rightarrow> False
      | FiberUnloading \<Rightarrow> True)"

subsection \<open>Requests\<close>

text \<open>\<open>fetch_add\<close> wraps.\<close>

definition notify_dependency_change ::
  "fiber_id \<Rightarrow> ('d, 'v, 'f) semantic_world \<Rightarrow> ('d, 'v, 'f) semantic_world" where
  "notify_dependency_change f = fiber_update f (\<lambda>x. x\<lparr>fb_requested_epoch := fb_requested_epoch x + 1\<rparr>)"

definition restart_request ::
  "fiber_id \<Rightarrow> (('d, 'v, 'f) semantic_world, unit, fiber_error) act" where
  "restart_request f w =
     (if fiber_state w f = FiberDisposed then (Err FiberIsDisposed, w)
      else (Ok (), notify_dependency_change f (fiber_update f (\<lambda>x. x\<lparr>fb_force_reload := True\<rparr>) w)))"

definition update_request ::
  "fiber_id \<Rightarrow> string \<Rightarrow> (('d, 'v, 'f) semantic_world, unit, fiber_error) act" where
  "update_request f config w =
     (if fiber_state w f = FiberDisposed then (Err FiberIsDisposed, w)
      else case pd_validator (fb_definition (fiber_at w f)) config of
             Err reason \<Rightarrow> (Err (InvalidConfig (plugin_id w f) reason), w)
           | Panic \<Rightarrow> (Panic, w)
           | Ok _ \<Rightarrow> restart_request f (fiber_update f (\<lambda>x. x\<lparr>fb_config := config\<rparr>) w))"

definition dispose_request ::
  "fiber_id \<Rightarrow> ('d, 'v, 'f) semantic_world \<Rightarrow> ('d, 'v, 'f) semantic_world" where
  "dispose_request f w =
     notify_dependency_change f (fiber_update f (\<lambda>x. x\<lparr>fb_dispose_requested := True\<rparr>) w)"

definition fiber_effect ::
  "fiber_id \<Rightarrow> 'd scoped_effect \<Rightarrow> (('d, 'v, 'f) semantic_world, unit, fiber_error) act" where
  "fiber_effect f e w =
     (if fiber_state w f \<noteq> FiberActive then (Err (InactiveEffect (fiber_state w f)), w)
      else case effect_register (fb_effects (fiber_at w f)) e w of
             (r, w') \<Rightarrow> (map_err FiberEffectError r, w'))"

subsection \<open>Unloading\<close>

type_synonym ('d, 'v, 'f) disposer_call = "'d \<Rightarrow> (('d, 'v, 'f) semantic_world, unit, string) act"

type_synonym ('d, 'v, 'f) factory_call =
  "'f \<Rightarrow> 'v plugin_load_context \<Rightarrow> (('d, 'v, 'f) semantic_world, 'v, string) act"

text \<open>What follows an awaited disposal, given its errors; a panic of a disposer unwinds the caller too.\<close>

definition with_errors ::
  "((effect_error list, unit) res \<times> 'w) option \<Rightarrow>
   (effect_error list \<Rightarrow> 'w \<Rightarrow> (('a, 'e) res \<times> 'w) option) \<Rightarrow> (('a, 'e) res \<times> 'w) option" where
  "with_errors m k =
     Option.bind m (\<lambda>(r, w). case r of Ok errors \<Rightarrow> k errors w | Err _ \<Rightarrow> Some (Panic, w) | Panic \<Rightarrow> Some (Panic, w))"

definition set_cleanup_errors ::
  "fiber_id \<Rightarrow> effect_error list \<Rightarrow> ('d, 'v, 'f) semantic_world \<Rightarrow> ('d, 'v, 'f) semantic_world" where
  "set_cleanup_errors f errors = fiber_update f (\<lambda>x. x\<lparr>fb_last_cleanup_errors := errors\<rparr>)"

definition same_publication :: "'v capability_handle \<Rightarrow> 'v capability_handle \<Rightarrow> bool" where
  "same_publication a b \<longleftrightarrow>
     h_id a = h_id b \<and> h_generation a = h_generation b \<and> h_entry_id a = h_entry_id b"

definition unload_finish ::
  "fiber_id \<Rightarrow> ('d, 'v, 'f) semantic_world \<Rightarrow> ('d, 'v, 'f) semantic_world" where
  "unload_finish f w =
     (case effect_scope_new (fiber_update f (\<lambda>x. x\<lparr>fb_dependency_epoch := None, fb_loading_binding := None\<rparr>) w) of
        (effects, w') \<Rightarrow> set_state f FiberPending (fiber_update f (\<lambda>x. x\<lparr>fb_effects := effects\<rparr>) w'))"

text \<open>The rest of \<open>unload\<close> once the effects are disposed: the handle is taken and withdrawn.\<close>

definition unload_release ::
  "fiber_id \<Rightarrow> 'v capability_handle option \<Rightarrow> effect_error list \<Rightarrow>
   (('d, 'v, 'f) semantic_world, effect_error list, unit) act" where
  "unload_release f detached errors w =
     (case fb_handle (fiber_at w f) of
        None \<Rightarrow> (Ok errors, unload_finish f w)
      | Some h \<Rightarrow>
          (let w1 = fiber_update f (\<lambda>x. x\<lparr>fb_handle := None\<rparr>) w;
               was_detached = (case detached of None \<Rightarrow> False | Some d \<Rightarrow> same_publication d h)
           in if was_detached then (Ok errors, unload_finish f w1)
              else case remove_local (cx_scope (fb_context (fiber_at w f))) (h_id h) (h_generation h) (sm_scopes w) of
                     (Ok _, scopes) \<Rightarrow> (Ok errors, unload_finish f (w1\<lparr>sm_scopes := scopes\<rparr>))
                   | (Err e, scopes) \<Rightarrow>
                       (Ok (errors @ [effect_error_from_scope e]),
                        set_state f FiberPending
                          (fiber_update f (\<lambda>x. x\<lparr>fb_dependency_epoch := None\<rparr>) (w1\<lparr>sm_scopes := scopes\<rparr>)))
                   | (Panic, scopes) \<Rightarrow> (Panic, w1\<lparr>sm_scopes := scopes\<rparr>)))"

definition unload ::
  "('d, 'v, 'f) disposer_call \<Rightarrow> fiber_id \<Rightarrow> 'v capability_handle option \<Rightarrow> ('d, 'v, 'f) semantic_world \<Rightarrow>
   ((effect_error list, unit) res \<times> ('d, 'v, 'f) semantic_world) option" where
  "unload call f detached w =
     with_errors (effect_dispose_all call (fb_effects (fiber_at w f)) (set_state f FiberUnloading w))
       (\<lambda>errors w'. Some (unload_release f detached errors w'))"

definition clear_active_state ::
  "('d, 'v, 'f) disposer_call \<Rightarrow> fiber_id \<Rightarrow> ('d, 'v, 'f) semantic_world \<Rightarrow>
   ((unit, unit) res \<times> ('d, 'v, 'f) semantic_world) option" where
  "clear_active_state call f w =
     (if fiber_state w f = FiberActive
      then with_errors (unload call f None w) (\<lambda>errors w'. Some (Ok (), set_cleanup_errors f errors w'))
      else Some (Ok (), w))"

subsection \<open>Driving a fiber\<close>

text \<open>One iteration of the loop of \<open>drive\<close> goes around again, or returns.\<close>

datatype drive_flow = Again | Stable fiber_state

type_synonym ('d, 'v, 'f) drive_result =
  "((drive_flow, fiber_error) res \<times> ('d, 'v, 'f) semantic_world) option"

definition set_loading_binding ::
  "fiber_id \<Rightarrow> dependency_binding option \<Rightarrow> ('d, 'v, 'f) semantic_world \<Rightarrow> ('d, 'v, 'f) semantic_world" where
  "set_loading_binding f b = fiber_update f (\<lambda>x. x\<lparr>fb_loading_binding := b\<rparr>)"

definition set_error ::
  "fiber_id \<Rightarrow> string option \<Rightarrow> ('d, 'v, 'f) semantic_world \<Rightarrow> ('d, 'v, 'f) semantic_world" where
  "set_error f e = fiber_update f (\<lambda>x. x\<lparr>fb_error := e\<rparr>)"

definition set_force_reload ::
  "fiber_id \<Rightarrow> bool \<Rightarrow> ('d, 'v, 'f) semantic_world \<Rightarrow> ('d, 'v, 'f) semantic_world" where
  "set_force_reload f b = fiber_update f (\<lambda>x. x\<lparr>fb_force_reload := b\<rparr>)"

text \<open>The state that a load sets up before it calls the factory, and the context it passes.\<close>

definition load_begin ::
  "fiber_id \<Rightarrow> dependency_epoch \<Rightarrow> 'v resolved_dependencies \<Rightarrow> ('d, 'v, 'f) semantic_world \<Rightarrow>
   'v plugin_load_context \<times> ('d, 'v, 'f) semantic_world" where
  "load_begin f epoch dependencies w =
     (let w1 = set_state f FiberLoading w;
          config = (case intercepted_config (fb_context (fiber_at w1 f)) (plugin_id w1 f) of
                      Some c \<Rightarrow> c
                    | None \<Rightarrow> fb_config (fiber_at w1 f))
      in case effect_scope_new w1 of (effects, w2) \<Rightarrow>
           (\<lparr>lc_context = fb_context (fiber_at w1 f), lc_config = config, lc_dependencies = dependencies,
             lc_effects = effects\<rparr>,
            set_loading_binding f (Some (de_binding epoch))
              (set_error f None (fiber_update f (\<lambda>x. x\<lparr>fb_effects := effects\<rparr>) w2))))"

definition load_is_stale :: "fiber_id \<Rightarrow> dependency_epoch \<Rightarrow> ('d, 'v, 'f) semantic_world \<Rightarrow> bool" where
  "load_is_stale f epoch w \<longleftrightarrow>
     fb_dispose_requested (fiber_at w f) \<or> fb_force_reload (fiber_at w f) \<or>
     current_binding w f \<noteq> Some (de_binding epoch)"

text \<open>The branch of a load that is still current: publication, and what its refusal leads to.\<close>

definition load_publish ::
  "('d, 'v, 'f) disposer_call \<Rightarrow> fiber_id \<Rightarrow> 'v resolved_dependencies \<Rightarrow> effect_scope \<Rightarrow> 'v \<Rightarrow>
   ('d, 'v, 'f) semantic_world \<Rightarrow> ('d, 'v, 'f) drive_result" where
  "load_publish call f dependencies effects value w =
     (case provide_value (cx_scope (fb_context (fiber_at w f))) (fiber_capability w f) dependencies value (sm_scopes w) of
        (Ok h, scopes) \<Rightarrow>
          (let w1 = fiber_update f (\<lambda>x. x\<lparr>fb_handle := Some h\<rparr>) (w\<lparr>sm_scopes := scopes\<rparr>);
               epoch = epoch_of (fb_requested_epoch (fiber_at w1 f)) dependencies;
               w2 = fiber_update f (\<lambda>x. x\<lparr>fb_dependency_epoch := Some epoch\<rparr>) w1
           in Some (Ok (Stable FiberActive), set_state f FiberActive (set_loading_binding f None w2)))
      | (Err e, scopes) \<Rightarrow>
          with_errors (effect_dispose_all call effects (w\<lparr>sm_scopes := scopes\<rparr>)) (\<lambda>errors w'.
            case e of
              DependencyChanged _ _ \<Rightarrow>
                Some (Ok Again,
                  set_state f FiberPending (set_loading_binding f None (set_cleanup_errors f errors w')))
            | _ \<Rightarrow>
                Some (Err (FiberScopeError e),
                  set_state f FiberFailed (set_cleanup_errors f errors
                    (set_error f (Some (show_scope_error e)) (set_loading_binding f None w')))))
      | (Panic, scopes) \<Rightarrow> Some (Panic, w\<lparr>sm_scopes := scopes\<rparr>))"

text \<open>What the result of the factory leads to.\<close>

definition load_settle ::
  "('d, 'v, 'f) disposer_call \<Rightarrow> fiber_id \<Rightarrow> dependency_epoch \<Rightarrow> 'v resolved_dependencies \<Rightarrow> effect_scope \<Rightarrow>
   ('v, string) res \<Rightarrow> ('d, 'v, 'f) semantic_world \<Rightarrow> ('d, 'v, 'f) drive_result" where
  "load_settle call f epoch dependencies effects result w =
     (let stale = load_is_stale f epoch w in
      case result of
        Ok value \<Rightarrow>
          if \<not> stale then load_publish call f dependencies effects value w
          else with_errors (effect_dispose_all call effects w) (\<lambda>errors w'.
                 let w1 = set_cleanup_errors f errors (set_force_reload f False (set_loading_binding f None w'))
                 in if fb_dispose_requested (fiber_at w1 f) then Some (Err FiberIsDisposed, w1)
                    else Some (Ok Again, set_state f FiberPending w1))
      | Err reason \<Rightarrow>
          if stale then with_errors (effect_dispose_all call effects w) (\<lambda>errors w'.
                 let w1 = set_cleanup_errors f errors (set_error f None
                            (set_force_reload f False (set_loading_binding f None w')))
                 in if fb_dispose_requested (fiber_at w1 f)
                    then Some (Err FiberIsDisposed, set_state f FiberDisposed w1)
                    else Some (Ok Again, set_state f FiberPending w1))
          else with_errors (effect_dispose_all call effects w) (\<lambda>errors w'.
                 Some (Err (InitializationFailed (plugin_id w' f) reason errors),
                   set_state f FiberFailed (set_cleanup_errors f errors
                     (set_error f (Some reason) (set_loading_binding f None w')))))
      | Panic \<Rightarrow> Some (Panic, w))"

definition load_attempt ::
  "('d, 'v, 'f) factory_call \<Rightarrow> ('d, 'v, 'f) disposer_call \<Rightarrow> fiber_id \<Rightarrow> dependency_epoch \<Rightarrow>
   'v resolved_dependencies \<Rightarrow> ('d, 'v, 'f) semantic_world \<Rightarrow> ('d, 'v, 'f) drive_result" where
  "load_attempt factory call f epoch dependencies w =
     (case load_begin f epoch dependencies w of (lc, w1) \<Rightarrow>
        case factory (pd_factory (fb_definition (fiber_at w1 f))) lc w1 of (result, w2) \<Rightarrow>
          load_settle call f epoch dependencies (lc_effects lc) result w2)"

definition drive_iteration ::
  "('d, 'v, 'f) factory_call \<Rightarrow> ('d, 'v, 'f) disposer_call \<Rightarrow> fiber_id \<Rightarrow> bool \<Rightarrow>
   ('d, 'v, 'f) semantic_world \<Rightarrow> ('d, 'v, 'f) drive_result" where
  "drive_iteration factory call f force w =
     (case resolve_fiber w f of
        Err (ScopeMissingDependency _ _) \<Rightarrow>
          Option.bind (clear_active_state call f w) (\<lambda>(r, w').
            if r = Panic then Some (Panic, w')
            else Some (Ok (Stable FiberPending), set_state f FiberPending w'))
      | Err e \<Rightarrow> Some (Err (FiberScopeError e), w)
      | Panic \<Rightarrow> Some (Panic, w)
      | Ok dependencies \<Rightarrow>
          (let epoch = epoch_of (fb_requested_epoch (fiber_at w f)) dependencies in
           if \<not> force \<and> fiber_state w f = FiberActive \<and> fiber_binding w f = Some (de_binding epoch)
           then Some (Ok (Stable FiberActive),
                  fiber_update f (\<lambda>x. x\<lparr>fb_dependency_epoch := Some epoch\<rparr>) w)
           else if fiber_state w f = FiberActive \<or> fiber_state w f = FiberFailed
           then with_errors (unload call f None w) (\<lambda>errors w'.
                  let w1 = set_cleanup_errors f errors w'
                  in if fb_dispose_requested (fiber_at w1 f) then Some (Err FiberIsDisposed, w1)
                     else Some (Ok Again, w1))
           else if fb_dispose_requested (fiber_at w f) then Some (Err FiberIsDisposed, w)
           else load_attempt factory call f epoch dependencies w))"

partial_function (option) drive_loop ::
  "('d, 'v, 'f) factory_call \<Rightarrow> ('d, 'v, 'f) disposer_call \<Rightarrow> fiber_id \<Rightarrow> bool \<Rightarrow>
   ('d, 'v, 'f) semantic_world \<Rightarrow> ((fiber_state, fiber_error) res \<times> ('d, 'v, 'f) semantic_world) option" where
  "drive_loop factory call f force w =
     Option.bind (drive_iteration factory call f force w) (\<lambda>(r, w').
       case r of
         Ok flow \<Rightarrow>
           (case flow of
              Again \<Rightarrow> drive_loop factory call f force w'
            | Stable s \<Rightarrow> Some (Ok s, w'))
       | Err e \<Rightarrow> Some (Err e, w')
       | Panic \<Rightarrow> Some (Panic, w'))"

definition drive ::
  "('d, 'v, 'f) factory_call \<Rightarrow> ('d, 'v, 'f) disposer_call \<Rightarrow> fiber_id \<Rightarrow> bool \<Rightarrow>
   ('d, 'v, 'f) semantic_world \<Rightarrow> ((fiber_state, fiber_error) res \<times> ('d, 'v, 'f) semantic_world) option" where
  "drive factory call f force w =
     (if fb_dispose_requested (fiber_at w f) then Some (Err FiberIsDisposed, w)
      else if \<not> force \<and> fiber_state w f = FiberFailed
      then Some (Err (InitializationFailed (plugin_id w f)
             (case fb_error (fiber_at w f) of
                Some reason \<Rightarrow> reason
              | None \<Rightarrow> ''plugin initialization failed'')
             (fb_last_cleanup_errors (fiber_at w f))), w)
      else let requested_force = fb_force_reload (fiber_at w f);
               w1 = set_force_reload f False w;
               w2 = (if fiber_state w1 f = FiberPending then set_cleanup_errors f [] w1 else w1)
           in drive_loop factory call f (force \<or> requested_force) w2)"

subsection \<open>The calls of a fiber\<close>

definition start_fiber ::
  "('d, 'v, 'f) factory_call \<Rightarrow> ('d, 'v, 'f) disposer_call \<Rightarrow> fiber_id \<Rightarrow>
   ('d, 'v, 'f) semantic_world \<Rightarrow> ((fiber_state, fiber_error) res \<times> ('d, 'v, 'f) semantic_world) option" where
  "start_fiber factory call f w = drive factory call f False w"

definition await_stable ::
  "('d, 'v, 'f) factory_call \<Rightarrow> ('d, 'v, 'f) disposer_call \<Rightarrow> fiber_id \<Rightarrow>
   ('d, 'v, 'f) semantic_world \<Rightarrow> ((fiber_state, fiber_error) res \<times> ('d, 'v, 'f) semantic_world) option" where
  "await_stable factory call f w = start_fiber factory call f w"

definition restart_locked ::
  "('d, 'v, 'f) factory_call \<Rightarrow> ('d, 'v, 'f) disposer_call \<Rightarrow> fiber_id \<Rightarrow>
   ('d, 'v, 'f) semantic_world \<Rightarrow> ((fiber_state, fiber_error) res \<times> ('d, 'v, 'f) semantic_world) option" where
  "restart_locked factory call f w = drive factory call f True w"

definition restart_fiber ::
  "('d, 'v, 'f) factory_call \<Rightarrow> ('d, 'v, 'f) disposer_call \<Rightarrow> fiber_id \<Rightarrow>
   ('d, 'v, 'f) semantic_world \<Rightarrow> ((fiber_state, fiber_error) res \<times> ('d, 'v, 'f) semantic_world) option" where
  "restart_fiber factory call f w =
     (case restart_request f w of
        (Ok _, w') \<Rightarrow> restart_locked factory call f w'
      | (Err e, w') \<Rightarrow> Some (Err e, w')
      | (Panic, w') \<Rightarrow> Some (Panic, w'))"

definition update_fiber ::
  "('d, 'v, 'f) factory_call \<Rightarrow> ('d, 'v, 'f) disposer_call \<Rightarrow> fiber_id \<Rightarrow> string \<Rightarrow>
   ('d, 'v, 'f) semantic_world \<Rightarrow> ((fiber_state, fiber_error) res \<times> ('d, 'v, 'f) semantic_world) option" where
  "update_fiber factory call f config w =
     (case update_request f config w of
        (Ok _, w') \<Rightarrow> restart_locked factory call f w'
      | (Err e, w') \<Rightarrow> Some (Err e, w')
      | (Panic, w') \<Rightarrow> Some (Panic, w'))"

definition withdrawal_locked ::
  "('d, 'v, 'f) disposer_call \<Rightarrow> fiber_id \<Rightarrow> 'v capability_handle option \<Rightarrow>
   ('d, 'v, 'f) semantic_world \<Rightarrow> ((fiber_state, fiber_error) res \<times> ('d, 'v, 'f) semantic_world) option" where
  "withdrawal_locked call f detached w =
     (if fiber_state w f = FiberDisposed then Some (Ok FiberDisposed, w)
      else if fiber_state w f = FiberActive \<or> fiber_state w f = FiberFailed
      then with_errors (unload call f detached w) (\<lambda>errors w'.
             let w1 = set_cleanup_errors f errors w' in Some (Ok (fiber_state w1 f), w1))
      else Some (Ok (fiber_state w f), w))"

definition deactivate_for_withdrawal ::
  "('d, 'v, 'f) disposer_call \<Rightarrow> fiber_id \<Rightarrow> 'v capability_handle option \<Rightarrow>
   ('d, 'v, 'f) semantic_world \<Rightarrow> ((fiber_state, fiber_error) res \<times> ('d, 'v, 'f) semantic_world) option" where
  "deactivate_for_withdrawal call f detached w =
     withdrawal_locked call f detached (notify_dependency_change f w)"

definition remove_fiber ::
  "nat \<Rightarrow> fiber_id \<Rightarrow> ('d, 'v, 'f) semantic_world \<Rightarrow> ('d, 'v, 'f) semantic_world" where
  "remove_fiber r f w =
     w\<lparr>sm_runtimes := fmupd r (runtime_at w r\<lparr>pr_fibers := pr_fibers (runtime_at w r) |-| {|f|}\<rparr>) (sm_runtimes w)\<rparr>"

definition dispose_locked ::
  "('d, 'v, 'f) disposer_call \<Rightarrow> fiber_id \<Rightarrow> ('d, 'v, 'f) semantic_world \<Rightarrow>
   ((unit, fiber_error) res \<times> ('d, 'v, 'f) semantic_world) option" where
  "dispose_locked call f w =
     (if fiber_state w f = FiberDisposed then Some (Ok (), w)
      else with_errors (unload call f None w) (\<lambda>errors w'.
             let w1 = set_state f FiberDisposed w';
                 r = fb_runtime (fiber_at w1 f);
                 w2 = (if has_key (sm_runtimes w1) r then remove_fiber r f w1 else w1)
             in Some (if errors = [] then Ok () else Err (FiberCleanup errors), w2)))"

definition dispose_fiber ::
  "('d, 'v, 'f) disposer_call \<Rightarrow> fiber_id \<Rightarrow> ('d, 'v, 'f) semantic_world \<Rightarrow>
   ((unit, fiber_error) res \<times> ('d, 'v, 'f) semantic_world) option" where
  "dispose_fiber call f w = dispose_locked call f (dispose_request f w)"

subsection \<open>Plugin runtimes\<close>

definition plugin_runtime_new ::
  "'f plugin_definition \<Rightarrow> ('d, 'v, 'f) semantic_world \<Rightarrow> nat \<times> ('d, 'v, 'f) semantic_world" where
  "plugin_runtime_new d w =
     (sm_next_runtime w,
      w\<lparr>sm_runtimes := fmupd (sm_next_runtime w) \<lparr>pr_definition = d, pr_fibers = {||}\<rparr> (sm_runtimes w),
        sm_next_runtime := Suc (sm_next_runtime w)\<rparr>)"

text \<open>The last \<open>Arc\<close> of a runtime is dropped: its fibers can no longer upgrade their reference.\<close>

definition plugin_runtime_drop :: "nat \<Rightarrow> ('d, 'v, 'f) semantic_world \<Rightarrow> ('d, 'v, 'f) semantic_world" where
  "plugin_runtime_drop r w = w\<lparr>sm_runtimes := fmdrop r (sm_runtimes w)\<rparr>"

definition create_fiber ::
  "nat \<Rightarrow> capability_context \<Rightarrow> string \<Rightarrow> (('d, 'v, 'f) semantic_world, fiber_id, fiber_error) act" where
  "create_fiber r c config w =
     (let d = pr_definition (runtime_at w r) in
      case pd_validator d config of
        Err reason \<Rightarrow> (Err (InvalidConfig (runtime_id (runtime_at w r)) reason), w)
      | Panic \<Rightarrow> (Panic, w)
      | Ok _ \<Rightarrow>
          (case u64_checked_succ (sm_next_fiber_id w) of
             None \<Rightarrow> (Err FiberIdExhausted, w)
           | Some n \<Rightarrow>
               (let f = FiberId (sm_next_fiber_id w) in
                case effect_scope_new (w\<lparr>sm_next_fiber_id := n\<rparr>) of (effects, w1) \<Rightarrow>
                  let w2 = w1\<lparr>sm_fibers := fmupd f (fiber_new r c d config effects) (sm_fibers w1)\<rparr>
                  in (Ok f,
                      w2\<lparr>sm_runtimes := fmupd r
                           (runtime_at w2 r\<lparr>pr_fibers := finsert f (pr_fibers (runtime_at w2 r))\<rparr>)
                           (sm_runtimes w2)\<rparr>))))"

text \<open>The loop of \<open>dispose_fibers\<close>: a fiber whose cleanup fails does not stop the others.\<close>

fun dispose_each ::
  "('d, 'v, 'f) disposer_call \<Rightarrow> fiber_id list \<Rightarrow> fiber_error list \<Rightarrow> ('d, 'v, 'f) semantic_world \<Rightarrow>
   ((fiber_error list, unit) res \<times> ('d, 'v, 'f) semantic_world) option" where
  "dispose_each call [] errors w = Some (Ok errors, w)"
| "dispose_each call (f # fs) errors w =
     Option.bind (dispose_fiber call f w) (\<lambda>(r, w').
       case r of
         Ok _ \<Rightarrow> dispose_each call fs errors w'
       | Err e \<Rightarrow> dispose_each call fs (errors @ [e]) w'
       | Panic \<Rightarrow> Some (Panic, w'))"

definition dispose_fibers ::
  "('d, 'v, 'f) disposer_call \<Rightarrow> nat \<Rightarrow> ('d, 'v, 'f) semantic_world \<Rightarrow>
   ((fiber_error list, unit) res \<times> ('d, 'v, 'f) semantic_world) option" where
  "dispose_fibers call r w =
     Option.bind (dispose_each call (bs_list (pr_fibers (runtime_at w r))) [] w) (\<lambda>(res, w').
       case res of
         Ok errors \<Rightarrow>
           Some (Ok errors, w'\<lparr>sm_runtimes := fmupd r (runtime_at w' r\<lparr>pr_fibers := {||}\<rparr>) (sm_runtimes w')\<rparr>)
       | Err u \<Rightarrow> Some (Panic, w')
       | Panic \<Rightarrow> Some (Panic, w'))"

subsection \<open>The registry\<close>

record capability_registry =
  rg_runtimes :: "(ident, nat) fmap"

definition registry_new :: capability_registry where
  "registry_new = \<lparr>rg_runtimes = fmempty\<rparr>"

definition registry_register ::
  "nat \<Rightarrow> ('d, 'v, 'f) semantic_world \<Rightarrow> (capability_registry, unit, registry_error) act" where
  "registry_register r w g =
     (let i = runtime_id (runtime_at w r) in
      if has_key (rg_runtimes g) i then (Err (RegistryDuplicate i), g)
      else (Ok (), g\<lparr>rg_runtimes := fmupd i r (rg_runtimes g)\<rparr>))"

definition registry_get :: "capability_registry \<Rightarrow> ident \<Rightarrow> nat option" where
  "registry_get g i = fmlookup (rg_runtimes g) i"

definition registry_contains :: "capability_registry \<Rightarrow> ident \<Rightarrow> bool" where
  "registry_contains g i \<longleftrightarrow> has_key (rg_runtimes g) i"

definition registry_len :: "capability_registry \<Rightarrow> nat" where
  "registry_len g = fcard (fmdom (rg_runtimes g))"

definition registry_is_empty :: "capability_registry \<Rightarrow> bool" where
  "registry_is_empty g \<longleftrightarrow> registry_len g = 0"

definition registry_instantiate ::
  "capability_registry \<Rightarrow> ident \<Rightarrow> capability_context \<Rightarrow> string \<Rightarrow>
   (('d, 'v, 'f) semantic_world, fiber_id, registry_error) act" where
  "registry_instantiate g i c config w =
     (case fmlookup (rg_runtimes g) i of
        None \<Rightarrow> (Err (RegistryUnknown i), w)
      | Some r \<Rightarrow> (case create_fiber r c config w of (res, w') \<Rightarrow> (map_err RegistryFiberError res, w')))"

text \<open>The entry leaves the registry before the fibers are disposed; the caller holds the runtime.\<close>

definition registry_remove ::
  "('d, 'v, 'f) disposer_call \<Rightarrow> ident \<Rightarrow> capability_registry \<Rightarrow> ('d, 'v, 'f) semantic_world \<Rightarrow>
   ((nat option, registry_error) res \<times> capability_registry \<times> ('d, 'v, 'f) semantic_world) option" where
  "registry_remove call i g w =
     (case fmlookup (rg_runtimes g) i of
        None \<Rightarrow> Some (Ok None, g, w)
      | Some r \<Rightarrow>
          (let g' = g\<lparr>rg_runtimes := fmdrop i (rg_runtimes g)\<rparr> in
           Option.bind (dispose_fibers call r w) (\<lambda>(res, w').
             case res of
               Ok errors \<Rightarrow>
                 Some (if errors = [] then Ok (Some r) else Err (RegistryDispose i errors), g', w')
             | Err u \<Rightarrow> Some (Panic, g', w')
             | Panic \<Rightarrow> Some (Panic, g', w'))))"

end
