(* ===== verification/Reactive_Runtime.thy ===== *)
theory Reactive_Runtime
  imports Fiber_Runtime "HOL-Library.Product_Lexorder"
begin

text \<open>
  The coordinator of \<open>crates/capability-graph/src/reactive.rs\<close>: it watches fibers, publishes and
  withdraws providers, and drives the fibers that a change affects until they are stable.

  The list of watched fibers is in the world, since the foreign code that a drive runs may watch
  another fiber; a watched fiber is a weak reference, which can be upgraded as long as the fiber is in
  the world.  What other tasks do while the coordinator waits for the lock of a fiber is the parameter
  \<open>others\<close>; what they do while a factory or a disposer runs is in the behaviour of that code.  A scan
  that only reads the fields of the fibers waits for nothing, and is one step.
  The loop of \<open>reconcile\<close> has no bound: \<open>None\<close> is a call that never returns.
\<close>

subsection \<open>Reports and errors\<close>

record fiber_reconcile_error =
  fr_fiber_id :: fiber_id
  fr_error :: fiber_error

record fiber_cleanup_failure =
  fc_fiber_id :: fiber_id
  fc_errors :: "effect_error list"

record reconcile_report =
  rp_driven :: "fiber_id list"
  rp_errors :: "fiber_reconcile_error list"
  rp_cleanup_errors :: "fiber_cleanup_failure list"
  rp_provider_finalized :: bool

definition reconcile_report_default :: reconcile_report where
  "reconcile_report_default =
     \<lparr>rp_driven = [], rp_errors = [], rp_cleanup_errors = [], rp_provider_finalized = False\<rparr>"

definition report_is_success :: "reconcile_report \<Rightarrow> bool" where
  "report_is_success r \<longleftrightarrow> rp_errors r = [] \<and> rp_cleanup_errors r = []"

datatype reactive_runtime_error =
    ReactiveScope scope_error
  | ReactiveRegistry registry_error
  | DuplicateFiber fiber_id

text \<open>The derived \<open>Debug\<close> form of a fiber identity.\<close>

definition debug_fiber_id :: "fiber_id \<Rightarrow> string" where
  "debug_fiber_id f = ''FiberId('' @ show_u64 (fiber_id_get f) @ '')''"

fun show_reactive_runtime_error :: "reactive_runtime_error \<Rightarrow> string" where
  "show_reactive_runtime_error (ReactiveScope e) = ''reactive scope error: '' @ show_scope_error e"
| "show_reactive_runtime_error (ReactiveRegistry e) = ''reactive registry error: '' @ show_registry_error e"
| "show_reactive_runtime_error (DuplicateFiber f) = ''fiber '' @ debug_fiber_id f @ '' is already watched''"

definition report_driven :: "fiber_id \<Rightarrow> reconcile_report \<Rightarrow> reconcile_report" where
  "report_driven f r = r\<lparr>rp_driven := rp_driven r @ [f]\<rparr>"

definition report_error :: "fiber_id \<Rightarrow> fiber_error \<Rightarrow> reconcile_report \<Rightarrow> reconcile_report" where
  "report_error f e r = r\<lparr>rp_errors := rp_errors r @ [\<lparr>fr_fiber_id = f, fr_error = e\<rparr>]\<rparr>"

definition append_cleanup_failure ::
  "('d, 'v, 'f) semantic_world \<Rightarrow> fiber_id \<Rightarrow> reconcile_report \<Rightarrow> reconcile_report" where
  "append_cleanup_failure w f r =
     (let errors = fb_last_cleanup_errors (fiber_at w f) in
      if errors \<noteq> []
      then r\<lparr>rp_cleanup_errors := rp_cleanup_errors r @ [\<lparr>fc_fiber_id = f, fc_errors = errors\<rparr>]\<rparr>
      else r)"

subsection \<open>The coordinator\<close>

record reactive_runtime =
  rr_context :: capability_context
  rr_registry :: capability_registry
  rr_fibers :: nat

definition reactive_runtime_new ::
  "capability_context \<Rightarrow> ('d, 'v, 'f) semantic_world \<Rightarrow> reactive_runtime \<times> ('d, 'v, 'f) semantic_world" where
  "reactive_runtime_new c w =
     (\<lparr>rr_context = c, rr_registry = registry_new, rr_fibers = sm_next_coordinator w\<rparr>,
      w\<lparr>sm_watched := fmupd (sm_next_coordinator w) {||} (sm_watched w),
        sm_next_coordinator := Suc (sm_next_coordinator w)\<rparr>)"

definition reactive_scope :: "reactive_runtime \<Rightarrow> scope_ref" where
  "reactive_scope rr = cx_scope (rr_context rr)"

definition watched_fibers :: "reactive_runtime \<Rightarrow> ('d, 'v, 'f) semantic_world \<Rightarrow> fiber_id fset" where
  "watched_fibers rr w = the (fmlookup (sm_watched w) (rr_fibers rr))"

definition watched_write ::
  "reactive_runtime \<Rightarrow> fiber_id fset \<Rightarrow> ('d, 'v, 'f) semantic_world \<Rightarrow> ('d, 'v, 'f) semantic_world" where
  "watched_write rr fs w = w\<lparr>sm_watched := fmupd (rr_fibers rr) fs (sm_watched w)\<rparr>"

abbreviation fiber_alive :: "('d, 'v, 'f) semantic_world \<Rightarrow> fiber_id \<Rightarrow> bool" where
  "fiber_alive w f \<equiv> has_key (sm_fibers w) f"

definition watch ::
  "reactive_runtime \<Rightarrow> fiber_id \<Rightarrow> (('d, 'v, 'f) semantic_world, unit, reactive_runtime_error) act" where
  "watch rr f w =
     (if f |\<in>| watched_fibers rr w \<and> fiber_alive w f then (Err (DuplicateFiber f), w)
      else (Ok (), watched_write rr (finsert f (watched_fibers rr w)) w))"

definition reactive_instantiate ::
  "reactive_runtime \<Rightarrow> ident \<Rightarrow> string \<Rightarrow>
   (('d, 'v, 'f) semantic_world, fiber_id, reactive_runtime_error) act" where
  "reactive_instantiate rr plugin config w =
     (case registry_instantiate (rr_registry rr) plugin (rr_context rr) config w of
        (Err e, w') \<Rightarrow> (Err (ReactiveRegistry e), w')
      | (Panic, w') \<Rightarrow> (Panic, w')
      | (Ok f, w') \<Rightarrow> act_bind (watch rr f) (\<lambda>_ w''. (Ok f, w'')) w')"

definition reactive_provide ::
  "reactive_runtime \<Rightarrow> capability_definition \<Rightarrow> ('v resolved_dependencies \<Rightarrow> ('v, string) res) \<Rightarrow>
   (('d, 'v, 'f) semantic_world, 'v capability_handle, scope_error) act" where
  "reactive_provide rr d construct w =
     (case provide (reactive_scope rr) d construct (sm_scopes w) of
        (r, scopes) \<Rightarrow> (r, w\<lparr>sm_scopes := scopes\<rparr>))"

definition reactive_replace ::
  "reactive_runtime \<Rightarrow> capability_definition \<Rightarrow> generation \<Rightarrow>
   ('v resolved_dependencies \<Rightarrow> ('v, string) res) \<Rightarrow>
   (('d, 'v, 'f) semantic_world, 'v capability_handle, scope_error) act" where
  "reactive_replace rr d expected construct w =
     (case replace (reactive_scope rr) d expected construct (sm_scopes w) of
        (r, scopes) \<Rightarrow> (r, w\<lparr>sm_scopes := scopes\<rparr>))"

text \<open>The fibers whose weak reference can be upgraded, in the order of their identities; the others
  leave the list.\<close>

definition snapshot_fibers ::
  "reactive_runtime \<Rightarrow> ('d, 'v, 'f) semantic_world \<Rightarrow> fiber_id list \<times> ('d, 'v, 'f) semantic_world" where
  "snapshot_fibers rr w =
     (let live = ffilter (fiber_alive w) (watched_fibers rr w)
      in (bs_list live, watched_write rr live w))"

subsection \<open>Reconciliation\<close>

type_synonym ('d, 'v, 'f) other_tasks = "fiber_id \<Rightarrow> ('d, 'v, 'f) semantic_world \<Rightarrow> ('d, 'v, 'f) semantic_world"

text \<open>One pass over a snapshot: whether it drove a fiber, and the report so far.\<close>

fun reconcile_pass ::
  "('d, 'v, 'f) factory_call \<Rightarrow> ('d, 'v, 'f) disposer_call \<Rightarrow> ('d, 'v, 'f) other_tasks \<Rightarrow> fiber_id list \<Rightarrow>
   bool \<Rightarrow> reconcile_report \<Rightarrow> ('d, 'v, 'f) semantic_world \<Rightarrow>
   ((bool \<times> reconcile_report, unit) res \<times> ('d, 'v, 'f) semantic_world) option" where
  "reconcile_pass factory call others [] drove report w = Some (Ok (drove, report), w)"
| "reconcile_pass factory call others (f # fs) drove report w =
     (if \<not> needs_reconciliation w f then reconcile_pass factory call others fs drove report w
      else Option.bind (await_stable factory call f (others f w)) (\<lambda>(r, w').
        let report1 = report_driven f report in
        case r of
          Ok _ \<Rightarrow>
            reconcile_pass factory call others fs True (append_cleanup_failure w' f report1) w'
        | Err e \<Rightarrow>
            reconcile_pass factory call others fs True
              (append_cleanup_failure w' f (report_error f e report1)) w'
        | Panic \<Rightarrow> Some (Panic, w')))"

partial_function (option) reconcile_loop ::
  "('d, 'v, 'f) factory_call \<Rightarrow> ('d, 'v, 'f) disposer_call \<Rightarrow> ('d, 'v, 'f) other_tasks \<Rightarrow> reactive_runtime \<Rightarrow>
   reconcile_report \<Rightarrow> ('d, 'v, 'f) semantic_world \<Rightarrow>
   ((reconcile_report, unit) res \<times> ('d, 'v, 'f) semantic_world) option" where
  "reconcile_loop factory call others rr report w =
     (case snapshot_fibers rr w of (fs, w1) \<Rightarrow>
        Option.bind (reconcile_pass factory call others fs False report w1) (\<lambda>(r, w2).
          case r of
            Ok (drove, report1) \<Rightarrow>
              if drove then reconcile_loop factory call others rr report1 w2 else Some (Ok report1, w2)
          | Err u \<Rightarrow> Some (Err u, w2)
          | Panic \<Rightarrow> Some (Panic, w2)))"

definition reconcile ::
  "('d, 'v, 'f) factory_call \<Rightarrow> ('d, 'v, 'f) disposer_call \<Rightarrow> ('d, 'v, 'f) other_tasks \<Rightarrow> reactive_runtime \<Rightarrow>
   ('d, 'v, 'f) semantic_world \<Rightarrow> ((reconcile_report, unit) res \<times> ('d, 'v, 'f) semantic_world) option" where
  "reconcile factory call others rr w =
     reconcile_loop factory call others rr reconcile_report_default w"

text \<open>What follows a publication: an error of the scope is returned, otherwise the fibers reconcile.\<close>

definition then_reconcile ::
  "('d, 'v, 'f) factory_call \<Rightarrow> ('d, 'v, 'f) disposer_call \<Rightarrow> ('d, 'v, 'f) other_tasks \<Rightarrow> reactive_runtime \<Rightarrow>
   ('v capability_handle, scope_error) res \<times> ('d, 'v, 'f) semantic_world \<Rightarrow>
   (('v capability_handle \<times> reconcile_report, reactive_runtime_error) res \<times> ('d, 'v, 'f) semantic_world) option" where
  "then_reconcile factory call others rr p =
     (case p of
        (Err e, w) \<Rightarrow> Some (Err (ReactiveScope e), w)
      | (Panic, w) \<Rightarrow> Some (Panic, w)
      | (Ok h, w) \<Rightarrow>
          Option.bind (reconcile factory call others rr w) (\<lambda>(r, w').
            case r of
              Ok report \<Rightarrow> Some (Ok (h, report), w')
            | Err u \<Rightarrow> Some (Panic, w')
            | Panic \<Rightarrow> Some (Panic, w')))"

definition provide_and_reconcile ::
  "('d, 'v, 'f) factory_call \<Rightarrow> ('d, 'v, 'f) disposer_call \<Rightarrow> ('d, 'v, 'f) other_tasks \<Rightarrow> reactive_runtime \<Rightarrow>
   capability_definition \<Rightarrow> ('v resolved_dependencies \<Rightarrow> ('v, string) res) \<Rightarrow> ('d, 'v, 'f) semantic_world \<Rightarrow>
   (('v capability_handle \<times> reconcile_report, reactive_runtime_error) res \<times> ('d, 'v, 'f) semantic_world) option" where
  "provide_and_reconcile factory call others rr d construct w =
     then_reconcile factory call others rr (reactive_provide rr d construct w)"

definition replace_and_reconcile ::
  "('d, 'v, 'f) factory_call \<Rightarrow> ('d, 'v, 'f) disposer_call \<Rightarrow> ('d, 'v, 'f) other_tasks \<Rightarrow> reactive_runtime \<Rightarrow>
   capability_definition \<Rightarrow> generation \<Rightarrow> ('v resolved_dependencies \<Rightarrow> ('v, string) res) \<Rightarrow>
   ('d, 'v, 'f) semantic_world \<Rightarrow>
   (('v capability_handle \<times> reconcile_report, reactive_runtime_error) res \<times> ('d, 'v, 'f) semantic_world) option" where
  "replace_and_reconcile factory call others rr d expected construct w =
     then_reconcile factory call others rr (reactive_replace rr d expected construct w)"

subsection \<open>What a withdrawal affects\<close>

record provider_identity =
  pi_capability :: ident
  pi_generation :: generation
  pi_entry_id :: entry_id

definition identity_of_handle :: "'v capability_handle \<Rightarrow> provider_identity" where
  "identity_of_handle h =
     \<lparr>pi_capability = h_id h, pi_generation = h_generation h, pi_entry_id = h_entry_id h\<rparr>"

definition identity_of_pin :: "ident \<Rightarrow> dependency_pin \<Rightarrow> provider_identity" where
  "identity_of_pin i p =
     \<lparr>pi_capability = i, pi_generation = dp_generation p, pi_entry_id = dp_entry_id p\<rparr>"

text \<open>The fibers by the identity of what they publish; of two equal identities the later one stays.\<close>

definition provider_identities ::
  "('d, 'v, 'f) semantic_world \<Rightarrow> fiber_id list \<Rightarrow> (provider_identity, fiber_id) fmap" where
  "provider_identities w fs =
     fold (\<lambda>f m. case fb_handle (fiber_at w f) of
                   Some h \<Rightarrow> fmupd (identity_of_handle h) f m
                 | None \<Rightarrow> m) fs fmempty"

definition fiber_dependency_binding ::
  "('d, 'v, 'f) semantic_world \<Rightarrow> fiber_id \<Rightarrow> dependency_binding option" where
  "fiber_dependency_binding w f =
     (case fiber_binding w f of
        Some b \<Rightarrow> Some b
      | None \<Rightarrow> fb_loading_binding (fiber_at w f))"

text \<open>\<open>DependencyBinding::iter\<close>: the pins in the order of the names.\<close>

definition binding_iter :: "dependency_binding \<Rightarrow> (ident \<times> dependency_pin) list" where
  "binding_iter b = map (\<lambda>i. (i, the (fmlookup (db_pins b) i))) (bt_keys (db_pins b))"

definition binding_contains :: "dependency_binding \<Rightarrow> provider_identity \<Rightarrow> bool" where
  "binding_contains b target \<longleftrightarrow> list_ex (\<lambda>(i, p). identity_of_pin i p = target) (binding_iter b)"

text \<open>The seed of the closure: who published the retired entry, and who is bound to it.\<close>

definition directly_affected ::
  "('d, 'v, 'f) semantic_world \<Rightarrow> 'v capability_handle \<Rightarrow> fiber_id \<Rightarrow> bool" where
  "directly_affected w retired f \<longleftrightarrow>
     (case fb_handle (fiber_at w f) of
        Some h \<Rightarrow> identity_of_handle h = identity_of_handle retired
      | None \<Rightarrow> False) \<or>
     (case fiber_dependency_binding w f of
        Some b \<Rightarrow> binding_contains b (identity_of_handle retired)
      | None \<Rightarrow> False)"

definition binding_providers ::
  "(provider_identity, fiber_id) fmap \<Rightarrow> dependency_binding \<Rightarrow> fiber_id list" where
  "binding_providers identities b =
     List.map_filter (\<lambda>(i, p). fmlookup identities (identity_of_pin i p)) (binding_iter b)"

definition depends_on_affected ::
  "('d, 'v, 'f) semantic_world \<Rightarrow> (provider_identity, fiber_id) fmap \<Rightarrow> fiber_id fset \<Rightarrow> fiber_id \<Rightarrow> bool" where
  "depends_on_affected w identities affected f \<longleftrightarrow>
     (case fiber_dependency_binding w f of
        None \<Rightarrow> False
      | Some b \<Rightarrow> list_ex (\<lambda>provider. provider |\<in>| affected) (binding_providers identities b))"

text \<open>One pass of the loop of \<open>withdrawal_closure\<close>, with its change mark.\<close>

fun closure_pass ::
  "('d, 'v, 'f) semantic_world \<Rightarrow> (provider_identity, fiber_id) fmap \<Rightarrow> fiber_id list \<Rightarrow>
   fiber_id fset \<Rightarrow> bool \<Rightarrow> fiber_id fset \<times> bool" where
  "closure_pass w identities [] affected changed = (affected, changed)"
| "closure_pass w identities (f # fs) affected changed =
     (if f |\<in>| affected then closure_pass w identities fs affected changed
      else if depends_on_affected w identities affected f
      then closure_pass w identities fs (finsert f affected) True
      else closure_pass w identities fs affected changed)"

lemma closure_pass_grows:
  "closure_pass w identities fs A c = (B, c') \<Longrightarrow> fset A \<subseteq> fset B \<and> fset B \<subseteq> fset A \<union> set fs"
proof (induction w identities fs A c rule: closure_pass.induct)
  case (2 w identities f fs A c)
  consider (old) "f |\<in>| A" | (new) "f |\<notin>| A" "depends_on_affected w identities A f"
    | (other) "f |\<notin>| A" "\<not> depends_on_affected w identities A f" by blast
  then show ?case
  proof cases
    case old
    with 2(4) have "closure_pass w identities fs A c = (B, c')" by simp
    from 2(1) [OF old this] show ?thesis by auto
  next
    case new
    with 2(4) have "closure_pass w identities fs (finsert f A) True = (B, c')" by simp
    from 2(2) [OF new this] show ?thesis by auto
  next
    case other
    with 2(4) have "closure_pass w identities fs A c = (B, c')" by simp
    from 2(3) [OF other this] show ?thesis by auto
  qed
qed simp

lemma closure_pass_changed:
  "closure_pass w identities fs A c = (B, c') \<Longrightarrow> c' \<longleftrightarrow> c \<or> B \<noteq> A"
proof (induction w identities fs A c rule: closure_pass.induct)
  case (2 w identities f fs A c)
  consider (old) "f |\<in>| A" | (new) "f |\<notin>| A" "depends_on_affected w identities A f"
    | (other) "f |\<notin>| A" "\<not> depends_on_affected w identities A f" by blast
  then show ?case
  proof cases
    case old
    with 2(4) have "closure_pass w identities fs A c = (B, c')" by simp
    from 2(1) [OF old this] show ?thesis .
  next
    case new
    with 2(4) have pass: "closure_pass w identities fs (finsert f A) True = (B, c')" by simp
    from 2(2) [OF new this] have "c'" by blast
    moreover have "f |\<in>| B" using closure_pass_grows [OF pass] by auto
    ultimately show ?thesis using new(1) by blast
  next
    case other
    with 2(4) have "closure_pass w identities fs A c = (B, c')" by simp
    from 2(3) [OF other this] show ?thesis .
  qed
qed simp

lemma closure_pass_measure:
  assumes "closure_pass w identities fs A False = (B, True)"
  shows "card (set fs - fset B) < card (set fs - fset A)"
proof (rule psubset_card_mono)
  have "fset A \<noteq> fset B" "fset A \<subseteq> fset B" "fset B \<subseteq> fset A \<union> set fs"
    using closure_pass_changed [OF assms] closure_pass_grows [OF assms] by (auto simp: fset_inject)
  then show "set fs - fset B \<subset> set fs - fset A" by blast
qed simp

function closure_loop ::
  "('d, 'v, 'f) semantic_world \<Rightarrow> (provider_identity, fiber_id) fmap \<Rightarrow> fiber_id list \<Rightarrow>
   fiber_id fset \<Rightarrow> fiber_id fset" where
  "closure_loop w identities fs affected =
     (case closure_pass w identities fs affected False of
        (affected', changed) \<Rightarrow>
          if changed then closure_loop w identities fs affected' else affected')"
  by pat_completeness auto

termination
  by (relation "measure (\<lambda>(w, identities, fs, affected). card (set fs - fset affected))")
    (auto dest!: sym [THEN closure_pass_measure])

declare closure_loop.simps [simp del]

definition withdrawal_closure ::
  "('d, 'v, 'f) semantic_world \<Rightarrow> fiber_id list \<Rightarrow> 'v capability_handle \<Rightarrow>
   (provider_identity, fiber_id) fmap \<Rightarrow> fiber_id fset" where
  "withdrawal_closure w fs retired identities =
     closure_loop w identities fs (fset_of_list (filter (directly_affected w retired) fs))"

subsection \<open>The order of a withdrawal\<close>

lemma visiting_measure:
  assumes "fmlookup bindings f = Some b" "f |\<notin>| visiting"
  shows "card (fset (fmdom bindings) - insert f (fset visiting)) < card (fset (fmdom bindings) - fset visiting)"
proof (rule psubset_card_mono)
  have "f |\<in>| fmdom bindings" using assms(1) by (rule fmdomI)
  then show "fset (fmdom bindings) - insert f (fset visiting) \<subset> fset (fmdom bindings) - fset visiting"
    using assms(2) by auto
qed simp

text \<open>
  The length of the longest chain of affected providers below a fiber.  A fiber that is being visited
  counts as \<open>0\<close>, so the recursion ends on a cycle too.
\<close>

function dependency_depth ::
  "(fiber_id, dependency_binding) fmap \<Rightarrow> fiber_id fset \<Rightarrow> (provider_identity, fiber_id) fmap \<Rightarrow>
   fiber_id fset \<Rightarrow> fiber_id \<Rightarrow> nat" where
  "dependency_depth bindings affected identities visiting f =
     (if f |\<in>| visiting then 0
      else case fmlookup bindings f of
             None \<Rightarrow> 0
           | Some b \<Rightarrow>
               foldr max
                 (map (\<lambda>provider. 1 + dependency_depth bindings affected identities (finsert f visiting) provider)
                   (filter (\<lambda>provider. provider |\<in>| affected \<and> provider \<noteq> f) (binding_providers identities b))) 0)"
  by pat_completeness auto

termination
  by (relation "measure (\<lambda>(bindings, affected, identities, visiting, f). card (fset (fmdom bindings) - fset visiting))")
    (auto intro: visiting_measure)

declare dependency_depth.simps [simp del]

definition affected_bindings ::
  "('d, 'v, 'f) semantic_world \<Rightarrow> fiber_id list \<Rightarrow> fiber_id fset \<Rightarrow> (fiber_id, dependency_binding) fmap" where
  "affected_bindings w fs affected =
     fold (\<lambda>f m. if f |\<in>| affected
                 then case fiber_dependency_binding w f of Some b \<Rightarrow> fmupd f b m | None \<Rightarrow> m
                 else m) fs fmempty"

text \<open>The comparator: the deeper fiber first, then the smaller identity.\<close>

definition withdrawal_key :: "nat \<times> fiber_id \<Rightarrow> int \<times> fiber_id" where
  "withdrawal_key x = (- int (fst x), snd x)"

definition withdrawal_order ::
  "('d, 'v, 'f) semantic_world \<Rightarrow> fiber_id list \<Rightarrow> fiber_id fset \<Rightarrow>
   (provider_identity, fiber_id) fmap \<Rightarrow> fiber_id list" where
  "withdrawal_order w fs affected identities =
     (let bindings = affected_bindings w fs affected
      in map snd (sort_key withdrawal_key
           (map (\<lambda>f. (dependency_depth bindings affected identities {||} f, f))
             (filter (\<lambda>f. f \<in> set fs) (bs_list affected)))))"

subsection \<open>Withdrawal\<close>

definition retired_publication ::
  "('d, 'v, 'f) semantic_world \<Rightarrow> fiber_id \<Rightarrow> 'v capability_handle \<Rightarrow> bool" where
  "retired_publication w f retired \<longleftrightarrow>
     (case fb_handle (fiber_at w f) of
        Some h \<Rightarrow> identity_of_handle h = identity_of_handle retired
      | None \<Rightarrow> False)"

text \<open>The loop over the affected fibers; the lock of a fiber is awaited between its two halves.\<close>

fun withdraw_each ::
  "('d, 'v, 'f) disposer_call \<Rightarrow> ('d, 'v, 'f) other_tasks \<Rightarrow> 'v capability_handle \<Rightarrow> fiber_id list \<Rightarrow>
   reconcile_report \<Rightarrow> ('d, 'v, 'f) semantic_world \<Rightarrow>
   ((reconcile_report, unit) res \<times> ('d, 'v, 'f) semantic_world) option" where
  "withdraw_each call others retired [] report w = Some (Ok report, w)"
| "withdraw_each call others retired (f # fs) report w =
     (let report1 = report_driven f report;
          detached = (if retired_publication w f retired then Some retired else None)
      in Option.bind (withdrawal_locked call f detached (others f (notify_dependency_change f w))) (\<lambda>(r, w').
        case r of
          Ok _ \<Rightarrow> withdraw_each call others retired fs (append_cleanup_failure w' f report1) w'
        | Err e \<Rightarrow>
            withdraw_each call others retired fs (append_cleanup_failure w' f (report_error f e report1)) w'
        | Panic \<Rightarrow> Some (Panic, w')))"

definition withdraw_and_reconcile ::
  "('d, 'v, 'f) disposer_call \<Rightarrow> ('d, 'v, 'f) other_tasks \<Rightarrow> reactive_runtime \<Rightarrow> ident \<Rightarrow> generation \<Rightarrow>
   ('d, 'v, 'f) semantic_world \<Rightarrow>
   ((reconcile_report, reactive_runtime_error) res \<times> ('d, 'v, 'f) semantic_world) option" where
  "withdraw_and_reconcile call others rr i expected w =
     (if get_local (sm_scopes w) (reactive_scope rr) i = None
      then Some (Ok (reconcile_report_default\<lparr>rp_provider_finalized := True\<rparr>), w)
      else case withdraw (reactive_scope rr) i expected (sm_scopes w) of
             (Err e, scopes) \<Rightarrow> Some (Err (ReactiveScope e), w\<lparr>sm_scopes := scopes\<rparr>)
           | (Panic, scopes) \<Rightarrow> Some (Panic, w\<lparr>sm_scopes := scopes\<rparr>)
           | (Ok retired, scopes) \<Rightarrow>
               (case snapshot_fibers rr (w\<lparr>sm_scopes := scopes\<rparr>) of (fs, w1) \<Rightarrow>
                  let identities = provider_identities w1 fs;
                      affected = withdrawal_closure w1 fs retired identities;
                      ordered = withdrawal_order w1 fs affected identities
                  in Option.bind (withdraw_each call others retired ordered reconcile_report_default w1) (\<lambda>(r, w2).
                       case r of
                         Ok report \<Rightarrow> Some (Ok (report\<lparr>rp_provider_finalized := True\<rparr>), w2)
                       | Err u \<Rightarrow> Some (Panic, w2)
                       | Panic \<Rightarrow> Some (Panic, w2))))"

end
