(* ===== verification/Effect_Laws.thy ===== *)
theory Effect_Laws
  imports Effect_Scope
begin

text \<open>
  What \<open>run_effects\<close> does, stated on trees: the effects of a scope with the effects of its nested
  scopes below them.  Every heap that the operations build holds such trees, so a disposal whose
  callbacks leave the stacks alone returns, and it is the structural function \<open>dispose_forest\<close>.
\<close>

subsection \<open>Trees of effects\<close>

datatype 'd effect_tree =
    Leaf string 'd
  | Branch string effect_scope "'d effect_tree list"

fun stands_for :: "('d, 'z) effect_heap_scheme \<Rightarrow> 'd effect_tree \<Rightarrow> 'd scoped_effect \<Rightarrow> bool" where
  "stands_for w (Leaf l d) e \<longleftrightarrow> e = \<lparr>se_label = l, se_disposer = Some (Foreign d)\<rparr>"
| "stands_for w (Branch l s ts) e \<longleftrightarrow>
     e = \<lparr>se_label = l, se_disposer = Some (DisposeScope s)\<rparr> \<and>
     list_all2 (\<lambda>t. stands_for w t) ts (es_effects (stack_at w s))"

fun scopes_of :: "'d effect_tree \<Rightarrow> effect_scope list" where
  "scopes_of (Leaf l d) = []"
| "scopes_of (Branch l s ts) = s # concat (map scopes_of ts)"

abbreviation scopes_of_all :: "'d effect_tree list \<Rightarrow> effect_scope list" where
  "scopes_of_all ts \<equiv> concat (map scopes_of ts)"

text \<open>The specification: the trees of a list are disposed from the last to the first.\<close>

definition nested_failure :: "string \<Rightarrow> effect_error list \<Rightarrow> effect_error list" where
  "nested_failure l errors =
     (if errors = [] then []
      else [DisposerFailed l
              (''nested effect cleanup failed: '' @ show_nat (length errors) @ '' error(s)'')])"

definition shut :: "effect_scope \<Rightarrow> ('d, 'z) effect_heap_scheme \<Rightarrow> ('d, 'z) effect_heap_scheme" where
  "shut s w = stack_write s \<lparr>es_effects = [], es_closed = True\<rparr> w"

fun dispose_tree ::
  "('d \<Rightarrow> (('d, 'z) effect_heap_scheme, unit, string) act) \<Rightarrow> 'd effect_tree \<Rightarrow>
   ('d, 'z) effect_heap_scheme \<Rightarrow> effect_error list \<times> ('d, 'z) effect_heap_scheme"
and dispose_forest ::
  "('d \<Rightarrow> (('d, 'z) effect_heap_scheme, unit, string) act) \<Rightarrow> 'd effect_tree list \<Rightarrow>
   ('d, 'z) effect_heap_scheme \<Rightarrow> effect_error list \<times> ('d, 'z) effect_heap_scheme" where
  "dispose_tree call (Leaf l d) w =
     (case call d w of (r, w') \<Rightarrow> (case r of Err reason \<Rightarrow> [DisposerFailed l reason] | _ \<Rightarrow> [], w'))"
| "dispose_tree call (Branch l s ts) w =
     (case dispose_forest call ts (shut s w) of (errors, w') \<Rightarrow> (nested_failure l errors, w'))"
| "dispose_forest call [] w = ([], w)"
| "dispose_forest call (t # ts) w =
     (case dispose_forest call ts w of (later, w') \<Rightarrow>
        case dispose_tree call t w' of (own, w'') \<Rightarrow> (later @ own, w''))"

subsection \<open>The loop implements the specification\<close>

text \<open>Callbacks that return, and leave the stacks alone.\<close>

definition quiet_disposer :: "('d \<Rightarrow> (('d, 'z) effect_heap_scheme, unit, string) act) \<Rightarrow> bool" where
  "quiet_disposer call \<longleftrightarrow>
     (\<forall>d w. fst (call d w) \<noteq> Panic \<and> eh_stacks (snd (call d w)) = eh_stacks w)"

lemma stack_at_write [simp]: "stack_at (stack_write s st w) t = (if t = s then st else stack_at w t)"
  by (simp add: stack_at_def stack_write_def)

lemma stack_at_shut [simp]:
  "stack_at (shut s w) t = (if t = s then \<lparr>es_effects = [], es_closed = True\<rparr> else stack_at w t)"
  by (simp add: shut_def)

lemma stack_at_cong: "eh_stacks w = eh_stacks w' \<Longrightarrow> stack_at w s = stack_at w' s"
  by (simp add: stack_at_def)

lemma stands_for_cong:
  "stands_for w t e \<Longrightarrow> (\<And>s. s \<in> set (scopes_of t) \<Longrightarrow> stack_at w' s = stack_at w s) \<Longrightarrow>
   stands_for w' t e"
proof (induction t arbitrary: e)
  case (Branch l s ts)
  have "list_all2 (\<lambda>t. stands_for w' t) ts (es_effects (stack_at w s))"
  proof (rule list.rel_mono_strong)
    show "list_all2 (\<lambda>t. stands_for w t) ts (es_effects (stack_at w s))" using Branch.prems by simp
    show "stands_for w' t e" if "t \<in> set ts" "stands_for w t e" for t e
      using Branch.IH [OF that] Branch.prems(2) that(1) by fastforce
  qed
  with Branch.prems show ?case by simp
qed simp

lemma dispose_touches:
  "quiet_disposer call \<Longrightarrow> s \<notin> set (scopes_of t) \<Longrightarrow>
   stack_at (snd (dispose_tree call t w)) s = stack_at w s"
  "quiet_disposer call \<Longrightarrow> s \<notin> set (scopes_of_all ts) \<Longrightarrow>
   stack_at (snd (dispose_forest call ts w)) s = stack_at w s"
proof (induction call t w and call ts w rule: dispose_tree_dispose_forest.induct)
  case (1 call l d w)
  then show ?case by (auto simp: quiet_disposer_def split: prod.splits intro: stack_at_cong dest: spec)
       (metis snd_conv stack_at_cong)
qed (auto split: prod.splits)

lemma dispose_forest_snoc:
  "dispose_forest call (ts @ [t]) w =
     (case dispose_tree call t w of (own, w') \<Rightarrow>
        case dispose_forest call ts w' of (earlier, w'') \<Rightarrow> (own @ earlier, w''))"
  by (induction ts) (simp_all split: prod.splits)

lemma stand_for_cong:
  assumes "list_all2 (stands_for w) ts es"
    and "\<And>s. s \<in> set (scopes_of_all ts) \<Longrightarrow> stack_at w' s = stack_at w s"
  shows "list_all2 (stands_for w') ts es"
proof (rule list.rel_mono_strong [OF assms(1)])
  show "stands_for w' t e" if "t \<in> set ts" "stands_for w t e" for t e
    by (rule stands_for_cong [OF that(2)]) (use that(1) assms(2) in auto)
qed

lemma run_effects_nil [simp]: "run_effects call [] errors w = Some (Ok errors, w)"
  by (simp add: run_effects.simps)

lemma run_effects_callback:
  "run_effects call (es @ [\<lparr>se_label = l, se_disposer = Some (Foreign d)\<rparr>]) errors w =
     (case call d w of
        (Ok _, w') \<Rightarrow> run_effects call es errors w'
      | (Err reason, w') \<Rightarrow> run_effects call es (errors @ [DisposerFailed l reason]) w'
      | (Panic, w') \<Rightarrow> Some (Panic, w'))"
  by (subst run_effects.simps) (auto split: prod.splits res.splits)

lemma run_effects_nested:
  "run_effects call (es @ [\<lparr>se_label = l, se_disposer = Some (DisposeScope s)\<rparr>]) errors w =
     Option.bind (run_effects call (es_effects (stack_at w s)) [] (shut s w))
       (\<lambda>(r, w'). case nested_outcome r of
          Ok _ \<Rightarrow> run_effects call es errors w'
        | Err reason \<Rightarrow> run_effects call es (errors @ [DisposerFailed l reason]) w'
        | Panic \<Rightarrow> Some (Panic, w'))"
  by (subst run_effects.simps)
    (cases "run_effects call (es_effects (stack_at w s)) [] (shut s w)";
      simp add: stack_take_def flip: shut_def split: prod.splits res.splits)

text \<open>
  Induction over a disposal that returned: it ends, skips an effect without disposer, or calls one, which
  may be a nested disposal; then it goes on or a panic ends it.
\<close>

lemma run_effects_induct [consumes 1, case_names finished skipped disposed]:
  assumes run: "run_effects call es errors w = Some r"
    and finished: "\<And>errors w. P [] errors w (Ok errors, w)"
    and skipped: "\<And>es errors w r. es \<noteq> [] \<Longrightarrow> se_disposer (last es) = None \<Longrightarrow> P (butlast es) errors w r \<Longrightarrow>
      P es errors w r"
    and disposed: "\<And>es errors w r d q v. es \<noteq> [] \<Longrightarrow> se_disposer (last es) = Some d \<Longrightarrow>
      (case d of
         Foreign k \<Rightarrow> call k w = (q, v)
       | DisposeScope s \<Rightarrow> \<exists>q'. P (es_effects (stack_at w s)) [] (shut s w) (q', v) \<and> q = nested_outcome q') \<Longrightarrow>
      (case q of
         Panic \<Rightarrow> r = (Panic, v)
       | _ \<Rightarrow> \<exists>errors'. P (butlast es) errors' v r) \<Longrightarrow> P es errors w r"
  shows "P es errors w r"
proof -
  have "call = call \<longrightarrow> P es errors w r"
  proof (rule run_effects.raw_induct [where P = "\<lambda>c es errors w r. c = call \<longrightarrow> P es errors w r", OF _ run], rule impI)
    fix loop c es errors w r
    assume IH: "\<And>c es errors w r. loop c es errors w = Some r \<Longrightarrow> c = call \<longrightarrow> P es errors w r"
      and eq: "(if es = [] then Some (Ok errors, w)
        else case se_disposer (last es) of
          None \<Rightarrow> loop c (butlast es) errors w
        | Some d \<Rightarrow>
            Option.bind
              (case d of
                 Foreign k \<Rightarrow> Some (c k w)
               | DisposeScope s \<Rightarrow>
                   (case stack_take (stack_at w s) of (taken, st) \<Rightarrow>
                      Option.bind (loop c taken [] (stack_write s st w))
                        (\<lambda>(r, w'). Some (nested_outcome r, w'))))
              (\<lambda>(r, w'). case r of
                 Ok _ \<Rightarrow> loop c (butlast es) errors w'
               | Err reason \<Rightarrow> loop c (butlast es) (errors @ [DisposerFailed (se_label (last es)) reason]) w'
               | Panic \<Rightarrow> Some (Panic, w'))) = Some r"
      and c: "c = call"
    have hyp: "P es errors w r" if "loop call es errors w = Some r" for es errors w r using IH [OF that] by simp
    show "P es errors w r"
    proof (cases "es = [] \<or> se_disposer (last es) = None")
      case True
      show ?thesis
      proof (cases "es = []")
        case True
        with eq finished [of errors w] show ?thesis by simp
      next
        case False
        with True have none: "se_disposer (last es) = None" by simp
        with False eq c have "P (butlast es) errors w r" by (intro hyp) simp
        with False none show ?thesis by (rule skipped)
      qed
    next
      case False
      then obtain d where d: "es \<noteq> []" "se_disposer (last es) = Some d" by auto
      with eq c obtain q v where q: "(case d of
            Foreign k \<Rightarrow> Some (call k w)
          | DisposeScope s \<Rightarrow>
              (case stack_take (stack_at w s) of (taken, st) \<Rightarrow>
                 Option.bind (loop call taken [] (stack_write s st w)) (\<lambda>(r, w'). Some (nested_outcome r, w'))))
          = Some (q, v)"
        "(case q of
            Ok _ \<Rightarrow> loop call (butlast es) errors v
          | Err reason \<Rightarrow> loop call (butlast es) (errors @ [DisposerFailed (se_label (last es)) reason]) v
          | Panic \<Rightarrow> Some (Panic, v)) = Some r"
        by (auto simp: bind_eq_Some_conv simp del: case_prod_conv split: prod.splits)
      show ?thesis
      proof (rule disposed [OF d])
        show "case d of
            Foreign k \<Rightarrow> call k w = (q, v)
          | DisposeScope s \<Rightarrow> \<exists>q'. P (es_effects (stack_at w s)) [] (shut s w) (q', v) \<and> q = nested_outcome q'"
          using q(1) by (cases d) (auto simp: bind_eq_Some_conv stack_take_def shut_def dest!: hyp)
        show "case q of Panic \<Rightarrow> r = (Panic, v) | _ \<Rightarrow> \<exists>errors'. P (butlast es) errors' v r"
          using q(2) by (cases q) (auto dest!: hyp)
      qed
    qed
  qed
  then show ?thesis by simp
qed

lemma run_effects_forest:
  assumes "quiet_disposer call" "list_all2 (stands_for w) ts es" "distinct (scopes_of_all ts)"
  shows "run_effects call es errors w =
    (case dispose_forest call ts w of (failed, w') \<Rightarrow> Some (Ok (errors @ failed), w'))"
  using assms
proof (induction "size_list size ts" arbitrary: ts es errors w rule: less_induct)
  case less
  show ?case
  proof (cases ts rule: rev_cases)
    case Nil
    with less.prems show ?thesis by simp
  next
    case (snoc us t)
    with less.prems(2) obtain fs e where es: "es = fs @ [e]" "list_all2 (stands_for w) us fs"
      "stands_for w t e"
      by (auto simp: list_all2_append1 list_all2_Cons1)
    have later: "run_effects call fs errors' w' =
        (case dispose_forest call us w' of (failed, w'') \<Rightarrow> Some (Ok (errors' @ failed), w''))"
      if "\<And>s. s \<in> set (scopes_of_all us) \<Longrightarrow> stack_at w' s = stack_at w s" for errors' w'
      by (rule less.hyps) (use less.prems snoc stand_for_cong [OF es(2) that] in auto)
    show ?thesis
    proof (cases t)
      case (Leaf l d)
      obtain r w' where call: "call d w = (r, w')" by (cases "call d w")
      with less.prems(1) have "r \<noteq> Panic" "eh_stacks w' = eh_stacks w"
        unfolding quiet_disposer_def by (metis fst_conv, metis snd_conv)
      then have "run_effects call fs errors' w' =
          (case dispose_forest call us w' of (failed, w'') \<Rightarrow> Some (Ok (errors' @ failed), w''))" for errors'
        by (intro later stack_at_cong)
      with \<open>r \<noteq> Panic\<close> show ?thesis
        using Leaf es call snoc
        by (cases r) (simp_all add: run_effects_callback dispose_forest_snoc split: prod.splits)
    next
      case (Branch l s ss)
      obtain failed w' where nested: "dispose_forest call ss (shut s w) = (failed, w')" by fastforce
      have s: "s \<notin> set (scopes_of_all ss)" "s \<notin> set (scopes_of_all us)"
        "set (scopes_of_all ss) \<inter> set (scopes_of_all us) = {}"
        using less.prems(3) snoc Branch by auto
      have "run_effects call (es_effects (stack_at w s)) [] (shut s w) =
          (case dispose_forest call ss (shut s w) of (failed, w') \<Rightarrow> Some (Ok ([] @ failed), w'))"
      proof (rule less.hyps)
        show "list_all2 (stands_for (shut s w)) ss (es_effects (stack_at w s))"
          by (rule stand_for_cong [of w]) (use es(3) Branch s(1) in auto)
      qed (use less.prems snoc Branch in auto)
      then have run: "run_effects call (es_effects (stack_at w s)) [] (shut s w) = Some (Ok failed, w')"
        using nested by simp
      have "run_effects call fs errors' w' =
          (case dispose_forest call us w' of (failed, w'') \<Rightarrow> Some (Ok (errors' @ failed), w''))" for errors'
      proof (rule later)
        fix x assume "x \<in> set (scopes_of_all us)"
        with s have "x \<notin> set (scopes_of_all ss)" "x \<noteq> s" by auto
        with dispose_touches(2) [OF less.prems(1), of x ss "shut s w"] nested
        show "stack_at w' x = stack_at w x" by simp
      qed
      then show ?thesis
        using Branch es snoc nested run
        by (simp add: run_effects_nested dispose_forest_snoc nested_failure_def split: prod.splits)
    qed
  qed
qed

subsection \<open>Heaps built by the operations\<close>

primrec scope_number :: "effect_scope \<Rightarrow> nat" where
  "scope_number (EffectScope n) = n"

definition owns :: "('d, 'z) effect_heap_scheme \<Rightarrow> effect_scope \<Rightarrow> effect_scope \<Rightarrow> bool" where
  "owns w s c \<longleftrightarrow> Some (DisposeScope c) \<in> se_disposer ` set (es_effects (stack_at w s))"

definition heap_ok :: "('d, 'z) effect_heap_scheme \<Rightarrow> bool" where
  "heap_ok w \<longleftrightarrow>
     (\<forall>s. has_key (eh_stacks w) s \<longrightarrow> scope_number s < eh_next w) \<and>
     (\<forall>s. None \<notin> se_disposer ` set (es_effects (stack_at w s))) \<and>
     (\<forall>s c. owns w s c \<longrightarrow> scope_number s < scope_number c \<and> scope_number c < eh_next w) \<and>
     (\<forall>s s' c. owns w s c \<longrightarrow> owns w s' c \<longrightarrow> s = s') \<and>
     (\<forall>s i j c. i < length (es_effects (stack_at w s)) \<longrightarrow> j < length (es_effects (stack_at w s)) \<longrightarrow>
        se_disposer (es_effects (stack_at w s) ! i) = Some (DisposeScope c) \<longrightarrow>
        se_disposer (es_effects (stack_at w s) ! j) = Some (DisposeScope c) \<longrightarrow> i = j)"

text \<open>
  One operation on an allocated scope; \<open>take\<close> is the part of a disposal under the lock, the callbacks
  that follow it are operations of their own.
\<close>

inductive effect_op :: "('d, 'z) effect_heap_scheme \<Rightarrow> ('d, 'z) effect_heap_scheme \<Rightarrow> bool" where
  new: "effect_op w (snd (effect_scope_new w))"
| register: "has_key (eh_stacks w) s \<Longrightarrow>
    effect_op w (snd (effect_register s \<lparr>se_label = l, se_disposer = Some (Foreign d)\<rparr> w))"
| child: "has_key (eh_stacks w) s \<Longrightarrow> effect_op w (snd (effect_child s l w))"
| take: "has_key (eh_stacks w) s \<Longrightarrow> effect_op w (shut s w)"

inductive effect_built :: "('d, 'z) effect_heap_scheme \<Rightarrow> bool" where
  empty: "eh_stacks w = fmempty \<Longrightarrow> effect_built w"
| op: "effect_built w \<Longrightarrow> effect_op w w' \<Longrightarrow> effect_built w'"

lemma stack_at_absent: "\<not> has_key (eh_stacks w) s \<Longrightarrow> stack_at w s = effect_stack_new"
  by (simp add: stack_at_def)

lemma stack_write_fields [simp]:
  "eh_stacks (stack_write s st w) = fmupd s st (eh_stacks w)"
  "eh_next (stack_write s st w) = eh_next w"
  by (simp_all add: stack_write_def)

lemma stack_at_next [simp]: "stack_at (w\<lparr>eh_next := n\<rparr>) s = stack_at w s"
  by (simp add: stack_at_def)

lemma owns_write: "owns (stack_write s st w) t c \<longleftrightarrow>
    (if t = s then Some (DisposeScope c) \<in> se_disposer ` set (es_effects st) else owns w t c)"
  by (simp add: owns_def)

text \<open>A write that keeps the effects of the stack, drops them, or appends one that owns a fresh scope
  or none.\<close>

lemma heap_ok_fresh:
  assumes "heap_ok w"
  shows "stack_at w (EffectScope (eh_next w)) = effect_stack_new" "\<not> owns w s (EffectScope (eh_next w))"
proof -
  show "stack_at w (EffectScope (eh_next w)) = effect_stack_new"
    using assms by (intro stack_at_absent) (auto simp: heap_ok_def)
  show "\<not> owns w s (EffectScope (eh_next w))"
    using assms unfolding heap_ok_def by (metis scope_number.simps less_irrefl)
qed

lemma heap_ok_clear:
  assumes "heap_ok w" "scope_number s < eh_next w"
  shows "heap_ok (stack_write s \<lparr>es_effects = [], es_closed = b\<rparr> w)"
  using assms unfolding heap_ok_def owns_write by auto

lemma heap_ok_new: "heap_ok w \<Longrightarrow> heap_ok (snd (effect_scope_new w))"
proof -
  assume ok: "heap_ok w"
  then have "heap_ok (w\<lparr>eh_next := Suc (eh_next w)\<rparr>)"
    unfolding heap_ok_def owns_def by (auto simp: less_Suc_eq)
  then have "heap_ok (stack_write (EffectScope (eh_next w)) \<lparr>es_effects = [], es_closed = False\<rparr>
      (w\<lparr>eh_next := Suc (eh_next w)\<rparr>))"
    by (rule heap_ok_clear) simp
  then show ?thesis by (simp add: effect_scope_new_def effect_stack_new_def)
qed

lemma heap_ok_push:
  assumes ok: "heap_ok w" and s: "scope_number s < eh_next w"
    and e: "se_disposer e = Some d"
      "\<And>c. d = DisposeScope c \<Longrightarrow>
         scope_number s < scope_number c \<and> scope_number c < eh_next w \<and> (\<forall>t. \<not> owns w t c)"
  shows "heap_ok (stack_write s (stack_at w s\<lparr>es_effects := es_effects (stack_at w s) @ [e]\<rparr>) w)"
proof -
  let ?w = "stack_write s (stack_at w s\<lparr>es_effects := es_effects (stack_at w s) @ [e]\<rparr>) w"
  have owns: "owns ?w t c \<longleftrightarrow> owns w t c \<or> t = s \<and> d = DisposeScope c" for t c
    using e(1) by (auto simp: owns_write owns_def)
  have old: "owns w t c" if "i < length (es_effects (stack_at w t))"
    "se_disposer (es_effects (stack_at w t) ! i) = Some (DisposeScope c)" for t i c
    using that by (auto simp: owns_def image_iff intro!: bexI [of _ "es_effects (stack_at w t) ! i"])
  have "i = j" if "i < length (es_effects (stack_at ?w t))" "j < length (es_effects (stack_at ?w t))"
    "se_disposer (es_effects (stack_at ?w t) ! i) = Some (DisposeScope c)"
    "se_disposer (es_effects (stack_at ?w t) ! j) = Some (DisposeScope c)" for t i j c
  proof (cases "t = s")
    case True
    have "\<not> (d = DisposeScope c \<and> owns w s c)" using e(2) by blast
    then have "i < length (es_effects (stack_at w s)) \<and> j < length (es_effects (stack_at w s)) \<or> i = j"
      using that True e(1) old [of i s c] old [of j s c]
      by (auto simp: nth_append less_Suc_eq split: if_splits)
    then show ?thesis
      using that ok True unfolding heap_ok_def by (auto simp: nth_append)
  next
    case False
    then show ?thesis using that ok unfolding heap_ok_def by auto
  qed
  moreover have "t = t'" if "owns ?w t c" "owns ?w t' c" for t t' c
    using that ok e(2) unfolding owns heap_ok_def by blast
  moreover have "scope_number t < scope_number c \<and> scope_number c < eh_next ?w" if "owns ?w t c" for t c
    using that ok e(2) unfolding owns heap_ok_def by auto
  moreover have "None \<notin> se_disposer ` set (es_effects (stack_at ?w t))" for t
    using ok e(1) by (auto simp: heap_ok_def)
  moreover have "has_key (eh_stacks ?w) t \<longrightarrow> scope_number t < eh_next ?w" for t
    using ok s by (auto simp: heap_ok_def)
  ultimately show ?thesis unfolding heap_ok_def by blast
qed

lemma heap_ok_register:
  assumes "heap_ok w" "scope_number s < eh_next w" "se_disposer e = Some d"
    "\<And>c. d = DisposeScope c \<Longrightarrow>
       scope_number s < scope_number c \<and> scope_number c < eh_next w \<and> (\<forall>t. \<not> owns w t c)"
  shows "heap_ok (snd (effect_register s e w))"
proof (cases "es_closed (stack_at w s)")
  case True
  have same: "stack_at (stack_write s (stack_at w s) w) t = stack_at w t" for t by simp
  have "heap_ok (stack_write s (stack_at w s) w)"
    using assms(1,2) unfolding heap_ok_def owns_def same by auto
  with True show ?thesis by (simp add: effect_register_def stack_push_def)
next
  case False
  then show ?thesis
    using heap_ok_push [OF assms] by (simp add: effect_register_def stack_push_def)
qed

lemma effect_child_heap:
  "snd (effect_child s l w) =
     snd (effect_register s \<lparr>se_label = l, se_disposer = Some (DisposeScope (EffectScope (eh_next w)))\<rparr>
       (snd (effect_scope_new w)))"
  by (simp add: effect_child_def effect_scope_new_def act_bind_def effect_asynchronous_def
      split: prod.splits res.splits)

lemma heap_ok_op: "effect_op w w' \<Longrightarrow> heap_ok w \<Longrightarrow> heap_ok w'"
proof (induction rule: effect_op.induct)
  case (new w)
  then show ?case by (rule heap_ok_new)
next
  case (register w s l d)
  then show ?case by (intro heap_ok_register) (auto simp: heap_ok_def)
next
  case (child w s l)
  then have s: "scope_number s < eh_next w" by (auto simp: heap_ok_def)
  let ?w = "snd (effect_scope_new w)"
  have "heap_ok ?w" using child by (intro heap_ok_new)
  moreover have "\<not> owns ?w t (EffectScope (eh_next w))" for t
    using heap_ok_fresh [OF child(2)]
    by (auto simp: effect_scope_new_def owns_write effect_stack_new_def) (simp add: owns_def)
  ultimately show ?case
    unfolding effect_child_heap using s by (intro heap_ok_register) (auto simp: effect_scope_new_def)
next
  case (take w s)
  then show ?case unfolding shut_def by (intro heap_ok_clear) (auto simp: heap_ok_def)
qed

lemma heap_ok_built: "effect_built w \<Longrightarrow> heap_ok w"
proof (induction rule: effect_built.induct)
  case (empty w)
  then show ?case by (simp add: heap_ok_def owns_def stack_at_def effect_stack_new_def)
next
  case (op w w')
  then show ?case by (blast intro: heap_ok_op)
qed

subsection \<open>Every scope of a built heap holds a forest\<close>

lemma distinct_concat_index:
  assumes "\<And>i. i < length xss \<Longrightarrow> distinct (xss ! i)"
    and "\<And>i j. i < length xss \<Longrightarrow> j < length xss \<Longrightarrow> i \<noteq> j \<Longrightarrow> set (xss ! i) \<inter> set (xss ! j) = {}"
  shows "distinct (concat xss)"
  using assms
proof (induction xss)
  case (Cons xs xss)
  have "distinct (concat xss)"
  proof (rule Cons.IH)
    show "distinct (xss ! i)" if "i < length xss" for i
      using Cons.prems(1) [of "Suc i"] that by simp
    show "set (xss ! i) \<inter> set (xss ! j) = {}" if "i < length xss" "j < length xss" "i \<noteq> j" for i j
      using Cons.prems(2) [of "Suc i" "Suc j"] that by simp
  qed
  moreover have "set xs \<inter> set ys = {}" if "ys \<in> set xss" for ys
    using Cons.prems(2) [of 0 "Suc j" for j] that by (auto simp: in_set_conv_nth)
  ultimately show ?case using Cons.prems(1) [of 0] by auto
qed simp

lemma list_all2_choose:
  "(\<And>y. y \<in> set ys \<Longrightarrow> \<exists>x. P x y) \<Longrightarrow> \<exists>xs. list_all2 P xs ys"
proof (induction ys)
  case (Cons y ys)
  then obtain x xs where "P x y" "list_all2 P xs ys" by fastforce
  then have "list_all2 P (x # xs) (y # ys)" by simp
  then show ?case by blast
qed simp

text \<open>A nested scope has one owner, so two scopes above a third one are one above the other.\<close>

lemma owners_linear:
  assumes "heap_ok w" "(owns w)\<^sup>*\<^sup>* c x" "(owns w)\<^sup>*\<^sup>* c' x"
  shows "(owns w)\<^sup>*\<^sup>* c c' \<or> (owns w)\<^sup>*\<^sup>* c' c"
  using assms(2,3)
proof (induction arbitrary: c' rule: rtranclp_induct)
  case base
  then show ?case by blast
next
  case (step y z)
  from step.prems show ?case
  proof (cases rule: rtranclp.cases)
    case rtrancl_refl
    then show ?thesis using step.hyps by (meson rtranclp.rtrancl_into_rtrancl)
  next
    case (rtrancl_into_rtrancl b)
    with step.hyps(2) assms(1) have "b = y" unfolding heap_ok_def by blast
    with rtrancl_into_rtrancl(1) step.IH show ?thesis by blast
  qed
qed

lemma owns_star_number:
  "(owns w)\<^sup>*\<^sup>* c x \<Longrightarrow> heap_ok w \<Longrightarrow> scope_number c \<le> scope_number x"
proof (induction rule: rtranclp_induct)
  case (step y z)
  then have "scope_number y < scope_number z" by (auto simp: heap_ok_def)
  with step show ?case by simp
qed simp

lemma siblings_apart:
  assumes ok: "heap_ok w"
    and i: "i < length (es_effects (stack_at w s))" "se_disposer (es_effects (stack_at w s) ! i) = Some (DisposeScope c)"
    and j: "j < length (es_effects (stack_at w s))" "se_disposer (es_effects (stack_at w s) ! j) = Some (DisposeScope c')"
    and "i \<noteq> j"
  shows "\<not> ((owns w)\<^sup>*\<^sup>* c x \<and> (owns w)\<^sup>*\<^sup>* c' x)"
proof
  assume "(owns w)\<^sup>*\<^sup>* c x \<and> (owns w)\<^sup>*\<^sup>* c' x"
  then have "(owns w)\<^sup>*\<^sup>* c c' \<or> (owns w)\<^sup>*\<^sup>* c' c" using owners_linear [OF ok] by blast
  moreover have "c \<noteq> c'" using assms unfolding heap_ok_def by blast
  moreover have owned: "owns w s c" "owns w s c'"
    unfolding owns_def using i j by (metis image_eqI nth_mem)+
  moreover have "\<not> (owns w)\<^sup>*\<^sup>* a b" if "a \<noteq> b" "owns w s a" "owns w s b" for a b
  proof
    assume "(owns w)\<^sup>*\<^sup>* a b"
    with that(1) obtain y where "(owns w)\<^sup>*\<^sup>* a y" "owns w y b" by (metis rtranclp.cases)
    with that(3) ok have "(owns w)\<^sup>*\<^sup>* a s" unfolding heap_ok_def by blast
    then have "scope_number a \<le> scope_number s" using ok by (rule owns_star_number)
    moreover have "scope_number s < scope_number a" using that(2) ok by (auto simp: heap_ok_def)
    ultimately show False by simp
  qed
  ultimately show False by metis
qed

definition tree_for :: "('d, 'z) effect_heap_scheme \<Rightarrow> 'd effect_tree \<Rightarrow> 'd scoped_effect \<Rightarrow> bool" where
  "tree_for w t e \<longleftrightarrow> stands_for w t e \<and> distinct (scopes_of t) \<and>
     (\<forall>x \<in> set (scopes_of t). \<exists>c. se_disposer e = Some (DisposeScope c) \<and> (owns w)\<^sup>*\<^sup>* c x)"

lemma forest_distinct:
  assumes "heap_ok w" "list_all2 (tree_for w) ts (es_effects (stack_at w s))"
  shows "distinct (scopes_of_all ts)"
proof (rule distinct_concat_index)
  note len = list_all2_lengthD [OF assms(2)]
  have nth: "tree_for w (ts ! i) (es_effects (stack_at w s) ! i)" if "i < length ts" for i
    using assms(2) that by (simp add: list_all2_conv_all_nth)
  show "distinct (map scopes_of ts ! i)" if "i < length (map scopes_of ts)" for i
    using nth that by (simp add: tree_for_def)
  show "set (map scopes_of ts ! i) \<inter> set (map scopes_of ts ! j) = {}"
    if ij: "i < length (map scopes_of ts)" "j < length (map scopes_of ts)" "i \<noteq> j" for i j
  proof (rule equals0I)
    fix x assume "x \<in> set (map scopes_of ts ! i) \<inter> set (map scopes_of ts ! j)"
    with ij have x: "x \<in> set (scopes_of (ts ! i))" "x \<in> set (scopes_of (ts ! j))" by auto
    from nth [of i] ij(1) x(1) obtain c where
      c: "se_disposer (es_effects (stack_at w s) ! i) = Some (DisposeScope c)" "(owns w)\<^sup>*\<^sup>* c x"
      by (auto simp: tree_for_def)
    from nth [of j] ij(2) x(2) obtain c' where
      c': "se_disposer (es_effects (stack_at w s) ! j) = Some (DisposeScope c')" "(owns w)\<^sup>*\<^sup>* c' x"
      by (auto simp: tree_for_def)
    show False using siblings_apart [OF assms(1), of i s c j c' x] c c' ij len by simp
  qed
qed

lemma forest_below:
  assumes "heap_ok w" "list_all2 (tree_for w) ts (es_effects (stack_at w s))" "x \<in> set (scopes_of_all ts)"
  shows "(owns w)\<^sup>*\<^sup>* s x \<and> x \<noteq> s"
proof -
  from assms(3) obtain t where t: "t \<in> set ts" "x \<in> set (scopes_of t)" by auto
  with assms(2) obtain e where e: "e \<in> set (es_effects (stack_at w s))" "tree_for w t e"
    by (metis list_all2_iff in_set_impl_in_set_zip1 set_zip_rightD case_prodD)
  with t obtain c where c: "se_disposer e = Some (DisposeScope c)" "(owns w)\<^sup>*\<^sup>* c x"
    by (auto simp: tree_for_def)
  with e have "owns w s c" unfolding owns_def by (metis image_eqI)
  moreover from this assms(1) have "scope_number s < scope_number c" by (auto simp: heap_ok_def)
  ultimately show ?thesis
    using owns_star_number [OF c(2) assms(1)] c(2) by (auto intro: converse_rtranclp_into_rtranclp)
qed

lemma forest_exists:
  assumes ok: "heap_ok w"
  shows "\<exists>ts. list_all2 (tree_for w) ts (es_effects (stack_at w s))"
proof (induction "eh_next w - scope_number s" arbitrary: s rule: less_induct)
  case less
  show ?case
  proof (rule list_all2_choose)
    fix e assume e: "e \<in> set (es_effects (stack_at w s))"
    with ok have "se_disposer e \<noteq> None" unfolding heap_ok_def by (metis image_eqI)
    then obtain d where d: "e = \<lparr>se_label = se_label e, se_disposer = Some d\<rparr>"
      by (cases e) auto
    show "\<exists>t. tree_for w t e"
    proof (cases d)
      case (Foreign k)
      with d have "tree_for w (Leaf (se_label e) k) e" by (simp add: tree_for_def)
      then show ?thesis ..
    next
      case (DisposeScope c)
      with d have "se_disposer e = Some (DisposeScope c)" by (metis scoped_effect.select_convs(2))
      with e have "owns w s c" unfolding owns_def by (metis image_eqI)
      with ok have "scope_number s < scope_number c \<and> scope_number c < eh_next w"
        unfolding heap_ok_def by blast
      then have "eh_next w - scope_number c < eh_next w - scope_number s" by (intro diff_less_mono2) auto
      then obtain ts where ts: "list_all2 (tree_for w) ts (es_effects (stack_at w c))"
        using less.hyps by blast
      have below: "(owns w)\<^sup>*\<^sup>* c x \<and> x \<noteq> c" if "x \<in> set (scopes_of_all ts)" for x
        using ok ts that by (rule forest_below)
      have "list_all2 (stands_for w) ts (es_effects (stack_at w c))"
        by (rule list_all2_mono [OF ts]) (simp add: tree_for_def)
      then have "stands_for w (Branch (se_label e) c ts) e" using d DisposeScope by simp
      moreover have "distinct (scopes_of (Branch (se_label e) c ts))"
        using forest_distinct [OF ok ts] below by auto
      moreover have "(owns w)\<^sup>*\<^sup>* c x" if "x \<in> set (scopes_of (Branch (se_label e) c ts))" for x
        using that below by auto
      ultimately have "tree_for w (Branch (se_label e) c ts) e"
        using \<open>se_disposer e = _\<close> unfolding tree_for_def by blast
      then show ?thesis ..
    qed
  qed
qed

text \<open>The scope itself is above its forest, so closing it first does not disturb the trees.\<close>

lemma dispose_all_forest:
  assumes "heap_ok w" "quiet_disposer call"
  obtains ts where "list_all2 (stands_for w) ts (es_effects (stack_at w s))" "distinct (s # scopes_of_all ts)"
    "effect_dispose_all call s w =
       (case dispose_forest call ts (shut s w) of (errors, w') \<Rightarrow> Some (Ok errors, w'))"
proof -
  obtain ts where ts: "list_all2 (tree_for w) ts (es_effects (stack_at w s))"
    using forest_exists [OF assms(1)] by blast
  then have stand: "list_all2 (stands_for w) ts (es_effects (stack_at w s))"
    by (rule list_all2_mono) (simp add: tree_for_def)
  have s: "s \<notin> set (scopes_of_all ts)" using forest_below [OF assms(1) ts] by blast
  have "list_all2 (stands_for (shut s w)) ts (es_effects (stack_at w s))"
    by (rule stand_for_cong [OF stand]) (use s in auto)
  then have "run_effects call (es_effects (stack_at w s)) [] (shut s w) =
      (case dispose_forest call ts (shut s w) of (failed, w') \<Rightarrow> Some (Ok ([] @ failed), w'))"
    using assms forest_distinct [OF assms(1) ts] by (intro run_effects_forest)
  then show ?thesis
    using that [OF stand] s forest_distinct [OF assms(1) ts]
    by (simp add: effect_dispose_all_def stack_take_def shut_def)
qed

end
