(* ===== verification/Fiber_Laws.thy ===== *)
theory Fiber_Laws
  imports Fiber_Runtime Effect_Laws
begin

text \<open>
  What a fiber relies on while foreign code runs, and the invariant of its lifecycle.

  \<open>keeps f w w'\<close> is the interference that the lock of \<open>f\<close> and the privacy of its fields admit: other
  tasks can ask for a restart, an update or a disposal of \<open>f\<close>, change the scopes, the other fibers and
  the effect stacks through their operations, and nothing else.  \<open>fiber_step\<close> interleaves such
  interference with the locked parts of the calls of \<open>f\<close>, and \<open>fiber_ok\<close> holds between them.
\<close>

subsection \<open>Reading and writing a fiber\<close>

lemma fiber_at_update [simp]:
  "fiber_at (fiber_update f g w) h = (if h = f then g (fiber_at w f) else fiber_at w h)"
  by (simp add: fiber_at_def fiber_update_def)

lemma fiber_update_fields [simp]:
  "eh_stacks (fiber_update f g w) = eh_stacks w" "eh_next (fiber_update f g w) = eh_next w"
  "sm_scopes (fiber_update f g w) = sm_scopes w" "sm_runtimes (fiber_update f g w) = sm_runtimes w"
  "sm_next_runtime (fiber_update f g w) = sm_next_runtime w"
  "sm_watched (fiber_update f g w) = sm_watched w"
  "sm_next_fiber_id (fiber_update f g w) = sm_next_fiber_id w"
  "fmlookup (sm_fibers (fiber_update f g w)) h =
     (if h = f then Some (g (fiber_at w f)) else fmlookup (sm_fibers w) h)"
  by (simp_all add: fiber_update_def)

lemma fiber_at_other [simp]:
  "fiber_at (w\<lparr>sm_scopes := sc\<rparr>) f = fiber_at w f" "fiber_at (w\<lparr>sm_runtimes := rs\<rparr>) f = fiber_at w f"
  "fiber_at (w\<lparr>eh_stacks := es\<rparr>) f = fiber_at w f" "fiber_at (w\<lparr>eh_next := n\<rparr>) f = fiber_at w f"
  "fiber_at (w\<lparr>sm_next_runtime := n\<rparr>) f = fiber_at w f" "fiber_at (w\<lparr>sm_next_fiber_id := i\<rparr>) f = fiber_at w f"
  by (simp_all add: fiber_at_def)

lemma fiber_at_stack_write [simp]: "fiber_at (stack_write s st w) f = fiber_at w f"
  by (simp add: stack_write_def)

lemma fiber_at_shut [simp]: "fiber_at (shut s w) f = fiber_at w f"
  by (simp add: shut_def)

lemma stack_write_world [simp]:
  "sm_scopes (stack_write s st w) = sm_scopes w" "sm_fibers (stack_write s st w) = sm_fibers w"
  "sm_runtimes (stack_write s st w) = sm_runtimes w" "sm_next_fiber_id (stack_write s st w) = sm_next_fiber_id w"
  "sm_watched (stack_write s st w) = sm_watched w"
  by (simp_all add: stack_write_def)

lemma stack_at_fiber_update [simp]: "stack_at (fiber_update f g w) s = stack_at w s"
  by (rule stack_at_cong) simp

lemma stack_at_world [simp]:
  "stack_at (w\<lparr>sm_scopes := sc\<rparr>) s = stack_at w s" "stack_at (w\<lparr>sm_runtimes := rs\<rparr>) s = stack_at w s"
  by (simp_all add: stack_at_def)

lemma heap_ok_cong: "eh_stacks w = eh_stacks w' \<Longrightarrow> eh_next w = eh_next w' \<Longrightarrow> heap_ok w = heap_ok w'"
  by (simp add: heap_ok_def owns_def stack_at_def)

lemma heap_ok_fiber_update [simp]: "heap_ok (fiber_update f g w) = heap_ok w"
  by (rule heap_ok_cong) simp_all

lemma heap_ok_world [simp]:
  "heap_ok (w\<lparr>sm_scopes := sc\<rparr>) = heap_ok w" "heap_ok (w\<lparr>sm_runtimes := rs\<rparr>) = heap_ok w"
  "heap_ok (w\<lparr>sm_fibers := fs\<rparr>) = heap_ok w" "heap_ok (w\<lparr>sm_next_fiber_id := i\<rparr>) = heap_ok w"
  by (rule heap_ok_cong; simp)+

lemma fiber_update_twice [simp]: "fiber_update f g (fiber_update f h w) = fiber_update f (\<lambda>x. g (h x)) w"
  by (simp add: fiber_update_def) (simp add: fiber_at_def)

lemmas fiber_setters = set_state_def set_cleanup_errors_def set_loading_binding_def set_error_def
  set_force_reload_def notify_dependency_change_def

subsection \<open>Interference\<close>

text \<open>The fields that only the holder of the lock writes.\<close>

definition locked_part :: "('v, 'f) fiber \<Rightarrow> ('v, 'f) fiber" where
  "locked_part x =
     x\<lparr>fb_config := [], fb_requested_epoch := 0, fb_dispose_requested := False, fb_force_reload := False\<rparr>"

definition heap_grows :: "('d, 'z) effect_heap_scheme \<Rightarrow> ('d, 'z) effect_heap_scheme \<Rightarrow> bool" where
  "heap_grows w w' \<longleftrightarrow>
     (heap_ok w \<longrightarrow> heap_ok w' \<and> eh_next w \<le> eh_next w' \<and>
        (\<forall>s. scope_number s < eh_next w \<longrightarrow> stack_at w s = \<lparr>es_effects = [], es_closed = True\<rparr> \<longrightarrow>
           stack_at w' s = stack_at w s))"

definition keeps :: "fiber_id \<Rightarrow> ('d, 'v, 'f) semantic_world \<Rightarrow> ('d, 'v, 'f) semantic_world \<Rightarrow> bool" where
  "keeps f w w' \<longleftrightarrow>
     (has_key (sm_fibers w) f \<longrightarrow>
        has_key (sm_fibers w') f \<and> locked_part (fiber_at w' f) = locked_part (fiber_at w f) \<and>
        (fb_dispose_requested (fiber_at w f) \<longrightarrow> fb_dispose_requested (fiber_at w' f))) \<and>
     heap_grows w w'"

definition respects_lock_call :: "fiber_id \<Rightarrow> ('d, 'v, 'f) disposer_call \<Rightarrow> bool" where
  "respects_lock_call f call \<longleftrightarrow> (\<forall>d w. keeps f w (snd (call d w)))"

definition respects_lock_factory :: "fiber_id \<Rightarrow> ('d, 'v, 'f) factory_call \<Rightarrow> bool" where
  "respects_lock_factory f factory \<longleftrightarrow> (\<forall>k lc w. keeps f w (snd (factory k lc w)))"

lemma heap_grows_refl [simp]: "heap_grows w w"
  by (simp add: heap_grows_def)

lemma heap_grows_trans: "heap_grows w w' \<Longrightarrow> heap_grows w' w'' \<Longrightarrow> heap_grows w w''"
  unfolding heap_grows_def by (auto intro: less_le_trans)

lemma heap_grows_cong:
  "eh_stacks w' = eh_stacks w \<Longrightarrow> eh_next w' = eh_next w \<Longrightarrow> heap_grows w w'"
  using heap_ok_cong [of w' w] stack_at_cong [of w' w] by (simp add: heap_grows_def)

lemma heap_grows_new: "heap_grows w (snd (effect_scope_new w))"
  using heap_ok_new [of w] by (auto simp: heap_grows_def effect_scope_new_def)

lemma heap_grows_shut: "scope_number s < eh_next w \<Longrightarrow> heap_grows w (shut s w)"
  using heap_ok_clear [of w s True] by (auto simp: heap_grows_def shut_def)

lemma heap_grows_register:
  "\<not> (\<exists>c. se_disposer e = Some (DisposeScope c)) \<Longrightarrow> se_disposer e \<noteq> None \<Longrightarrow> scope_number s < eh_next w \<Longrightarrow>
   heap_grows w (snd (effect_register s e w))"
  using heap_ok_register [of w s e]
  by (auto simp: heap_grows_def effect_register_def stack_push_def split: if_splits)

lemma keeps_refl [simp]: "keeps f w w"
  by (simp add: keeps_def)

lemma keeps_trans: "keeps f w w' \<Longrightarrow> keeps f w' w'' \<Longrightarrow> keeps f w w''"
  unfolding keeps_def using heap_grows_trans by auto

text \<open>Interference that leaves the map of fibers alone, or writes another fiber.\<close>

lemma keeps_same_fibers: "sm_fibers w' = sm_fibers w \<Longrightarrow> heap_grows w w' \<Longrightarrow> keeps f w w'"
  by (simp add: keeps_def fiber_at_def)

lemma keeps_other_fiber: "h \<noteq> f \<Longrightarrow> keeps f w (fiber_update h g w)"
  by (simp add: keeps_def heap_grows_cong)

lemma keeps_request:
  "locked_part (g (fiber_at w f)) = locked_part (fiber_at w f) \<Longrightarrow>
   (fb_dispose_requested (fiber_at w f) \<Longrightarrow> fb_dispose_requested (g (fiber_at w f))) \<Longrightarrow>
   keeps f w (fiber_update f g w)"
  by (simp add: keeps_def heap_grows_cong)

lemma keepsD:
  assumes "keeps f w w'" "has_key (sm_fibers w) f"
  shows "has_key (sm_fibers w') f"
    "fb_dispose_requested (fiber_at w f) \<Longrightarrow> fb_dispose_requested (fiber_at w' f)"
    "fb_state (fiber_at w' f) = fb_state (fiber_at w f)"
    "fb_handle (fiber_at w' f) = fb_handle (fiber_at w f)"
    "fb_dependency_epoch (fiber_at w' f) = fb_dependency_epoch (fiber_at w f)"
    "fb_loading_binding (fiber_at w' f) = fb_loading_binding (fiber_at w f)"
    "fb_effects (fiber_at w' f) = fb_effects (fiber_at w f)"
    "fb_last_cleanup_errors (fiber_at w' f) = fb_last_cleanup_errors (fiber_at w f)"
    "fb_error (fiber_at w' f) = fb_error (fiber_at w f)"
    "fb_definition (fiber_at w' f) = fb_definition (fiber_at w f)"
    "fb_context (fiber_at w' f) = fb_context (fiber_at w f)"
    "fb_runtime (fiber_at w' f) = fb_runtime (fiber_at w f)"
proof -
  have eq: "locked_part (fiber_at w' f) = locked_part (fiber_at w f)"
    using assms by (simp add: keeps_def)
  show "fb_state (fiber_at w' f) = fb_state (fiber_at w f)"
    using arg_cong [OF eq, of fb_state] by (simp add: locked_part_def)
  show "fb_handle (fiber_at w' f) = fb_handle (fiber_at w f)"
    using arg_cong [OF eq, of fb_handle] by (simp add: locked_part_def)
  show "fb_dependency_epoch (fiber_at w' f) = fb_dependency_epoch (fiber_at w f)"
    using arg_cong [OF eq, of fb_dependency_epoch] by (simp add: locked_part_def)
  show "fb_loading_binding (fiber_at w' f) = fb_loading_binding (fiber_at w f)"
    using arg_cong [OF eq, of fb_loading_binding] by (simp add: locked_part_def)
  show "fb_effects (fiber_at w' f) = fb_effects (fiber_at w f)"
    using arg_cong [OF eq, of fb_effects] by (simp add: locked_part_def)
  show "fb_last_cleanup_errors (fiber_at w' f) = fb_last_cleanup_errors (fiber_at w f)"
    using arg_cong [OF eq, of fb_last_cleanup_errors] by (simp add: locked_part_def)
  show "fb_error (fiber_at w' f) = fb_error (fiber_at w f)"
    using arg_cong [OF eq, of fb_error] by (simp add: locked_part_def)
  show "fb_definition (fiber_at w' f) = fb_definition (fiber_at w f)"
    using arg_cong [OF eq, of fb_definition] by (simp add: locked_part_def)
  show "fb_context (fiber_at w' f) = fb_context (fiber_at w f)"
    using arg_cong [OF eq, of fb_context] by (simp add: locked_part_def)
  show "fb_runtime (fiber_at w' f) = fb_runtime (fiber_at w f)"
    using arg_cong [OF eq, of fb_runtime] by (simp add: locked_part_def)
qed (use assms in \<open>auto simp: keeps_def\<close>)

lemma keeps_heap: "keeps f w w' \<Longrightarrow> heap_grows w w'"
  by (simp add: keeps_def)

subsection \<open>Disposals under interference\<close>

definition nested_below :: "nat \<Rightarrow> 'd scoped_effect list \<Rightarrow> bool" where
  "nested_below n es \<longleftrightarrow> (\<forall>e \<in> set es. \<forall>c. se_disposer e = Some (DisposeScope c) \<longrightarrow> scope_number c < n)"

lemma nested_below_stack: "heap_ok w \<Longrightarrow> nested_below (eh_next w) (es_effects (stack_at w s))"
  unfolding heap_ok_def owns_def nested_below_def by (metis image_eqI)

lemma nested_below_mono: "nested_below n es \<Longrightarrow> n \<le> m \<Longrightarrow> nested_below m es"
  unfolding nested_below_def by fastforce

lemma run_effects_keeps:
  assumes call: "respects_lock_call f call"
    and run: "run_effects call es errors w = Some (r, w')"
    and "heap_ok w" "nested_below (eh_next w) es"
  shows "keeps f w w'"
proof -
  from run have "heap_ok w \<longrightarrow> nested_below (eh_next w) es \<longrightarrow> keeps f w (snd (r, w'))"
  proof (induction rule: run_effects_induct)
    case (skipped es errors w r)
    then show ?case by (auto simp: nested_below_def dest: in_set_butlastD)
  next
    case (disposed es errors w r d q v)
    show ?case
    proof (intro impI)
      assume ok: "heap_ok w" and below: "nested_below (eh_next w) es"
      have v: "keeps f w v"
      proof (cases d)
        case (Foreign k)
        with disposed(3) have "call k w = (q, v)" by simp
        with call show ?thesis unfolding respects_lock_call_def by (metis snd_conv)
      next
        case (DisposeScope s)
        have "scope_number s < eh_next w"
          using below disposed(1,2) DisposeScope unfolding nested_below_def by (meson last_in_set)
        then have shut: "keeps f w (shut s w)"
          by (intro keeps_same_fibers heap_grows_shut) (simp add: shut_def)
        moreover have "nested_below (eh_next (shut s w)) (es_effects (stack_at w s))"
          using nested_below_stack [OF ok] by (simp add: shut_def)
        ultimately show ?thesis
          using disposed(3) ok keeps_heap [OF shut] DisposeScope by (auto simp: heap_grows_def intro: keeps_trans)
      qed
      then have "heap_ok v" "eh_next w \<le> eh_next v" using ok keeps_heap [OF v] by (auto simp: heap_grows_def)
      moreover have "nested_below (eh_next v) (butlast es)"
        using below \<open>eh_next w \<le> eh_next v\<close> unfolding nested_below_def by (meson in_set_butlastD order_less_le_trans)
      ultimately show "keeps f w (snd r)" using disposed(4) v by (auto split: res.splits intro: keeps_trans)
    qed
  qed simp
  with assms(3,4) show ?thesis by simp
qed

lemma dispose_all_keeps:
  assumes "respects_lock_call f call" "effect_dispose_all call s w = Some (r, w')" "heap_ok w"
    "scope_number s < eh_next w"
  shows "keeps f w w'" "stack_at w' s = \<lparr>es_effects = [], es_closed = True\<rparr>"
proof -
  have shut: "keeps f w (shut s w)"
    by (intro keeps_same_fibers heap_grows_shut assms) (simp add: shut_def)
  then have ok: "heap_ok (shut s w)" using keeps_heap assms(3) by (auto simp: heap_grows_def)
  have "keeps f (shut s w) w'"
  proof (rule run_effects_keeps [OF assms(1) _ ok])
    show "run_effects call (es_effects (stack_at w s)) [] (shut s w) = Some (r, w')"
      using assms(2) by (simp add: effect_dispose_all_def stack_take_def shut_def)
    show "nested_below (eh_next (shut s w)) (es_effects (stack_at w s))"
      using nested_below_stack [OF assms(3)] by (simp add: shut_def)
  qed
  moreover from keeps_heap [OF this] ok assms(4)
  show "stack_at w' s = \<lparr>es_effects = [], es_closed = True\<rparr>"
    by (simp add: heap_grows_def) (simp add: shut_def)
  ultimately show "keeps f w w'" using shut by (blast intro: keeps_trans)
qed

subsection \<open>The invariant of a fiber\<close>

definition in_place :: "fiber_id \<Rightarrow> ('d, 'v, 'f) semantic_world \<Rightarrow> bool" where
  "in_place f w \<longleftrightarrow> has_key (sm_fibers w) f \<and> heap_ok w \<and> scope_number (fb_effects (fiber_at w f)) < eh_next w"

definition vacant :: "('v, 'f) fiber \<Rightarrow> bool" where
  "vacant x \<longleftrightarrow> fb_handle x = None \<and> fb_dependency_epoch x = None"

definition published :: "('v, 'f) fiber \<Rightarrow> bool" where
  "published x \<longleftrightarrow>
     (case (fb_handle x, fb_dependency_epoch x) of
        (Some h, Some e) \<Rightarrow>
          de_binding e = binding_of (h_dependencies h) \<and> h_definition h = pd_capability (fb_definition x)
      | _ \<Rightarrow> False)"

text \<open>
  Between two locked calls: an active fiber has a publication and the epoch it was loaded for, any
  other has neither; a failed one knows its error and has disposed its effects; a disposed one, and
  one whose load was cut short by a disposal, has been asked to go.
\<close>

definition fiber_ok :: "fiber_id \<Rightarrow> ('d, 'v, 'f) semantic_world \<Rightarrow> bool" where
  "fiber_ok f w \<longleftrightarrow>
     in_place f w \<and> fb_loading_binding (fiber_at w f) = None \<and>
     (let x = fiber_at w f in
      fb_state x = fiber_state_as_raw (fiber_state w f) \<and>
      (case fiber_state w f of
         FiberActive \<Rightarrow> published x
       | FiberPending \<Rightarrow> vacant x
       | FiberFailed \<Rightarrow> vacant x \<and> fb_error x \<noteq> None \<and> stack_at w (fb_effects x) = \<lparr>es_effects = [], es_closed = True\<rparr>
       | FiberLoading \<Rightarrow> vacant x \<and> fb_dispose_requested x
       | FiberUnloading \<Rightarrow> False
       | FiberDisposed \<Rightarrow> vacant x \<and> fb_dispose_requested x))"

text \<open>What a call never changes, and the request that nothing takes back.\<close>

definition same_plugin :: "fiber_id \<Rightarrow> ('d, 'v, 'f) semantic_world \<Rightarrow> ('d, 'v, 'f) semantic_world \<Rightarrow> bool" where
  "same_plugin f w w' \<longleftrightarrow>
     fb_runtime (fiber_at w' f) = fb_runtime (fiber_at w f) \<and>
     fb_context (fiber_at w' f) = fb_context (fiber_at w f) \<and>
     fb_definition (fiber_at w' f) = fb_definition (fiber_at w f) \<and>
     (fb_dispose_requested (fiber_at w f) \<longrightarrow> fb_dispose_requested (fiber_at w' f))"

lemma same_plugin_refl [simp]: "same_plugin f w w"
  by (simp add: same_plugin_def)

lemma same_plugin_trans: "same_plugin f w w' \<Longrightarrow> same_plugin f w' w'' \<Longrightarrow> same_plugin f w w''"
  by (simp add: same_plugin_def)

lemma keeps_same_plugin: "keeps f w w' \<Longrightarrow> has_key (sm_fibers w) f \<Longrightarrow> same_plugin f w w'"
  by (simp add: same_plugin_def keepsD)

lemma in_place_keeps: "keeps f w w' \<Longrightarrow> in_place f w \<Longrightarrow> in_place f w'"
  using keeps_heap [of f w w'] unfolding in_place_def
  by (auto simp: keepsD heap_grows_def)

lemma in_place_update: "fb_effects (g (fiber_at w f)) = fb_effects (fiber_at w f) \<Longrightarrow> in_place f w \<Longrightarrow>
    in_place f (fiber_update f g w)"
  by (simp add: in_place_def)

lemma fiber_state_cong: "fb_state (fiber_at w' f) = fb_state (fiber_at w f) \<Longrightarrow> fiber_state w' f = fiber_state w f"
  by (simp add: fiber_state_def)

lemma fiber_ok_keeps:
  assumes "keeps f w w'" "fiber_ok f w"
  shows "fiber_ok f w'"
proof -
  have key: "has_key (sm_fibers w) f" using assms(2) by (simp add: fiber_ok_def in_place_def)
  note kept = keepsD [OF assms(1) key]
  have in_place: "in_place f w'" using assms in_place_keeps by (auto simp: fiber_ok_def)
  have closed: "stack_at w' (fb_effects (fiber_at w f)) = stack_at w (fb_effects (fiber_at w f))"
    if "stack_at w (fb_effects (fiber_at w f)) = \<lparr>es_effects = [], es_closed = True\<rparr>"
    using keeps_heap [OF assms(1)] assms(2) that by (simp add: heap_grows_def fiber_ok_def in_place_def)
  have "published (fiber_at w' f) = published (fiber_at w f)" "vacant (fiber_at w' f) = vacant (fiber_at w f)"
    using kept by (simp_all add: published_def vacant_def split: option.splits)
  with assms(2) in_place kept closed fiber_state_cong [OF kept(3)] show ?thesis
    unfolding fiber_ok_def Let_def by (auto split: fiber_state.splits)
qed

lemma fiber_okD:
  assumes "fiber_ok f w"
  shows "in_place f w" "fb_loading_binding (fiber_at w f) = None" "fiber_state w f \<noteq> FiberUnloading"
    "fiber_state w f = FiberDisposed \<Longrightarrow> fb_dispose_requested (fiber_at w f)"
    "fiber_state w f = FiberActive \<longleftrightarrow> fb_handle (fiber_at w f) \<noteq> None"
  using assms unfolding fiber_ok_def Let_def
  by (auto simp: vacant_def published_def split: fiber_state.splits option.splits)

lemma fiber_state_from_raw_zero [simp]: "fiber_state_from_raw 0 = FiberPending"
  by (simp add: fiber_state_from_raw_def)

lemma fiber_ok_pending:
  "in_place f w \<Longrightarrow> fb_loading_binding (fiber_at w f) = None \<Longrightarrow> vacant (fiber_at w f) \<Longrightarrow>
   fb_state (fiber_at w f) = fiber_state_as_raw FiberPending \<Longrightarrow> fiber_ok f w \<and> fiber_state w f = FiberPending"
  by (simp add: fiber_ok_def fiber_state_def)

subsection \<open>Unloading keeps the invariant\<close>

lemma with_errors_Some:
  "with_errors m k = Some (r, w') \<longleftrightarrow>
     (\<exists>errors v. m = Some (Ok errors, v) \<and> k errors v = Some (r, w')) \<or>
     (\<exists>q. m = Some (q, w') \<and> (\<forall>errors. q \<noteq> Ok errors) \<and> r = Panic)"
  by (cases m) (auto simp: with_errors_def split: prod.splits res.splits)

lemma with_errors_Ok:
  assumes "with_errors m k = Some (r, w')" "r \<noteq> Panic"
  obtains errors v where "m = Some (Ok errors, v)" "k errors v = Some (r, w')"
  using assms by (auto simp: with_errors_Some)

lemma in_place_new_effects:
  assumes "in_place f w" "effect_scope_new w = (s, w')" "\<And>x. fb_effects (g x) = s"
  shows "in_place f (fiber_update f g w')"
proof -
  have "heap_grows w w'" using heap_grows_new [of w] assms(2) by simp
  with assms show ?thesis
    by (auto simp: in_place_def heap_grows_def effect_scope_new_def)
qed

lemma effect_scope_new_world:
  assumes "effect_scope_new w = (s, w')"
  shows "s = EffectScope (eh_next w)" "sm_fibers w' = sm_fibers w" "fiber_at w' f = fiber_at w f"
    "sm_scopes w' = sm_scopes w" "sm_runtimes w' = sm_runtimes w" "stack_at w' s = effect_stack_new"
  using assms by (auto simp: effect_scope_new_def)

lemma unload_finish_result:
  assumes "in_place f w" "fb_handle (fiber_at w f) = None"
  shows "fiber_ok f (unload_finish f w) \<and> fiber_state (unload_finish f w) f = FiberPending \<and>
    same_plugin f w (unload_finish f w)"
proof -
  let ?w = "fiber_update f (\<lambda>x. x\<lparr>fb_dependency_epoch := None, fb_loading_binding := None\<rparr>) w"
  obtain s w' where new: "effect_scope_new ?w = (s, w')" by (cases "effect_scope_new ?w")
  note n = effect_scope_new_world [OF new]
  have "in_place f ?w" using assms(1) by (simp add: in_place_def)
  from in_place_new_effects [OF this new, of "\<lambda>x. x\<lparr>fb_effects := s\<rparr>"]
  have "in_place f (unload_finish f w)"
    by (simp add: unload_finish_def new set_state_def in_place_def)
  with assms(2) show ?thesis
    by (intro conjI fiber_ok_pending [THEN conjunct1] fiber_ok_pending [THEN conjunct2])
      (simp_all add: unload_finish_def new n fiber_setters vacant_def same_plugin_def)
qed

lemma unload_result:
  assumes call: "respects_lock_call f call"
    and w: "in_place f w" "fb_loading_binding (fiber_at w f) = None"
    and run: "unload call f detached w = Some (r, w')" "r \<noteq> Panic"
  obtains errors where "r = Ok errors" "fiber_ok f w'" "fiber_state w' f = FiberPending" "same_plugin f w w'"
proof -
  let ?u = "set_state f FiberUnloading w"
  from run obtain errors v where v: "effect_dispose_all call (fb_effects (fiber_at w f)) ?u = Some (Ok errors, v)"
    "unload_release f detached errors v = (r, w')"
    unfolding unload_def by (auto elim: with_errors_Ok)
  have u: "in_place f ?u" using w(1) by (simp add: set_state_def in_place_def)
  have keeps: "keeps f ?u v"
    by (rule dispose_all_keeps(1) [OF call v(1)]) (use u in \<open>simp_all add: in_place_def set_state_def\<close>)
  have key: "has_key (sm_fibers ?u) f" using u by (simp add: in_place_def)
  note kept = keepsD [OF keeps key]
  have v_place: "in_place f v" using keeps u by (rule in_place_keeps)
  have same: "same_plugin f w v"
    using keeps_same_plugin [OF keeps key] by (simp add: same_plugin_def set_state_def)
  show ?thesis
  proof (cases "fb_handle (fiber_at v f)")
    case None
    with v(2) unload_finish_result [OF v_place None] same that show ?thesis
      by (auto simp: unload_release_def intro: same_plugin_trans)
  next
    case (Some h)
    let ?v = "fiber_update f (\<lambda>x. x\<lparr>fb_handle := None\<rparr>) v"
    have finish: "fiber_ok f (unload_finish f (?v\<lparr>sm_scopes := sc\<rparr>)) \<and>
        fiber_state (unload_finish f (?v\<lparr>sm_scopes := sc\<rparr>)) f = FiberPending \<and>
        same_plugin f w (unload_finish f (?v\<lparr>sm_scopes := sc\<rparr>))" for sc
    proof -
      have "in_place f (?v\<lparr>sm_scopes := sc\<rparr>)" using v_place by (simp add: in_place_def)
      then show ?thesis
        using unload_finish_result [of f "?v\<lparr>sm_scopes := sc\<rparr>"] same by (auto simp: same_plugin_def)
    qed
    have "in_place f ?v" using v_place by (simp add: in_place_def)
    then have finish0: "fiber_ok f (unload_finish f ?v) \<and> fiber_state (unload_finish f ?v) f = FiberPending \<and>
        same_plugin f w (unload_finish f ?v)"
      using unload_finish_result [of f ?v] same by (auto simp: same_plugin_def)
    let ?e = "\<lambda>sc. set_state f FiberPending
        (fiber_update f (\<lambda>x. x\<lparr>fb_dependency_epoch := None\<rparr>) (?v\<lparr>sm_scopes := sc\<rparr>))"
    have refused: "fiber_ok f (?e sc) \<and> fiber_state (?e sc) f = FiberPending \<and> same_plugin f w (?e sc)" for sc
    proof (intro conjI)
      show "fiber_ok f (?e sc)" "fiber_state (?e sc) f = FiberPending"
        using v_place kept(6) w(2)
        by (intro fiber_ok_pending [THEN conjunct1] fiber_ok_pending [THEN conjunct2];
            simp add: set_state_def in_place_def vacant_def)+
      show "same_plugin f w (?e sc)" using same by (simp add: same_plugin_def set_state_def)
    qed
    show ?thesis
      using v(2) Some run(2) finish0 finish refused that
      by (auto simp: unload_release_def Let_def split: if_splits prod.splits res.splits option.splits)
  qed
qed

subsection \<open>Driving keeps the invariant\<close>

definition loading :: "fiber_id \<Rightarrow> effect_scope \<Rightarrow> ('d, 'v, 'f) semantic_world \<Rightarrow> bool" where
  "loading f effects w \<longleftrightarrow>
     in_place f w \<and> fb_effects (fiber_at w f) = effects \<and>
     fb_state (fiber_at w f) = fiber_state_as_raw FiberLoading \<and> vacant (fiber_at w f)"

text \<open>What one iteration leaves behind, by its result.\<close>

definition drive_post :: "fiber_id \<Rightarrow> (drive_flow, fiber_error) res \<Rightarrow> ('d, 'v, 'f) semantic_world \<Rightarrow> bool" where
  "drive_post f r w \<longleftrightarrow>
     fiber_ok f w \<and>
     (case r of
        Ok Again \<Rightarrow> fiber_state w f = FiberPending
      | Ok (Stable s) \<Rightarrow> fiber_state w f = s \<and> (s = FiberPending \<or> s = FiberActive)
      | Err e \<Rightarrow> e = FiberIsDisposed \<and> fb_dispose_requested (fiber_at w f) \<or>
          fiber_state w f = FiberFailed
      | Panic \<Rightarrow> False)"

lemma loading_keeps: "keeps f w w' \<Longrightarrow> loading f effects w \<Longrightarrow> loading f effects w'"
  using in_place_keeps [of f w w'] keepsD [of f w w'] by (auto simp: loading_def in_place_def vacant_def)

lemma loading_disposed:
  assumes "respects_lock_call f call" "loading f effects w" "effect_dispose_all call effects w = Some (r, v)"
  shows "loading f effects v" "same_plugin f w v"
    "stack_at v effects = \<lparr>es_effects = [], es_closed = True\<rparr>" "keeps f w v"
proof -
  have w: "heap_ok w" "scope_number effects < eh_next w" "has_key (sm_fibers w) f"
    using assms(2) by (auto simp: loading_def in_place_def)
  show keeps: "keeps f w v" "stack_at v effects = \<lparr>es_effects = [], es_closed = True\<rparr>"
    by (rule dispose_all_keeps [OF assms(1,3) w(1,2)])+
  show "loading f effects v" by (rule loading_keeps [OF keeps(1) assms(2)])
  show "same_plugin f w v" by (rule keeps_same_plugin [OF keeps(1) w(3)])
qed

lemma fiber_ok_failed:
  "in_place f w \<Longrightarrow> fb_loading_binding (fiber_at w f) = None \<Longrightarrow> vacant (fiber_at w f) \<Longrightarrow>
   fb_state (fiber_at w f) = fiber_state_as_raw FiberFailed \<Longrightarrow> fb_error (fiber_at w f) \<noteq> None \<Longrightarrow>
   stack_at w (fb_effects (fiber_at w f)) = \<lparr>es_effects = [], es_closed = True\<rparr> \<Longrightarrow>
   fiber_ok f w \<and> fiber_state w f = FiberFailed"
  by (simp add: fiber_ok_def fiber_state_def fiber_state_from_raw_def)

lemma fiber_ok_going:
  "in_place f w \<Longrightarrow> fb_loading_binding (fiber_at w f) = None \<Longrightarrow> vacant (fiber_at w f) \<Longrightarrow>
   fb_state (fiber_at w f) = fiber_state_as_raw s \<Longrightarrow> s = FiberLoading \<or> s = FiberDisposed \<Longrightarrow>
   fb_dispose_requested (fiber_at w f) \<Longrightarrow> fiber_ok f w"
  by (auto simp: fiber_ok_def fiber_state_def fiber_state_from_raw_def)

lemma fiber_ok_active:
  "in_place f w \<Longrightarrow> fb_loading_binding (fiber_at w f) = None \<Longrightarrow> published (fiber_at w f) \<Longrightarrow>
   fb_state (fiber_at w f) = fiber_state_as_raw FiberActive \<Longrightarrow> fiber_ok f w \<and> fiber_state w f = FiberActive"
  by (simp add: fiber_ok_def fiber_state_def fiber_state_from_raw_def)

lemma provide_value_handle:
  "provide_value s d snapshot v w = (Ok h, w') \<Longrightarrow> h_definition h = d \<and> h_dependencies h = snapshot"
  by (auto simp: provide_value_def publish_preconstructed_def entry_handle_def Let_def
      split: res.splits option.splits prod.splits)

lemma load_publish_post:
  assumes call: "respects_lock_call f call" and w: "loading f effects w"
    and run: "load_publish call f dependencies effects v w = Some (r, w')" "r \<noteq> Panic"
  shows "drive_post f r w' \<and> same_plugin f w w'"
proof -
  obtain q sc where p: "provide_value (cx_scope (fb_context (fiber_at w f))) (fiber_capability w f)
      dependencies v (sm_scopes w) = (q, sc)" by fastforce
  show ?thesis
  proof (cases q)
    case (Ok h)
    from provide_value_handle [OF p [unfolded Ok]]
    have "h_definition h = fiber_capability w f" "h_dependencies h = dependencies" by simp_all
    with run p Ok w show ?thesis
      by (auto simp: load_publish_def Let_def drive_post_def loading_def in_place_def fiber_setters published_def
          fiber_capability_def epoch_of_def same_plugin_def
          intro!: fiber_ok_active [THEN conjunct1] fiber_ok_active [THEN conjunct2])
  next
    case (Err e)
    with run p obtain errors u where u: "effect_dispose_all call effects (w\<lparr>sm_scopes := sc\<rparr>) = Some (Ok errors, u)"
      "(case e of
          DependencyChanged _ _ \<Rightarrow>
            Some (Ok Again, set_state f FiberPending (set_loading_binding f None (set_cleanup_errors f errors u)))
        | _ \<Rightarrow> Some (Err (FiberScopeError e), set_state f FiberFailed (set_cleanup_errors f errors
              (set_error f (Some (show_scope_error e)) (set_loading_binding f None u))))) = Some (r, w')"
      by (auto simp: load_publish_def elim: with_errors_Ok)
    have "loading f effects (w\<lparr>sm_scopes := sc\<rparr>)" using w by (auto simp: loading_def in_place_def)
    note l = loading_disposed [OF call this u(1)]
    have same: "same_plugin f w u" using l(2) by (simp add: same_plugin_def)
    show ?thesis
    proof (cases "\<exists>i j. e = DependencyChanged i j")
      case True
      with u(2) have "r = Ok Again"
        "w' = set_state f FiberPending (set_loading_binding f None (set_cleanup_errors f errors u))" by auto
      with l same show ?thesis
        by (auto simp: drive_post_def loading_def in_place_def fiber_setters vacant_def same_plugin_def
            intro!: fiber_ok_pending [THEN conjunct1] fiber_ok_pending [THEN conjunct2])
    next
      case False
      with u(2) have "r = Err (FiberScopeError e)" "w' = set_state f FiberFailed (set_cleanup_errors f errors
              (set_error f (Some (show_scope_error e)) (set_loading_binding f None u)))"
        by (auto split: scope_error.splits)
      with l same show ?thesis
        by (auto simp: drive_post_def loading_def in_place_def fiber_setters vacant_def same_plugin_def
            intro!: fiber_ok_failed [THEN conjunct1] fiber_ok_failed [THEN conjunct2])
    qed
  next
    case Panic
    with run p show ?thesis by (simp add: load_publish_def)
  qed
qed

text \<open>The end of a load that turned out to be stale.\<close>

lemma stale_post:
  assumes "loading f effects u"
    and g: "\<And>x. fb_effects (g x) = fb_effects x" "\<And>x. fb_state (g x) = fb_state x" "\<And>x. vacant (g x) = vacant x"
      "\<And>x. fb_loading_binding (g x) = None" "\<And>x. fb_dispose_requested (g x) = fb_dispose_requested x"
  shows "fb_dispose_requested (fiber_at u f) \<Longrightarrow> drive_post f (Err FiberIsDisposed) (fiber_update f g u)"
    "fb_dispose_requested (fiber_at u f) \<Longrightarrow>
       drive_post f (Err FiberIsDisposed) (set_state f FiberDisposed (fiber_update f g u))"
    "drive_post f (Ok Again) (set_state f FiberPending (fiber_update f g u))"
proof -
  have place: "in_place f (fiber_update f g u)" "in_place f (set_state f s (fiber_update f g u))" for s
    using assms(1) g(1) by (auto simp: loading_def in_place_def set_state_def)
  have vacant: "vacant (g (fiber_at u f))" "vacant (g (fiber_at u f)\<lparr>fb_state := s\<rparr>)" for s
    using assms(1) g(3) by (auto simp: loading_def vacant_def)
  show "drive_post f (Err FiberIsDisposed) (fiber_update f g u)" if "fb_dispose_requested (fiber_at u f)"
    using place(1) vacant(1) assms(1) g that
    by (auto simp: drive_post_def loading_def intro!: fiber_ok_going [where s = FiberLoading])
  show "drive_post f (Err FiberIsDisposed) (set_state f FiberDisposed (fiber_update f g u))"
    if "fb_dispose_requested (fiber_at u f)"
    using place(2) vacant(2) g that
    by (auto simp: drive_post_def intro!: fiber_ok_going [where s = FiberDisposed]) (simp_all add: set_state_def)
  show "drive_post f (Ok Again) (set_state f FiberPending (fiber_update f g u))"
    using place(2) vacant(2) g
    by (auto simp: drive_post_def intro!: fiber_ok_pending [THEN conjunct1] fiber_ok_pending [THEN conjunct2])
      (simp_all add: set_state_def)
qed

lemma load_settle_post:
  assumes call: "respects_lock_call f call" and w: "loading f effects w"
    and run: "load_settle call f epoch dependencies effects result w = Some (r, w')" "r \<noteq> Panic"
  shows "drive_post f r w' \<and> same_plugin f w w'"
proof -
  have disposed: ?thesis
    if "with_errors (effect_dispose_all call effects w) k = Some (r, w')"
      "\<And>errors u. loading f effects u \<Longrightarrow> same_plugin f w u \<Longrightarrow>
         stack_at u effects = \<lparr>es_effects = [], es_closed = True\<rparr> \<Longrightarrow>
         k errors u = Some (r, w') \<Longrightarrow> drive_post f r w' \<and> same_plugin f u w'" for k
  proof -
    from that(1) run(2) obtain errors u where u: "effect_dispose_all call effects w = Some (Ok errors, u)"
      "k errors u = Some (r, w')" by (rule with_errors_Ok)
    note l = loading_disposed [OF call w u(1)]
    from that(2) [OF l(1-3) u(2)] l(2) show ?thesis by (auto intro: same_plugin_trans)
  qed
  show ?thesis
  proof (cases result)
    case (Ok v)
    show ?thesis
    proof (cases "load_is_stale f epoch w")
      case False
      with run Ok show ?thesis
        by (intro load_publish_post [OF call w]) (auto simp: load_settle_def Let_def)
    next
      case True
      let ?g = "\<lambda>errors x. x\<lparr>fb_loading_binding := None, fb_force_reload := False, fb_last_cleanup_errors := errors\<rparr>"
      note post = stale_post [of f effects, where g = "?g errors" for errors]
      from run(1) Ok True show ?thesis
        unfolding load_settle_def Let_def
        by (simp, elim disposed)
          (use post in \<open>auto simp: vacant_def same_plugin_def fiber_setters split: if_splits\<close>)
    qed
  next
    case (Err reason)
    show ?thesis
    proof (cases "load_is_stale f epoch w")
      case True
      let ?g = "\<lambda>errors x. x\<lparr>fb_loading_binding := None, fb_force_reload := False, fb_error := None,
          fb_last_cleanup_errors := errors\<rparr>"
      note post = stale_post [of f effects, where g = "?g errors" for errors]
      from run(1) Err True show ?thesis
        unfolding load_settle_def Let_def
        by (simp, elim disposed)
          (use post in \<open>auto simp: vacant_def same_plugin_def fiber_setters split: if_splits\<close>)
    next
      case False
      with run(1) Err show ?thesis
        unfolding load_settle_def Let_def
        by (simp, elim disposed)
          (auto simp: drive_post_def loading_def in_place_def fiber_setters vacant_def same_plugin_def
            intro!: fiber_ok_failed [THEN conjunct1] fiber_ok_failed [THEN conjunct2])
    qed
  next
    case Panic
    with run show ?thesis by (simp add: load_settle_def Let_def)
  qed
qed

lemma load_begin_loading:
  assumes "in_place f w" "vacant (fiber_at w f)" "load_begin f epoch dependencies w = (lc, w')"
  shows "loading f (lc_effects lc) w' \<and> same_plugin f w w' \<and> sm_scopes w' = sm_scopes w \<and>
    fb_force_reload (fiber_at w' f) = fb_force_reload (fiber_at w f) \<and>
    fb_dispose_requested (fiber_at w' f) = fb_dispose_requested (fiber_at w f)"
proof -
  let ?w = "set_state f FiberLoading w"
  obtain s v where new: "effect_scope_new ?w = (s, v)" by (cases "effect_scope_new ?w")
  note n = effect_scope_new_world [OF new]
  have w: "in_place f ?w" using assms(1) by (simp add: in_place_def set_state_def)
  have v: "in_place f (fiber_update f (\<lambda>x. x\<lparr>fb_effects := s\<rparr>) v)"
    by (rule in_place_new_effects [OF w new]) simp
  have w': "w' = set_loading_binding f (Some (de_binding epoch))
      (set_error f None (fiber_update f (\<lambda>x. x\<lparr>fb_effects := s\<rparr>) v))" "lc_effects lc = s"
    using assms(3) new by (auto simp: load_begin_def Let_def)
  have "in_place f w'"
    using v unfolding w' by (simp add: in_place_def fiber_setters)
  moreover have "fiber_at w' f = (fiber_at w f)\<lparr>fb_state := fiber_state_as_raw FiberLoading, fb_effects := s,
      fb_error := None, fb_loading_binding := Some (de_binding epoch)\<rparr>" "sm_scopes w' = sm_scopes w"
    unfolding w' by (simp_all add: fiber_setters n)
  ultimately show ?thesis using assms(2) w'(2)
    by (simp add: loading_def vacant_def same_plugin_def)
qed

lemma load_attempt_post:
  assumes call: "respects_lock_call f call" and factory: "respects_lock_factory f factory"
    and w: "in_place f w" "vacant (fiber_at w f)"
    and run: "load_attempt factory call f epoch dependencies w = Some (r, w')" "r \<noteq> Panic"
  shows "drive_post f r w' \<and> same_plugin f w w'"
proof -
  obtain lc w1 where b: "load_begin f epoch dependencies w = (lc, w1)" by fastforce
  obtain q w2 where q: "factory (pd_factory (fb_definition (fiber_at w1 f))) lc w1 = (q, w2)" by fastforce
  note l = load_begin_loading [OF w b]
  have keeps: "keeps f w1 w2" using factory q unfolding respects_lock_factory_def by (metis snd_conv)
  have "loading f (lc_effects lc) w2" using keeps l by (blast intro: loading_keeps)
  moreover have "same_plugin f w1 w2" using keeps l by (auto simp: loading_def in_place_def intro: keeps_same_plugin)
  moreover have "load_settle call f epoch dependencies (lc_effects lc) q w2 = Some (r, w')"
    using run b q by (simp add: load_attempt_def)
  ultimately show ?thesis
    using load_settle_post [OF call] run(2) l by (meson same_plugin_trans)
qed

lemma context_resolve_each_Err: "context_resolve_each w c i ds = Err e \<Longrightarrow> \<exists>j. e = ScopeMissingDependency i j"
  by (induction ds) (auto split: option.splits elim!: res_bind.elims)

lemma resolve_fiber_Err: "resolve_fiber w f = Err e \<Longrightarrow> \<exists>i j. e = ScopeMissingDependency i j"
  unfolding resolve_fiber_def context_resolve_dependencies_def by (blast dest: context_resolve_each_Err)

lemma drive_iteration_post:
  assumes call: "respects_lock_call f call" and factory: "respects_lock_factory f factory"
    and w: "fiber_ok f w" "fiber_state w f \<noteq> FiberDisposed"
    and run: "drive_iteration factory call f force w = Some (r, w')" "r \<noteq> Panic"
  shows "drive_post f r w' \<and> same_plugin f w w'"
proof (cases "resolve_fiber w f")
  case (Ok dependencies)
  let ?epoch = "epoch_of (fb_requested_epoch (fiber_at w f)) dependencies"
  let ?matches = "\<not> force \<and> fiber_state w f = FiberActive \<and> fiber_binding w f = Some (de_binding ?epoch)"
  let ?loaded = "fiber_state w f = FiberActive \<or> fiber_state w f = FiberFailed"
  consider (matches) ?matches | (loaded) "\<not> ?matches" ?loaded
    | (asked) "\<not> ?matches" "\<not> ?loaded" "fb_dispose_requested (fiber_at w f)"
    | (load) "\<not> ?matches" "\<not> ?loaded" "\<not> fb_dispose_requested (fiber_at w f)" by blast
  then show ?thesis
  proof cases
    case matches
    with run Ok have r: "r = Ok (Stable FiberActive)"
      "w' = fiber_update f (\<lambda>x. x\<lparr>fb_dependency_epoch := Some ?epoch\<rparr>) w"
      by (simp_all add: drive_iteration_def Let_def)
    from matches w(1) have "published (fiber_at w f)" "fb_state (fiber_at w f) = fiber_state_as_raw FiberActive"
      by (auto simp: fiber_ok_def Let_def)
    with matches have "published (fiber_at w' f)" "fb_state (fiber_at w' f) = fiber_state_as_raw FiberActive"
      by (auto simp: published_def fiber_binding_def r split: option.splits)
    with w(1) r show ?thesis
      by (auto simp: drive_post_def fiber_okD in_place_def same_plugin_def dest: fiber_okD
          intro!: fiber_ok_active [THEN conjunct1] fiber_ok_active [THEN conjunct2])
  next
    case loaded
    with run Ok obtain errors v where v: "unload call f None w = Some (Ok errors, v)"
      "(let w1 = set_cleanup_errors f errors v in
        if fb_dispose_requested (fiber_at w1 f) then Some (Err FiberIsDisposed, w1) else Some (Ok Again, w1)) = Some (r, w')"
      unfolding drive_iteration_def Let_def by (auto elim: with_errors_Ok)
    from unload_result [OF call fiber_okD(1,2) [OF w(1)] v(1)]
    have u: "fiber_ok f v" "fiber_state v f = FiberPending" "same_plugin f w v" by auto
    have "fiber_ok f (set_cleanup_errors f errors v) \<and> fiber_state (set_cleanup_errors f errors v) f = FiberPending"
      using u by (auto simp: fiber_ok_def Let_def fiber_setters in_place_def fiber_state_def vacant_def)
    with u(3) v(2) show ?thesis
      by (auto simp: drive_post_def Let_def fiber_setters same_plugin_def split: if_splits)
  next
    case asked
    with run Ok w show ?thesis by (auto simp: drive_iteration_def Let_def drive_post_def)
  next
    case load
    with w have "vacant (fiber_at w f)"
      by (auto simp: fiber_ok_def Let_def split: fiber_state.splits)
    with load run Ok show ?thesis
      by (intro load_attempt_post [OF call factory fiber_okD(1) [OF w(1)]]) (auto simp: drive_iteration_def Let_def)
  qed
next
  case (Err e)
  then obtain i j where e: "e = ScopeMissingDependency i j" using resolve_fiber_Err by blast
  with run Err obtain u where u: "clear_active_state call f w = Some (Ok (), u)" "r = Ok (Stable FiberPending)"
    "w' = set_state f FiberPending u"
    by (auto simp: drive_iteration_def bind_eq_Some_conv clear_active_state_def with_errors_Some split: if_splits)
  have "in_place f u \<and> fb_loading_binding (fiber_at u f) = None \<and> vacant (fiber_at u f) \<and> same_plugin f w u"
  proof (cases "fiber_state w f = FiberActive")
    case True
    with u(1) obtain errors v where v: "unload call f None w = Some (Ok errors, v)" "u = set_cleanup_errors f errors v"
      by (auto simp: clear_active_state_def with_errors_Some)
    from unload_result [OF call fiber_okD(1,2) [OF w(1)] v(1)]
    have "fiber_ok f v" "fiber_state v f = FiberPending" "same_plugin f w v" by auto
    then show ?thesis
      by (auto simp: v(2) fiber_ok_def Let_def fiber_setters in_place_def vacant_def same_plugin_def)
  next
    case False
    with u(1) w show ?thesis
      by (auto simp: clear_active_state_def fiber_ok_def Let_def split: fiber_state.splits)
  qed
  then have "fiber_ok f w' \<and> fiber_state w' f = FiberPending" "same_plugin f w w'"
    by (auto simp: u(3) set_state_def in_place_def vacant_def same_plugin_def
        intro!: fiber_ok_pending [THEN conjunct1] fiber_ok_pending [THEN conjunct2])
  then show ?thesis by (simp add: drive_post_def u(2))
next
  case Panic
  with run show ?thesis by (simp add: drive_iteration_def)
qed

text \<open>Induction over a loop that returned: its last iteration, and the iterations before it.\<close>

definition last_flow :: "(fiber_state, fiber_error) res \<Rightarrow> (drive_flow, fiber_error) res" where
  "last_flow r = (case r of Ok s \<Rightarrow> Ok (Stable s) | Err e \<Rightarrow> Err e | Panic \<Rightarrow> Panic)"

lemma last_flow_simps [simp]:
  "last_flow (Ok s) = Ok (Stable s)" "last_flow (Err e) = Err e" "last_flow Panic = Panic"
  "last_flow r = Ok (Stable s) \<longleftrightarrow> r = Ok s" "last_flow r = Panic \<longleftrightarrow> r = Panic" "last_flow r \<noteq> Ok Again"
  by (cases r; simp add: last_flow_def)+

lemma drive_loop_induct [consumes 1, case_names final again]:
  assumes run: "drive_loop factory call f force w = Some (r, w')"
    and final: "\<And>w. drive_iteration factory call f force w = Some (last_flow r, w') \<Longrightarrow> P w"
    and again: "\<And>w v. drive_iteration factory call f force w = Some (Ok Again, v) \<Longrightarrow> P v \<Longrightarrow> P w"
  shows "P w"
proof -
  have "factory = factory \<longrightarrow> call = call \<longrightarrow> f = f \<longrightarrow> force = force \<longrightarrow> (r, w') = (r, w') \<longrightarrow> P w"
  proof (rule drive_loop.raw_induct [where P = "\<lambda>fa ca g fo w q. fa = factory \<longrightarrow> ca = call \<longrightarrow> g = f \<longrightarrow>
        fo = force \<longrightarrow> q = (r, w') \<longrightarrow> P w", OF _ run], intro impI)
    fix loop fa ca g fo w q
    assume IH: "\<And>fa ca g fo w q. loop fa ca g fo w = Some q \<Longrightarrow>
        fa = factory \<longrightarrow> ca = call \<longrightarrow> g = f \<longrightarrow> fo = force \<longrightarrow> q = (r, w') \<longrightarrow> P w"
      and eq: "Option.bind (drive_iteration fa ca g fo w) (\<lambda>(r, w').
          case r of
            Ok flow \<Rightarrow> (case flow of Again \<Rightarrow> loop fa ca g fo w' | Stable s \<Rightarrow> Some (Ok s, w'))
          | Err e \<Rightarrow> Some (Err e, w')
          | Panic \<Rightarrow> Some (Panic, w')) = Some q"
      and args: "fa = factory" "ca = call" "g = f" "fo = force" "q = (r, w')"
    from eq args obtain p v where p: "drive_iteration factory call f force w = Some (p, v)"
      "(case p of
          Ok flow \<Rightarrow> (case flow of Again \<Rightarrow> loop factory call f force v | Stable s \<Rightarrow> Some (Ok s, v))
        | Err e \<Rightarrow> Some (Err e, v)
        | Panic \<Rightarrow> Some (Panic, v)) = Some (r, w')"
      by (auto simp: bind_eq_Some_conv)
    show "P w"
    proof (cases "p = Ok Again")
      case True
      with p(2) IH [of factory call f force v "(r, w')"] have "P v" by simp
      with p(1) True again show ?thesis by blast
    next
      case False
      with p(2) have "p = last_flow r" "v = w'"
        by (auto simp: last_flow_def split: res.splits drive_flow.splits)
      with p(1) final show ?thesis by blast
    qed
  qed
  then show ?thesis by simp
qed

lemma drive_loop_post:
  assumes call: "respects_lock_call f call" and factory: "respects_lock_factory f factory"
    and w: "fiber_ok f w" "fiber_state w f \<noteq> FiberDisposed"
    and run: "drive_loop factory call f force w = Some (r, w')" "r \<noteq> Panic"
  shows "drive_post f (last_flow r) w' \<and> same_plugin f w w'"
proof -
  from run(1) have "fiber_ok f w \<longrightarrow> fiber_state w f \<noteq> FiberDisposed \<longrightarrow>
      drive_post f (last_flow r) w' \<and> same_plugin f w w'"
  proof (induction rule: drive_loop_induct)
    case (final w)
    with run(2) drive_iteration_post [OF call factory _ _ final] show ?case by simp
  next
    case (again w v)
    with drive_iteration_post [OF call factory _ _ again(1)] show ?case
      by (auto simp: drive_post_def intro: same_plugin_trans)
  qed
  with w show ?thesis by blast
qed

text \<open>What \<open>drive\<close> sets before its loop starts.\<close>

definition drive_ready :: "fiber_id \<Rightarrow> ('d, 'v, 'f) semantic_world \<Rightarrow> ('d, 'v, 'f) semantic_world" where
  "drive_ready f w =
     (if fiber_state (set_force_reload f False w) f = FiberPending
      then set_cleanup_errors f [] (set_force_reload f False w) else set_force_reload f False w)"

lemma drive_ready_fiber:
  assumes "fiber_ok f w"
  shows "fiber_ok f (drive_ready f w)" "fiber_state (drive_ready f w) f = fiber_state w f"
    "same_plugin f w (drive_ready f w)"
  using assms unfolding drive_ready_def
  by (auto simp: fiber_ok_def Let_def fiber_setters in_place_def fiber_state_def vacant_def published_def
      same_plugin_def split: fiber_state.splits option.splits)

text \<open>A drive refuses, or runs its loop on a fiber that is not disposed.\<close>

lemma driveE:
  assumes run: "drive factory call f force w = Some (r, w')" and ok: "fiber_ok f w"
  obtains (refused) e where "r = Err e" "w' = w"
      "e = FiberIsDisposed \<and> fb_dispose_requested (fiber_at w f) \<or> fiber_state w f = FiberFailed"
  | (looped) "\<not> fb_dispose_requested (fiber_at w f)" "fiber_state (drive_ready f w) f \<noteq> FiberDisposed"
      "fiber_ok f (drive_ready f w)"
      "drive_loop factory call f (force \<or> fb_force_reload (fiber_at w f)) (drive_ready f w) = Some (r, w')"
proof -
  note unfolded = drive_def [of factory call f force w, unfolded run Let_def, folded drive_ready_def]
  show thesis
  proof (cases "fb_dispose_requested (fiber_at w f)")
    case True
    from unfolded [unfolded if_P [OF True]] True refused show thesis by blast
  next
    case alive: False
    note unfolded = unfolded [unfolded if_not_P [OF alive]]
    show thesis
    proof (cases "\<not> force \<and> fiber_state w f = FiberFailed")
      case True
      from unfolded [unfolded if_P [OF True]] True refused show thesis by blast
    next
      case False
      have "fiber_state (drive_ready f w) f \<noteq> FiberDisposed"
        using alive drive_ready_fiber(2) [OF ok] fiber_okD(4) [OF ok] by metis
      with unfolded [unfolded if_not_P [OF False]] alive drive_ready_fiber(1) [OF ok] looped show thesis by metis
    qed
  qed
qed

lemma drive_result:
  assumes "respects_lock_call f call" "respects_lock_factory f factory" "fiber_ok f w"
    and run: "drive factory call f force w = Some (r, w')" "r \<noteq> Panic"
  shows "fiber_ok f w'" "same_plugin f w w'" "fiber_state w f = FiberDisposed \<Longrightarrow> w' = w"
    "r = Ok s \<Longrightarrow> fiber_state w' f = s \<and> (s = FiberPending \<or> s = FiberActive)"
    "r = Err e \<Longrightarrow> e = FiberIsDisposed \<and> fb_dispose_requested (fiber_at w' f) \<or> fiber_state w' f = FiberFailed"
proof -
  from run(1) assms(3) have "fiber_ok f w' \<and> same_plugin f w w' \<and> (fiber_state w f = FiberDisposed \<longrightarrow> w' = w) \<and>
      (r = Ok s \<longrightarrow> fiber_state w' f = s \<and> (s = FiberPending \<or> s = FiberActive)) \<and>
      (r = Err e \<longrightarrow> e = FiberIsDisposed \<and> fb_dispose_requested (fiber_at w' f) \<or> fiber_state w' f = FiberFailed)"
  proof (cases rule: driveE)
    case refused
    with assms(3) show ?thesis by auto
  next
    case looped
    note ready = drive_ready_fiber [OF assms(3)]
    from drive_loop_post [OF assms(1,2) looped(3,2,4) run(2)] looped(2) ready
    show ?thesis by (cases r) (auto simp: drive_post_def intro: same_plugin_trans)
  qed
  then show "fiber_ok f w'" "same_plugin f w w'" "fiber_state w f = FiberDisposed \<Longrightarrow> w' = w"
    "r = Ok s \<Longrightarrow> fiber_state w' f = s \<and> (s = FiberPending \<or> s = FiberActive)"
    "r = Err e \<Longrightarrow> e = FiberIsDisposed \<and> fb_dispose_requested (fiber_at w' f) \<or> fiber_state w' f = FiberFailed"
    by simp_all
qed

lemma withdrawal_result:
  assumes "respects_lock_call f call" "fiber_ok f w"
    and run: "withdrawal_locked call f detached w = Some (r, w')" "r \<noteq> Panic"
  shows "fiber_ok f w'" "same_plugin f w w'" "fiber_state w f = FiberDisposed \<Longrightarrow> w' = w"
    "r = Ok (fiber_state w' f)" "fiber_state w' f \<noteq> FiberActive"
    "fiber_state w f = FiberActive \<or> fiber_state w f = FiberFailed \<Longrightarrow> fiber_state w' f = FiberPending"
proof -
  have "fiber_ok f w' \<and> same_plugin f w w' \<and> (fiber_state w f = FiberDisposed \<longrightarrow> w' = w) \<and>
      r = Ok (fiber_state w' f) \<and> fiber_state w' f \<noteq> FiberActive \<and>
      (fiber_state w f = FiberActive \<or> fiber_state w f = FiberFailed \<longrightarrow> fiber_state w' f = FiberPending)"
  proof (cases "fiber_state w f = FiberActive \<or> fiber_state w f = FiberFailed")
    case True
    with run obtain errors v where v: "unload call f detached w = Some (Ok errors, v)"
      "r = Ok (fiber_state (set_cleanup_errors f errors v) f)" "w' = set_cleanup_errors f errors v"
      by (auto simp: withdrawal_locked_def Let_def with_errors_Some split: if_splits)
    from unload_result [OF assms(1) fiber_okD(1,2) [OF assms(2)] v(1)]
    have u: "fiber_ok f v" "fiber_state v f = FiberPending" "same_plugin f w v" by auto
    then have "fiber_ok f w'" "fiber_state w' f = FiberPending"
      by (auto simp: v(3) fiber_ok_def Let_def fiber_setters in_place_def fiber_state_def vacant_def)
    moreover have "same_plugin f w w'" using u(3) by (simp add: v(3) fiber_setters same_plugin_def)
    ultimately show ?thesis using v True by auto
  next
    case False
    with run assms(2) show ?thesis by (auto simp: withdrawal_locked_def split: if_splits)
  qed
  then show "fiber_ok f w'" "same_plugin f w w'" "fiber_state w f = FiberDisposed \<Longrightarrow> w' = w"
    "r = Ok (fiber_state w' f)" "fiber_state w' f \<noteq> FiberActive"
    "fiber_state w f = FiberActive \<or> fiber_state w f = FiberFailed \<Longrightarrow> fiber_state w' f = FiberPending" by simp_all
qed

lemma fiber_at_remove [simp]: "fiber_at (remove_fiber n g w) f = fiber_at w f"
  by (simp add: remove_fiber_def)

text \<open>A disposal finds its request made.\<close>

lemma disposal_result:
  assumes "respects_lock_call f call" "fiber_ok f w" "fb_dispose_requested (fiber_at w f)"
    and run: "dispose_locked call f w = Some (r, w')" "r \<noteq> Panic"
  shows "fiber_ok f w'" "fiber_state w' f = FiberDisposed" "fb_handle (fiber_at w' f) = None"
    "fiber_state w f = FiberDisposed \<Longrightarrow> w' = w \<and> r = Ok ()"
    "fiber_state w f \<noteq> FiberDisposed \<Longrightarrow> has_key (sm_runtimes w') (fb_runtime (fiber_at w f)) \<Longrightarrow>
       f |\<notin>| pr_fibers (runtime_at w' (fb_runtime (fiber_at w f)))"
    "same_plugin f w w'"
proof -
  have "fiber_ok f w' \<and> fiber_state w' f = FiberDisposed \<and> fb_handle (fiber_at w' f) = None \<and>
      (fiber_state w f = FiberDisposed \<longrightarrow> w' = w \<and> r = Ok ()) \<and>
      (fiber_state w f \<noteq> FiberDisposed \<longrightarrow> has_key (sm_runtimes w') (fb_runtime (fiber_at w f)) \<longrightarrow>
         f |\<notin>| pr_fibers (runtime_at w' (fb_runtime (fiber_at w f)))) \<and> same_plugin f w w'"
  proof (cases "fiber_state w f = FiberDisposed")
    case True
    with run assms(2) fiber_okD(5) [OF assms(2)] show ?thesis by (auto simp: dispose_locked_def)
  next
    case False
    with run obtain errors v where v: "unload call f None w = Some (Ok errors, v)"
      "w' = (if has_key (sm_runtimes v) (fb_runtime (fiber_at v f))
             then remove_fiber (fb_runtime (fiber_at v f)) f (set_state f FiberDisposed v)
             else set_state f FiberDisposed v)"
      by (auto simp: dispose_locked_def Let_def with_errors_Some set_state_def)
    from unload_result [OF assms(1) fiber_okD(1,2) [OF assms(2)] v(1)]
    have u: "fiber_ok f v" "fiber_state v f = FiberPending" "same_plugin f w v" by auto
    have w': "fiber_at w' f = (fiber_at v f)\<lparr>fb_state := fiber_state_as_raw FiberDisposed\<rparr>"
      using v(2) by (simp add: set_state_def)
    have place: "in_place f w'"
      using fiber_okD(1) [OF u(1)] v(2) by (auto simp: in_place_def set_state_def remove_fiber_def)
    have "vacant (fiber_at v f)" "fb_loading_binding (fiber_at v f) = None"
      using u(1,2) by (simp_all add: fiber_ok_def Let_def)
    moreover have "fb_dispose_requested (fiber_at v f)" using assms(3) u(3) by (simp add: same_plugin_def)
    ultimately have "fiber_ok f w'" "fb_handle (fiber_at w' f) = None"
      using place by (auto simp: w' vacant_def intro!: fiber_ok_going [where s = FiberDisposed])
    moreover have "fiber_state w' f = FiberDisposed" "same_plugin f w w'"
      using u(3) by (simp_all add: fiber_state_def w' same_plugin_def fiber_state_from_raw_def)
    moreover have "f |\<notin>| pr_fibers (runtime_at w' (fb_runtime (fiber_at w f)))"
      if "has_key (sm_runtimes w') (fb_runtime (fiber_at w f))"
      using v(2) that u(3) by (auto simp: remove_fiber_def runtime_at_def same_plugin_def set_state_def split: if_splits)
    ultimately show ?thesis using False by blast
  qed
  then show "fiber_ok f w'" "fiber_state w' f = FiberDisposed" "fb_handle (fiber_at w' f) = None"
    "fiber_state w f = FiberDisposed \<Longrightarrow> w' = w \<and> r = Ok ()"
    "fiber_state w f \<noteq> FiberDisposed \<Longrightarrow> has_key (sm_runtimes w') (fb_runtime (fiber_at w f)) \<Longrightarrow>
       f |\<notin>| pr_fibers (runtime_at w' (fb_runtime (fiber_at w f)))" "same_plugin f w w'" by simp_all
qed

subsection \<open>A fiber does not disturb another one\<close>

lemma keeps_then_other: "keeps f w v \<Longrightarrow> g \<noteq> f \<Longrightarrow> keeps f w (fiber_update g h v)"
  by (blast intro: keeps_trans keeps_other_fiber)

lemma keeps_then_scopes: "keeps f w v \<Longrightarrow> keeps f w (v\<lparr>sm_scopes := sc\<rparr>)"
  by (erule keeps_trans) (simp add: keeps_same_fibers heap_grows_cong)

lemma keeps_then_runtimes: "keeps f w v \<Longrightarrow> keeps f w (v\<lparr>sm_runtimes := rs\<rparr>)"
  by (erule keeps_trans) (simp add: keeps_same_fibers heap_grows_cong)

lemma keeps_then_new: "keeps f w v \<Longrightarrow> effect_scope_new v = (s, v') \<Longrightarrow> keeps f w v'"
  using heap_grows_new [of v] effect_scope_new_world(2) [of v s v']
  by (erule_tac keeps_trans) (simp add: keeps_same_fibers)

lemmas keeps_intros = keeps_then_other keeps_then_scopes keeps_then_runtimes keeps_refl

lemma unload_finish_keeps:
  assumes "keeps f w v" "g \<noteq> f"
  shows "keeps f w (unload_finish g v)"
proof -
  let ?v = "fiber_update g (\<lambda>x. x\<lparr>fb_dependency_epoch := None, fb_loading_binding := None\<rparr>) v"
  obtain s u where new: "effect_scope_new ?v = (s, u)" by fastforce
  have "keeps f w u" by (rule keeps_then_new [OF keeps_then_other [OF assms] new])
  then show ?thesis using assms(2) by (simp add: unload_finish_def new set_state_def keeps_then_other)
qed

lemma unload_keeps:
  assumes "g \<noteq> f" "respects_lock_call f call" "in_place g w" "unload call g detached w = Some (r, w')"
  shows "keeps f w w'"
proof -
  have start: "keeps f w (set_state g FiberUnloading w)"
    unfolding set_state_def using assms(1) by (intro keeps_intros)
  have disposed: "keeps f w v"
    if "effect_dispose_all call (fb_effects (fiber_at w g)) (set_state g FiberUnloading w) = Some (q, v)" for q v
    by (rule keeps_trans [OF start dispose_all_keeps(1) [OF assms(2) that]])
      (use assms(3) in \<open>simp_all add: in_place_def set_state_def\<close>)
  have released: "keeps f w u" if v: "keeps f w v" and u: "unload_release g detached errors v = (q, u)" for errors v q u
  proof (cases "fb_handle (fiber_at v g)")
    case None
    with u v assms(1) show ?thesis by (auto simp: unload_release_def intro: unload_finish_keeps)
  next
    case (Some h)
    define v1 where "v1 = fiber_update g (\<lambda>x. x\<lparr>fb_handle := None\<rparr>) v"
    have v1: "keeps f w (v1\<lparr>sm_scopes := sc\<rparr>)" "keeps f w v1" for sc
      unfolding v1_def using v assms(1) by (intro keeps_intros; simp)+
    obtain p sc where p: "remove_local (cx_scope (fb_context (fiber_at v g))) (h_id h) (h_generation h)
        (sm_scopes v) = (p, sc)" by fastforce
    let ?e = "set_state g FiberPending (fiber_update g (\<lambda>x. x\<lparr>fb_dependency_epoch := None\<rparr>) (v1\<lparr>sm_scopes := sc\<rparr>))"
    have "keeps f w ?e"
      unfolding set_state_def using v1 assms(1) by (intro keeps_intros)
    moreover have "u = unload_finish g v1 \<or> u = unload_finish g (v1\<lparr>sm_scopes := sc\<rparr>) \<or> u = ?e \<or> u = v1\<lparr>sm_scopes := sc\<rparr>"
      using u Some p by (cases p) (auto simp: unload_release_def Let_def v1_def split: if_splits)
    ultimately show ?thesis using v1 assms(1) unload_finish_keeps by metis
  qed
  from assms(4) show ?thesis
    unfolding unload_def with_errors_Some using disposed released by auto
qed

lemma load_settle_keeps:
  assumes "g \<noteq> f" "respects_lock_call f call" "loading g effects w"
    "load_settle call g epoch dependencies effects result w = Some (r, w')"
  shows "keeps f w w'"
proof -
  have disposed: "keeps f w v" if "effect_dispose_all call effects (w\<lparr>sm_scopes := sc\<rparr>) = Some (q, v)" for sc q v
  proof -
    have "keeps f (w\<lparr>sm_scopes := sc\<rparr>) v"
      using assms(3) by (intro dispose_all_keeps(1) [OF assms(2) that]) (auto simp: loading_def in_place_def)
    then show ?thesis by (blast intro: keeps_trans keeps_intros)
  qed
  have disposed': "keeps f w v" if "effect_dispose_all call effects w = Some (q, v)" for q v
    using assms(3) by (intro dispose_all_keeps(1) [OF assms(2) that]) (auto simp: loading_def in_place_def)
  have publish: "keeps f w w'" if "load_publish call g dependencies effects v w = Some (r, w')" for v
  proof -
    obtain q sc where q: "provide_value (cx_scope (fb_context (fiber_at w g))) (fiber_capability w g)
        dependencies v (sm_scopes w) = (q, sc)" by fastforce
    show ?thesis
    proof (cases q)
      case (Ok h)
      with that q assms(1) show ?thesis
        by (auto simp: load_publish_def Let_def fiber_setters intro!: keeps_intros)
    next
      case (Err e)
      with that q assms(1) show ?thesis
        by (cases e) (auto simp: load_publish_def fiber_setters with_errors_Some dest!: disposed intro!: keeps_intros)
    next
      case Panic
      with that q show ?thesis by (auto simp: load_publish_def intro!: keeps_intros)
    qed
  qed
  show ?thesis
    using assms(1,4) publish
    by (auto simp: load_settle_def Let_def fiber_setters with_errors_Some dest!: disposed' intro!: keeps_intros
        split: res.splits if_splits)
qed

lemma drive_iteration_keeps:
  assumes "g \<noteq> f" "respects_lock_call f call" "respects_lock_factory f factory"
    "respects_lock_factory g factory" "fiber_ok g w" "fiber_state w g \<noteq> FiberDisposed"
    "drive_iteration factory call g force w = Some (r, w')"
  shows "keeps f w w'"
proof (cases "resolve_fiber w g")
  case (Ok dependencies)
  let ?epoch = "epoch_of (fb_requested_epoch (fiber_at w g)) dependencies"
  have load: "keeps f w w'" if vacant: "vacant (fiber_at w g)"
    and run: "load_attempt factory call g ?epoch dependencies w = Some (r, w')"
  proof -
    obtain lc w1 where b: "load_begin g ?epoch dependencies w = (lc, w1)" by fastforce
    obtain q w2 where q: "factory (pd_factory (fb_definition (fiber_at w1 g))) lc w1 = (q, w2)" by fastforce
    have l: "loading g (lc_effects lc) w1"
      using load_begin_loading [OF fiber_okD(1) [OF assms(5)] vacant b] by blast
    have "keeps g w1 w2" "keeps f w1 w2"
      using assms(3,4) q unfolding respects_lock_factory_def by (metis snd_conv)+
    moreover have "keeps f w w1"
    proof -
      obtain s v where new: "effect_scope_new (set_state g FiberLoading w) = (s, v)" by fastforce
      have "keeps f w v"
        by (rule keeps_then_new [OF _ new]) (use assms(1) in \<open>auto simp: set_state_def intro!: keeps_intros\<close>)
      then show ?thesis
        using b new assms(1) by (auto simp: load_begin_def Let_def fiber_setters intro!: keeps_intros)
    qed
    moreover have "load_settle call g ?epoch dependencies (lc_effects lc) q w2 = Some (r, w')"
      using run b q by (simp add: load_attempt_def)
    ultimately show ?thesis
      using load_settle_keeps [OF assms(1,2)] loading_keeps [OF _ l] by (blast intro: keeps_trans)
  qed
  have "vacant (fiber_at w g)" if "fiber_state w g \<noteq> FiberActive"
    using assms(5) that by (auto simp: fiber_ok_def Let_def split: fiber_state.splits)
  with assms(1,7) Ok load show ?thesis
    by (auto simp: drive_iteration_def Let_def with_errors_Some fiber_setters intro!: keeps_intros
        dest: unload_keeps [OF assms(1,2) fiber_okD(1) [OF assms(5)]] split: if_splits)
next
  case (Err e)
  then obtain i j where "e = ScopeMissingDependency i j" using resolve_fiber_Err by blast
  with assms(1,7) Err show ?thesis
    by (auto simp: drive_iteration_def bind_eq_Some_conv clear_active_state_def with_errors_Some fiber_setters
        intro!: keeps_intros dest: unload_keeps [OF assms(1,2) fiber_okD(1) [OF assms(5)]] split: if_splits)
next
  case Panic
  with assms(7) show ?thesis by (simp add: drive_iteration_def)
qed

lemma drive_loop_keeps:
  assumes "g \<noteq> f" "respects_lock_call f call" "respects_lock_call g call" "respects_lock_factory f factory"
    "respects_lock_factory g factory" "fiber_ok g w" "fiber_state w g \<noteq> FiberDisposed"
    and run: "drive_loop factory call g force w = Some (r, w')"
  shows "keeps f w w'"
proof -
  from run have "fiber_ok g w \<longrightarrow> fiber_state w g \<noteq> FiberDisposed \<longrightarrow> keeps f w w'"
  proof (induction rule: drive_loop_induct)
    case (final w)
    with drive_iteration_keeps [OF assms(1,2,4,5)] show ?case by blast
  next
    case (again w v)
    with drive_iteration_post [OF assms(3,5) _ _ again(1)] drive_iteration_keeps [OF assms(1,2,4,5) _ _ again(1)]
    show ?case by (auto simp: drive_post_def intro: keeps_trans)
  qed
  with assms(6,7) show ?thesis by blast
qed

text \<open>The locked part of every call of one fiber is interference that any other fiber admits.\<close>

lemma drive_keeps:
  assumes "g \<noteq> f" "respects_lock_call f call" "respects_lock_call g call" "respects_lock_factory f factory"
    "respects_lock_factory g factory" "fiber_ok g w" "drive factory call g force w = Some (r, w')"
  shows "keeps f w w'"
  using assms(7,6)
proof (cases rule: driveE)
  case looped
  have "keeps f w (drive_ready g w)"
    using assms(1) by (auto simp: drive_ready_def fiber_setters intro!: keeps_intros)
  with drive_loop_keeps [OF assms(1-5) looped(3,2,4)] show ?thesis by (blast intro: keeps_trans)
qed simp

lemma withdrawal_keeps:
  assumes "g \<noteq> f" "respects_lock_call f call" "fiber_ok g w" "withdrawal_locked call g detached w = Some (r, w')"
  shows "keeps f w w'"
  using assms(1,4)
  by (auto simp: withdrawal_locked_def Let_def with_errors_Some fiber_setters intro!: keeps_intros
      dest: unload_keeps [OF assms(1,2) fiber_okD(1) [OF assms(3)]] split: if_splits)

lemma disposal_keeps:
  assumes "g \<noteq> f" "respects_lock_call f call" "fiber_ok g w" "dispose_locked call g w = Some (r, w')"
  shows "keeps f w w'"
  using assms(1,4)
  by (auto simp: dispose_locked_def Let_def with_errors_Some fiber_setters remove_fiber_def intro!: keeps_intros
      dest: unload_keeps [OF assms(1,2) fiber_okD(1) [OF assms(3)]] split: if_splits)

lemma requests_keep:
  "keeps f w (notify_dependency_change g w)" "keeps f w (snd (restart_request g w))"
  "keeps f w (snd (update_request g config w))" "keeps f w (dispose_request g w)"
proof -
  have *: "keeps f w (fiber_update g h w)"
    if "\<And>x. locked_part (h x) = locked_part x" "\<And>x. fb_dispose_requested x \<Longrightarrow> fb_dispose_requested (h x)" for h
    using that by (cases "g = f") (auto intro: keeps_request keeps_other_fiber)
  show "keeps f w (notify_dependency_change g w)" "keeps f w (snd (restart_request g w))"
    "keeps f w (snd (update_request g config w))" "keeps f w (dispose_request g w)"
    by (auto simp: notify_dependency_change_def restart_request_def update_request_def dispose_request_def
        locked_part_def intro!: * split: res.splits)
qed

lemma fiber_effect_keeps:
  assumes "in_place g w"
  shows "keeps f w (snd (fiber_effect g \<lparr>se_label = l, se_disposer = Some (Foreign d)\<rparr> w))"
proof (cases "fiber_state w g = FiberActive")
  case True
  have "keeps f w (snd (effect_register (fb_effects (fiber_at w g)) \<lparr>se_label = l, se_disposer = Some (Foreign d)\<rparr> w))"
    using assms by (intro keeps_same_fibers heap_grows_register)
      (auto simp: in_place_def effect_register_def stack_push_def)
  with True show ?thesis by (simp add: fiber_effect_def split_beta)
next
  case False
  then show ?thesis by (simp add: fiber_effect_def)
qed

subsection \<open>Histories of a fiber\<close>

text \<open>
  The life of one fiber: its creation, interference, and the locked parts of its calls, in any order.
  The calls of the other fibers, the requests and the registrations are interference by the lemmas
  above.  A call whose foreign code panics ends the history.
\<close>

inductive fiber_step ::
  "('d, 'v, 'f) factory_call \<Rightarrow> ('d, 'v, 'f) disposer_call \<Rightarrow> fiber_id \<Rightarrow>
   ('d, 'v, 'f) semantic_world \<Rightarrow> ('d, 'v, 'f) semantic_world \<Rightarrow> bool"
  for factory call f where
  interference: "keeps f w w' \<Longrightarrow> fiber_step factory call f w w'"
| driven: "drive factory call f force w = Some (r, w') \<Longrightarrow> r \<noteq> Panic \<Longrightarrow> fiber_step factory call f w w'"
| withdrawn: "withdrawal_locked call f detached w = Some (r, w') \<Longrightarrow> r \<noteq> Panic \<Longrightarrow> fiber_step factory call f w w'"
| disposed: "fb_dispose_requested (fiber_at w f) \<Longrightarrow> dispose_locked call f w = Some (r, w') \<Longrightarrow> r \<noteq> Panic \<Longrightarrow>
    fiber_step factory call f w w'"

inductive fiber_history ::
  "('d, 'v, 'f) factory_call \<Rightarrow> ('d, 'v, 'f) disposer_call \<Rightarrow> fiber_id \<Rightarrow> ('d, 'v, 'f) semantic_world \<Rightarrow> bool"
  for factory call f where
  created: "heap_ok w \<Longrightarrow> create_fiber n c config w = (Ok f, w') \<Longrightarrow> fiber_history factory call f w'"
| step: "fiber_history factory call f w \<Longrightarrow> fiber_step factory call f w w' \<Longrightarrow> fiber_history factory call f w'"

lemma create_fiber_Ok:
  fixes w :: "('d, 'v, 'f) semantic_world"
  assumes "create_fiber n c config w = (Ok f, w')" "heap_ok w"
  shows "fiber_ok f w'" "fiber_state w' f = FiberPending" "f = FiberId (sm_next_fiber_id w)"
    "unat (sm_next_fiber_id w') = unat (sm_next_fiber_id w) + 1" "unat (sm_next_fiber_id w) + 1 < 2 ^ 64"
    "sm_fibers w' = fmupd f (fiber_at w' f) (sm_fibers w)" "fb_dispose_requested (fiber_at w' f) = False"
    "pr_fibers (runtime_at w' n) = finsert f (pr_fibers (runtime_at w n))"
proof -
  obtain k where k: "u64_checked_succ (sm_next_fiber_id w) = Some k" "f = FiberId (sm_next_fiber_id w)"
    using assms(1) by (auto simp: create_fiber_def Let_def split: res.splits option.splits prod.splits)
  obtain s v where new: "effect_scope_new (w\<lparr>sm_next_fiber_id := k\<rparr>) = (s, v)" by fastforce
  note n = effect_scope_new_world [OF new]
  define x :: "('v, 'f) fiber" where "x = fiber_new n c (pr_definition (runtime_at w n)) config s"
  have w': "w' = v\<lparr>sm_fibers := fmupd f x (sm_fibers v),
      sm_runtimes := fmupd n (runtime_at v n\<lparr>pr_fibers := finsert f (pr_fibers (runtime_at v n))\<rparr>) (sm_runtimes v)\<rparr>"
    using assms(1) k new
    by (auto simp: create_fiber_def Let_def x_def runtime_at_def split: res.splits option.splits prod.splits)
  have "heap_ok v \<and> scope_number s < eh_next v"
    using heap_ok_new [of "w\<lparr>sm_next_fiber_id := k\<rparr>"] assms(2) new by (auto simp: effect_scope_new_def)
  then have "in_place f w'"
    unfolding w' by (simp add: in_place_def fiber_at_def x_def fiber_new_def) 
  moreover have "fiber_at w' f = x" by (simp add: w' fiber_at_def)
  ultimately show "fiber_ok f w'" "fiber_state w' f = FiberPending" "fb_dispose_requested (fiber_at w' f) = False"
    by (simp_all add: fiber_ok_def fiber_state_def x_def fiber_new_def vacant_def)
  show "sm_fibers w' = fmupd f (fiber_at w' f) (sm_fibers w)" using n(2) by (simp add: w' fiber_at_def)
  show "f = FiberId (sm_next_fiber_id w)" by (rule k(2))
  have "sm_next_fiber_id v = k" using new by (auto simp: effect_scope_new_def)
  then show "unat (sm_next_fiber_id w') = unat (sm_next_fiber_id w) + 1" "unat (sm_next_fiber_id w) + 1 < 2 ^ 64"
    using k(1) by (simp_all add: w' u64_checked_succ_Some)
  show "pr_fibers (runtime_at w' n) = finsert f (pr_fibers (runtime_at w n))"
    using n(5) by (simp add: w' runtime_at_def)
qed

lemma fiber_step_ok:
  assumes "respects_lock_call f call" "respects_lock_factory f factory"
    "fiber_step factory call f w w'" "fiber_ok f w"
  shows "fiber_ok f w'" "fiber_state w f = FiberDisposed \<Longrightarrow> fiber_state w' f = FiberDisposed"
    "fb_dispose_requested (fiber_at w f) \<Longrightarrow> fb_dispose_requested (fiber_at w' f)"
proof -
  have key: "has_key (sm_fibers w) f" using fiber_okD(1) [OF assms(4)] by (simp add: in_place_def)
  from assms(3) have "fiber_ok f w' \<and> (fiber_state w f = FiberDisposed \<longrightarrow> fiber_state w' f = FiberDisposed) \<and>
      (fb_dispose_requested (fiber_at w f) \<longrightarrow> fb_dispose_requested (fiber_at w' f))"
  proof (cases rule: fiber_step.cases)
    case interference
    with fiber_ok_keeps [OF interference assms(4)] keepsD(2,3) [OF interference key] show ?thesis
      by (simp add: fiber_state_def)
  next
    case (driven force r)
    with drive_result(1-3) [OF assms(1,2,4)] show ?thesis by (metis same_plugin_def)
  next
    case (withdrawn detached r)
    with withdrawal_result(1-3) [OF assms(1,4)] show ?thesis by (metis same_plugin_def)
  next
    case (disposed r)
    with disposal_result(1,2,6) [OF assms(1,4)] show ?thesis by (metis same_plugin_def)
  qed
  then show "fiber_ok f w'" "fiber_state w f = FiberDisposed \<Longrightarrow> fiber_state w' f = FiberDisposed"
    "fb_dispose_requested (fiber_at w f) \<Longrightarrow> fb_dispose_requested (fiber_at w' f)" by simp_all
qed

lemma fiber_history_ok:
  assumes "respects_lock_call f call" "respects_lock_factory f factory" "fiber_history factory call f w"
  shows "fiber_ok f w"
  using assms(3)
proof (induction rule: fiber_history.induct)
  case (created w n c config w')
  then show ?case by (blast intro: create_fiber_Ok)
next
  case (step w w')
  then show ?case using fiber_step_ok(1) [OF assms(1,2)] by blast
qed

end
