(* ===== verification/Fiber_Currency.thy ===== *)
theory Fiber_Currency
  imports Fiber_Laws
begin

text \<open>
  What a drive that ends in \<open>Active\<close> has established about the providers, and that a drive in a quiet
  environment returns.
\<close>

subsection \<open>A publication does not change what its own requirements resolve to\<close>

lemma no_self_dependency:
  assumes "constructible (snd (graph_insert d g))"
  shows "cd_id d \<notin> set (map dep_id (bs_list (cd_dependencies d)))"
proof
  assume "cd_id d \<in> set (map dep_id (bs_list (cd_dependencies d)))"
  then have "cd_id d \<in> set (requirements (snd (graph_insert d g)) (cd_id d))"
    by (simp add: requirements_def graph_insert_def)
  then have "(cd_id d, cd_id d) \<in> succ_rel (requirements (snd (graph_insert d g)))"
    by (simp add: succ_rel_def)
  with assms show False unfolding constructible_def acyclic_def by blast
qed

lemma context_get_entry_write:
  "is_open w s \<Longrightarrow> j \<noteq> i \<Longrightarrow> context_get (entry_write s i e w) c j = context_get w c j"
proof (induction w c j rule: context_get.induct)
  case (1 w t isos ics j)
  then show ?case by (auto simp: has_local_def has_local_entry_def scope_get_entry_write)
next
  case (2 w t p isos ics j)
  then show ?case by (auto simp: has_local_def has_local_entry_def scope_get_entry_write)
qed

lemma context_resolve_cong:
  "(\<And>j. j \<in> set (map dep_id ds) \<Longrightarrow> context_get w' c j = context_get w c j) \<Longrightarrow>
   context_resolve_each w' c i ds = context_resolve_each w c i ds"
  by (induction ds) (auto split: option.split)

lemma provide_value_Ok:
  assumes "provide_value s d snapshot v w = (Ok h, w')"
  obtains g counter e where "admissible w s d New snapshot g"
    "h = entry_handle e" "ce_definition e = d" "w' = entry_write s (cd_id d) e (w\<lparr>sw_next_entry_id := counter\<rparr>)"
proof -
  from assms have "publish_preconstructed s d New snapshot v w = (Ok h, w')"
    by (auto simp: provide_value_def split: res.splits)
  then show thesis by (elim publishedE) (rule that)
qed

lemma context_get_counter [simp]: "context_get (w\<lparr>sw_next_entry_id := n\<rparr>) c j = context_get w c j"
proof -
  have "scope_get (w\<lparr>sw_next_entry_id := n\<rparr>) s j = scope_get w s j" for s
    by (rule scope_get_cong) (simp add: same_view_def)
  then show ?thesis
    by (induction w c j rule: context_get.induct) (simp_all add: has_local_def has_local_entry_def)
qed

lemma provide_value_effect:
  assumes "provide_value s d snapshot v w = (Ok h, w')"
  shows "context_resolve_dependencies w' c d = context_resolve_dependencies w c d"
    "get_local w' s (cd_id d) = Some h"
proof -
  from assms obtain g counter e where p: "admissible w s d New snapshot g" "h = entry_handle e"
    "ce_definition e = d" "w' = entry_write s (cd_id d) e (w\<lparr>sw_next_entry_id := counter\<rparr>)"
    by (rule provide_value_Ok)
  from p(1) have adm: "is_open w s" "constructible (snd (graph_insert d (visible_graph w s)))"
    by (simp_all add: admissible_def)
  have "is_open (w\<lparr>sw_next_entry_id := counter\<rparr>) s" using adm(1) by simp
  with p(4) show "get_local w' s (cd_id d) = Some h" by (simp add: get_local_def p(2))
  show "context_resolve_dependencies w' c d = context_resolve_dependencies w c d"
    unfolding context_resolve_dependencies_def
  proof (rule context_resolve_cong)
    fix j assume "j \<in> set (map dep_id (bs_list (cd_dependencies d)))"
    with no_self_dependency [OF adm(2)] have "j \<noteq> cd_id d" by blast
    then show "context_get w' c j = context_get w c j"
      using context_get_entry_write [OF \<open>is_open (w\<lparr>sw_next_entry_id := counter\<rparr>) s\<close>] by (simp add: p(4))
  qed
qed

subsection \<open>An active fiber is loaded for what it sees\<close>

text \<open>
  The fiber is pinned to what its context resolves to, and its publication is the one it had before or
  the entry of its scope.
\<close>

definition current_for ::
  "fiber_id \<Rightarrow> 'v capability_handle option \<Rightarrow> ('d, 'v, 'f) semantic_world \<Rightarrow> bool" where
  "current_for f h w \<longleftrightarrow>
     current_binding w f \<noteq> None \<and> fiber_binding w f = current_binding w f \<and>
     (fb_handle (fiber_at w f) = h \<or>
      get_local (sm_scopes w) (cx_scope (fb_context (fiber_at w f))) (cd_id (fiber_capability w f)) =
        fb_handle (fiber_at w f))"

lemma load_publish_current:
  assumes "load_publish call f dependencies effects v w = Some (Ok (Stable s), w')"
    "current_binding w f = Some (binding_of dependencies)"
  shows "current_for f h w'"
proof -
  obtain q sc where q: "provide_value (cx_scope (fb_context (fiber_at w f))) (fiber_capability w f)
      dependencies v (sm_scopes w) = (q, sc)" by fastforce
  have "q \<noteq> Err e" for e
    using assms(1) q by (cases e) (auto simp: load_publish_def with_errors_Some)
  moreover have "q \<noteq> Panic" using assms(1) q by (auto simp: load_publish_def)
  ultimately obtain p where p: "q = Ok p" by (cases q) auto
  note effect = provide_value_effect [OF q [unfolded p]]
  from assms(1) q p have w': "sm_scopes w' = sc"
    "fiber_at w' f = (fiber_at w f)\<lparr>fb_handle := Some p,
       fb_dependency_epoch := Some (epoch_of (fb_requested_epoch (fiber_at w f)) dependencies),
       fb_loading_binding := None, fb_state := fiber_state_as_raw FiberActive\<rparr>"
    by (auto simp: load_publish_def Let_def fiber_setters)
  have "current_binding w' f = current_binding w f"
    unfolding current_binding_def resolve_fiber_def fiber_capability_def w'
    using effect(1) by (simp add: fiber_capability_def)
  moreover have "fiber_binding w' f = Some (binding_of dependencies)"
    by (simp add: fiber_binding_def w' epoch_of_def)
  moreover have "get_local (sm_scopes w') (cx_scope (fb_context (fiber_at w' f))) (cd_id (fiber_capability w' f)) =
      fb_handle (fiber_at w' f)"
    using effect(2) by (simp add: w' fiber_capability_def)
  ultimately show ?thesis using assms(2) by (simp add: current_for_def)
qed

lemma drive_iteration_current:
  assumes "drive_iteration factory call f force w = Some (Ok (Stable FiberActive), w')"
  shows "current_for f (fb_handle (fiber_at w f)) w'"
proof (cases "resolve_fiber w f")
  case (Ok dependencies)
  let ?epoch = "epoch_of (fb_requested_epoch (fiber_at w f)) dependencies"
  let ?matches = "\<not> force \<and> fiber_state w f = FiberActive \<and> fiber_binding w f = Some (de_binding ?epoch)"
  show ?thesis
  proof (cases ?matches)
    case True
    with assms Ok have w': "w' = fiber_update f (\<lambda>x. x\<lparr>fb_dependency_epoch := Some ?epoch\<rparr>) w"
      by (auto simp: drive_iteration_def Let_def)
    have "resolve_fiber w' f = Ok dependencies" using Ok by (simp add: w' resolve_fiber_def fiber_capability_def)
    then show ?thesis by (simp add: current_for_def current_binding_def fiber_binding_def w' epoch_of_def)
  next
    case False
    with assms Ok have "load_attempt factory call f ?epoch dependencies w = Some (Ok (Stable FiberActive), w')"
      by (auto simp: drive_iteration_def Let_def with_errors_Some split: if_splits)
    then obtain lc w1 result w2 where l: "load_begin f ?epoch dependencies w = (lc, w1)"
      "load_settle call f ?epoch dependencies (lc_effects lc) result w2 = Some (Ok (Stable FiberActive), w')"
      by (auto simp: load_attempt_def split: prod.splits)
    then obtain v where "load_publish call f dependencies (lc_effects lc) v w2 = Some (Ok (Stable FiberActive), w')"
      "\<not> load_is_stale f ?epoch w2"
      by (cases result) (auto simp: load_settle_def Let_def with_errors_Some split: if_splits)
    then show ?thesis by (intro load_publish_current) (auto simp: load_is_stale_def epoch_of_def)
  qed
next
  case (Err e)
  then obtain i j where "e = ScopeMissingDependency i j" using resolve_fiber_Err by blast
  with assms Err show ?thesis by (auto simp: drive_iteration_def bind_eq_Some_conv split: if_splits)
next
  case Panic
  with assms show ?thesis by (simp add: drive_iteration_def)
qed

lemma drive_loop_current:
  assumes call: "respects_lock_call f call" and factory: "respects_lock_factory f factory"
    and w: "fiber_ok f w" "fiber_state w f \<noteq> FiberDisposed"
    and run: "drive_loop factory call f force w = Some (Ok FiberActive, w')"
  shows "current_for f (fb_handle (fiber_at w f)) w'"
proof -
  from run have "fiber_ok f w \<longrightarrow> fiber_state w f \<noteq> FiberDisposed \<longrightarrow>
      current_for f (fb_handle (fiber_at w f)) w' \<and> fb_handle (fiber_at w' f) \<noteq> None"
  proof (induction rule: drive_loop_induct)
    case (final w)
    then have last: "drive_iteration factory call f force w = Some (Ok (Stable FiberActive), w')" by simp
    show ?case
      using drive_iteration_current [OF last] drive_iteration_post [OF call factory _ _ last] fiber_okD(5) [of f w']
      by (auto simp: drive_post_def)
  next
    case (again w v)
    show ?case
    proof (intro impI)
      assume "fiber_ok f w" "fiber_state w f \<noteq> FiberDisposed"
      with drive_iteration_post [OF call factory _ _ again(1)]
      have v: "fiber_ok f v" "fiber_state v f = FiberPending" by (simp_all add: drive_post_def)
      moreover have "fb_handle (fiber_at v f) = None" using fiber_okD(5) [OF v(1)] v(2) by auto
      ultimately show "current_for f (fb_handle (fiber_at w f)) w' \<and> fb_handle (fiber_at w' f) \<noteq> None"
        using again(2) by (auto simp: current_for_def)
    qed
  qed
  with w show ?thesis by blast
qed

lemma drive_current:
  assumes "respects_lock_call f call" "respects_lock_factory f factory" "fiber_ok f w"
    "drive factory call f force w = Some (Ok FiberActive, w')"
  shows "current_for f (fb_handle (fiber_at w f)) w'"
  using assms(4,3)
proof (cases rule: driveE)
  case looped
  from drive_loop_current [OF assms(1,2) looped(3,2,4)] show ?thesis
    by (simp add: drive_ready_def fiber_setters split: if_splits)
qed simp

subsection \<open>Contexts follow the scopes\<close>

lemma aligned_same_provider:
  "aligned c \<Longrightarrow> context_get w c j = Some x \<Longrightarrow> scope_get w (cx_scope c) j = Some y \<Longrightarrow> x = y"
proof (induction w c j rule: context_get.induct)
  case (1 w s isos ics j)
  then show ?case by (auto split: if_splits)
next
  case (2 w s p isos ics j)
  show ?case
  proof (cases "has_local w s j")
    case True
    with 2(3,4) show ?thesis by simp
  next
    case False
    from 2(2) obtain k where s: "s = Child (cx_scope p) k" by (cases s) (auto simp: scope_parent_def)
    from False 2(3) have "\<not> j |\<in>| isos" "context_get w p j = Some x" by (auto split: if_splits)
    moreover from False 2(4) s have "scope_get w (cx_scope p) j = Some y"
      by (auto simp: has_local_def has_local_entry_def split: if_splits)
    ultimately show ?thesis using 2(1) [OF False] 2(2) by simp
  qed
qed

text \<open>So the check of a publication never finds a provider other than the one resolved just before.\<close>

lemma check_current_Err_changed:
  "check_current w s i ds snapshot = Err (DependencyChanged a b) \<Longrightarrow>
   \<exists>d x c. d \<in> set ds \<and> deps_get snapshot (dep_id d) = Some x \<and> scope_get w s (dep_id d) = Some c \<and>
     (h_generation c \<noteq> h_generation x \<or> h_entry_id c \<noteq> h_entry_id x)"
  by (induction ds) (auto split: option.splits if_splits)

lemma check_snapshot_Err_changed:
  "check_snapshot i ds snapshot current = Err (DependencyChanged a b) \<Longrightarrow>
   \<exists>d x c. d \<in> set ds \<and> deps_get snapshot (dep_id d) = Some x \<and> deps_get current (dep_id d) = Some c \<and>
     (h_generation c \<noteq> h_generation x \<or> h_entry_id c \<noteq> h_entry_id x)"
  by (induction ds) (auto split: option.splits if_splits)

lemma scope_error_from_not_changed:
  "scope_error_from e \<noteq> DependencyChanged a b" "DependencyChanged a b \<noteq> scope_error_from e"
  by (cases e; simp)+

lemma admit_each_not_changed: "admit_each w s d cs \<noteq> Err (DependencyChanged a b)"
  by (induction cs) (auto simp: scope_error_from_not_changed map_err_eq_Err elim!: res_bind.elims)

lemma resolve_each_not_changed: "resolve_each w s i ds \<noteq> Err (DependencyChanged a b)"
  by (induction ds) (auto split: option.splits elim!: res_bind.elims)

lemma admit_publication_changed:
  assumes "admit_publication w s d x snapshot = Err (DependencyChanged a b)"
  obtains current where "resolve_dependencies w s d = Ok current"
    "check_snapshot (cd_id d) (bs_list (cd_dependencies d)) snapshot current = Err (DependencyChanged a b)"
proof -
  have "check_expectation_locked w s (cd_id d) x es \<noteq> Err (DependencyChanged a b)" for es
    by (auto simp: check_expectation_locked_def split: lifecycle.splits publish_expectation.splits option.splits)
  moreover have "publication_generation es d x \<noteq> Err (DependencyChanged a b)" for es
    by (auto simp: publication_generation_def ok_or_def split: publish_expectation.splits option.splits)
  ultimately show thesis
    using assms that admit_each_not_changed [of w s d "live_descendants w s" a b]
      resolve_each_not_changed [of w s "cd_id d" "bs_list (cd_dependencies d)" a b]
    by (auto simp: admit_publication_def Let_def resolve_dependencies_def validate_descendant_admission_def
        map_err_eq_Err scope_error_from_not_changed res_bind_eq_Err)
qed

lemma resolved_by_context:
  "context_resolve_dependencies w c d = Ok hs \<longleftrightarrow>
   map fst hs = map dep_id (bs_list (cd_dependencies d)) \<and> (\<forall>(j, h) \<in> set hs. context_get w c j = Some h)"
  by (simp add: context_resolve_dependencies_def context_view.resolved_exactly)

lemma provide_value_not_changed:
  assumes "aligned c" "context_resolve_dependencies w c d = Ok hs"
  shows "fst (provide_value (cx_scope c) d hs v w) \<noteq> Err (DependencyChanged a b)"
proof
  assume err: "fst (provide_value (cx_scope c) d hs v w) = Err (DependencyChanged a b)"
  have same: "x = y" if "deps_get hs (dep_id e) = Some x" "scope_get w (cx_scope c) (dep_id e) = Some y" for e x y
  proof -
    have "(dep_id e, x) \<in> set hs" using that(1) by (simp add: deps_get_def map_of_SomeD)
    with assms(2) have "context_get w c (dep_id e) = Some x" by (auto simp: resolved_by_context)
    with aligned_same_provider [OF assms(1)] that(2) show ?thesis by blast
  qed
  from err consider "check_current w (cx_scope c) (cd_id d) (bs_list (cd_dependencies d)) hs = Err (DependencyChanged a b)"
    | "admit_publication w (cx_scope c) d New hs = Err (DependencyChanged a b)"
    by (auto simp: provide_value_def publish_preconstructed_def Let_def split: res.splits option.splits)
  then show False
  proof cases
    case 1
    from check_current_Err_changed [OF this] same show False by blast
  next
    case 2
    then obtain current where current: "resolve_dependencies w (cx_scope c) d = Ok current"
      "check_snapshot (cd_id d) (bs_list (cd_dependencies d)) hs current = Err (DependencyChanged a b)"
      by (rule admit_publication_changed)
    from check_snapshot_Err_changed [OF current(2)] obtain e x y where
      e: "e \<in> set (bs_list (cd_dependencies d))" "deps_get hs (dep_id e) = Some x"
        "deps_get current (dep_id e) = Some y" "h_generation y \<noteq> h_generation x \<or> h_entry_id y \<noteq> h_entry_id x" by blast
    from e(1) have "Dependency (dep_id e) |\<in>| cd_dependencies d" by simp
    from resolved_get [OF current(1) this] e(3) have "scope_get w (cx_scope c) (dep_id e) = Some y" by simp
    with same [OF e(2)] e(4) show False by blast
  qed
qed

subsection \<open>In a quiet environment a drive returns\<close>

text \<open>Foreign code that returns, and changes neither the scopes nor a fiber.\<close>

definition quiet_call :: "('d, 'v, 'f) disposer_call \<Rightarrow> bool" where
  "quiet_call call \<longleftrightarrow> quiet_disposer call \<and>
     (\<forall>d w. sm_scopes (snd (call d w)) = sm_scopes w \<and> sm_fibers (snd (call d w)) = sm_fibers w)"

definition quiet_factory :: "('d, 'v, 'f) factory_call \<Rightarrow> bool" where
  "quiet_factory factory \<longleftrightarrow>
     (\<forall>k lc w. fst (factory k lc w) \<noteq> Panic \<and> sm_scopes (snd (factory k lc w)) = sm_scopes w \<and>
        sm_fibers (snd (factory k lc w)) = sm_fibers w)"

lemma dispose_forest_quiet:
  "quiet_call call \<Longrightarrow> sm_scopes (snd (dispose_tree call t w)) = sm_scopes w \<and>
     sm_fibers (snd (dispose_tree call t w)) = sm_fibers w"
  "quiet_call call \<Longrightarrow> sm_scopes (snd (dispose_forest call ts w)) = sm_scopes w \<and>
     sm_fibers (snd (dispose_forest call ts w)) = sm_fibers w"
proof (induction call t w and call ts w rule: dispose_tree_dispose_forest.induct)
  case (1 call l d w)
  then show ?case by (simp add: quiet_call_def split_beta)
next
  case (2 call l s ts w)
  then show ?case by (simp add: split_beta shut_def)
next
  case (3 call w)
  then show ?case by simp
next
  case (4 call t ts w)
  obtain errors v where v: "dispose_forest call ts w = (errors, v)" by fastforce
  from 4 v show ?case by (simp add: split_beta)
qed

lemma quiet_dispose:
  assumes "quiet_call call" "heap_ok w"
  obtains errors w' where "effect_dispose_all call s w = Some (Ok errors, w')"
    "sm_scopes w' = sm_scopes w" "sm_fibers w' = sm_fibers w"
proof -
  from assms(1) have "quiet_disposer call" by (simp add: quiet_call_def)
  from dispose_all_forest [OF assms(2) this] obtain ts where
    "effect_dispose_all call s w =
       (case dispose_forest call ts (shut s w) of (errors, w') \<Rightarrow> Some (Ok errors, w'))" by blast
  with dispose_forest_quiet(2) [OF assms(1), of ts "shut s w"] that show thesis
    by (simp add: split_beta shut_def)
qed

lemma fiber_at_cong: "sm_fibers w' = sm_fibers w \<Longrightarrow> fiber_at w' f = fiber_at w f"
  by (simp add: fiber_at_def)

lemma quiet_unload:
  assumes "quiet_call call" "in_place f w"
  shows "\<exists>r w'. unload call f detached w = Some (r, w') \<and>
    fb_force_reload (fiber_at w' f) = fb_force_reload (fiber_at w f)"
proof -
  have "heap_ok (set_state f FiberUnloading w)" using assms(2) by (simp add: in_place_def set_state_def)
  from quiet_dispose [OF assms(1) this] obtain errors v where
    v: "effect_dispose_all call (fb_effects (fiber_at w f)) (set_state f FiberUnloading w) = Some (Ok errors, v)"
      "sm_fibers v = sm_fibers (set_state f FiberUnloading w)" by metis
  have flag: "fb_force_reload (fiber_at v f) = fb_force_reload (fiber_at w f)"
    using fiber_at_cong [OF v(2), of f] by (simp add: set_state_def)
  have finish: "fb_force_reload (fiber_at (unload_finish f u) f) = fb_force_reload (fiber_at u f)" for u
    by (cases "effect_scope_new (fiber_update f (\<lambda>x. x\<lparr>fb_dependency_epoch := None, fb_loading_binding := None\<rparr>) u)")
      (auto simp: unload_finish_def set_state_def effect_scope_new_world(3))
  obtain r u where u: "unload_release f detached errors v = (r, u)" by fastforce
  then have "fb_force_reload (fiber_at u f) = fb_force_reload (fiber_at v f)"
    by (auto simp: unload_release_def Let_def finish set_state_def
        split: option.splits res.splits prod.splits if_splits)
  with u flag v(1) show ?thesis by (simp add: unload_def with_errors_def)
qed

lemma quiet_settle:
  assumes "quiet_call call" "loading f effects w" "result \<noteq> Panic" "aligned (fb_context (fiber_at w f))"
    and resolved: "resolve_fiber w f = Ok dependencies"
    and flags: "\<not> fb_dispose_requested (fiber_at w f)" "\<not> fb_force_reload (fiber_at w f)"
  shows "\<exists>q v. load_settle call f (epoch_of token dependencies) dependencies effects result w = Some (q, v) \<and>
    q \<noteq> Ok Again"
proof -
  have fresh: "\<not> load_is_stale f (epoch_of token dependencies) w"
    using flags resolved by (simp add: load_is_stale_def current_binding_def epoch_of_def)
  have ok: "heap_ok w" "heap_ok (w\<lparr>sm_scopes := sc\<rparr>)" for sc
    using assms(2) by (auto simp: loading_def in_place_def)
  show ?thesis
  proof (cases result)
    case (Ok v)
    obtain q sc where q: "provide_value (cx_scope (fb_context (fiber_at w f))) (fiber_capability w f)
        dependencies v (sm_scopes w) = (q, sc)" by fastforce
    show ?thesis
    proof (cases q)
      case (Err e)
      have "e \<noteq> DependencyChanged a b" for a b
        using provide_value_not_changed [OF assms(4) resolved [unfolded resolve_fiber_def], of v a b] q Err by auto
      moreover obtain errors u where "effect_dispose_all call effects (w\<lparr>sm_scopes := sc\<rparr>) = Some (Ok errors, u)"
        using quiet_dispose [OF assms(1) ok(2)] by metis
      ultimately show ?thesis
        using Ok Err q fresh
        by (cases e) (auto simp: load_settle_def Let_def load_publish_def with_errors_def)
    qed (use Ok q fresh in \<open>simp_all add: load_settle_def Let_def load_publish_def\<close>)
  next
    case (Err reason)
    obtain errors u where "effect_dispose_all call effects w = Some (Ok errors, u)"
      using quiet_dispose [OF assms(1) ok(1)] by metis
    with Err fresh show ?thesis by (simp add: load_settle_def Let_def with_errors_def)
  qed (use assms(3) in simp)
qed

lemma quiet_iteration:
  assumes quiet: "quiet_call call" "quiet_factory factory" "respects_lock_factory f factory"
    and w: "fiber_ok f w" "aligned (fb_context (fiber_at w f))" "\<not> fb_force_reload (fiber_at w f)"
  shows "\<exists>q v. drive_iteration factory call f force w = Some (q, v) \<and>
    (q = Ok Again \<longrightarrow> \<not> fb_force_reload (fiber_at v f) \<and> fiber_state w f \<in> {FiberActive, FiberFailed})"
proof (cases "resolve_fiber w f")
  case (Ok dependencies)
  let ?epoch = "epoch_of (fb_requested_epoch (fiber_at w f)) dependencies"
  let ?matches = "\<not> force \<and> fiber_state w f = FiberActive \<and> fiber_binding w f = Some (de_binding ?epoch)"
  let ?loaded = "fiber_state w f = FiberActive \<or> fiber_state w f = FiberFailed"
  consider (matches) ?matches | (loaded) "\<not> ?matches" ?loaded
    | (asked) "\<not> ?matches" "\<not> ?loaded" "fb_dispose_requested (fiber_at w f)"
    | (load) "\<not> ?matches" "\<not> ?loaded" "\<not> fb_dispose_requested (fiber_at w f)" by blast
  then show ?thesis
  proof cases
    case matches
    with Ok show ?thesis by (simp add: drive_iteration_def Let_def)
  next
    case loaded
    obtain r v where v: "unload call f None w = Some (r, v)" "fb_force_reload (fiber_at v f) = fb_force_reload (fiber_at w f)"
      using quiet_unload [OF quiet(1) fiber_okD(1) [OF w(1)]] by blast
    have "drive_iteration factory call f force w = with_errors (unload call f None w) (\<lambda>errors w'.
        let w1 = set_cleanup_errors f errors w'
        in if fb_dispose_requested (fiber_at w1 f) then Some (Err FiberIsDisposed, w1) else Some (Ok Again, w1))"
      using loaded Ok by (auto simp: drive_iteration_def Let_def)
    with v w(3) loaded(2) show ?thesis
      by (cases r) (simp_all add: with_errors_def Let_def set_cleanup_errors_def)
  next
    case asked
    with Ok show ?thesis by (auto simp: drive_iteration_def Let_def)
  next
    case load
    with w(1) have vacant: "vacant (fiber_at w f)"
      by (auto simp: fiber_ok_def Let_def split: fiber_state.splits)
    obtain lc w1 where b: "load_begin f ?epoch dependencies w = (lc, w1)" by fastforce
    note l = load_begin_loading [OF fiber_okD(1) [OF w(1)] vacant b]
    obtain q w2 where q: "factory (pd_factory (fb_definition (fiber_at w1 f))) lc w1 = (q, w2)" by fastforce
    from quiet(2) q have w2: "q \<noteq> Panic" "sm_scopes w2 = sm_scopes w1" "sm_fibers w2 = sm_fibers w1"
      unfolding quiet_factory_def by (metis fst_conv, metis snd_conv, metis snd_conv)
    note same = fiber_at_cong [OF w2(3), of f]
    have "loading f (lc_effects lc) w2"
      using quiet(3) q l unfolding respects_lock_factory_def by (metis loading_keeps snd_conv)
    moreover have "resolve_fiber w2 f = Ok dependencies"
      using Ok l w2 same by (simp add: resolve_fiber_def fiber_capability_def same_plugin_def)
    ultimately have "\<exists>r v. load_settle call f ?epoch dependencies (lc_effects lc) q w2 = Some (r, v) \<and> r \<noteq> Ok Again"
      using w l load same w2(1) by (intro quiet_settle [OF quiet(1)]) (auto simp: same_plugin_def)
    moreover have "drive_iteration factory call f force w =
        load_settle call f ?epoch dependencies (lc_effects lc) q w2"
      using load Ok b q by (auto simp: drive_iteration_def Let_def load_attempt_def)
    ultimately show ?thesis by auto
  qed
next
  case (Err e)
  then obtain i j where e: "e = ScopeMissingDependency i j" using resolve_fiber_Err by blast
  obtain r v where "unload call f None w = Some (r, v)"
    using quiet_unload [OF quiet(1) fiber_okD(1) [OF w(1)]] by blast
  then have "\<exists>p u. clear_active_state call f w = Some (p, u)"
    by (cases r) (auto simp: clear_active_state_def with_errors_def)
  with Err e show ?thesis by (auto simp: drive_iteration_def)
next
  case Panic
  then show ?thesis by (simp add: drive_iteration_def)
qed

text \<open>The iterations of a drive, counted: all but the last go around again.\<close>

inductive drive_takes ::
  "('d, 'v, 'f) factory_call \<Rightarrow> ('d, 'v, 'f) disposer_call \<Rightarrow> fiber_id \<Rightarrow> bool \<Rightarrow>
   (fiber_state, fiber_error) res \<Rightarrow> ('d, 'v, 'f) semantic_world \<Rightarrow> ('d, 'v, 'f) semantic_world \<Rightarrow> nat \<Rightarrow> bool"
  for factory call f force r w' where
  stop: "drive_iteration factory call f force w = Some (last_flow r, w') \<Longrightarrow> drive_takes factory call f force r w' w 1"
| again: "drive_iteration factory call f force w = Some (Ok Again, v) \<Longrightarrow>
    drive_takes factory call f force r w' v n \<Longrightarrow> drive_takes factory call f force r w' w (Suc n)"

lemma last_flow_surj:
  assumes "q \<noteq> Ok Again"
  obtains r where "q = last_flow r"
proof (cases q)
  case (Ok flow)
  with assms that [of "Ok s" for s] show thesis by (cases flow) simp_all
qed (use that [of "Err e" for e] that [of Panic] in simp_all)

lemma drive_takes_loop: "drive_takes factory call f force r w' w n \<Longrightarrow> drive_loop factory call f force w = Some (r, w')"
proof (induction rule: drive_takes.induct)
  case (stop w)
  then show ?case by (subst drive_loop.simps) (simp add: last_flow_def split: res.splits)
next
  case (again w v n)
  then show ?case by (subst drive_loop.simps) simp
qed

lemma drive_loop_takes:
  "drive_loop factory call f force w = Some (r, w') \<Longrightarrow> \<exists>n. drive_takes factory call f force r w' w n"
  by (induction rule: drive_loop_induct) (blast intro: drive_takes.intros)+

text \<open>At most two iterations: one that unloads, one that loads.\<close>

abbreviation drive_refused :: "fiber_id \<Rightarrow> bool \<Rightarrow> ('d, 'v, 'f) semantic_world \<Rightarrow> bool" where
  "drive_refused f force w \<equiv> fb_dispose_requested (fiber_at w f) \<or> \<not> force \<and> fiber_state w f = FiberFailed"

lemma drive_rounds:
  "drive factory call f force w =
     (if drive_refused f force w then drive factory call f force w
      else drive_loop factory call f (force \<or> fb_force_reload (fiber_at w f)) (drive_ready f w))"
  unfolding drive_def [of factory call f force w] Let_def drive_ready_def [symmetric] by simp

lemma drive_refusal: "drive_refused f force w \<Longrightarrow> \<exists>e. drive factory call f force w = Some (Err e, w)"
  by (auto simp: drive_def)

lemma quiet_loop_rounds:
  assumes quiet: "quiet_call call" "quiet_factory factory" "respects_lock_factory f factory" "respects_lock_call f call"
    and u: "fiber_ok f u" "aligned (fb_context (fiber_at u f))" "\<not> fb_force_reload (fiber_at u f)"
      "fiber_state u f \<noteq> FiberDisposed"
  shows "\<exists>r w' n. drive_takes factory call f force r w' u n \<and>
    (n = 1 \<or> n = 2 \<and> fiber_state u f \<in> {FiberActive, FiberFailed})"
proof -
  obtain q v where q: "drive_iteration factory call f force u = Some (q, v)"
    "q = Ok Again \<Longrightarrow> \<not> fb_force_reload (fiber_at v f) \<and> fiber_state u f \<in> {FiberActive, FiberFailed}"
    using quiet_iteration [OF quiet(1-3) u(1-3)] by blast
  show ?thesis
  proof (cases "q = Ok Again")
    case True
    with drive_iteration_post [OF quiet(4,3) u(1,4) q(1)]
    have v: "fiber_ok f v" "fiber_state v f = FiberPending" "same_plugin f u v" by (simp_all add: drive_post_def)
    then have "aligned (fb_context (fiber_at v f))" using u(2) by (simp add: same_plugin_def)
    from quiet_iteration [OF quiet(1-3) v(1) this, where force = force] q(2) [OF True] v(2)
    obtain p x where p: "drive_iteration factory call f force v = Some (p, x)" "p \<noteq> Ok Again" by auto
    from last_flow_surj [OF p(2)] obtain r where "p = last_flow r" .
    with p(1) q True have "drive_takes factory call f force r x u (Suc 1)"
      by (blast intro: drive_takes.intros)
    with q(2) [OF True] show ?thesis by (metis Suc_1)
  next
    case False
    from last_flow_surj [OF this] obtain r where "q = last_flow r" .
    with q(1) have "drive_takes factory call f force r v u 1" by (blast intro: drive_takes.intros)
    then show ?thesis by blast
  qed
qed

lemma quiet_drive_rounds:
  assumes quiet: "quiet_call call" "quiet_factory factory" "respects_lock_factory f factory" "respects_lock_call f call"
    and w: "fiber_ok f w" "aligned (fb_context (fiber_at w f))"
  shows "\<exists>r w'. drive factory call f force w = Some (r, w') \<and>
    (if drive_refused f force w then w' = w \<and> (\<exists>e. r = Err e)
     else \<exists>n. drive_takes factory call f (force \<or> fb_force_reload (fiber_at w f)) r w' (drive_ready f w) n \<and>
       (n = 1 \<or> n = 2 \<and> fiber_state w f \<in> {FiberActive, FiberFailed}))"
proof (cases "drive_refused f force w")
  case True
  then obtain e where "drive factory call f force w = Some (Err e, w)" using drive_refusal by blast
  with True show ?thesis by simp
next
  case False
  note ready = drive_ready_fiber [OF w(1)]
  have "aligned (fb_context (fiber_at (drive_ready f w) f))" "\<not> fb_force_reload (fiber_at (drive_ready f w) f)"
    using w(2) by (auto simp: drive_ready_def fiber_setters)
  moreover have "fiber_state (drive_ready f w) f \<noteq> FiberDisposed"
    using False ready(2) fiber_okD(4) [OF w(1)] by metis
  ultimately obtain r w' n where
    n: "drive_takes factory call f (force \<or> fb_force_reload (fiber_at w f)) r w' (drive_ready f w) n"
    "n = 1 \<or> n = 2 \<and> fiber_state w f \<in> {FiberActive, FiberFailed}"
    using quiet_loop_rounds [OF quiet ready(1), of "force \<or> fb_force_reload (fiber_at w f)"] unfolding ready(2) by blast
  from drive_takes_loop [OF n(1)] have "drive factory call f force w = Some (r, w')"
    using drive_rounds [of factory call f force w] False by argo
  with n False show ?thesis by auto
qed

lemma quiet_drive_returns:
  assumes "quiet_call call" "quiet_factory factory" "respects_lock_factory f factory" "respects_lock_call f call"
    and "fiber_ok f w" "aligned (fb_context (fiber_at w f))"
  shows "\<exists>r w'. drive factory call f force w = Some (r, w')"
  using quiet_drive_rounds [OF assms] by blast

end
