(* ===== verification/Reactive_Laws.thy ===== *)
theory Reactive_Laws
  imports Reactive_Runtime Fiber_Currency
begin

text \<open>
  What a withdrawal reaches and in which order: the closure as an inductive set, the depth of a fiber
  and the order by it, and the effect of the withdrawal on the fibers it drives and on the others.
\<close>

subsection \<open>Identities and bindings\<close>

lemma provider_identities_Some:
  assumes "fmlookup (provider_identities w fs) i = Some f"
  shows "f \<in> set fs \<and> (\<exists>h. fb_handle (fiber_at w f) = Some h \<and> identity_of_handle h = i)"
proof -
  have "fmlookup m i = Some f \<or> f \<in> set fs \<and> (\<exists>h. fb_handle (fiber_at w f) = Some h \<and> identity_of_handle h = i)"
    if "fmlookup (fold (\<lambda>f m. case fb_handle (fiber_at w f) of
        Some h \<Rightarrow> fmupd (identity_of_handle h) f m | None \<Rightarrow> m) fs m) i = Some f" for m
    using that
  proof (induction fs arbitrary: m)
    case (Cons g gs)
    from Cons.IH [of "case fb_handle (fiber_at w g) of Some h \<Rightarrow> fmupd (identity_of_handle h) g m | None \<Rightarrow> m"] Cons.prems
    show ?case by (auto split: option.splits if_splits)
  qed simp
  from this [of fmempty] assms show ?thesis by (simp add: provider_identities_def)
qed

lemma set_binding_iter: "(i, p) \<in> set (binding_iter b) \<longleftrightarrow> fmlookup (db_pins b) i = Some p"
  by (force simp: binding_iter_def fmlookup_dom_iff)

lemma set_binding_providers:
  "f \<in> set (binding_providers identities b) \<longleftrightarrow>
     (\<exists>i p. fmlookup (db_pins b) i = Some p \<and> fmlookup identities (identity_of_pin i p) = Some f)"
proof -
  have "f \<in> set (binding_providers identities b) \<longleftrightarrow>
      (\<exists>i p. (i, p) \<in> set (binding_iter b) \<and> fmlookup identities (identity_of_pin i p) = Some f)"
    by (force simp: binding_providers_def List.map_filter_def)
  then show ?thesis by (simp add: set_binding_iter)
qed

lemma binding_contains_iff:
  "binding_contains b target \<longleftrightarrow> (\<exists>i p. fmlookup (db_pins b) i = Some p \<and> identity_of_pin i p = target)"
  by (simp add: binding_contains_def list_ex_iff split_beta flip: set_binding_iter) force

subsection \<open>The closure\<close>

text \<open>The fibers that a withdrawal has to quiesce: those that published the retired entry or are bound
  to it, and those bound to what such a fiber publishes.\<close>

inductive affected ::
  "('d, 'v, 'f) semantic_world \<Rightarrow> fiber_id list \<Rightarrow> 'v capability_handle \<Rightarrow>
   (provider_identity, fiber_id) fmap \<Rightarrow> fiber_id \<Rightarrow> bool"
  for w fs retired identities where
  direct: "f \<in> set fs \<Longrightarrow> directly_affected w retired f \<Longrightarrow> affected w fs retired identities f"
| through: "affected w fs retired identities p \<Longrightarrow> f \<in> set fs \<Longrightarrow> fiber_dependency_binding w f = Some b \<Longrightarrow>
    p \<in> set (binding_providers identities b) \<Longrightarrow> affected w fs retired identities f"

lemma depends_on_affected_iff:
  "depends_on_affected w identities A f \<longleftrightarrow>
     (\<exists>b p. fiber_dependency_binding w f = Some b \<and> p \<in> set (binding_providers identities b) \<and> p |\<in>| A)"
  by (auto simp: depends_on_affected_def list_ex_iff split: option.splits)

lemma closure_pass_sound:
  assumes "closure_pass w identities gs A c = (B, c')" "set gs \<subseteq> set fs"
    "fset A \<subseteq> Collect (affected w fs retired identities)"
  shows "fset B \<subseteq> Collect (affected w fs retired identities)"
  using assms
proof (induction w identities gs A c rule: closure_pass.induct)
  case (2 w identities f gs A c)
  consider (old) "f |\<in>| A" | (new) "f |\<notin>| A" "depends_on_affected w identities A f"
    | (other) "f |\<notin>| A" "\<not> depends_on_affected w identities A f" by blast
  then show ?case
  proof cases
    case old
    from old 2(4) have "closure_pass w identities gs A c = (B, c')" by simp
    from 2(1) [OF old this] 2(5,6) show ?thesis by simp
  next
    case new
    from new 2(4) have pass: "closure_pass w identities gs (finsert f A) True = (B, c')" by simp
    from new(2) obtain b p where "fiber_dependency_binding w f = Some b" "p \<in> set (binding_providers identities b)"
      "p |\<in>| A" by (auto simp: depends_on_affected_iff)
    with 2(5,6) have "affected w fs retired identities f" by (auto intro: affected.through)
    with 2(2) [OF new pass] 2(5,6) show ?thesis by simp
  next
    case other
    from other 2(4) have "closure_pass w identities gs A c = (B, c')" by simp
    from 2(3) [OF other this] 2(5,6) show ?thesis by simp
  qed
qed simp

lemma closure_pass_unchanged:
  assumes "closure_pass w identities fs A False = (B, False)" "f \<in> set fs" "f |\<notin>| A"
  shows "\<not> depends_on_affected w identities A f"
proof -
  have "B = A" using closure_pass_changed [OF assms(1)] by simp
  from assms(1) [unfolded this] assms(2,3) show ?thesis
  proof (induction fs)
    case (Cons g gs)
    have rest: "closure_pass w identities gs A False = (A, False)"
    proof (cases "g |\<in>| A \<or> \<not> depends_on_affected w identities A g")
      case True
      with Cons.prems(1) show ?thesis by (simp split: if_splits)
    next
      case False
      with Cons.prems(1) have "closure_pass w identities gs (finsert g A) True = (A, False)" by simp
      from closure_pass_changed [OF this] show ?thesis by simp
    qed
    show ?case
    proof (cases "f = g")
      case True
      show ?thesis
      proof
        assume "depends_on_affected w identities A f"
        with True Cons.prems(1,3) have "closure_pass w identities gs (finsert f A) True = (A, False)" by simp
        from closure_pass_changed [OF this] show False by simp
      qed
    next
      case False
      with Cons rest show ?thesis by simp
    qed
  qed simp
qed

lemma closure_loop_exact:
  assumes "fset A \<subseteq> Collect (affected w fs retired identities)"
    "\<And>f. f \<in> set fs \<Longrightarrow> directly_affected w retired f \<Longrightarrow> f |\<in>| A"
  shows "fset (closure_loop w identities fs A) = Collect (affected w fs retired identities)"
  using assms
proof (induction w identities fs A rule: closure_loop.induct)
  case (1 w identities fs A)
  obtain B c where pass: "closure_pass w identities fs A False = (B, c)" by fastforce
  note grows = closure_pass_grows [OF pass]
  note sound = closure_pass_sound [OF pass _ 1(2)]
  show ?case
  proof (cases c)
    case True
    have "fset (closure_loop w identities fs B) = Collect (affected w fs retired identities)"
      using True sound grows 1(3) by (intro 1(1) [OF pass [symmetric]]) auto
    moreover have "closure_loop w identities fs A = closure_loop w identities fs B"
      using pass True by (subst closure_loop.simps) simp
    ultimately show ?thesis by simp
  next
    case False
    have "B = A" using closure_pass_changed [OF pass] False by simp
    have closed: "f |\<in>| A" if "affected w fs retired identities f" for f
      using that
    proof (induction rule: affected.induct)
      case (direct f)
      then show ?case by (rule 1(3))
    next
      case (through p f b)
      then have "depends_on_affected w identities A f" by (auto simp: depends_on_affected_iff)
      with closure_pass_unchanged [of w identities fs A B f] pass False through.hyps(2) show ?case by auto
    qed
    have "closure_loop w identities fs A = A"
      using pass False \<open>B = A\<close> by (subst closure_loop.simps) simp
    with closed 1(2) show ?thesis by auto
  qed
qed

lemma withdrawal_closure_exact:
  "f |\<in>| withdrawal_closure w fs retired identities \<longleftrightarrow> affected w fs retired identities f"
proof -
  have "fset (withdrawal_closure w fs retired identities) = Collect (affected w fs retired identities)"
    unfolding withdrawal_closure_def
    by (rule closure_loop_exact) (auto simp: fset_of_list.rep_eq intro: affected.direct)
  then show ?thesis by auto
qed

lemma affected_watched: "affected w fs retired identities f \<Longrightarrow> f \<in> set fs"
  by (induction rule: affected.induct)

subsection \<open>The order\<close>

lemma foldr_max_ge: "x \<in> set xs \<Longrightarrow> x \<le> foldr max xs (0 :: nat)"
  by (induction xs) auto

definition provider_edges ::
  "(fiber_id, dependency_binding) fmap \<Rightarrow> fiber_id fset \<Rightarrow> (provider_identity, fiber_id) fmap \<Rightarrow>
   (fiber_id \<times> fiber_id) set" where
  "provider_edges bindings A identities =
     {(f, p). \<exists>b. fmlookup bindings f = Some b \<and> p \<in> set (binding_providers identities b) \<and> p |\<in>| A \<and> p \<noteq> f}"

text \<open>Without a cycle the fibers being visited never matter.\<close>

lemma depth_ignores_visiting:
  assumes rank: "\<And>f p. (f, p) \<in> provider_edges bindings A identities \<Longrightarrow> rank p < (rank f :: nat)"
    and "\<And>v. v |\<in>| visiting \<Longrightarrow> rank f < rank v"
  shows "dependency_depth bindings A identities visiting f = dependency_depth bindings A identities {||} f"
  using assms(2)
proof (induction "rank f" arbitrary: f visiting rule: less_induct)
  case less
  have "f |\<notin>| visiting" using less.prems by blast
  moreover have "dependency_depth bindings A identities (finsert f visiting) p =
      dependency_depth bindings A identities (finsert f {||}) p"
    if b: "fmlookup bindings f = Some b" and p: "p \<in> set (binding_providers identities b)" "p |\<in>| A" "p \<noteq> f" for b p
  proof -
    have p: "rank p < rank f" using b p by (intro rank) (auto simp: provider_edges_def)
    have "dependency_depth bindings A identities (finsert f visiting) p = dependency_depth bindings A identities {||} p"
      using p less.prems by (intro less.hyps) (auto intro: less_trans)
    moreover have "dependency_depth bindings A identities (finsert f {||}) p = dependency_depth bindings A identities {||} p"
      using p by (intro less.hyps) auto
    ultimately show ?thesis by simp
  qed
  ultimately show ?case
    by (subst (1 2) dependency_depth.simps)
      (auto split: option.split intro!: arg_cong [where f = "\<lambda>xs. foldr max xs 0"] map_cong)
qed

lemma provider_less_deep:
  assumes rank: "\<And>f p. (f, p) \<in> provider_edges bindings A identities \<Longrightarrow> rank p < (rank f :: nat)"
    and edge: "(f, p) \<in> provider_edges bindings A identities"
  shows "dependency_depth bindings A identities {||} p < dependency_depth bindings A identities {||} f"
proof -
  from edge obtain b where b: "fmlookup bindings f = Some b" "p \<in> set (binding_providers identities b)" "p |\<in>| A" "p \<noteq> f"
    by (auto simp: provider_edges_def)
  have "1 + dependency_depth bindings A identities (finsert f {||}) p \<le> dependency_depth bindings A identities {||} f"
    by (subst (2) dependency_depth.simps) (use b in \<open>auto intro!: foldr_max_ge\<close>)
  moreover have "dependency_depth bindings A identities (finsert f {||}) p = dependency_depth bindings A identities {||} p"
    by (rule depth_ignores_visiting [of bindings A identities rank, OF rank]) (use rank [OF edge] in auto)
  ultimately show ?thesis by simp
qed

definition comes_before :: "'a list \<Rightarrow> 'a \<Rightarrow> 'a \<Rightarrow> bool" where
  "comes_before xs x y \<longleftrightarrow> (\<exists>us vs ws. xs = us @ x # vs @ y # ws)"

lemma sorted_comes_before:
  assumes "sorted (map k xs)" "x \<in> set xs" "y \<in> set xs" "k x < (k y :: 'k :: linorder)"
  shows "comes_before xs x y"
proof -
  obtain us ws where xs: "xs = us @ y # ws" using assms(3) by (auto dest: split_list)
  have "x \<notin> set ws" using assms(1,4) by (auto simp: xs sorted_append)
  moreover have "x \<noteq> y" using assms(4) by auto
  ultimately have "x \<in> set us" using assms(2) by (simp add: xs)
  then obtain as bs where "us = as @ x # bs" by (auto dest: split_list)
  then show ?thesis by (auto simp: comes_before_def xs)
qed

lemma comes_before_map: "comes_before xs x y \<Longrightarrow> comes_before (map g xs) (g x) (g y)"
  by (auto simp: comes_before_def) (metis)

lemma set_withdrawal_order:
  "set (withdrawal_order w fs A identities) = fset A \<inter> set fs" "distinct (withdrawal_order w fs A identities)"
proof -
  let ?d = "dependency_depth (affected_bindings w fs A) A identities {||}"
  let ?xs = "map (\<lambda>f. (?d f, f)) (filter (\<lambda>f. f \<in> set fs) (bs_list A))"
  have order: "withdrawal_order w fs A identities = map snd (sort_key withdrawal_key ?xs)"
    by (simp add: withdrawal_order_def Let_def)
  show "set (withdrawal_order w fs A identities) = fset A \<inter> set fs" by (auto simp: order image_iff)
  have "distinct ?xs" "inj_on snd (set ?xs)" by (auto simp: distinct_map inj_on_def)
  then show "distinct (withdrawal_order w fs A identities)" by (simp add: order distinct_map)
qed

lemma withdrawal_order_deepest_first:
  assumes rank: "\<And>f p. (f, p) \<in> provider_edges (affected_bindings w fs A) A identities \<Longrightarrow> rank p < (rank f :: nat)"
    and edge: "(f, p) \<in> provider_edges (affected_bindings w fs A) A identities"
    and "f |\<in>| A" "f \<in> set fs" "p \<in> set fs"
  shows "comes_before (withdrawal_order w fs A identities) f p"
proof -
  let ?d = "dependency_depth (affected_bindings w fs A) A identities {||}"
  let ?xs = "sort_key withdrawal_key (map (\<lambda>f. (?d f, f)) (filter (\<lambda>f. f \<in> set fs) (bs_list A)))"
  have "?d p < ?d f" by (rule provider_less_deep [OF rank edge])
  then have less: "withdrawal_key (?d f, f) < withdrawal_key (?d p, p)" by (simp add: withdrawal_key_def)
  have "p |\<in>| A" using edge by (auto simp: provider_edges_def)
  with assms(3-5) have "(?d f, f) \<in> set ?xs" "(?d p, p) \<in> set ?xs" by auto
  from sorted_comes_before [OF sorted_sort_key this less] have "comes_before ?xs (?d f, f) (?d p, p)" .
  from comes_before_map [OF this, of snd] show ?thesis by (simp add: withdrawal_order_def Let_def)
qed

lemma affected_bindings_lookup:
  "fmlookup (affected_bindings w fs A) f = (if f \<in> set fs \<and> f |\<in>| A then fiber_dependency_binding w f else None)"
proof -
  have "fmlookup (fold (\<lambda>f m. if f |\<in>| A then case fiber_dependency_binding w f of Some b \<Rightarrow> fmupd f b m | None \<Rightarrow> m
        else m) fs m) f =
      (if f \<in> set fs \<and> f |\<in>| A \<and> fiber_dependency_binding w f \<noteq> None then fiber_dependency_binding w f
       else fmlookup m f)" for m
    by (induction fs arbitrary: m) (auto split: option.splits)
  from this [of fmempty] show ?thesis by (auto simp: affected_bindings_def)
qed

subsection \<open>The effect of a withdrawal on the fibers\<close>

text \<open>What is relied on: every piece of foreign code, and the other tasks, admit the lock of every fiber.\<close>

definition respectful_call :: "('d, 'v, 'f) disposer_call \<Rightarrow> bool" where
  "respectful_call call \<longleftrightarrow> (\<forall>f. respects_lock_call f call)"

definition respectful_factory :: "('d, 'v, 'f) factory_call \<Rightarrow> bool" where
  "respectful_factory factory \<longleftrightarrow> (\<forall>f. respects_lock_factory f factory)"

definition respectful_others :: "('d, 'v, 'f) other_tasks \<Rightarrow> bool" where
  "respectful_others others \<longleftrightarrow> (\<forall>f g w. keeps f w (others g w))"

lemma withdraw_each_result:
  assumes call: "respectful_call call" and others: "respectful_others others"
    and "withdraw_each call others retired fs report w = Some (Ok report', w')"
    and "\<And>f. f \<in> S \<Longrightarrow> fiber_ok f w" "set fs \<subseteq> S"
  shows "(\<forall>f \<in> S. fiber_ok f w') \<and> (\<forall>f \<in> set fs. fiber_state w' f \<noteq> FiberActive) \<and>
    (\<forall>g. g \<notin> set fs \<longrightarrow> keeps g w w') \<and>
    rp_driven report' = rp_driven report @ fs \<and> rp_errors report' = rp_errors report"
  using assms(3-5)
proof (induction fs arbitrary: report w)
  case (Cons f fs)
  let ?v = "others f (notify_dependency_change f w)"
  have v: "keeps g w ?v" for g
    using others requests_keep(1) [of g w f] unfolding respectful_others_def by (blast intro: keeps_trans)
  obtain r u where run: "withdrawal_locked call f (if retired_publication w f retired then Some retired else None) ?v = Some (r, u)"
    and rest: "(case r of
        Ok _ \<Rightarrow> withdraw_each call others retired fs (append_cleanup_failure u f (report_driven f report)) u
      | Err e \<Rightarrow> withdraw_each call others retired fs (append_cleanup_failure u f (report_error f e (report_driven f report))) u
      | Panic \<Rightarrow> Some (Panic, u)) = Some (Ok report', w')"
    using Cons.prems(1) by (auto simp: Let_def bind_eq_Some_conv)
  have "r \<noteq> Panic" using rest by auto
  have lock: "respects_lock_call g call" for g using call by (simp add: respectful_call_def)
  have ok: "fiber_ok f ?v" using fiber_ok_keeps [OF v] Cons.prems(2,3) by simp
  note result = withdrawal_result [OF lock ok run \<open>r \<noteq> Panic\<close>]
  have u: "keeps g w u" if "g \<noteq> f" for g
    using v withdrawal_keeps [OF that [symmetric] lock ok run] by (blast intro: keeps_trans)
  have ok_u: "fiber_ok g u" if "g \<in> S" for g
    using fiber_ok_keeps [OF u] result(1) that Cons.prems(2) by (cases "g = f") auto
  let ?report = "append_cleanup_failure u f (report_driven f report)"
  have "withdraw_each call others retired fs ?report u = Some (Ok report', w')" using rest result(4) by simp
  from Cons.IH [OF this ok_u] Cons.prems(3)
  have ih: "\<forall>g \<in> S. fiber_ok g w'" "\<forall>g \<in> set fs. fiber_state w' g \<noteq> FiberActive"
    "\<And>g. g \<notin> set fs \<Longrightarrow> keeps g u w'" "rp_driven report' = rp_driven ?report @ fs" "rp_errors report' = rp_errors ?report"
    by auto
  have "fiber_state w' f \<noteq> FiberActive"
  proof (cases "f \<in> set fs")
    case False
    then show ?thesis
      using keepsD(3) [OF ih(3)] result(1,5) fiber_okD(1) [OF result(1)] by (simp add: in_place_def fiber_state_def)
  qed (use ih(2) in blast)
  moreover have "keeps g w w'" if "g \<notin> set (f # fs)" for g
    using u ih(3) that by (auto intro: keeps_trans)
  ultimately show ?case
    using ih by (auto simp: append_cleanup_failure_def report_driven_def Let_def)
qed simp

subsection \<open>Snapshots\<close>

lemma watched_write_world [simp]:
  "sm_fibers (watched_write rr A w) = sm_fibers w" "sm_scopes (watched_write rr A w) = sm_scopes w"
  "sm_runtimes (watched_write rr A w) = sm_runtimes w" "eh_stacks (watched_write rr A w) = eh_stacks w"
  "eh_next (watched_write rr A w) = eh_next w" "fiber_at (watched_write rr A w) f = fiber_at w f"
  "watched_fibers rr (watched_write rr A w) = A"
  by (simp_all add: watched_write_def watched_fibers_def fiber_at_def)

lemma needs_reconciliation_cong:
  "sm_scopes w' = sm_scopes w \<Longrightarrow> fiber_at w' f = fiber_at w f \<Longrightarrow> needs_reconciliation w' f = needs_reconciliation w f"
  by (simp add: needs_reconciliation_def current_binding_def resolve_fiber_def fiber_capability_def
      fiber_binding_def fiber_state_def cong: fiber_state.case_cong)

lemma needs_reconciliation_watched_write [simp]:
  "needs_reconciliation (watched_write rr A w) f = needs_reconciliation w f"
  by (rule needs_reconciliation_cong) simp_all

lemma snapshot_fibers_result:
  assumes "snapshot_fibers rr w = (fs, w')"
  shows "set fs = {f. f |\<in>| watched_fibers rr w \<and> fiber_alive w f}" "distinct fs" "sorted fs"
    "w' = watched_write rr (fset_of_list fs) w"
proof -
  let ?live = "ffilter (fiber_alive w) (watched_fibers rr w)"
  have fs: "fs = bs_list ?live" "w' = watched_write rr ?live w"
    using assms by (simp_all only: snapshot_fibers_def Let_def prod.inject)
  show "distinct fs" "sorted fs" by (simp_all only: fs(1) distinct_bs_list sorted_bs_list)
  have "fset (fset_of_list fs) = fset ?live" by (simp only: fs(1) fset_of_list.rep_eq sorted_list_of_fset_simps)
  then have live: "fset_of_list fs = ?live" by (rule fset_inject [THEN iffD1])
  show "w' = watched_write rr (fset_of_list fs) w" unfolding live by (rule fs(2))
  have "set fs = fset ?live" unfolding live [symmetric] by (simp only: fset_of_list.rep_eq)
  also have "\<dots> = {f. f |\<in>| watched_fibers rr w \<and> fiber_alive w f}"
    by (rule set_eqI) (simp only: mem_Collect_eq ffmember_filter)
  finally show "set fs = {f. f |\<in>| watched_fibers rr w \<and> fiber_alive w f}" .
qed

lemma keeps_watched_write: "keeps f w (watched_write rr A w)"
  by (intro keeps_same_fibers heap_grows_cong) simp_all

subsection \<open>A withdrawal as a whole\<close>

lemma withdraw_and_reconcile_Ok:
  assumes "withdraw_and_reconcile call others rr i expected w = Some (Ok report, w')"
    "get_local (sm_scopes w) (reactive_scope rr) i \<noteq> None"
  obtains retired scopes fs w1 report' where
    "withdraw (reactive_scope rr) i expected (sm_scopes w) = (Ok retired, scopes)"
    "snapshot_fibers rr (w\<lparr>sm_scopes := scopes\<rparr>) = (fs, w1)"
    "withdraw_each call others retired
       (withdrawal_order w1 fs (withdrawal_closure w1 fs retired (provider_identities w1 fs)) (provider_identities w1 fs))
       reconcile_report_default w1 = Some (Ok report', w')"
    "report = report'\<lparr>rp_provider_finalized := True\<rparr>"
proof -
  obtain r scopes where r: "withdraw (reactive_scope rr) i expected (sm_scopes w) = (r, scopes)" by fastforce
  then obtain retired where Ok: "r = Ok retired"
    using assms by (cases r) (auto simp: withdraw_and_reconcile_def)
  obtain fs w1 where s: "snapshot_fibers rr (w\<lparr>sm_scopes := scopes\<rparr>) = (fs, w1)" by fastforce
  let ?ids = "provider_identities w1 fs"
  obtain q :: "(reconcile_report, unit) res" and v where q: "withdraw_each call others retired
       (withdrawal_order w1 fs (withdrawal_closure w1 fs retired ?ids) ?ids) reconcile_report_default w1 = Some (q, v)"
    using assms r Ok s unfolding withdraw_and_reconcile_def Let_def
    by (auto simp: bind_eq_Some_conv)
  obtain report' where "q = Ok report'" "v = w'" "report = report'\<lparr>rp_provider_finalized := True\<rparr>"
    using assms r Ok s q unfolding withdraw_and_reconcile_def Let_def by (cases q) auto
  with q r Ok s that show thesis by blast
qed

subsection \<open>A pass of a reconciliation\<close>

lemma reconcile_pass_driven:
  assumes "reconcile_pass factory call others (f # fs) drove report w = Some (q, w')" "needs_reconciliation w f"
  obtains r v report1 where "await_stable factory call f (others f w) = Some (r, v)"
    "r = Panic \<and> q = Panic \<and> w' = v \<or>
     r \<noteq> Panic \<and> reconcile_pass factory call others fs True report1 v = Some (q, w')"
proof -
  from assms obtain r v where r: "await_stable factory call f (others f w) = Some (r, v)"
    by (auto simp: bind_eq_Some_conv)
  with assms show thesis by (cases r) (auto simp: Let_def intro: that)
qed

lemma reconcile_pass_drove:
  "reconcile_pass factory call others fs drove report w = Some (Ok (drove', report'), w') \<Longrightarrow> drove \<Longrightarrow> drove'"
proof (induction fs arbitrary: drove report w)
  case (Cons f fs)
  show ?case
  proof (cases "needs_reconciliation w f")
    case True
    from reconcile_pass_driven [OF Cons.prems(1) this] obtain v report1 where
      "reconcile_pass factory call others fs True report1 v = Some (Ok (drove', report'), w')" by blast
    from Cons.IH [OF this] show ?thesis by simp
  next
    case False
    with Cons show ?thesis by simp
  qed
qed simp

text \<open>A pass that drove nothing has found every fiber as it should be.\<close>

lemma reconcile_pass_idle:
  "reconcile_pass factory call others fs drove report w = Some (Ok (False, report'), w') \<Longrightarrow>
   w' = w \<and> report' = report \<and> (\<forall>f \<in> set fs. \<not> needs_reconciliation w f)"
proof (induction fs)
  case (Cons f fs)
  have "\<not> needs_reconciliation w f"
  proof
    assume "needs_reconciliation w f"
    from reconcile_pass_driven [OF Cons.prems this] obtain v report1 where
      "reconcile_pass factory call others fs True report1 v = Some (Ok (False, report'), w')" by blast
    from reconcile_pass_drove [OF this] show False by simp
  qed
  with Cons show ?case by simp
qed simp

text \<open>Induction over a loop that returned: a pass that ends it, and the passes before that drove a fiber.\<close>

lemma reconcile_loop_induct [consumes 1, case_names stop again]:
  assumes run: "reconcile_loop factory call others rr report w = Some q"
    and stop: "\<And>report w fs w1 p w2. snapshot_fibers rr w = (fs, w1) \<Longrightarrow>
      reconcile_pass factory call others fs False report w1 = Some (p, w2) \<Longrightarrow>
      (case p of
         Ok (drove, report') \<Rightarrow> \<not> drove \<and> q = (Ok report', w2)
       | Err u \<Rightarrow> q = (Err u, w2)
       | Panic \<Rightarrow> q = (Panic, w2)) \<Longrightarrow> P report w"
    and again: "\<And>report w fs w1 report' w2. snapshot_fibers rr w = (fs, w1) \<Longrightarrow>
      reconcile_pass factory call others fs False report w1 = Some (Ok (True, report'), w2) \<Longrightarrow> P report' w2 \<Longrightarrow>
      P report w"
  shows "P report w"
proof -
  have "factory = factory \<longrightarrow> call = call \<longrightarrow> others = others \<longrightarrow> rr = rr \<longrightarrow> q = q \<longrightarrow> P report w"
  proof (rule reconcile_loop.raw_induct [where P = "\<lambda>fa ca ot r rep w p. fa = factory \<longrightarrow> ca = call \<longrightarrow>
        ot = others \<longrightarrow> r = rr \<longrightarrow> p = q \<longrightarrow> P rep w", OF _ run], intro impI)
    fix loop fa ca ot r rep w p
    assume IH: "\<And>fa ca ot r rep w p. loop fa ca ot r rep w = Some p \<Longrightarrow>
        fa = factory \<longrightarrow> ca = call \<longrightarrow> ot = others \<longrightarrow> r = rr \<longrightarrow> p = q \<longrightarrow> P rep w"
      and eq: "(case snapshot_fibers r w of (fs, w1) \<Rightarrow>
        Option.bind (reconcile_pass fa ca ot fs False rep w1) (\<lambda>(p, w2).
          case p of
            Ok (drove, rep1) \<Rightarrow> if drove then loop fa ca ot r rep1 w2 else Some (Ok rep1, w2)
          | Err u \<Rightarrow> Some (Err u, w2)
          | Panic \<Rightarrow> Some (Panic, w2))) = Some p"
      and args: "fa = factory" "ca = call" "ot = others" "r = rr" "p = q"
    obtain fs w1 where s: "snapshot_fibers rr w = (fs, w1)" by fastforce
    from eq args s obtain p' w2 where p': "reconcile_pass factory call others fs False rep w1 = Some (p', w2)"
      "(case p' of
          Ok (drove, rep1) \<Rightarrow> if drove then loop factory call others rr rep1 w2 else Some (Ok rep1, w2)
        | Err u \<Rightarrow> Some (Err u, w2)
        | Panic \<Rightarrow> Some (Panic, w2)) = Some q"
      by (auto simp: bind_eq_Some_conv)
    show "P rep w"
    proof (cases "\<exists>rep1. p' = Ok (True, rep1)")
      case True
      then obtain rep1 where rep1: "p' = Ok (True, rep1)" by blast
      with p'(2) IH [of factory call others rr rep1 w2 q] have "P rep1 w2" by simp
      with again [OF s] p'(1) rep1 show ?thesis by simp
    next
      case False
      with p'(2) show ?thesis by (intro stop [OF s p'(1)]) (auto split: res.splits if_splits)
    qed
  qed
  then show ?thesis by simp
qed

lemma reconcile_loop_settles:
  fixes w' :: "('d, 'v, 'f) semantic_world"
  assumes "reconcile_loop factory call others rr report w = Some (Ok report', w')"
    "f |\<in>| watched_fibers rr w'"
  shows "fiber_alive w' f \<and> \<not> needs_reconciliation w' f"
  using assms(1)
proof (induction rule: reconcile_loop_induct)
  case (stop report w fs w1 p w2)
  note snap = snapshot_fibers_result [OF stop(1)]
  from stop(3) have p: "p = Ok (False, report')" "w2 = w'" by (auto split: res.splits)
  from reconcile_pass_idle [OF stop(2) [unfolded p]]
  have "w' = w1" "\<And>f. f \<in> set fs \<Longrightarrow> \<not> needs_reconciliation w1 f" by auto
  with snap(1,4) assms(2) show ?case by (auto simp: fset_of_list_elem)
qed

end
