(* ===== verification/Reactive_Settling.thy ===== *)
theory Reactive_Settling
  imports Reactive_Laws
begin

text \<open>
  While the foreign code leaves the scopes, the fibers and the watch lists alone, a drive of one fiber
  changes the entries of one name only, a driven fiber needs no further reconciliation, and a
  reconciliation of fibers whose requirements form no cycle returns: after \<open>k\<close> passes the fibers of
  rank below \<open>k\<close> are settled for good.
\<close>

subsection \<open>Scopes that differ in one name\<close>

definition same_but :: "ident \<Rightarrow> 'v scope_world \<Rightarrow> 'v scope_world \<Rightarrow> bool" where
  "same_but i w w' \<longleftrightarrow>
     (\<forall>s. is_open w' s = is_open w s \<and>
        (\<forall>j. j \<noteq> i \<longrightarrow> fmlookup (ss_entries (scope_at w' s)) j = fmlookup (ss_entries (scope_at w s)) j))"

lemma same_but_refl [simp]: "same_but i w w"
  by (simp add: same_but_def)

lemma same_but_trans: "same_but i w w' \<Longrightarrow> same_but i w' w'' \<Longrightarrow> same_but i w w''"
  by (simp add: same_but_def)

lemma same_but_scope_get: "same_but i w w' \<Longrightarrow> j \<noteq> i \<Longrightarrow> scope_get w' s j = scope_get w s j"
  by (induction s) (simp_all add: same_but_def split: option.split)

lemma same_but_context_get: "same_but i w w' \<Longrightarrow> j \<noteq> i \<Longrightarrow> context_get w' c j = context_get w c j"
proof (induction w c j rule: context_get.induct)
  case (1 w s isos ics j)
  then show ?case using same_but_scope_get [OF 1] by (simp add: has_local_def has_local_entry_def same_but_def)
next
  case (2 w s p isos ics j)
  moreover have "has_local w' s j = has_local w s j"
    using 2(2,3) by (simp add: has_local_def has_local_entry_def same_but_def)
  ultimately show ?case using same_but_scope_get [OF 2(2,3)] by (cases "has_local w s j") simp_all
qed

lemma same_but_resolve:
  assumes "same_but i w w'" "i \<notin> set (map dep_id (bs_list (cd_dependencies d)))"
  shows "context_resolve_dependencies w' c d = context_resolve_dependencies w c d"
  unfolding context_resolve_dependencies_def
proof (rule context_resolve_cong)
  fix j assume "j \<in> set (map dep_id (bs_list (cd_dependencies d)))"
  with assms(2) have "j \<noteq> i" by blast
  with assms(1) show "context_get w' c j = context_get w c j" by (rule same_but_context_get)
qed

lemma provide_value_same_but:
  assumes "provide_value s d hs v w = (r, w')"
  shows "same_but (cd_id d) w w'"
proof (cases r)
  case (Ok h)
  from provide_value_Ok [OF assms [unfolded Ok]] obtain e counter where
    "w' = entry_write s (cd_id d) e (w\<lparr>sw_next_entry_id := counter\<rparr>)" .
  then show ?thesis by (simp add: same_but_def)
next
  case (Err e)
  with assms have "w' = w"
    by (auto simp: provide_value_def dest: publish_preconstructed_Err split: res.splits)
  then show ?thesis by simp
next
  case Panic
  with assms have "w' = w"
    by (auto simp: provide_value_def publish_preconstructed_def Let_def split: res.splits option.splits)
  then show ?thesis by simp
qed

lemma remove_local_same_but:
  assumes "remove_local s i g w = (r, w')"
  shows "same_but i w w'"
  using assms
  by (auto simp: remove_local_def act_bind_def withdraw_def same_but_def is_open_def
      split: if_splits option.splits)

subsection \<open>What a drive changes\<close>

definition leaves_watched_call :: "('d, 'v, 'f) disposer_call \<Rightarrow> bool" where
  "leaves_watched_call call \<longleftrightarrow> (\<forall>d w. sm_watched (snd (call d w)) = sm_watched w)"

definition leaves_watched_factory :: "('d, 'v, 'f) factory_call \<Rightarrow> bool" where
  "leaves_watched_factory factory \<longleftrightarrow> (\<forall>k lc w. sm_watched (snd (factory k lc w)) = sm_watched w)"

definition calm_call :: "('d, 'v, 'f) disposer_call \<Rightarrow> bool" where
  "calm_call call \<longleftrightarrow> quiet_call call \<and> respectful_call call \<and> leaves_watched_call call"

definition calm_factory :: "('d, 'v, 'f) factory_call \<Rightarrow> bool" where
  "calm_factory factory \<longleftrightarrow> quiet_factory factory \<and> respectful_factory factory \<and> leaves_watched_factory factory"

definition plugin_part :: "('v, 'f) fiber \<Rightarrow> capability_context \<times> 'f plugin_definition \<times> bool" where
  "plugin_part x = (fb_context x, fb_definition x, fb_dispose_requested x)"

definition driven_step :: "fiber_id \<Rightarrow> ('d, 'v, 'f) semantic_world \<Rightarrow> ('d, 'v, 'f) semantic_world \<Rightarrow> bool" where
  "driven_step g w w' \<longleftrightarrow>
     (\<forall>f. f \<noteq> g \<longrightarrow> fmlookup (sm_fibers w') f = fmlookup (sm_fibers w) f) \<and>
     (has_key (sm_fibers w) g \<longrightarrow> has_key (sm_fibers w') g) \<and>
     plugin_part (fiber_at w' g) = plugin_part (fiber_at w g) \<and>
     same_but (cd_id (fiber_capability w g)) (sm_scopes w) (sm_scopes w') \<and>
     sm_watched w' = sm_watched w"

lemma driven_refl [simp]: "driven_step g w w"
  by (simp add: driven_step_def)

lemma driven_trans: "driven_step g w w' \<Longrightarrow> driven_step g w' w'' \<Longrightarrow> driven_step g w w''"
  unfolding driven_step_def
  by (auto simp: fiber_capability_def plugin_part_def intro: same_but_trans)

lemma driven_same:
  "sm_fibers w' = sm_fibers w \<Longrightarrow> sm_scopes w' = sm_scopes w \<Longrightarrow> sm_watched w' = sm_watched w \<Longrightarrow> driven_step g w w'"
  by (simp add: driven_step_def fiber_at_def)

lemma driven_update:
  "plugin_part (h (fiber_at w g)) = plugin_part (fiber_at w g) \<Longrightarrow> driven_step g w (fiber_update g h w)"
  by (simp add: driven_step_def)

lemma driven_then_update:
  "driven_step g w v \<Longrightarrow> plugin_part (h (fiber_at v g)) = plugin_part (fiber_at v g) \<Longrightarrow>
   driven_step g w (fiber_update g h v)"
  by (rule driven_trans [OF _ driven_update])

lemma driven_then_scopes:
  "driven_step g w v \<Longrightarrow> same_but (cd_id (fiber_capability v g)) (sm_scopes v) sc \<Longrightarrow>
   driven_step g w (v\<lparr>sm_scopes := sc\<rparr>)"
  by (erule driven_trans) (simp add: driven_step_def)

lemma driven_then_new:
  "driven_step g w v \<Longrightarrow> effect_scope_new v = (s, v') \<Longrightarrow> driven_step g w v'"
  by (erule driven_trans) (auto intro!: driven_same simp: effect_scope_new_def)

lemma calm_forest_watched:
  "leaves_watched_call call \<Longrightarrow> sm_watched (snd (dispose_tree call t w)) = sm_watched w"
  "leaves_watched_call call \<Longrightarrow> sm_watched (snd (dispose_forest call ts w)) = sm_watched w"
proof (induction call t w and call ts w rule: dispose_tree_dispose_forest.induct)
  case (4 call t ts w)
  obtain errors v where v: "dispose_forest call ts w = (errors, v)" by fastforce
  from 4 v show ?case by (simp add: split_beta)
qed (simp_all add: leaves_watched_call_def split_beta shut_def)

lemma calm_dispose:
  assumes "calm_call call" "heap_ok w" "effect_dispose_all call s w = Some (r, w')"
  shows "sm_fibers w' = sm_fibers w" "sm_scopes w' = sm_scopes w" "sm_watched w' = sm_watched w"
proof -
  have call: "quiet_call call" "quiet_disposer call" "leaves_watched_call call"
    using assms(1) by (simp_all add: calm_call_def quiet_call_def)
  from dispose_all_forest [OF assms(2) call(2)] obtain ts where
    "effect_dispose_all call s w =
       (case dispose_forest call ts (shut s w) of (errors, w') \<Rightarrow> Some (Ok errors, w'))" by blast
  with assms(3) have "w' = snd (dispose_forest call ts (shut s w))" by (auto split: prod.splits)
  with dispose_forest_quiet(2) [OF call(1), of ts "shut s w"] calm_forest_watched(2) [OF call(3), of ts "shut s w"]
  show "sm_fibers w' = sm_fibers w" "sm_scopes w' = sm_scopes w" "sm_watched w' = sm_watched w"
    by (simp_all add: shut_def)
qed

lemma driven_then_dispose:
  assumes "calm_call call" "driven_step g w v" "heap_ok v" "effect_dispose_all call s v = Some (r, w')"
  shows "driven_step g w w'"
  using assms(2) driven_same [OF calm_dispose [OF assms(1,3,4)]] by (rule driven_trans)

lemma unload_finish_driven: "driven_step g w v \<Longrightarrow> driven_step g w (unload_finish g v)"
proof -
  assume v: "driven_step g w v"
  let ?v = "fiber_update g (\<lambda>x. x\<lparr>fb_dependency_epoch := None, fb_loading_binding := None\<rparr>) v"
  obtain s u where new: "effect_scope_new ?v = (s, u)" by fastforce
  have "driven_step g w u"
    by (rule driven_then_new [OF driven_then_update [OF v] new]) (simp add: plugin_part_def)
  then show ?thesis by (simp add: unload_finish_def new set_state_def driven_then_update plugin_part_def)
qed

text \<open>The handle of a fiber is a publication of its own capability.\<close>

definition own_handle :: "fiber_id \<Rightarrow> ('d, 'v, 'f) semantic_world \<Rightarrow> bool" where
  "own_handle g w \<longleftrightarrow>
     (case fb_handle (fiber_at w g) of
        Some h \<Rightarrow> h_id h = cd_id (fiber_capability w g)
      | None \<Rightarrow> True)"

lemma fiber_ok_own_handle: "fiber_ok g w \<Longrightarrow> own_handle g w"
  unfolding fiber_ok_def Let_def own_handle_def
  by (auto simp: vacant_def published_def fiber_capability_def h_id_def split: fiber_state.splits option.splits)

lemma unload_driven:
  assumes call: "calm_call call" and "in_place g w" "own_handle g w" "unload call g detached w = Some (r, w')"
  shows "driven_step g w w'"
proof -
  have start: "driven_step g w (set_state g FiberUnloading w)"
    by (simp add: set_state_def driven_update plugin_part_def)
  have heap: "heap_ok (set_state g FiberUnloading w)" using assms(2) by (simp add: in_place_def set_state_def)
  have released: "driven_step g w u"
    if v: "driven_step g w v" "own_handle g v" and u: "unload_release g detached errors v = (q, u)" for errors v q u
  proof (cases "fb_handle (fiber_at v g)")
    case None
    with u v show ?thesis by (auto simp: unload_release_def intro: unload_finish_driven)
  next
    case (Some h)
    define v1 where "v1 = fiber_update g (\<lambda>x. x\<lparr>fb_handle := None\<rparr>) v"
    have v1: "driven_step g w v1" unfolding v1_def using v by (intro driven_then_update) (simp_all add: plugin_part_def)
    obtain p sc where p: "remove_local (cx_scope (fb_context (fiber_at v g))) (h_id h) (h_generation h)
        (sm_scopes v) = (p, sc)" by fastforce
    have "same_but (cd_id (fiber_capability v1 g)) (sm_scopes v1) sc"
      using remove_local_same_but [OF p] v(2) Some by (simp add: own_handle_def v1_def fiber_capability_def)
    with v1 have sc: "driven_step g w (v1\<lparr>sm_scopes := sc\<rparr>)" by (rule driven_then_scopes)
    let ?e = "set_state g FiberPending (fiber_update g (\<lambda>x. x\<lparr>fb_dependency_epoch := None\<rparr>) (v1\<lparr>sm_scopes := sc\<rparr>))"
    have "driven_step g w ?e"
      unfolding set_state_def using sc by (intro driven_then_update) (simp_all add: plugin_part_def)
    moreover have "u = unload_finish g v1 \<or> u = unload_finish g (v1\<lparr>sm_scopes := sc\<rparr>) \<or> u = ?e \<or> u = v1\<lparr>sm_scopes := sc\<rparr>"
      using u Some p by (cases p) (auto simp: unload_release_def Let_def v1_def split: if_splits)
    ultimately show ?thesis using v1 sc unload_finish_driven by metis
  qed
  have disposed: "driven_step g w v \<and> own_handle g v"
    if v: "effect_dispose_all call (fb_effects (fiber_at w g)) (set_state g FiberUnloading w) = Some (q, v)" for q v
  proof -
    have "fiber_at v g = fiber_at (set_state g FiberUnloading w) g"
      by (rule fiber_at_cong) (rule calm_dispose(1) [OF call heap v])
    then have "own_handle g v" using assms(3) by (simp add: own_handle_def set_state_def fiber_capability_def cong: option.case_cong)
    with driven_then_dispose [OF call start heap v] show ?thesis by simp
  qed
  from assms(4) show ?thesis unfolding unload_def with_errors_Some using disposed released by auto
qed

lemma load_publish_driven:
  assumes call: "calm_call call" and "loading g effects w" "load_publish call g dependencies effects v w = Some (r, w')"
  shows "driven_step g w w'"
proof -
  obtain q sc where q: "provide_value (cx_scope (fb_context (fiber_at w g))) (fiber_capability w g)
      dependencies v (sm_scopes w) = (q, sc)" by fastforce
  have sc: "driven_step g w (w\<lparr>sm_scopes := sc\<rparr>)"
    using provide_value_same_but [OF q] by (intro driven_then_scopes) simp_all
  have heap: "heap_ok (w\<lparr>sm_scopes := sc\<rparr>)" using assms(2) by (simp add: loading_def in_place_def)
  note disposed = driven_then_dispose [OF call sc heap]
  show ?thesis
  proof (cases q)
    case (Ok h)
    with assms(3) q sc show ?thesis
      by (auto simp: load_publish_def Let_def fiber_setters plugin_part_def intro!: driven_then_update)
  next
    case (Err e)
    with assms(3) q show ?thesis
      by (cases e) (auto simp: load_publish_def fiber_setters with_errors_Some plugin_part_def dest!: disposed
          intro!: driven_then_update)
  next
    case Panic
    with assms(3) q sc show ?thesis by (auto simp: load_publish_def)
  qed
qed

lemma load_settle_driven:
  assumes call: "calm_call call" and "loading g effects w"
    "load_settle call g epoch dependencies effects result w = Some (r, w')"
  shows "driven_step g w w'"
proof -
  have heap: "heap_ok w" using assms(2) by (simp add: loading_def in_place_def)
  note disposed = driven_then_dispose [OF call driven_refl heap]
  show ?thesis
    using assms(3) load_publish_driven [OF assms(1,2)]
    by (auto simp: load_settle_def Let_def fiber_setters with_errors_Some plugin_part_def dest!: disposed
        intro!: driven_then_update split: res.splits if_splits)
qed

lemma drive_iteration_driven:
  assumes calm: "calm_call call" "calm_factory factory"
    and w: "fiber_ok g w" "drive_iteration factory call g force w = Some (r, w')"
  shows "driven_step g w w'"
proof (cases "resolve_fiber w g")
  case (Ok dependencies)
  let ?epoch = "epoch_of (fb_requested_epoch (fiber_at w g)) dependencies"
  note unloaded = unload_driven [OF calm(1) fiber_okD(1) [OF w(1)] fiber_ok_own_handle [OF w(1)]]
  have load: "driven_step g w w'" if vacant: "vacant (fiber_at w g)"
    and run: "load_attempt factory call g ?epoch dependencies w = Some (r, w')"
  proof -
    obtain lc w1 where b: "load_begin g ?epoch dependencies w = (lc, w1)" by fastforce
    obtain q w2 where q: "factory (pd_factory (fb_definition (fiber_at w1 g))) lc w1 = (q, w2)" by fastforce
    have l: "loading g (lc_effects lc) w1"
      using load_begin_loading [OF fiber_okD(1) [OF w(1)] vacant b] by blast
    have "keeps g w1 w2" "driven_step g w1 w2"
      using calm(2) q unfolding calm_factory_def respectful_factory_def respects_lock_factory_def
        quiet_factory_def leaves_watched_factory_def by (metis snd_conv, intro driven_same) (metis snd_conv)+
    moreover have "driven_step g w w1"
    proof -
      obtain s v where new: "effect_scope_new (set_state g FiberLoading w) = (s, v)" by fastforce
      have "driven_step g w v"
        by (rule driven_then_new [OF _ new]) (simp add: set_state_def driven_update plugin_part_def)
      then show ?thesis
        using b new by (auto simp: load_begin_def Let_def fiber_setters plugin_part_def intro!: driven_then_update)
    qed
    moreover have "load_settle call g ?epoch dependencies (lc_effects lc) q w2 = Some (r, w')"
      using run b q by (simp add: load_attempt_def)
    ultimately show ?thesis
      using load_settle_driven [OF calm(1)] loading_keeps [OF _ l] by (blast intro: driven_trans)
  qed
  have "vacant (fiber_at w g)" if "fiber_state w g \<noteq> FiberActive"
    using w(1) that by (auto simp: fiber_ok_def Let_def split: fiber_state.splits)
  with w(2) Ok load show ?thesis
    by (auto simp: drive_iteration_def Let_def with_errors_Some fiber_setters plugin_part_def
        intro!: driven_then_update dest: unloaded split: if_splits)
next
  case (Err e)
  then obtain i j where "e = ScopeMissingDependency i j" using resolve_fiber_Err by blast
  with w(2) Err show ?thesis
    by (auto simp: drive_iteration_def bind_eq_Some_conv clear_active_state_def with_errors_Some fiber_setters
        plugin_part_def intro!: driven_then_update
        dest: unload_driven [OF calm(1) fiber_okD(1) [OF w(1)] fiber_ok_own_handle [OF w(1)]] split: if_splits)
next
  case Panic
  with w(2) show ?thesis by (simp add: drive_iteration_def)
qed

subsection \<open>A driven fiber is settled\<close>

definition own_names :: "('d, 'v, 'f) semantic_world \<Rightarrow> fiber_id \<Rightarrow> ident set" where
  "own_names w f = dep_id ` fset (cd_dependencies (fiber_capability w f))"

lemma driven_binding:
  assumes "driven_step g w w'" "cd_id (fiber_capability w g) \<notin> own_names w f"
  shows "current_binding w' f = current_binding w f"
proof -
  have "fb_context (fiber_at w' f) = fb_context (fiber_at w f)" "fiber_capability w' f = fiber_capability w f"
    using assms(1) by (cases "f = g"; simp add: driven_step_def plugin_part_def fiber_capability_def fiber_at_def)+
  moreover have "context_resolve_dependencies (sm_scopes w') (fb_context (fiber_at w f)) (fiber_capability w f) =
      context_resolve_dependencies (sm_scopes w) (fb_context (fiber_at w f)) (fiber_capability w f)"
    using assms by (intro same_but_resolve) (auto simp: driven_step_def own_names_def)
  ultimately show ?thesis by (simp add: current_binding_def resolve_fiber_def)
qed

lemma driven_needs:
  assumes "driven_step g w w'" "cd_id (fiber_capability w g) \<notin> own_names w f" "f \<noteq> g"
  shows "needs_reconciliation w' f = needs_reconciliation w f"
proof -
  have "fiber_at w' f = fiber_at w f" using assms(1,3) by (simp add: driven_step_def fiber_at_def)
  with driven_binding [OF assms(1,2)] show ?thesis
    by (simp add: needs_reconciliation_def fiber_capability_def fiber_binding_def fiber_state_def
        cong: fiber_state.case_cong)
qed

lemma load_publish_not_pending:
  "load_publish call g dependencies effects v w \<noteq> Some (Ok (Stable FiberPending), w')"
proof
  assume run: "load_publish call g dependencies effects v w = Some (Ok (Stable FiberPending), w')"
  obtain q sc where q: "provide_value (cx_scope (fb_context (fiber_at w g))) (fiber_capability w g)
      dependencies v (sm_scopes w) = (q, sc)" by fastforce
  show False
  proof (cases q)
    case (Err e)
    with run q show False by (cases e) (auto simp: load_publish_def with_errors_Some)
  qed (use run q in \<open>auto simp: load_publish_def Let_def\<close>)
qed

lemma drive_iteration_pending:
  assumes "calm_call call" "calm_factory factory" "fiber_ok g w"
    "cd_id (fiber_capability w g) \<notin> own_names w g"
    "drive_iteration factory call g force w = Some (Ok (Stable FiberPending), w')"
  shows "current_binding w' g = None"
proof -
  have "resolve_fiber w g \<noteq> Ok dependencies" for dependencies
  proof
    assume "resolve_fiber w g = Ok dependencies"
    with assms(5) show False
      by (auto simp: drive_iteration_def Let_def with_errors_Some load_attempt_def load_settle_def
          load_publish_not_pending split: if_splits prod.splits res.splits)
  qed
  then have "current_binding w g = None" by (auto simp: current_binding_def split: res.splits)
  with driven_binding [OF drive_iteration_driven [OF assms(1-3,5)] assms(4)] show ?thesis by simp
qed

lemma drive_loop_driven:
  fixes w :: "('d, 'v, 'f) semantic_world"
  assumes calm: "calm_call call" "calm_factory factory"
    and w: "fiber_ok g w" "fiber_state w g \<noteq> FiberDisposed" "cd_id (fiber_capability w g) \<notin> own_names w g"
    and run: "drive_loop factory call g force w = Some (r, w')"
  shows "driven_step g w w' \<and> (r = Ok FiberPending \<longrightarrow> current_binding w' g = None)"
proof -
  have lock: "respects_lock_call g call" "respects_lock_factory g factory"
    using calm by (simp_all add: calm_call_def calm_factory_def respectful_call_def respectful_factory_def)
  from run have "fiber_ok g w \<longrightarrow> fiber_state w g \<noteq> FiberDisposed \<longrightarrow>
      cd_id (fiber_capability w g) \<notin> own_names w g \<longrightarrow>
      driven_step g w w' \<and> (r = Ok FiberPending \<longrightarrow> current_binding w' g = None)"
  proof (induction rule: drive_loop_induct)
    case (final w)
    then show ?case using drive_iteration_driven [OF calm _ final] drive_iteration_pending [OF calm] by auto
  next
    case (again w v)
    show ?case
    proof (intro impI)
      assume w: "fiber_ok g w" "fiber_state w g \<noteq> FiberDisposed" "cd_id (fiber_capability w g) \<notin> own_names w g"
      note v = drive_iteration_driven [OF calm w(1) again(1)]
      have "fiber_ok g v \<and> fiber_state v g \<noteq> FiberDisposed"
        using drive_iteration_post [OF lock w(1,2) again(1)] by (simp add: drive_post_def)
      moreover have "cd_id (fiber_capability v g) \<notin> own_names v g"
        using w(3) v by (simp add: driven_step_def plugin_part_def fiber_capability_def own_names_def)
      ultimately show "driven_step g w w' \<and> (r = Ok FiberPending \<longrightarrow> current_binding w' g = None)"
        using again(2) v by (blast intro: driven_trans)
    qed
  qed
  with w show ?thesis by blast
qed

lemma drive_settles:
  assumes calm: "calm_call call" "calm_factory factory"
    and w: "fiber_ok f w" "\<not> fb_dispose_requested (fiber_at w f)" "cd_id (fiber_capability w f) \<notin> own_names w f"
    and run: "drive factory call f force w = Some (r, w')"
  shows "driven_step f w w'" "r \<noteq> Panic \<Longrightarrow> fiber_ok f w' \<and> \<not> needs_reconciliation w' f"
proof -
  have lock: "respects_lock_call f call" "respects_lock_factory f factory"
    using calm by (simp_all add: calm_call_def calm_factory_def respectful_call_def respectful_factory_def)
  have "w' = w \<and> fiber_state w f = FiberFailed \<and> (\<exists>e. r = Err e) \<or>
      driven_step f w w' \<and> (r = Ok FiberPending \<longrightarrow> current_binding w' f = None)"
    using run w(1)
  proof (cases rule: driveE)
    case refused
    with w(2) show ?thesis by simp
  next
    case looped
    have ready: "driven_step f w (drive_ready f w)"
      by (auto simp: drive_ready_def fiber_setters plugin_part_def intro!: driven_then_update)
    then have "cd_id (fiber_capability (drive_ready f w) f) \<notin> own_names (drive_ready f w) f"
      using w(3) by (simp add: driven_step_def plugin_part_def fiber_capability_def own_names_def)
    from drive_loop_driven [OF calm looped(3,2) this looped(4)] ready show ?thesis by (auto intro: driven_trans)
  qed
  then have step: "driven_step f w w'" and pending: "r = Ok FiberPending \<Longrightarrow> current_binding w' f = None" by auto
  show "driven_step f w w'" by (rule step)
  show "fiber_ok f w' \<and> \<not> needs_reconciliation w' f" if "r \<noteq> Panic"
  proof (cases r)
    case (Ok s)
    note d = drive_result(1,4) [OF lock w(1) run that]
    from d(2) [OF Ok] consider "s = FiberPending" "fiber_state w' f = FiberPending" | "s = FiberActive" "fiber_state w' f = FiberActive"
      by auto
    then show ?thesis
    proof cases
      case 1
      with pending Ok d(1) show ?thesis by (simp add: needs_reconciliation_def)
    next
      case 2
      with drive_current [OF lock w(1)] run Ok have "current_for f (fb_handle (fiber_at w f)) w'" by simp
      with 2 d(1) show ?thesis by (simp add: current_for_def needs_reconciliation_def)
    qed
  next
    case (Err e)
    note d = drive_result(1,5) [OF lock w(1) run that]
    have "\<not> fb_dispose_requested (fiber_at w' f)" using step w(2) by (simp add: driven_step_def plugin_part_def)
    with d(2) [OF Err] d(1) show ?thesis by (simp add: needs_reconciliation_def)
  qed (use that in simp)
qed

subsection \<open>A pass settles one more rank\<close>

definition at_rest :: "fiber_id set \<Rightarrow> ('d, 'v, 'f) semantic_world \<Rightarrow> bool" where
  "at_rest F w \<longleftrightarrow>
     (\<forall>f \<in> F. fiber_ok f w \<and> aligned (fb_context (fiber_at w f)) \<and> \<not> fb_dispose_requested (fiber_at w f))"

abbreviation fiber_rank :: "(ident \<Rightarrow> nat) \<Rightarrow> ('d, 'v, 'f) semantic_world \<Rightarrow> fiber_id \<Rightarrow> nat" where
  "fiber_rank rank w f \<equiv> rank (cd_id (fiber_capability w f))"

text \<open>No fiber requires, directly or through other names, what it provides.\<close>

definition ranked :: "(ident \<Rightarrow> nat) \<Rightarrow> fiber_id set \<Rightarrow> ('d, 'v, 'f) semantic_world \<Rightarrow> bool" where
  "ranked rank F w \<longleftrightarrow> (\<forall>f \<in> F. \<forall>i \<in> own_names w f. rank i < fiber_rank rank w f)"

text \<open>What stays as it is, and what remains settled, up to rank \<open>k\<close>.\<close>

definition progress ::
  "(ident \<Rightarrow> nat) \<Rightarrow> nat \<Rightarrow> fiber_id set \<Rightarrow> ('d, 'v, 'f) semantic_world \<Rightarrow> ('d, 'v, 'f) semantic_world \<Rightarrow> bool" where
  "progress rank k F w w' \<longleftrightarrow>
     at_rest F w' \<and> (\<forall>f. fiber_capability w' f = fiber_capability w f) \<and>
     (\<forall>f. fiber_alive w' f = fiber_alive w f) \<and> sm_watched w' = sm_watched w \<and>
     (\<forall>f \<in> F. fiber_rank rank w f \<le> k \<longrightarrow> \<not> needs_reconciliation w f \<longrightarrow> \<not> needs_reconciliation w' f)"

lemma progress_refl: "at_rest F w \<Longrightarrow> progress rank k F w w"
  by (simp add: progress_def)

lemma progress_trans: "progress rank k F w v \<Longrightarrow> progress rank k F v w' \<Longrightarrow> progress rank k F w w'"
  by (simp add: progress_def)

lemma progress_ranked: "progress rank k F w w' \<Longrightarrow> ranked rank F w' = ranked rank F w"
  by (simp add: progress_def ranked_def own_names_def)

lemma drive_progress:
  assumes calm: "calm_call call" "calm_factory factory"
    and w: "at_rest F w" "ranked rank F w" "f \<in> F" "k \<le> fiber_rank rank w f"
    and run: "drive factory call f force w = Some (r, w')" "r \<noteq> Panic"
  shows "progress rank k F w w' \<and> \<not> needs_reconciliation w' f"
proof -
  have lock: "respects_lock_call g call" "respects_lock_factory g factory" for g
    using calm by (simp_all add: calm_call_def calm_factory_def respectful_call_def respectful_factory_def)
  have ok: "fiber_ok f w" "\<not> fb_dispose_requested (fiber_at w f)" using w(1,3) by (simp_all add: at_rest_def)
  have names: "i \<in> own_names w g \<Longrightarrow> g \<in> F \<Longrightarrow> rank i < fiber_rank rank w g" for i g
    using w(2) by (auto simp: ranked_def)
  have "cd_id (fiber_capability w f) \<notin> own_names w f" using names w(3) by blast
  note settled = drive_settles [OF calm ok this run(1)]
  have step: "driven_step f w w'" by (rule settled(1))
  have rest: "fiber_ok g w'" if "g \<in> F" for g
    using settled(2) [OF run(2)] drive_keeps [OF _ lock(1,1,2,2) ok(1) run(1), of g] fiber_ok_keeps [of g w w'] w(1) that
    by (cases "g = f") (auto simp: at_rest_def)
  have same: "plugin_part (fiber_at w' g) = plugin_part (fiber_at w g)" for g
    using step by (cases "g = f") (simp_all add: driven_step_def fiber_at_def)
  have "at_rest F w'" using w(1) rest same by (simp add: at_rest_def plugin_part_def)
  moreover have "fiber_capability w' g = fiber_capability w g" for g
    using same [of g] by (simp add: plugin_part_def fiber_capability_def)
  moreover have "fiber_alive w' g = fiber_alive w g" for g
    using step fiber_okD(1) [OF ok(1)] by (cases "g = f") (auto simp: driven_step_def in_place_def)
  moreover have "\<not> needs_reconciliation w' g"
    if "g \<in> F" "fiber_rank rank w g \<le> k" "\<not> needs_reconciliation w g" for g
  proof (cases "g = f")
    case True
    with settled(2) [OF run(2)] show ?thesis by simp
  next
    case False
    have "cd_id (fiber_capability w f) \<notin> own_names w g" using names [OF _ that(1)] that(2) w(4) by fastforce
    with driven_needs [OF step _ False] that(3) show ?thesis by simp
  qed
  ultimately show ?thesis using step settled(2) [OF run(2)] by (simp add: progress_def driven_step_def)
qed

definition calm_others :: "('d, 'v, 'f) other_tasks \<Rightarrow> bool" where
  "calm_others others \<longleftrightarrow> (\<forall>f w. others f w = w)"

definition settled_below :: "(ident \<Rightarrow> nat) \<Rightarrow> nat \<Rightarrow> fiber_id set \<Rightarrow> ('d, 'v, 'f) semantic_world \<Rightarrow> bool" where
  "settled_below rank k F w \<longleftrightarrow> (\<forall>f \<in> F. fiber_rank rank w f < k \<longrightarrow> \<not> needs_reconciliation w f)"

lemma settled_below_progress: "progress rank k F w w' \<Longrightarrow> settled_below rank k F w \<Longrightarrow> settled_below rank k F w'"
  by (simp add: progress_def settled_below_def)

lemma reconcile_pass_progress:
  assumes calm: "calm_call call" "calm_factory factory" "calm_others others"
    and "at_rest F w" "ranked rank F w" "settled_below rank k F w" "set fs \<subseteq> F"
  shows "\<exists>r w'. reconcile_pass factory call others fs drove report w = Some (r, w') \<and>
    (r \<noteq> Panic \<longrightarrow> (\<exists>x. r = Ok x) \<and> progress rank k F w w' \<and>
       (\<forall>f \<in> set fs. fiber_rank rank w f \<le> k \<longrightarrow> \<not> needs_reconciliation w' f))"
  using assms(4-7)
proof (induction fs arbitrary: drove report w)
  case Nil
  then show ?case by (simp add: progress_refl)
next
  case (Cons f fs)
  have f: "f \<in> F" "set fs \<subseteq> F" using Cons.prems(4) by simp_all
  show ?case
  proof (cases "needs_reconciliation w f")
    case False
    from Cons.IH [OF Cons.prems(1-3) f(2), of drove report] obtain r w' where
      ih: "reconcile_pass factory call others fs drove report w = Some (r, w')"
        "r \<noteq> Panic \<longrightarrow> (\<exists>x. r = Ok x) \<and> progress rank k F w w' \<and>
           (\<forall>f \<in> set fs. fiber_rank rank w f \<le> k \<longrightarrow> \<not> needs_reconciliation w' f)" by blast
    from ih(2) False f(1) show ?thesis
      by (intro exI [of _ r] exI [of _ w']) (auto simp: ih(1) False progress_def)
  next
    case True
    have ok: "fiber_ok f w" "aligned (fb_context (fiber_at w f))" using Cons.prems(1) f(1) by (simp_all add: at_rest_def)
    have "quiet_call call" "quiet_factory factory" "respects_lock_factory f factory" "respects_lock_call f call"
      using calm by (simp_all add: calm_call_def calm_factory_def respectful_call_def respectful_factory_def)
    from quiet_drive_returns [OF this ok] obtain q v where q: "drive factory call f False w = Some (q, v)" by blast
    have await: "await_stable factory call f (others f w) = Some (q, v)"
      using q calm(3) by (simp add: await_stable_def start_fiber_def calm_others_def)
    show ?thesis
    proof (cases "q = Panic")
      case True
      with \<open>needs_reconciliation w f\<close> await show ?thesis by (simp add: Let_def)
    next
      case False
      have "k \<le> fiber_rank rank w f"
        using Cons.prems(3) True f(1) by (auto simp: settled_below_def not_less [symmetric])
      note p = drive_progress [OF calm(1,2) Cons.prems(1,2) f(1) this q False]
      then have progress: "progress rank k F w v" "\<not> needs_reconciliation v f" by simp_all
      obtain report1 where report1: "reconcile_pass factory call others (f # fs) drove report w =
          reconcile_pass factory call others fs True report1 v"
        using False True await by (cases q) (auto simp: Let_def)
      have v: "at_rest F v" "ranked rank F v" "settled_below rank k F v"
        using progress(1) Cons.prems(2,3) progress_ranked [OF progress(1)] settled_below_progress [OF progress(1)]
        by (simp_all add: progress_def)
      from Cons.IH [OF v f(2), of True report1] obtain r w' where
        ih: "reconcile_pass factory call others fs True report1 v = Some (r, w')"
          "r \<noteq> Panic \<longrightarrow> (\<exists>x. r = Ok x) \<and> progress rank k F v w' \<and>
             (\<forall>f \<in> set fs. fiber_rank rank v f \<le> k \<longrightarrow> \<not> needs_reconciliation w' f)" by blast
      have "(\<exists>x. r = Ok x) \<and> progress rank k F w w' \<and>
          (\<forall>f \<in> set (f # fs). fiber_rank rank w f \<le> k \<longrightarrow> \<not> needs_reconciliation w' f)" if "r \<noteq> Panic"
        using that ih(2) progress f(1) progress_trans [OF progress(1)] by (auto simp: progress_def)
      with ih(1) report1 show ?thesis by (intro exI [of _ r] exI [of _ w']) auto
    qed
  qed
qed

lemma reconcile_pass_settled:
  "(\<And>f. f \<in> set fs \<Longrightarrow> \<not> needs_reconciliation w f) \<Longrightarrow>
   reconcile_pass factory call others fs drove report w = Some (Ok (drove, report), w)"
  by (induction fs) simp_all

lemma at_rest_watched_write: "at_rest F w \<Longrightarrow> at_rest F (watched_write rr A w)"
  using fiber_ok_keeps [OF keeps_watched_write [of _ w rr A]] by (simp add: at_rest_def)

subsection \<open>The loop\<close>

text \<open>Every pass that drives a fiber settles one more rank, so the loop ends with the largest rank.\<close>

lemma reconcile_loop_returns:
  assumes calm: "calm_call call" "calm_factory factory" "calm_others others"
    and F: "F = {f. f |\<in>| watched_fibers rr w \<and> fiber_alive w f}"
    and "at_rest F w" "ranked rank F w" "settled_below rank k F w" "\<And>f. f \<in> F \<Longrightarrow> fiber_rank rank w f < n"
  shows "\<exists>r w'. reconcile_loop factory call others rr report w = Some (r, w') \<and>
    (r \<noteq> Panic \<longrightarrow> (\<exists>report'. r = Ok report') \<and> F = {f. f |\<in>| watched_fibers rr w' \<and> fiber_alive w' f})"
  using assms(4-8)
proof (induction "n - k" arbitrary: k report w rule: less_induct)
  case less
  obtain fs w1 where s: "snapshot_fibers rr w = (fs, w1)" by fastforce
  note snap = snapshot_fibers_result [OF s]
  have fs: "set fs = F" using snap(1) less.prems(1) by simp
  have same: "fiber_capability w1 f = fiber_capability w f" "needs_reconciliation w1 f = needs_reconciliation w f"
    "fiber_alive w1 f = fiber_alive w f" for f
    by (simp_all add: snap(4) fiber_capability_def)
  have w1: "at_rest F w1" "ranked rank F w1" "settled_below rank k F w1"
    using less.prems(2-4) same by (simp_all add: snap(4) at_rest_watched_write ranked_def own_names_def settled_below_def)
  obtain r w2 where pass: "reconcile_pass factory call others fs False report w1 = Some (r, w2)"
    "r \<noteq> Panic \<Longrightarrow> (\<exists>x. r = Ok x) \<and> progress rank k F w1 w2 \<and>
       (\<forall>f \<in> set fs. fiber_rank rank w1 f \<le> k \<longrightarrow> \<not> needs_reconciliation w2 f)"
    using reconcile_pass_progress [OF calm w1, of fs False report] fs by blast
  show ?case
  proof (cases r)
    case (Ok x)
    obtain drove report1 where x: "x = (drove, report1)" by fastforce
    have p: "progress rank k F w1 w2" and settled: "\<forall>f \<in> F. fiber_rank rank w1 f \<le> k \<longrightarrow> \<not> needs_reconciliation w2 f"
      using pass(2) Ok fs by auto
    have "watched_fibers rr w2 = fset_of_list fs"
      using p snap(4) by (simp add: progress_def watched_fibers_def watched_write_def)
    then have F2: "F = {f. f |\<in>| watched_fibers rr w2 \<and> fiber_alive w2 f}"
      using p fs same less.prems(1) by (auto simp: progress_def fset_of_list.rep_eq)
    show ?thesis
    proof (cases drove)
      case False
      with s pass(1) Ok x F2 show ?thesis by (subst reconcile_loop.simps) simp
    next
      case True
      have "k < n"
      proof (rule ccontr)
        assume "\<not> k < n"
        then have "\<not> needs_reconciliation w1 f" if "f \<in> set fs" for f
          using w1(3) less.prems(5) that fs same by (fastforce simp: settled_below_def)
        from reconcile_pass_settled [OF this] pass(1) Ok x True show False by simp
      qed
      have "settled_below rank (Suc k) F w2" using settled p by (auto simp: settled_below_def progress_def)
      moreover have "fiber_rank rank w2 f < n" if "f \<in> F" for f
        using less.prems(5) [OF that] p same by (simp add: progress_def)
      moreover have "at_rest F w2" "ranked rank F w2"
        using p progress_ranked [OF p] w1(2) by (simp_all add: progress_def)
      ultimately have "\<exists>r w'. reconcile_loop factory call others rr report1 w2 = Some (r, w') \<and>
          (r \<noteq> Panic \<longrightarrow> (\<exists>report'. r = Ok report') \<and> F = {f. f |\<in>| watched_fibers rr w' \<and> fiber_alive w' f})"
        using \<open>k < n\<close> by (intro less.hyps [of "Suc k", OF _ F2]) simp_all
      with s pass(1) Ok x True show ?thesis by (subst reconcile_loop.simps) simp
    qed
  next
    case (Err u)
    with pass(2) show ?thesis by simp
  next
    case Panic
    with s pass(1) show ?thesis by (subst reconcile_loop.simps) simp
  qed
qed

subsection \<open>A withdrawal returns\<close>

lemma remove_local_not_Panic: "remove_local s i g w \<noteq> (Panic, w')"
  by (auto simp: remove_local_def act_bind_def withdraw_def split: option.splits)

lemma unload_release_Ok: "\<exists>errors' u. unload_release f detached errors v = (Ok errors', u)"
proof (cases "fb_handle (fiber_at v f)")
  case (Some h)
  obtain p sc where p: "remove_local (cx_scope (fb_context (fiber_at v f))) (h_id h) (h_generation h) (sm_scopes v) = (p, sc)"
    by fastforce
  then have "p \<noteq> Panic" using remove_local_not_Panic by metis
  with Some p show ?thesis by (cases p) (simp_all add: unload_release_def Let_def)
qed (simp add: unload_release_def)

lemma withdrawal_returns:
  assumes "quiet_call call" "fiber_ok f w"
  shows "\<exists>s w'. withdrawal_locked call f detached w = Some (Ok s, w')"
proof -
  have "heap_ok (set_state f FiberUnloading w)" using assms(2) by (simp add: set_state_def fiber_ok_def in_place_def)
  from quiet_dispose [OF assms(1) this] obtain errors v where
    v: "effect_dispose_all call (fb_effects (fiber_at w f)) (set_state f FiberUnloading w) = Some (Ok errors, v)"
    by metis
  obtain errors' u where "unload_release f detached errors v = (Ok errors', u)" using unload_release_Ok by blast
  with v have "unload call f detached w = Some (Ok errors', u)" by (simp add: unload_def with_errors_def)
  then show ?thesis by (simp add: withdrawal_locked_def with_errors_def Let_def)
qed

lemma withdraw_each_returns:
  assumes "quiet_call call" "respectful_call call" "respectful_others others"
    and "\<And>f. f \<in> S \<Longrightarrow> fiber_ok f w" "set fs \<subseteq> S"
  shows "\<exists>report' w'. withdraw_each call others retired fs report w = Some (Ok report', w')"
  using assms(4,5)
proof (induction fs arbitrary: report w)
  case (Cons f fs)
  let ?v = "others f (notify_dependency_change f w)"
  have v: "keeps g w ?v" for g
    using assms(3) requests_keep(1) [of g w f] unfolding respectful_others_def by (blast intro: keeps_trans)
  have ok: "fiber_ok g ?v" if "g \<in> S" for g using fiber_ok_keeps [OF v] Cons.prems(1) that by blast
  have f: "f \<in> S" "set fs \<subseteq> S" using Cons.prems(2) by simp_all
  obtain s u where run: "withdrawal_locked call f (if retired_publication w f retired then Some retired else None) ?v =
      Some (Ok s, u)"
    using withdrawal_returns [OF assms(1) ok [OF f(1)]] by blast
  have lock: "respects_lock_call g call" for g using assms(2) by (simp add: respectful_call_def)
  have "fiber_ok g u" if "g \<in> S" for g
    using withdrawal_result(1) [OF lock ok [OF f(1)] run] withdrawal_keeps [OF _ lock ok [OF f(1)] run, of g]
      fiber_ok_keeps [of g ?v u] ok [OF that] by (cases "g = f") auto
  from Cons.IH [OF this f(2), of "append_cleanup_failure u f (report_driven f report)"] show ?case
    by (simp add: run Let_def)
qed simp

text \<open>Nobody publishes while a withdrawal runs, unless another task does.\<close>

lemma withdraw_unpublishes:
  assumes "withdraw s i g w = (r, w')"
  shows "get_local w t j = None \<Longrightarrow> get_local w' t j = None" "r = Ok h \<Longrightarrow> get_local w' s i = None"
  using assms by (auto simp: withdraw_def get_local_def is_open_def split: if_splits option.splits)

lemma remove_local_unpublishes:
  "remove_local s i g w = (r, w') \<Longrightarrow> get_local w t j = None \<Longrightarrow> get_local w' t j = None"
  by (auto simp: remove_local_def act_bind_def split: prod.splits res.splits intro: withdraw_unpublishes(1))

lemma unload_finish_scopes: "sm_scopes (unload_finish f w) = sm_scopes w"
  by (simp add: unload_finish_def effect_scope_new_def set_state_def)

lemma unload_release_unpublishes:
  assumes "unload_release f detached errors v = (r, w')" "get_local (sm_scopes v) t j = None"
  shows "get_local (sm_scopes w') t j = None"
  using assms
  by (auto simp: unload_release_def Let_def set_state_def unload_finish_scopes
      split: option.splits res.splits prod.splits if_splits intro: remove_local_unpublishes)

lemma withdrawal_unpublishes:
  assumes "quiet_call call" "fiber_ok f w" "withdrawal_locked call f detached w = Some (r, w')"
    and "get_local (sm_scopes w) t j = None"
  shows "get_local (sm_scopes w') t j = None"
proof -
  have "heap_ok (set_state f FiberUnloading w)" using assms(2) by (simp add: set_state_def fiber_ok_def in_place_def)
  from quiet_dispose [OF assms(1) this] obtain errors v where
    v: "effect_dispose_all call (fb_effects (fiber_at w f)) (set_state f FiberUnloading w) = Some (Ok errors, v)"
      "sm_scopes v = sm_scopes (set_state f FiberUnloading w)"
    by metis
  obtain errors' u where u: "unload_release f detached errors v = (Ok errors', u)" using unload_release_Ok by blast
  with v(1) have "unload call f detached w = Some (Ok errors', u)" by (simp add: unload_def with_errors_def)
  moreover have "get_local (sm_scopes u) t j = None" using unload_release_unpublishes [OF u] v(2) assms(4) by (simp add: set_state_def)
  ultimately show ?thesis
    using assms(3,4) by (auto simp: withdrawal_locked_def with_errors_def Let_def set_cleanup_errors_def split: if_splits)
qed

lemma withdraw_each_unpublishes:
  assumes "quiet_call call" "respectful_call call" "respectful_others others" "\<And>f u. sm_scopes (others f u) = sm_scopes u"
    and "withdraw_each call others retired fs report w = Some (Ok report', w')"
    and "\<And>f. f \<in> S \<Longrightarrow> fiber_ok f w" "set fs \<subseteq> S" "get_local (sm_scopes w) t j = None"
  shows "get_local (sm_scopes w') t j = None"
  using assms(5-8)
proof (induction fs arbitrary: report w)
  case (Cons f fs)
  let ?v = "others f (notify_dependency_change f w)"
  have v: "keeps g w ?v" for g
    using assms(3) requests_keep(1) [of g w f] unfolding respectful_others_def by (blast intro: keeps_trans)
  have ok: "fiber_ok g ?v" if "g \<in> S" for g using fiber_ok_keeps [OF v] Cons.prems(2) that by blast
  have f: "f \<in> S" "set fs \<subseteq> S" using Cons.prems(3) by simp_all
  obtain r u where run: "withdrawal_locked call f (if retired_publication w f retired then Some retired else None) ?v = Some (Ok r, u)"
    using withdrawal_returns [OF assms(1) ok [OF f(1)]] by blast
  have lock: "respects_lock_call g call" for g using assms(2) by (simp add: respectful_call_def)
  have "fiber_ok g u" if "g \<in> S" for g
    using withdrawal_result(1) [OF lock ok [OF f(1)] run] withdrawal_keeps [OF _ lock ok [OF f(1)] run, of g]
      fiber_ok_keeps [of g ?v u] ok [OF that] by (cases "g = f") auto
  moreover have "get_local (sm_scopes u) t j = None"
    using withdrawal_unpublishes [OF assms(1) ok [OF f(1)] run] Cons.prems(4) assms(4)
    by (simp add: notify_dependency_change_def)
  moreover have "withdraw_each call others retired fs (append_cleanup_failure u f (report_driven f report)) u = Some (Ok report', w')"
    using Cons.prems(1) run by (simp add: Let_def)
  ultimately show ?case using Cons.IH f(2) by blast
qed simp

end
