(* ===== verification/Reactive_Dates.thy ===== *)
theory Reactive_Dates
  imports Reactive_Laws
begin

text \<open>
  Publications are dated: the entry identity of what a fiber publishes is larger than those of the
  providers it was loaded for.  Every drive keeps this, so the bindings of fibers never form a cycle
  and the order of a withdrawal is that of the longest chains.
\<close>

subsection \<open>Dated publications\<close>

definition old_pins :: "'v capability_handle \<Rightarrow> bool" where
  "old_pins h \<longleftrightarrow>
     (\<forall>i p. fmlookup (db_pins (binding_of (h_dependencies h))) i = Some p \<longrightarrow>
        unat (entry_id_get (dp_entry_id p)) < unat (entry_id_get (h_entry_id h)))"

definition dated :: "('d, 'v, 'f) semantic_world \<Rightarrow> bool" where
  "dated w \<longleftrightarrow>
     scope_inv (sm_scopes w) \<and>
     (\<forall>f x h. fmlookup (sm_fibers w) f = Some x \<longrightarrow> fb_handle x = Some h \<longrightarrow> old_pins h)"

text \<open>The fiber at hand is held by whoever drives it.\<close>

definition dated_at :: "fiber_id \<Rightarrow> ('d, 'v, 'f) semantic_world \<Rightarrow> bool" where
  "dated_at f w \<longleftrightarrow> dated w \<and> fiber_alive w f"

definition dates_call :: "('d, 'v, 'f) disposer_call \<Rightarrow> bool" where
  "dates_call call \<longleftrightarrow> (\<forall>d w. dated w \<longrightarrow> dated (snd (call d w)))"

definition dates_factory :: "('d, 'v, 'f) factory_call \<Rightarrow> bool" where
  "dates_factory factory \<longleftrightarrow> (\<forall>k lc w. dated w \<longrightarrow> dated (snd (factory k lc w)))"

lemma dated_cong: "sm_scopes w' = sm_scopes w \<Longrightarrow> sm_fibers w' = sm_fibers w \<Longrightarrow> dated w' = dated w"
  by (simp add: dated_def)

lemma dated_at_cong: "sm_scopes w' = sm_scopes w \<Longrightarrow> sm_fibers w' = sm_fibers w \<Longrightarrow> dated_at f w' = dated_at f w"
  by (simp add: dated_at_def dated_def)

lemma dated_at_update:
  assumes "dated_at f w"
    "\<And>h. fb_handle (g (fiber_at w f)) = Some h \<Longrightarrow> fb_handle (fiber_at w f) = Some h \<or> old_pins h"
  shows "dated_at f (fiber_update f g w)"
proof -
  obtain x where x: "fmlookup (sm_fibers w) f = Some x" using assms(1) by (auto simp: dated_at_def)
  with assms show ?thesis by (auto simp: dated_at_def dated_def fiber_at_def)
qed

lemma dated_at_scopes: "dated_at f w \<Longrightarrow> scope_inv sc \<Longrightarrow> dated_at f (w\<lparr>sm_scopes := sc\<rparr>)"
  by (simp add: dated_at_def dated_def)

lemma dated_at_new: "dated_at f w \<Longrightarrow> effect_scope_new w = (s, w') \<Longrightarrow> dated_at f w'"
  using dated_at_cong [of w' w f] effect_scope_new_world(2,4) [of w s w'] by simp

lemma dated_at_scope_inv: "dated_at f w \<Longrightarrow> scope_inv (sm_scopes w)"
  by (simp add: dated_at_def dated_def)

subsection \<open>Disposals and unloading\<close>

text \<open>A property of the world that the callbacks and the effect stacks respect.\<close>

lemma run_effects_invariant:
  assumes call: "\<And>d w. P w \<Longrightarrow> P (snd (call d w))" and stack: "\<And>s st w. P w \<Longrightarrow> P (stack_write s st w)"
    and run: "run_effects call es errors w = Some (r, w')" and "P w"
  shows "P w'"
proof -
  from run have "P w \<longrightarrow> P (snd (r, w'))"
  proof (induction rule: run_effects_induct)
    case (disposed es errors w r d q v)
    have "P v" if "P w"
      using disposed(3) call [OF that] stack [OF that] by (cases d) (auto simp: shut_def, metis snd_conv)
    with disposed(4) show ?case by (auto split: res.splits)
  qed simp_all
  with assms(4) show ?thesis by simp
qed

lemma dispose_all_dated:
  fixes w :: "('d, 'v, 'f) semantic_world"
  assumes "respects_lock_call f call" "dates_call call" "effect_dispose_all call s w = Some (r, w')" "dated_at f w"
  shows "dated_at f w'"
proof -
  have stack: "dated_at f (stack_write t st u) = dated_at f u" for t st and u :: "('d, 'v, 'f) semantic_world" by (rule dated_at_cong) simp_all
  obtain taken st where "run_effects call taken [] (stack_write s st w) = Some (r, w')"
    using assms(3) by (auto simp: effect_dispose_all_def split: prod.splits)
  then show ?thesis
  proof (rule run_effects_invariant [rotated 2])
    show "dated_at f (snd (call d u))" if "dated_at f u" for d u
      using assms(1,2) that unfolding dated_at_def respects_lock_call_def dates_call_def keeps_def by blast
  qed (use stack assms(4) in simp_all)
qed

lemma unload_finish_dated: "dated_at f w \<Longrightarrow> dated_at f (unload_finish f w)"
proof -
  assume w: "dated_at f w"
  let ?w = "fiber_update f (\<lambda>x. x\<lparr>fb_dependency_epoch := None, fb_loading_binding := None\<rparr>) w"
  obtain s u where new: "effect_scope_new ?w = (s, u)" by fastforce
  have "dated_at f u" by (rule dated_at_new [OF dated_at_update [OF w] new]) simp
  then show ?thesis by (auto simp: unload_finish_def new set_state_def intro!: dated_at_update)
qed

lemma remove_local_scope_inv: "scope_inv w \<Longrightarrow> remove_local s i g w = (r, w') \<Longrightarrow> scope_inv w'"
  by (auto simp: remove_local_def act_bind_def split: prod.splits res.splits
      intro: scope_inv_step [OF scope_change.withdrawal])
    (auto simp: withdraw_def split: if_splits option.splits)

lemma unload_dated:
  assumes "respects_lock_call f call" "dates_call call" "dated_at f w" "unload call f detached w = Some (r, w')"
  shows "dated_at f w'"
proof -
  have start: "dated_at f (set_state f FiberUnloading w)"
    unfolding set_state_def using assms(3) by (rule dated_at_update) simp
  note disposed = dispose_all_dated [OF assms(1,2) _ start]
  have released: "dated_at f u" if v: "dated_at f v" and u: "unload_release f detached errors v = (q, u)" for errors v q u
  proof (cases "fb_handle (fiber_at v f)")
    case None
    with u v show ?thesis by (auto simp: unload_release_def intro: unload_finish_dated)
  next
    case (Some h)
    define v1 where "v1 = fiber_update f (\<lambda>x. x\<lparr>fb_handle := None\<rparr>) v"
    have v1: "dated_at f v1" unfolding v1_def using v by (rule dated_at_update) simp
    obtain p sc where p: "remove_local (cx_scope (fb_context (fiber_at v f))) (h_id h) (h_generation h)
        (sm_scopes v) = (p, sc)" by fastforce
    have "scope_inv sc" by (rule remove_local_scope_inv [OF dated_at_scope_inv [OF v] p])
    with v1 have sc: "dated_at f (v1\<lparr>sm_scopes := sc\<rparr>)" by (rule dated_at_scopes)
    let ?e = "set_state f FiberPending (fiber_update f (\<lambda>x. x\<lparr>fb_dependency_epoch := None\<rparr>) (v1\<lparr>sm_scopes := sc\<rparr>))"
    have "dated_at f ?e" unfolding set_state_def using sc by (intro dated_at_update) simp_all
    moreover have "u = unload_finish f v1 \<or> u = unload_finish f (v1\<lparr>sm_scopes := sc\<rparr>) \<or> u = ?e \<or> u = v1\<lparr>sm_scopes := sc\<rparr>"
      using u Some p by (cases p) (auto simp: unload_release_def Let_def v1_def split: if_splits)
    ultimately show ?thesis using v1 sc unload_finish_dated by metis
  qed
  from assms(4) show ?thesis
    unfolding unload_def with_errors_Some using disposed released by (metis option.inject)
qed

subsection \<open>A load publishes with a new date\<close>

lemma binding_of_lookup:
  "fmlookup (db_pins (binding_of hs)) i =
     map_option (\<lambda>h. \<lparr>dp_generation = h_generation h, dp_entry_id = h_entry_id h\<rparr>) (deps_get hs i)"
  by (simp add: binding_of_def fmlookup_of_list map_of_map deps_get_def)

lemma provide_value_dated:
  assumes run: "provide_value s d hs v w = (r, w')" and inv: "scope_inv w"
    and keys: "map fst hs = map dep_id (bs_list (cd_dependencies d))"
  shows "scope_inv w' \<and> (\<forall>h. r = Ok h \<longrightarrow> old_pins h)"
proof (cases "\<exists>h. r = Ok h")
  case True
  then obtain h where h: "r = Ok h" ..
  with run have "publish_preconstructed s d New hs v w = (Ok h, w')"
    by (auto simp: provide_value_def split: res.splits)
  then obtain g e where p: "admissible w s d New hs g" "ce_entry_id e = EntryId (sw_next_entry_id w)"
    "ce_dependencies e = hs" "h = entry_handle e" "publish_preconstructed s d New hs v w = (Ok h, w')"
    by (metis publishedE)
  have "old_pins h"
    unfolding old_pins_def
  proof (intro allI impI)
    fix i p
    assume "fmlookup (db_pins (binding_of (h_dependencies h))) i = Some p"
    then obtain x where x: "deps_get hs i = Some x" "dp_entry_id p = h_entry_id x"
      by (auto simp: binding_of_lookup \<open>h = entry_handle e\<close> entry_handle_def p(3))
    have "i \<in> fst ` set hs" using x(1) by (force simp: deps_get_def dest: map_of_SomeD)
    also have "fst ` set hs = dep_id ` fset (cd_dependencies d)"
      using arg_cong [OF keys, of set] by simp
    finally have "Dependency i |\<in>| cd_dependencies d" by (metis dependency.collapse imageE)
    with p(1) x(1) obtain c where "scope_get w s i = Some c" "h_entry_id c = h_entry_id x"
      unfolding admissible_def snapshot_current_def by fastforce
    then obtain a e' where "entry_at w a i = Some e'" "ce_entry_id e' = h_entry_id x"
      using scope_get_entry [of w s i c] by (auto simp: entry_handle_def)
    then have "unat (entry_id_get (h_entry_id x)) < next_id w"
      using scope_invD(4) [OF inv] unfolding ids_below_def by metis
    then show "unat (entry_id_get (dp_entry_id p)) < unat (entry_id_get (h_entry_id h))"
      by (simp add: x(2) p(2,4) entry_handle_def)
  qed
  with scope_inv_step [OF scope_change.publication [OF p(5)] inv] h show ?thesis by simp
next
  case False
  with run have "w' = w"
    by (cases r) (auto simp: provide_value_def publish_preconstructed_def Let_def split: res.splits option.splits)
  with False inv show ?thesis by simp
qed

text \<open>The dependencies that a load passes on are those the capability declares.\<close>

definition declared ::
  "('d, 'v, 'f) semantic_world \<Rightarrow> fiber_id \<Rightarrow> 'v resolved_dependencies \<Rightarrow> bool" where
  "declared w f hs \<longleftrightarrow> map fst hs = map dep_id (bs_list (cd_dependencies (fiber_capability w f)))"

lemma load_publish_dated:
  assumes foreign: "respects_lock_call f call" "dates_call call" and w: "dated_at f w" "declared w f dependencies"
    and run: "load_publish call f dependencies effects v w = Some (r, w')"
  shows "dated_at f w'"
proof -
  obtain q sc where q: "provide_value (cx_scope (fb_context (fiber_at w f))) (fiber_capability w f)
      dependencies v (sm_scopes w) = (q, sc)" by fastforce
  note dated = provide_value_dated [OF q dated_at_scope_inv [OF w(1)] w(2) [unfolded declared_def]]
  have sc: "dated_at f (w\<lparr>sm_scopes := sc\<rparr>)" using w(1) dated by (simp add: dated_at_scopes)
  note disposed = dispose_all_dated [OF foreign _ sc]
  show ?thesis
  proof (cases q)
    case (Ok h)
    with run q dated have "w' = fiber_update f (\<lambda>x. x\<lparr>fb_handle := Some h,
        fb_dependency_epoch := Some (epoch_of (fb_requested_epoch (fiber_at w f)) dependencies),
        fb_loading_binding := None, fb_state := fiber_state_as_raw FiberActive\<rparr>) (w\<lparr>sm_scopes := sc\<rparr>)" "old_pins h"
      by (auto simp: load_publish_def Let_def fiber_setters)
    then show ?thesis using sc by (auto intro!: dated_at_update)
  next
    case (Err e)
    with run q show ?thesis
      by (cases e) (auto simp: load_publish_def fiber_setters with_errors_Some dest!: disposed intro!: dated_at_update)
  next
    case Panic
    with run q sc show ?thesis by (auto simp: load_publish_def)
  qed
qed

lemma load_settle_dated:
  assumes foreign: "respects_lock_call f call" "dates_call call" and w: "dated_at f w" "declared w f dependencies"
    and run: "load_settle call f epoch dependencies effects result w = Some (r, w')"
  shows "dated_at f w'"
proof -
  note disposed = dispose_all_dated [OF foreign _ w(1)]
  show ?thesis
    using run load_publish_dated [OF foreign w] w(1)
    by (auto simp: load_settle_def Let_def fiber_setters with_errors_Some dest!: disposed
        intro!: dated_at_update split: res.splits if_splits)
qed

lemma drive_iteration_dated:
  assumes foreign: "respects_lock_call f call" "dates_call call" "respects_lock_factory f factory" "dates_factory factory"
    and w: "fiber_ok f w" "dated w" and run: "drive_iteration factory call f force w = Some (r, w')"
  shows "dated_at f w'"
proof (cases "resolve_fiber w f")
  case (Ok dependencies)
  let ?epoch = "epoch_of (fb_requested_epoch (fiber_at w f)) dependencies"
  have start: "dated_at f w" using w by (simp add: dated_at_def fiber_ok_def in_place_def)
  have declared: "declared w f dependencies"
    using Ok by (simp add: declared_def resolve_fiber_def resolved_by_context)
  have load: "dated_at f w'" if vacant: "vacant (fiber_at w f)"
    and run: "load_attempt factory call f ?epoch dependencies w = Some (r, w')"
  proof -
    obtain lc w1 where b: "load_begin f ?epoch dependencies w = (lc, w1)" by fastforce
    obtain q w2 where q: "factory (pd_factory (fb_definition (fiber_at w1 f))) lc w1 = (q, w2)" by fastforce
    note l = load_begin_loading [OF fiber_okD(1) [OF w(1)] vacant b]
    have keeps: "keeps f w1 w2" using foreign(3) q unfolding respects_lock_factory_def by (metis snd_conv)
    have "dated_at f w1"
    proof -
      obtain s v where new: "effect_scope_new (set_state f FiberLoading w) = (s, v)" by fastforce
      have "dated_at f v"
        by (rule dated_at_new [OF _ new]) (use start in \<open>auto simp: set_state_def intro!: dated_at_update\<close>)
      then show ?thesis
        using b new by (auto simp: load_begin_def Let_def fiber_setters intro!: dated_at_update)
    qed
    then have "dated_at f w2"
      using foreign(4) q keeps unfolding dated_at_def dates_factory_def keeps_def by (metis snd_conv)
    moreover have "declared w2 f dependencies"
    proof -
      have "fb_definition (fiber_at w2 f) = fb_definition (fiber_at w1 f)"
        using keepsD(10) [OF keeps] l by (auto simp: loading_def in_place_def)
      with l declared show ?thesis by (simp add: declared_def fiber_capability_def same_plugin_def)
    qed
    moreover have "load_settle call f ?epoch dependencies (lc_effects lc) q w2 = Some (r, w')"
      using run b q by (simp add: load_attempt_def)
    ultimately show ?thesis by (rule load_settle_dated [OF foreign(1,2)])
  qed
  have "vacant (fiber_at w f)" if "fiber_state w f \<noteq> FiberActive"
    using w(1) that by (auto simp: fiber_ok_def Let_def split: fiber_state.splits)
  with run Ok load start show ?thesis
    by (auto simp: drive_iteration_def Let_def with_errors_Some fiber_setters
        intro!: dated_at_update dest: unload_dated [OF foreign(1,2) start] split: if_splits)
next
  case (Err e)
  have start: "dated_at f w" using w by (simp add: dated_at_def fiber_ok_def in_place_def)
  from Err obtain i j where "e = ScopeMissingDependency i j" using resolve_fiber_Err by blast
  with run Err start show ?thesis
    by (auto simp: drive_iteration_def bind_eq_Some_conv clear_active_state_def with_errors_Some fiber_setters
        intro!: dated_at_update dest: unload_dated [OF foreign(1,2) start] split: if_splits)
next
  case Panic
  have "dated_at f w" using w by (simp add: dated_at_def fiber_ok_def in_place_def)
  with run Panic show ?thesis by (simp add: drive_iteration_def)
qed

lemma drive_loop_dated:
  fixes w :: "('d, 'v, 'f) semantic_world"
  assumes foreign: "respects_lock_call f call" "dates_call call" "respects_lock_factory f factory" "dates_factory factory"
    and w: "fiber_ok f w" "fiber_state w f \<noteq> FiberDisposed" "dated w"
    and run: "drive_loop factory call f force w = Some (r, w')"
  shows "dated w'"
proof -
  from run have "fiber_ok f w \<longrightarrow> fiber_state w f \<noteq> FiberDisposed \<longrightarrow> dated w \<longrightarrow> dated w'"
  proof (induction rule: drive_loop_induct)
    case (final w)
    with drive_iteration_dated [OF foreign _ _ final] show ?case by (simp add: dated_at_def)
  next
    case (again w v)
    with drive_iteration_dated [OF foreign _ _ again(1)] drive_iteration_post [OF foreign(1,3) _ _ again(1)]
    show ?case by (auto simp: dated_at_def drive_post_def)
  qed
  with w show ?thesis by blast
qed

lemma drive_dated:
  fixes w :: "('d, 'v, 'f) semantic_world"
  assumes foreign: "respects_lock_call f call" "dates_call call" "respects_lock_factory f factory" "dates_factory factory"
    and w: "fiber_ok f w" "dated w" and run: "drive factory call f force w = Some (r, w')"
  shows "dated w'"
  using run w(1)
proof (cases rule: driveE)
  case looped
  have "dated_at f w" using w by (simp add: dated_at_def fiber_ok_def in_place_def)
  then have "dated_at f (drive_ready f w)"
    unfolding drive_ready_def by (auto simp: fiber_setters intro!: dated_at_update)
  with drive_loop_dated [OF foreign looped(3,2) _ looped(4)] show ?thesis by (simp add: dated_at_def)
qed (use w(2) in simp)

lemma withdrawal_dated:
  assumes "respects_lock_call f call" "dates_call call" "fiber_ok f w" "dated w"
    "withdrawal_locked call f detached w = Some (r, w')"
  shows "dated w'"
proof -
  have start: "dated_at f w" using assms(3,4) by (simp add: dated_at_def fiber_ok_def in_place_def)
  have "dated_at f w'"
    using assms(5) start
    by (auto simp: withdrawal_locked_def Let_def with_errors_Some fiber_setters intro!: dated_at_update
        dest: unload_dated [OF assms(1,2) start] split: if_splits)
  then show ?thesis by (simp add: dated_at_def)
qed

lemma disposal_dated:
  assumes "respects_lock_call f call" "dates_call call" "fiber_ok f w" "dated w" "dispose_locked call f w = Some (r, w')"
  shows "dated w'"
proof -
  have start: "dated_at f w" using assms(3,4) by (simp add: dated_at_def fiber_ok_def in_place_def)
  have runtimes: "dated_at f (u\<lparr>sm_runtimes := rs\<rparr>) = dated_at f u" for u :: "('a, 'b, 'c) semantic_world" and rs
    by (rule dated_at_cong) simp_all
  have "dated_at f w'"
    using assms(5) start
    by (auto simp: dispose_locked_def Let_def with_errors_Some fiber_setters remove_fiber_def runtimes
        intro!: dated_at_update dest: unload_dated [OF assms(1,2) start] split: if_splits)
  then show ?thesis by (simp add: dated_at_def)
qed

lemma request_dated:
  assumes "dated w" "fiber_alive w f" "fb_handle (g (fiber_at w f)) = fb_handle (fiber_at w f)"
  shows "dated (fiber_update f g w)"
  using dated_at_update [of f w g] assms by (simp add: dated_at_def)

text \<open>The withdrawal of a provider, and the upkeep of a watch list.\<close>

lemma withdraw_scopes_dated:
  "dated w \<Longrightarrow> withdraw s i expected (sm_scopes w) = (Ok h, sc) \<Longrightarrow> dated (w\<lparr>sm_scopes := sc\<rparr>)"
  using scope_inv_step [OF scope_change.withdrawal] by (auto simp: dated_def)

lemma watched_write_dated [simp]: "dated (watched_write rr A w) = dated w"
  by (rule dated_cong) simp_all

subsection \<open>Providers are older than their dependents\<close>

definition publication_date :: "('d, 'v, 'f) semantic_world \<Rightarrow> fiber_id \<Rightarrow> nat" where
  "publication_date w f =
     (case fb_handle (fiber_at w f) of
        Some h \<Rightarrow> unat (entry_id_get (h_entry_id h))
      | None \<Rightarrow> 2 ^ 64)"

lemma provider_is_older:
  assumes "dated w" "fiber_ok f w"
    "(f, p) \<in> provider_edges (affected_bindings w fs A) A (provider_identities w fs)"
  shows "publication_date w p < publication_date w f"
proof -
  from assms(3) obtain b where b: "fiber_dependency_binding w f = Some b"
    "p \<in> set (binding_providers (provider_identities w fs) b)"
    by (auto simp: provider_edges_def affected_bindings_lookup split: if_splits)
  then obtain i pin where pin: "fmlookup (db_pins b) i = Some pin"
    "fmlookup (provider_identities w fs) (identity_of_pin i pin) = Some p"
    by (auto simp: set_binding_providers)
  from provider_identities_Some [OF pin(2)] obtain hp where
    hp: "fb_handle (fiber_at w p) = Some hp" "h_entry_id hp = dp_entry_id pin"
    by (auto simp: identity_of_handle_def identity_of_pin_def)
  show ?thesis
  proof (cases "fb_handle (fiber_at w f)")
    case None
    have "unat (entry_id_get (h_entry_id hp)) < 2 ^ 64" by (rule unat_u64_less)
    with None hp(1) show ?thesis by (simp add: publication_date_def)
  next
    case (Some h)
    then have "fiber_state w f = FiberActive" using fiber_okD(5) [OF assms(2)] by simp
    with assms(2) have "published (fiber_at w f)" by (simp add: fiber_ok_def Let_def)
    with Some have "fiber_binding w f = Some (binding_of (h_dependencies h))"
      by (auto simp: published_def fiber_binding_def split: option.splits)
    with b(1) have "b = binding_of (h_dependencies h)" by (simp add: fiber_dependency_binding_def)
    moreover have "old_pins h"
    proof -
      have "fmlookup (sm_fibers w) f = Some (fiber_at w f)"
        using fiber_okD(1) [OF assms(2)] by (auto simp: in_place_def fiber_at_def)
      with Some assms(1) show ?thesis unfolding dated_def by blast
    qed
    ultimately show ?thesis using pin(1) hp Some by (auto simp: old_pins_def publication_date_def)
  qed
qed

lemma withdrawal_order_dependents_first:
  assumes "dated w" "\<And>f. f \<in> set fs \<Longrightarrow> fiber_ok f w"
    "(f, p) \<in> provider_edges (affected_bindings w fs A) A (provider_identities w fs)"
  shows "comes_before (withdrawal_order w fs A (provider_identities w fs)) f p"
proof -
  have watched: "g \<in> set fs \<and> g |\<in>| A \<and> q \<in> set fs"
    if "(g, q) \<in> provider_edges (affected_bindings w fs A) A (provider_identities w fs)" for g q
    using that provider_identities_Some
    by (fastforce simp: provider_edges_def affected_bindings_lookup set_binding_providers split: if_splits)
  from watched [OF assms(3)] show ?thesis
    using provider_is_older [OF assms(1) assms(2)] watched
    by (intro withdrawal_order_deepest_first [where rank = "publication_date w", OF _ assms(3)]) blast+
qed

end
