(* ===== verification/Effect_Properties.thy ===== *)
theory Effect_Properties
  imports Effect_Laws
begin

text \<open>The order and the completeness of a disposal, and what a disposed scope does afterwards.\<close>

subsection \<open>The order of a disposal\<close>

text \<open>A world that records the callbacks, each with a fixed outcome.\<close>

record 'd effect_log = "'d effect_heap" +
  el_called :: "'d list"

definition logging :: "('d \<Rightarrow> (unit, string) res) \<Rightarrow> 'd \<Rightarrow> ('d effect_log, unit, string) act" where
  "logging outcome d w = (outcome d, w\<lparr>el_called := el_called w @ [d]\<rparr>)"

fun disposal_order :: "'d effect_tree \<Rightarrow> 'd list" where
  "disposal_order (Leaf l d) = [d]"
| "disposal_order (Branch l s ts) = concat (map disposal_order (rev ts))"

fun failures_of :: "('d \<Rightarrow> (unit, string) res) \<Rightarrow> 'd effect_tree \<Rightarrow> effect_error list" where
  "failures_of outcome (Leaf l d) =
     (case outcome d of Err reason \<Rightarrow> [DisposerFailed l reason] | _ \<Rightarrow> [])"
| "failures_of outcome (Branch l s ts) = nested_failure l (concat (map (failures_of outcome) (rev ts)))"

lemma logging_quiet: "(\<And>d. outcome d \<noteq> Panic) \<Longrightarrow> quiet_disposer (logging outcome)"
  by (simp add: quiet_disposer_def logging_def)

lemma dispose_logged:
  "call = logging outcome \<Longrightarrow> fst (dispose_tree call t w) = failures_of outcome t \<and>
     el_called (snd (dispose_tree call t w)) = el_called w @ disposal_order t"
  "call = logging outcome \<Longrightarrow>
     fst (dispose_forest call ts w) = concat (map (failures_of outcome) (rev ts)) \<and>
     el_called (snd (dispose_forest call ts w)) = el_called w @ concat (map disposal_order (rev ts))"
proof (induction call t w and call ts w rule: dispose_tree_dispose_forest.induct)
  case (1 call l d w)
  then show ?case by (simp add: logging_def)
next
  case (2 call l s ts w)
  then show ?case by (auto simp: shut_def stack_write_def split: prod.splits)
next
  case (3 call w)
  then show ?case by simp
next
  case (4 call t ts w)
  then show ?case by (auto split: prod.splits)
qed

lemma dispose_shuts:
  "quiet_disposer call \<Longrightarrow> s \<in> set (scopes_of t) \<Longrightarrow> distinct (scopes_of t) \<Longrightarrow>
   stack_at (snd (dispose_tree call t w)) s = \<lparr>es_effects = [], es_closed = True\<rparr>"
  "quiet_disposer call \<Longrightarrow> s \<in> set (scopes_of_all ts) \<Longrightarrow> distinct (scopes_of_all ts) \<Longrightarrow>
   stack_at (snd (dispose_forest call ts w)) s = \<lparr>es_effects = [], es_closed = True\<rparr>"
proof (induction call t w and call ts w rule: dispose_tree_dispose_forest.induct)
  case (2 call l r ts w)
  have "stack_at (snd (dispose_forest call ts (shut r w))) s = \<lparr>es_effects = [], es_closed = True\<rparr>"
  proof (cases "s \<in> set (scopes_of_all ts)")
    case True
    then show ?thesis using 2 by simp
  next
    case False
    with 2 have "s = r" by simp
    then show ?thesis using dispose_touches(2) [OF 2(2) False, of "shut r w"] by simp
  qed
  then show ?case by (cases "dispose_forest call ts (shut r w)") simp
next
  case (4 call t ts w)
  show ?case
  proof (cases "s \<in> set (scopes_of t)")
    case True
    with 4 show ?thesis by (auto split: prod.splits)
  next
    case False
    with 4 have "stack_at (snd (dispose_forest call ts w)) s = \<lparr>es_effects = [], es_closed = True\<rparr>" by auto
    with dispose_touches(1) [OF 4(3) False, of "snd (dispose_forest call ts w)"] show ?thesis
      by (simp add: split_beta)
  qed
qed simp_all

text \<open>
  C21: In every heap that the operations build, disposing a scope returns.  It calls every callback of
  the scope and of the scopes nested in it exactly once, the last registered first and a nested scope
  in the place of its owner's effect; no failure keeps a later callback from running; the errors are
  the failures in that order, those of a nested scope counted in one error of its owner; and exactly
  the scopes visited are closed and empty.
\<close>

theorem disposal_exact:
  assumes "effect_built w" "\<And>d. outcome d \<noteq> Panic"
  shows "\<exists>ts w'. list_all2 (stands_for w) ts (es_effects (stack_at w s)) \<and> distinct (s # scopes_of_all ts) \<and>
    effect_dispose_all (logging outcome) s w = Some (Ok (concat (map (failures_of outcome) (rev ts))), w') \<and>
    el_called w' = el_called w @ concat (map disposal_order (rev ts)) \<and>
    (\<forall>x. stack_at w' x =
       (if x = s \<or> x \<in> set (scopes_of_all ts) then \<lparr>es_effects = [], es_closed = True\<rparr> else stack_at w x))"
proof -
  note quiet = logging_quiet [of outcome, OF assms(2)]
  obtain ts where ts: "list_all2 (stands_for w) ts (es_effects (stack_at w s))" "distinct (s # scopes_of_all ts)"
    "effect_dispose_all (logging outcome) s w =
       (case dispose_forest (logging outcome) ts (shut s w) of (errors, w') \<Rightarrow> Some (Ok errors, w'))"
    by (rule dispose_all_forest [OF heap_ok_built [OF assms(1)] quiet])
  let ?r = "dispose_forest (logging outcome) ts (shut s w)"
  have "stack_at (snd ?r) x =
      (if x = s \<or> x \<in> set (scopes_of_all ts) then \<lparr>es_effects = [], es_closed = True\<rparr> else stack_at w x)" for x
    using dispose_shuts(2) [OF quiet, of x ts "shut s w"] dispose_touches(2) [OF quiet, of x ts "shut s w"] ts(2)
    by auto
  with ts dispose_logged(2) [OF refl, of outcome ts "shut s w"] show ?thesis
    by (intro exI [of _ ts] exI [of _ "snd ?r"]) (simp add: split_beta shut_def stack_write_def)
qed

text \<open>Three effects, the second a nested scope with two of its own; the callbacks 2 and 3 fail.\<close>

definition demo_effects :: "nat effect_log" where
  "demo_effects =
     (let w0 = \<lparr>eh_stacks = fmempty, eh_next = 0, el_called = []\<rparr>;
          w1 = snd (effect_scope_new w0);
          w2 = snd (effect_register (EffectScope 0) (effect_sync ''a'' 1) w1);
          w3 = snd (effect_child (EffectScope 0) ''nested'' w2);
          w4 = snd (effect_register (EffectScope 1) (effect_sync ''b'' 2) w3);
          w5 = snd (effect_register (EffectScope 1) (effect_sync ''c'' 3) w4)
      in snd (effect_register (EffectScope 0) (effect_sync ''d'' 4) w5))"

definition demo_outcome :: "nat \<Rightarrow> (unit, string) res" where
  "demo_outcome d = (if d = 2 \<or> d = 3 then Err ''busy'' else Ok ())"

lemma effect_built_registered:
  "effect_built w \<Longrightarrow> has_key (eh_stacks w) s \<Longrightarrow> effect_built (snd (effect_register s (effect_sync l d) w))"
  unfolding effect_sync_def by (blast intro: effect_built.op effect_op.register)

lemma effect_built_child:
  "effect_built w \<Longrightarrow> has_key (eh_stacks w) s \<Longrightarrow> effect_built (snd (effect_child s l w))"
  by (blast intro: effect_built.op effect_op.child)

lemmas effect_ops_eval = effect_scope_new_def effect_register_def effect_child_def effect_sync_def
  effect_asynchronous_def stack_push_def stack_take_def act_bind_def effect_stack_new_def stack_at_def
  stack_write_def

lemma demo_effects_built: "effect_built demo_effects"
  unfolding demo_effects_def Let_def
  by (intro effect_built_registered effect_built_child effect_built.op [OF effect_built.empty effect_op.new])
    (simp_all add: effect_ops_eval)

lemma demo_effects_forest:
  assumes "list_all2 (stands_for demo_effects) ts (es_effects (stack_at demo_effects (EffectScope 0)))"
  shows "ts = [Leaf ''a'' 1, Branch ''nested'' (EffectScope 1) [Leaf ''b'' 2, Leaf ''c'' 3], Leaf ''d'' 4]"
proof -
  have effects: "es_effects (stack_at demo_effects (EffectScope 0)) =
      [\<lparr>se_label = ''a'', se_disposer = Some (Foreign 1)\<rparr>,
       \<lparr>se_label = ''nested'', se_disposer = Some (DisposeScope (EffectScope 1))\<rparr>,
       \<lparr>se_label = ''d'', se_disposer = Some (Foreign 4)\<rparr>]"
    "es_effects (stack_at demo_effects (EffectScope 1)) =
      [\<lparr>se_label = ''b'', se_disposer = Some (Foreign 2)\<rparr>,
       \<lparr>se_label = ''c'', se_disposer = Some (Foreign 3)\<rparr>]"
    by (simp_all add: demo_effects_def Let_def effect_ops_eval)
  have leaf: "stands_for demo_effects t \<lparr>se_label = l, se_disposer = Some (Foreign d)\<rparr> \<longleftrightarrow> t = Leaf l d" for t l d
    by (cases t) auto
  have branch: "stands_for demo_effects t \<lparr>se_label = l, se_disposer = Some (DisposeScope (EffectScope 1))\<rparr> \<longleftrightarrow>
      t = Branch l (EffectScope 1) [Leaf ''b'' 2, Leaf ''c'' 3]" for t l
    by (cases t) (auto simp: effects(2) [simplified] list_all2_Cons2 leaf)
  show ?thesis using assms by (auto simp: effects(1) list_all2_Cons2 leaf branch [simplified])
qed

theorem disposal_exact_witness:
  "\<exists>w'. effect_dispose_all (logging demo_outcome) (EffectScope 0) demo_effects =
          Some (Ok [DisposerFailed ''nested'' ''nested effect cleanup failed: 2 error(s)''], w') \<and>
        el_called w' = [4, 3, 2, 1]"
proof -
  have "demo_outcome d \<noteq> Panic" for d by (simp add: demo_outcome_def)
  from disposal_exact [where outcome = demo_outcome, OF demo_effects_built this, where s = "EffectScope 0"]
  obtain ts w' where r: "list_all2 (stands_for demo_effects) ts (es_effects (stack_at demo_effects (EffectScope 0)))"
    "effect_dispose_all (logging demo_outcome) (EffectScope 0) demo_effects =
       Some (Ok (concat (map (failures_of demo_outcome) (rev ts))), w')"
    "el_called w' = el_called demo_effects @ concat (map disposal_order (rev ts))" by blast
  have "el_called demo_effects = []" by (simp add: demo_effects_def Let_def effect_ops_eval)
  with r(2,3) show ?thesis
    unfolding demo_effects_forest [OF r(1)]
    by (simp add: demo_outcome_def nested_failure_def show_nat.simps digit_char_def
        char_of_def bit_iff_odd)
qed

subsection \<open>A disposed scope\<close>

lemma closed_op:
  "effect_op w w' \<Longrightarrow> heap_ok w \<Longrightarrow> es_closed (stack_at w s) \<Longrightarrow> stack_at w' s = stack_at w s \<or>
     stack_at w' s = \<lparr>es_effects = [], es_closed = True\<rparr>"
proof (induction rule: effect_op.induct)
  case (new w)
  then show ?case
    using heap_ok_fresh(1) [OF new(1)] by (auto simp: effect_scope_new_def effect_stack_new_def)
next
  case (register w r l d)
  then show ?case by (auto simp: effect_register_def stack_push_def split: if_splits)
next
  case (child w r l)
  then show ?case
    using heap_ok_fresh(1) [OF child(2)] unfolding effect_child_heap
    by (auto simp: effect_scope_new_def effect_register_def stack_push_def effect_stack_new_def split: if_splits)
next
  case (take w r)
  then show ?case by auto
qed

text \<open>
  Disposal is final: whatever operations follow, a scope that was disposed stays closed and empty,
  refuses every registration and every nested scope, and a repeated disposal calls nothing and reports
  no error.
\<close>

theorem disposed_scope_is_final:
  assumes "effect_built w" "effect_op\<^sup>*\<^sup>* (shut s w) w'" "has_key (eh_stacks w) s"
  shows "stack_at w' s = \<lparr>es_effects = [], es_closed = True\<rparr> \<and>
    fst (effect_register s e w') = Err EffectClosed \<and> fst (effect_child s l w') = Err EffectClosed \<and>
    effect_dispose_all call s w' = Some (Ok [], shut s w')"
proof -
  have "effect_built w' \<and> stack_at w' s = \<lparr>es_effects = [], es_closed = True\<rparr>"
    using assms(2)
  proof (induction rule: rtranclp_induct)
    case base
    have "effect_built (shut s w)" using assms(1,3) by (blast intro: effect_built.op effect_op.take)
    then show ?case by simp
  next
    case (step y z)
    then have "effect_built z" by (blast intro: effect_built.op)
    moreover have "es_closed (stack_at y s)" using step.IH by simp
    ultimately show ?case using closed_op [OF step.hyps(2) heap_ok_built] step.IH by metis
  qed
  moreover from this have "scope_number s \<noteq> eh_next w'"
    using heap_ok_fresh(1) [OF heap_ok_built, of w'] by (cases s) (auto simp: effect_stack_new_def)
  ultimately show ?thesis
    by (cases s) (auto simp: effect_register_def stack_push_def effect_dispose_all_def stack_take_def shut_def
        effect_child_def act_bind_def effect_scope_new_def split: prod.splits res.splits if_splits)
qed

theorem disposed_scope_is_final_witness:
  "fst (effect_register (EffectScope 0) (effect_sync ''late'' 9) (shut (EffectScope 0) demo_effects)) =
     Err EffectClosed"
proof -
  have "has_key (eh_stacks demo_effects) (EffectScope 0)"
    by (simp add: demo_effects_def Let_def effect_ops_eval)
  from disposed_scope_is_final [OF demo_effects_built rtranclp.rtrancl_refl this] show ?thesis by blast
qed

end
