(* ===== verification/Fiber_Properties.thy ===== *)
theory Fiber_Properties
  imports Fiber_Currency Effect_Properties Capability_Scope_Properties
begin

text \<open>
  What the lifecycle of a fiber promises under interference, and one history in which a disposed fiber
  is never released.
\<close>

subsection \<open>A small world\<close>

text \<open>The scope of \<open>demo_before\<close> provides \<open>db\<close>; the plugin provides \<open>api\<close>, which requires it.\<close>

definition demo_plugin :: "nat plugin_definition" where
  "demo_plugin = plugin_definition_new (Id ''plugin'') demo_api 20"

definition demo_factory :: "(nat, nat, nat) factory_call" where
  "demo_factory k lc w = (Ok k, w)"

definition demo_call :: "(nat, nat, nat) disposer_call" where
  "demo_call d w = (Ok (), w)"

definition demo_runtime_world :: "(nat, nat, nat) semantic_world" where
  "demo_runtime_world = snd (plugin_runtime_new demo_plugin
     \<lparr>eh_stacks = fmempty, eh_next = 0, sm_scopes = demo_before, sm_fibers = fmempty, sm_runtimes = fmempty,
      sm_next_runtime = 0, sm_next_fiber_id = 1, sm_watched = fmempty, sm_next_coordinator = 0\<rparr>)"

definition demo_context :: capability_context where
  "demo_context = context_from_scope demo_child"

definition demo_pending :: "(nat, nat, nat) semantic_world" where
  "demo_pending = snd (create_fiber 0 demo_context ''cfg'' demo_runtime_world)"

abbreviation demo_fiber :: fiber_id where
  "demo_fiber \<equiv> FiberId 1"

definition demo_active :: "(nat, nat, nat) semantic_world" where
  "demo_active = snd (the (drive demo_factory demo_call demo_fiber False demo_pending))"

lemmas fiber_eval = plugin_runtime_new_def create_fiber_def runtime_at_def fiber_new_def fiber_at_def
  fiber_update_def fiber_state_def plugin_id_def fiber_capability_def set_state_def set_cleanup_errors_def
  set_force_reload_def set_loading_binding_def set_error_def fiber_state_from_raw_def
  effect_scope_new_def stack_write_def stack_at_def effect_stack_new_def
  plugin_definition_new_def u64_checked_succ_def

lemma demo_foreign_code:
  "respects_lock_call f demo_call" "respects_lock_factory f demo_factory"
  "quiet_call demo_call" "quiet_factory demo_factory"
  by (simp_all add: respects_lock_call_def respects_lock_factory_def quiet_call_def quiet_factory_def
      quiet_disposer_def demo_call_def demo_factory_def)

lemma demo_runtime_heap_ok: "heap_ok demo_runtime_world"
  by (simp add: demo_runtime_world_def plugin_runtime_new_def heap_ok_def owns_def stack_at_def
      effect_stack_new_def)

lemma demo_created: "create_fiber 0 demo_context ''cfg'' demo_runtime_world = (Ok demo_fiber, demo_pending)"
  by (simp add: demo_pending_def demo_runtime_world_def fiber_eval demo_plugin_def Let_def)

lemma demo_history: "fiber_history demo_factory demo_call demo_fiber demo_pending"
  by (rule fiber_history.created [OF demo_runtime_heap_ok demo_created])

lemma demo_pending_fiber:
  "fiber_at demo_pending demo_fiber = fiber_new 0 demo_context demo_plugin ''cfg'' (EffectScope 0)"
  "sm_scopes demo_pending = demo_before" "eh_next demo_pending = 1"
  by (simp_all add: demo_pending_def demo_runtime_world_def fiber_eval demo_plugin_def Let_def)

lemma demo_resolves:
  "context_resolve_dependencies demo_before demo_context demo_api = Ok [(Id ''db'', demo_db_handle)]"
  unfolding demo_before_def demo_context_def
  by (simp add: scope_eval demo_defs context_resolve_dependencies_def has_local_def)

lemma demo_provide:
  "provide_value demo_child demo_api [(Id ''db'', demo_db_handle)] 20 demo_before = (Ok demo_api_handle, demo_world)"
proof -
  have "scope_get demo_before demo_child (Id ''db'') = Some demo_db_handle"
    unfolding demo_before_def by (simp add: scope_eval demo_defs)
  then have "check_current demo_before demo_child (cd_id demo_api) (bs_list (cd_dependencies demo_api))
      [(Id ''db'', demo_db_handle)] = Ok ()"
    by (simp add: demo_api_def definition_new_def depends_on_def deps_get_def kernis_eval)
  with demo_publish show ?thesis by (simp add: provide_value_def)
qed

lemma demo_drive_result:
  "\<exists>w'. drive demo_factory demo_call demo_fiber False demo_pending = Some (Ok FiberActive, w') \<and>
     sm_scopes w' = demo_world \<and> fb_handle (fiber_at w' demo_fiber) = Some demo_api_handle \<and>
     fb_context (fiber_at w' demo_fiber) = demo_context \<and> fb_definition (fiber_at w' demo_fiber) = demo_plugin \<and>
     \<not> fb_dispose_requested (fiber_at w' demo_fiber) \<and> sm_watched w' = fmempty"
proof -
  have scope: "cx_scope demo_context = demo_child" "intercepted_config demo_context i = None" for i
    by (simp_all add: demo_context_def)
  let ?w = "set_cleanup_errors demo_fiber [] (set_force_reload demo_fiber False demo_pending)"
  have watched: "sm_watched demo_pending = fmempty"
    by (simp add: demo_pending_def demo_runtime_world_def fiber_eval demo_plugin_def Let_def)
  have "\<exists>w'. drive_iteration demo_factory demo_call demo_fiber False ?w = Some (Ok (Stable FiberActive), w') \<and>
      sm_scopes w' = demo_world \<and> fb_handle (fiber_at w' demo_fiber) = Some demo_api_handle \<and>
      fb_context (fiber_at w' demo_fiber) = demo_context \<and> fb_definition (fiber_at w' demo_fiber) = demo_plugin \<and>
      \<not> fb_dispose_requested (fiber_at w' demo_fiber) \<and> sm_watched w' = fmempty"
    using demo_resolves demo_provide
    by (simp add: drive_iteration_def resolve_fiber_def fiber_setters fiber_capability_def demo_pending_fiber
        fiber_new_def demo_plugin_def plugin_definition_new_def fiber_state_def scope load_attempt_def load_begin_def
        Let_def plugin_id_def effect_scope_new_def demo_factory_def load_settle_def load_is_stale_def
        current_binding_def epoch_of_def load_publish_def watched)
  then obtain w' where w': "drive_iteration demo_factory demo_call demo_fiber False ?w = Some (Ok (Stable FiberActive), w')"
    "sm_scopes w' = demo_world" "fb_handle (fiber_at w' demo_fiber) = Some demo_api_handle"
    "fb_context (fiber_at w' demo_fiber) = demo_context" "fb_definition (fiber_at w' demo_fiber) = demo_plugin"
    "\<not> fb_dispose_requested (fiber_at w' demo_fiber)" "sm_watched w' = fmempty" by blast
  have "drive_loop demo_factory demo_call demo_fiber False ?w = Some (Ok FiberActive, w')"
    by (subst drive_loop.simps) (simp add: w'(1))
  moreover have "\<not> fb_dispose_requested (fiber_at demo_pending demo_fiber)"
    "\<not> fb_force_reload (fiber_at demo_pending demo_fiber)" "fiber_state demo_pending demo_fiber = FiberPending"
    "fiber_state (set_force_reload demo_fiber False demo_pending) demo_fiber = FiberPending"
    by (simp_all add: demo_pending_fiber fiber_new_def fiber_state_def fiber_setters)
  ultimately have "drive demo_factory demo_call demo_fiber False demo_pending = Some (Ok FiberActive, w')"
    by (simp add: drive_def Let_def)
  with w' show ?thesis by blast
qed

lemma demo_drive: "drive demo_factory demo_call demo_fiber False demo_pending = Some (Ok FiberActive, demo_active)"
  using demo_drive_result by (auto simp: demo_active_def)

lemma demo_active_facts:
  "sm_scopes demo_active = demo_world" "fb_handle (fiber_at demo_active demo_fiber) = Some demo_api_handle"
  "fb_context (fiber_at demo_active demo_fiber) = demo_context"
  "fb_definition (fiber_at demo_active demo_fiber) = demo_plugin"
  "\<not> fb_dispose_requested (fiber_at demo_active demo_fiber)" "sm_watched demo_active = fmempty"
  using demo_drive_result by (auto simp: demo_active_def)

lemma demo_active_history: "fiber_history demo_factory demo_call demo_fiber demo_active"
  by (rule fiber_history.step [OF demo_history fiber_step.driven [OF demo_drive]]) simp

definition demo_gone :: "(nat, nat, nat) semantic_world" where
  "demo_gone = snd (the (dispose_fiber demo_call demo_fiber demo_pending))"

lemma demo_dispose: "dispose_fiber demo_call demo_fiber demo_pending = Some (Ok (), demo_gone)"
proof -
  let ?w = "dispose_request demo_fiber demo_pending"
  have "stack_at demo_pending (EffectScope 0) = effect_stack_new"
    by (simp add: demo_pending_def demo_runtime_world_def fiber_eval demo_plugin_def Let_def)
  then have "\<exists>w'. dispose_fiber demo_call demo_fiber demo_pending = Some (Ok (), w')"
    by (simp add: dispose_fiber_def dispose_locked_def dispose_request_def fiber_setters fiber_state_def
        demo_pending_fiber fiber_new_def unload_def with_errors_def effect_dispose_all_def stack_take_def
        effect_stack_new_def unload_release_def Let_def)
  then show ?thesis by (auto simp: demo_gone_def)
qed

lemma demo_gone_history: "fiber_history demo_factory demo_call demo_fiber demo_gone"
proof -
  let ?w = "dispose_request demo_fiber demo_pending"
  have "fiber_history demo_factory demo_call demo_fiber ?w"
    by (rule fiber_history.step [OF demo_history fiber_step.interference [OF requests_keep(4)]])
  moreover have "fb_dispose_requested (fiber_at ?w demo_fiber)"
    by (simp add: dispose_request_def notify_dependency_change_def)
  ultimately show ?thesis
    using demo_dispose unfolding dispose_fiber_def
    by (meson fiber_history.step fiber_step.disposed res.distinct(3))
qed

subsection \<open>The lifecycle\<close>

text \<open>
  C22: After any history of a fiber, in which its calls, those of other fibers, requests, publications
  and withdrawals interleave in any order, the state of the fiber is one of the declared values and
  agrees with its fields: it is active exactly when it has a publication and the epoch it was loaded
  for, and the publication is the plugin's capability with that binding; a failed fiber knows its
  error and has disposed its effects; a load is left unfinished only when a disposal was asked for;
  no fiber is left unloading.
\<close>

theorem fiber_lifecycle_sound:
  assumes "respects_lock_call f call" "respects_lock_factory f factory" "fiber_history factory call f w"
  shows "fiber_ok f w"
  using assms by (rule fiber_history_ok)

theorem fiber_lifecycle_sound_witness: "fiber_ok demo_fiber demo_active \<and> fiber_ok demo_fiber demo_gone"
  using fiber_lifecycle_sound [OF demo_foreign_code(1,2) demo_active_history]
    fiber_lifecycle_sound [OF demo_foreign_code(1,2) demo_gone_history] by simp

text \<open>
  C23: Disposal is final: whatever follows, a disposed fiber stays disposed, has no publication, and
  refuses to start, to restart and to own another effect; disposing it again does nothing.
\<close>

theorem fiber_disposal_is_final:
  assumes "respects_lock_call f call" "respects_lock_factory f factory" "fiber_history factory call f w"
    "fiber_state w f = FiberDisposed" "(fiber_step factory call f)\<^sup>*\<^sup>* w w'"
  shows "fiber_state w' f = FiberDisposed \<and> fb_handle (fiber_at w' f) = None \<and>
    drive factory call f force w' = Some (Err FiberIsDisposed, w') \<and>
    fst (restart_request f w') = Err FiberIsDisposed \<and>
    fst (fiber_effect f e w') = Err (InactiveEffect FiberDisposed) \<and>
    dispose_locked call f w' = Some (Ok (), w')"
proof -
  have "fiber_ok f w' \<and> fiber_state w' f = FiberDisposed"
    using assms(5)
  proof (induction rule: rtranclp_induct)
    case base
    show ?case using fiber_history_ok [OF assms(1-3)] assms(4) by simp
  next
    case (step y z)
    then show ?case using fiber_step_ok(1,2) [OF assms(1,2) step.hyps(2)] by blast
  qed
  then have ok: "fiber_ok f w'" "fiber_state w' f = FiberDisposed" by simp_all
  then have "fb_dispose_requested (fiber_at w' f)" "fb_handle (fiber_at w' f) = None"
    using fiber_okD(4,5) [OF ok(1)] by auto
  with ok(2) show ?thesis
    by (simp add: drive_def restart_request_def fiber_effect_def dispose_locked_def)
qed

theorem fiber_disposal_is_final_witness:
  "fiber_state demo_gone demo_fiber = FiberDisposed \<and>
   drive demo_factory demo_call demo_fiber True demo_gone = Some (Err FiberIsDisposed, demo_gone)"
proof -
  have "fiber_state demo_gone demo_fiber = FiberDisposed"
  proof (rule disposal_result(2) [OF demo_foreign_code(1)])
    show "fiber_ok demo_fiber (dispose_request demo_fiber demo_pending)"
      by (rule fiber_ok_keeps [OF requests_keep(4) fiber_history_ok [OF demo_foreign_code(1,2) demo_history]])
    show "dispose_locked demo_call demo_fiber (dispose_request demo_fiber demo_pending) = Some (Ok (), demo_gone)"
      using demo_dispose by (simp add: dispose_fiber_def)
  qed (simp_all add: dispose_request_def notify_dependency_change_def)
  with fiber_disposal_is_final [OF demo_foreign_code(1,2) demo_gone_history this rtranclp.rtrancl_refl]
  show ?thesis by blast
qed

text \<open>
  C24: When a drive (a start, a restart, an update, a reconciliation) returns \<open>Active\<close>, the fiber is
  loaded for exactly the providers that its context resolves to at that moment, by generation and entry
  identity, however the providers changed while the plugin initialized; its publication is the one it
  had before or the entry of its scope, and it needs no reconciliation.
\<close>

theorem active_fiber_is_current:
  assumes "respects_lock_call f call" "respects_lock_factory f factory" "fiber_history factory call f w"
    "drive factory call f force w = Some (Ok FiberActive, w')"
  shows "\<exists>hs h e. resolve_fiber w' f = Ok hs \<and> fb_handle (fiber_at w' f) = Some h \<and>
    fb_dependency_epoch (fiber_at w' f) = Some e \<and> de_binding e = binding_of hs \<and>
    binding_of (h_dependencies h) = binding_of hs \<and>
    (fb_handle (fiber_at w f) = Some h \<or>
     get_local (sm_scopes w') (cx_scope (fb_context (fiber_at w' f))) (cd_id (fiber_capability w' f)) = Some h) \<and>
    \<not> needs_reconciliation w' f"
proof -
  note ok = fiber_history_ok [OF assms(1-3)]
  have w': "fiber_ok f w'" "fiber_state w' f = FiberActive"
    using drive_result(1,4) [OF assms(1,2) ok assms(4)] by auto
  then have "published (fiber_at w' f)" by (simp add: fiber_ok_def Let_def)
  then obtain h e where he: "fb_handle (fiber_at w' f) = Some h" "fb_dependency_epoch (fiber_at w' f) = Some e"
    "de_binding e = binding_of (h_dependencies h)"
    by (auto simp: published_def split: option.splits)
  have current: "current_for f (fb_handle (fiber_at w f)) w'" by (rule drive_current [OF assms(1,2) ok assms(4)])
  then obtain hs where hs: "resolve_fiber w' f = Ok hs" "fiber_binding w' f = Some (binding_of hs)"
    by (auto simp: current_for_def current_binding_def split: res.splits)
  with he have "de_binding e = binding_of hs" by (simp add: fiber_binding_def)
  moreover have "\<not> needs_reconciliation w' f"
    using current w'(2) by (simp add: needs_reconciliation_def current_for_def)
  ultimately show ?thesis using he hs(1) current by (auto simp: current_for_def)
qed

theorem active_fiber_is_current_witness:
  "\<exists>hs. resolve_fiber demo_active demo_fiber = Ok hs \<and>
     fiber_binding demo_active demo_fiber = Some (binding_of hs) \<and> \<not> needs_reconciliation demo_active demo_fiber"
  using active_fiber_is_current [OF demo_foreign_code(1,2) demo_history demo_drive]
  by (auto simp: fiber_binding_def)

text \<open>
  C25: Let the factories and disposers return without a panic, leave the scopes and the fibers alone and
  respect the fiber's lock, and let the fiber be reached by a history of its calls, with a context that
  follows its scopes.  Then every drive returns: it refuses at once with an error and changes nothing, when a
  disposal was requested or (without force) the last load failed; otherwise its loop takes one
  iteration, or two when the fiber was loaded or failed: one that unloads, one that loads.
\<close>

theorem drive_returns_when_quiet:
  assumes "respects_lock_call f call" "respects_lock_factory f factory" "fiber_history factory call f w"
    "quiet_call call" "quiet_factory factory" "aligned (fb_context (fiber_at w f))"
  shows "\<exists>r w'. drive factory call f force w = Some (r, w') \<and>
    (if fb_dispose_requested (fiber_at w f) \<or> \<not> force \<and> fiber_state w f = FiberFailed
     then w' = w \<and> (\<exists>e. r = Err e)
     else \<exists>n. drive_takes factory call f (force \<or> fb_force_reload (fiber_at w f)) r w' (drive_ready f w) n \<and>
       (n = 1 \<or> n = 2 \<and> fiber_state w f \<in> {FiberActive, FiberFailed}))"
  by (rule quiet_drive_rounds [OF assms(4,5,2,1) fiber_history_ok [OF assms(1-3)] assms(6)])

theorem drive_returns_when_quiet_witness:
  "\<exists>r w'. drive demo_factory demo_call demo_fiber True demo_pending = Some (r, w') \<and>
     drive_takes demo_factory demo_call demo_fiber True r w' (drive_ready demo_fiber demo_pending) 1"
proof -
  have "aligned (fb_context (fiber_at demo_pending demo_fiber))"
    by (simp add: demo_pending_fiber fiber_new_def demo_context_def aligned_constructors(1) del: context_from_scope.simps)
  from drive_returns_when_quiet [OF demo_foreign_code(1,2) demo_history demo_foreign_code(3,4) this, of True]
  show ?thesis by (auto simp: demo_pending_fiber fiber_new_def fiber_state_def)
qed

text \<open>
  The locked part of every call of a fiber leaves every other fiber its fields, up to the requests
  that anybody may make, and keeps the effect stacks in order, closed ones closed.
\<close>

theorem fibers_are_independent:
  assumes "g \<noteq> f" "respects_lock_call f call" "respects_lock_call g call" "respects_lock_factory f factory"
    "respects_lock_factory g factory" "fiber_history factory call g w"
    "drive factory call g force w = Some (r, w') \<or> withdrawal_locked call g detached w = Some (r', w') \<or>
     dispose_locked call g w = Some (r'', w')"
  shows "keeps f w w'"
  using assms(7)
proof (elim disjE)
  note ok = fiber_history_ok [OF assms(3,5,6)]
  show "keeps f w w'" if "drive factory call g force w = Some (r, w')"
    by (rule drive_keeps [OF assms(1-5) ok that])
  show "keeps f w w'" if "withdrawal_locked call g detached w = Some (r', w')"
    by (rule withdrawal_keeps [OF assms(1,2) ok that])
  show "keeps f w w'" if "dispose_locked call g w = Some (r'', w')"
    by (rule disposal_keeps [OF assms(1,2) ok that])
qed

theorem fibers_are_independent_witness: "keeps (FiberId 2) demo_pending demo_active"
  by (rule fibers_are_independent [OF _ demo_foreign_code(1,1,2,2) demo_history]) (use demo_drive in auto)

subsection \<open>Stale loads\<close>

text \<open>
  A load that turns out to be stale when its factory returns (a disposal or a reload was asked for,
  or the dependencies resolve differently) is never published, whatever the factory returned: the
  effects it registered are disposed and their scope is closed, the fiber has no publication, the
  scopes are as the disposers left them, and the fiber loads again or reports that it is disposed.
\<close>

theorem stale_load_is_discarded:
  assumes "respects_lock_call f call" "quiet_call call" "loading f effects w" "load_is_stale f epoch w"
    "load_settle call f epoch dependencies effects result w = Some (r, w')" "r \<noteq> Panic"
  shows "fb_handle (fiber_at w' f) = None \<and> sm_scopes w' = sm_scopes w \<and>
    stack_at w' effects = \<lparr>es_effects = [], es_closed = True\<rparr> \<and>
    (if fb_dispose_requested (fiber_at w f) then r = Err FiberIsDisposed
     else r = Ok Again \<and> fiber_state w' f = FiberPending)"
proof -
  have "heap_ok w" using assms(3) by (simp add: loading_def in_place_def)
  from quiet_dispose [OF assms(2) this] obtain errors u where
    u: "effect_dispose_all call effects w = Some (Ok errors, u)" "sm_scopes u = sm_scopes w" "sm_fibers u = sm_fibers w"
    by metis
  note l = loading_disposed [OF assms(1,3) u(1)]
  have "fb_dispose_requested (fiber_at u f) = fb_dispose_requested (fiber_at w f)"
    using fiber_at_cong [OF u(3), of f] by simp
  with assms(4-6) u(1,2) l show ?thesis
    by (cases result) (auto simp: load_settle_def Let_def with_errors_def fiber_setters loading_def vacant_def
        fiber_state_def split: if_splits)
qed

theorem stale_load_is_discarded_witness:
  "\<exists>w w'. load_settle demo_call demo_fiber (epoch_of 0 ([] :: nat resolved_dependencies)) [] (EffectScope 1) (Ok 20) w = Some (Ok Again, w') \<and>
     fb_handle (fiber_at w' demo_fiber) = None"
proof -
  obtain lc w1 where b: "load_begin demo_fiber (epoch_of 0 ([] :: nat resolved_dependencies)) [] demo_pending = (lc, w1)" by fastforce
  have "in_place demo_fiber demo_pending"
    by (rule fiber_okD(1) [OF fiber_history_ok [OF demo_foreign_code(1,2) demo_history]])
  from load_begin_loading [OF this _ b]
  have l: "loading demo_fiber (lc_effects lc) w1" "sm_scopes w1 = demo_before" "same_plugin demo_fiber demo_pending w1"
    "\<not> fb_dispose_requested (fiber_at w1 demo_fiber)"
    by (simp_all add: demo_pending_fiber fiber_new_def vacant_def)
  have s: "lc_effects lc = EffectScope 1"
    using b by (auto simp: load_begin_def Let_def set_state_def effect_scope_new_def demo_pending_fiber)
  have binding: "binding_of [(Id ''db'', demo_db_handle)] \<noteq> binding_of ([] :: nat resolved_dependencies)"
    by (simp add: binding_of_def)
  have stale: "load_is_stale demo_fiber (epoch_of 0 ([] :: nat resolved_dependencies)) w1"
    using l(2,3) demo_resolves binding
    by (simp add: load_is_stale_def current_binding_def resolve_fiber_def fiber_capability_def same_plugin_def
        demo_pending_fiber fiber_new_def demo_plugin_def plugin_definition_new_def epoch_of_def)
  obtain errors u where "effect_dispose_all demo_call (EffectScope 1) w1 = Some (Ok errors, u)"
    using quiet_dispose [OF demo_foreign_code(3)] l(1) by (metis loading_def in_place_def)
  with stale obtain r w' where run: "load_settle demo_call demo_fiber (epoch_of 0 ([] :: nat resolved_dependencies)) [] (EffectScope 1) (Ok 20) w1 = Some (r, w')"
    "r \<noteq> Panic"
    by (cases "fb_dispose_requested (fiber_at u demo_fiber)")
      (auto simp: load_settle_def Let_def with_errors_def fiber_setters)
  from stale_load_is_discarded [OF demo_foreign_code(1,3) l(1) [unfolded s] stale run] l(4) run(1) show ?thesis by auto
qed

subsection \<open>Disposal\<close>

lemma unload_closes:
  fixes w :: "('d, 'v, 'f) semantic_world"
  assumes "respects_lock_call f call" "in_place f w" "unload call f detached w = Some (r, w')" "r \<noteq> Panic"
  shows "stack_at w' (fb_effects (fiber_at w f)) = \<lparr>es_effects = [], es_closed = True\<rparr>"
proof -
  let ?u = "set_state f FiberUnloading w"
  from assms(3,4) obtain errors v where v: "effect_dispose_all call (fb_effects (fiber_at w f)) ?u = Some (Ok errors, v)"
    "unload_release f detached errors v = (r, w')"
    unfolding unload_def by (auto elim: with_errors_Ok)
  have u: "heap_ok ?u" "scope_number (fb_effects (fiber_at w f)) < eh_next ?u"
    using assms(2) by (simp_all add: in_place_def set_state_def)
  note d = dispose_all_keeps [OF assms(1) v(1) u]
  have old: "eh_next w \<le> eh_next v"
    using keeps_heap [OF d(1)] u(1) by (simp add: heap_grows_def set_state_def)
  have "stack_at (unload_finish f x) (fb_effects (fiber_at w f)) = stack_at x (fb_effects (fiber_at w f))"
    if "eh_next w \<le> eh_next x" for x :: "('d, 'v, 'f) semantic_world"
  proof -
    have "fb_effects (fiber_at w f) \<noteq> EffectScope (eh_next x)" using assms(2) that by (auto simp: in_place_def)
    then show ?thesis by (simp add: unload_finish_def effect_scope_new_def set_state_def)
  qed
  with v(2) d(2) old show ?thesis
    by (auto simp: unload_release_def Let_def set_state_def split: option.splits prod.splits res.splits if_splits)
qed

text \<open>
  A disposal that returns leaves the fiber disposed and without a publication, with every effect of
  its last load disposed and their scope closed; unless it was disposed before, it has left the plugin
  runtime that owns it, if that is still alive.
\<close>

theorem dispose_fiber_exact:
  assumes "respects_lock_call f call" "respects_lock_factory f factory" "fiber_history factory call f w"
    "dispose_fiber call f w = Some (r, w')" "r \<noteq> Panic"
  shows "fiber_state w' f = FiberDisposed \<and> fb_handle (fiber_at w' f) = None \<and>
    (if fiber_state w f = FiberDisposed then r = Ok () \<and> w' = dispose_request f w
     else stack_at w' (fb_effects (fiber_at w f)) = \<lparr>es_effects = [], es_closed = True\<rparr> \<and>
       (\<not> has_key (sm_runtimes w') (fb_runtime (fiber_at w f)) \<or>
        f |\<notin>| pr_fibers (runtime_at w' (fb_runtime (fiber_at w f)))))"
proof -
  let ?w = "dispose_request f w"
  note ok = fiber_history_ok [OF assms(1-3)]
  have w: "fiber_ok f ?w" by (rule fiber_ok_keeps [OF requests_keep(4) ok])
  have req: "fb_dispose_requested (fiber_at ?w f)" "fiber_state ?w f = fiber_state w f"
    "fb_effects (fiber_at ?w f) = fb_effects (fiber_at w f)" "fb_runtime (fiber_at ?w f) = fb_runtime (fiber_at w f)"
    by (simp_all add: dispose_request_def notify_dependency_change_def fiber_state_def)
  have run: "dispose_locked call f ?w = Some (r, w')" using assms(4) by (simp add: dispose_fiber_def)
  note d = disposal_result [OF assms(1) w req(1) run assms(5), unfolded req]
  have "stack_at w' (fb_effects (fiber_at w f)) = \<lparr>es_effects = [], es_closed = True\<rparr>"
    if "fiber_state w f \<noteq> FiberDisposed"
  proof -
    from run that assms(5) obtain errors v where v: "unload call f None ?w = Some (Ok errors, v)"
      "stack_at w' s = stack_at v s" for s
      by (auto simp: dispose_locked_def Let_def with_errors_Some req set_state_def remove_fiber_def)
    with unload_closes [OF assms(1) fiber_okD(1) [OF w] v(1)] req(3) show ?thesis by simp
  qed
  with d show ?thesis by auto
qed

theorem dispose_fiber_exact_witness:
  "fiber_state demo_gone demo_fiber = FiberDisposed \<and> fb_handle (fiber_at demo_gone demo_fiber) = None \<and>
   stack_at demo_gone (EffectScope 0) = \<lparr>es_effects = [], es_closed = True\<rparr>"
  using dispose_fiber_exact [OF demo_foreign_code(1,2) demo_history demo_dispose]
  by (simp add: fiber_state_def demo_pending_fiber fiber_new_def)

text \<open>
  C37: A disposal can leave the fiber registered forever.  The plugin fails to initialize while a
  disposal is asked for: \<open>drive\<close> itself sets the state to \<open>Disposed\<close>, so the disposal, once it gets the
  lock, finds nothing to do and returns \<open>Ok\<close> without removing the fiber from its plugin runtime, which
  still counts it as a live instance after every further disposal.
\<close>

definition failing_factory :: "(nat, nat, nat) factory_call" where
  "failing_factory k lc w = (Err ''no model'', dispose_request demo_fiber w)"

theorem failed_load_leaks_disposed_fiber:
  "\<exists>w. start_fiber failing_factory demo_call demo_fiber demo_pending = Some (Err FiberIsDisposed, w) \<and>
     dispose_locked demo_call demo_fiber w = Some (Ok (), w) \<and> fiber_state w demo_fiber = FiberDisposed \<and>
     has_key (sm_runtimes w) (fb_runtime (fiber_at w demo_fiber)) \<and>
     fiber_count (runtime_at w (fb_runtime (fiber_at w demo_fiber))) = 1"
proof -
  have scope: "intercepted_config demo_context i = None" for i by (simp add: demo_context_def)
  let ?w = "set_cleanup_errors demo_fiber [] (set_force_reload demo_fiber False demo_pending)"
  have stack: "fmlookup (eh_stacks demo_pending) (EffectScope 0) = Some effect_stack_new"
    and runtime: "fmlookup (sm_runtimes demo_pending) 0 = Some \<lparr>pr_definition = demo_plugin, pr_fibers = {|demo_fiber|}\<rparr>"
    by (simp_all add: demo_pending_def demo_runtime_world_def fiber_eval demo_plugin_def Let_def)
  have "\<exists>w. drive_iteration failing_factory demo_call demo_fiber False ?w = Some (Err FiberIsDisposed, w) \<and>
      fiber_state w demo_fiber = FiberDisposed \<and> sm_runtimes w = sm_runtimes demo_pending \<and>
      fb_runtime (fiber_at w demo_fiber) = 0"
    using demo_resolves
    by (simp add: drive_iteration_def resolve_fiber_def fiber_setters fiber_capability_def demo_pending_fiber
        fiber_new_def demo_plugin_def plugin_definition_new_def fiber_state_def scope load_attempt_def load_begin_def
        Let_def plugin_id_def effect_scope_new_def failing_factory_def load_settle_def load_is_stale_def
        dispose_request_def effect_dispose_all_def stack_take_def effect_stack_new_def with_errors_def
        fiber_state_from_raw_def)
  then obtain w where w: "drive_iteration failing_factory demo_call demo_fiber False ?w = Some (Err FiberIsDisposed, w)"
    "fiber_state w demo_fiber = FiberDisposed" "sm_runtimes w = sm_runtimes demo_pending"
    "fb_runtime (fiber_at w demo_fiber) = 0" by blast
  have "drive_loop failing_factory demo_call demo_fiber False ?w = Some (Err FiberIsDisposed, w)"
    by (subst drive_loop.simps) (simp add: w(1))
  moreover have "\<not> fb_dispose_requested (fiber_at demo_pending demo_fiber)"
    "\<not> fb_force_reload (fiber_at demo_pending demo_fiber)" "fiber_state demo_pending demo_fiber = FiberPending"
    "fiber_state (set_force_reload demo_fiber False demo_pending) demo_fiber = FiberPending"
    by (simp_all add: demo_pending_fiber fiber_new_def fiber_state_def fiber_setters)
  ultimately have "start_fiber failing_factory demo_call demo_fiber demo_pending = Some (Err FiberIsDisposed, w)"
    by (simp add: start_fiber_def drive_def Let_def)
  with w runtime show ?thesis
    by (intro exI [of _ w]) (simp add: dispose_locked_def runtime_at_def fiber_count_def fcard_finsert_if)
qed

subsection \<open>Plugin runtimes\<close>

definition ids_below :: "('d, 'v, 'f) semantic_world \<Rightarrow> bool" where
  "ids_below w \<longleftrightarrow> (\<forall>i. has_key (sm_fibers w) (FiberId i) \<longrightarrow> unat i < unat (sm_next_fiber_id w))"

text \<open>
  The identity of a new fiber was never given before, in the whole process, and the counter never
  wraps: with an accepted configuration the creation fails only when the counter is at its last value,
  and then it changes nothing.
\<close>

theorem fiber_ids_never_reused:
  fixes w :: "('d, 'v, 'f) semantic_world"
  assumes "ids_below w" "heap_ok w" "pd_validator (pr_definition (runtime_at w n)) config = Ok ()"
  shows "case create_fiber n c config w of (r, w') \<Rightarrow>
    (case r of
       Ok f \<Rightarrow> \<not> has_key (sm_fibers w) f \<and> ids_below w' \<and> fiber_ok f w' \<and>
         f |\<in>| pr_fibers (runtime_at w' n) \<and> unat (sm_next_fiber_id w') = unat (sm_next_fiber_id w) + 1
     | Err e \<Rightarrow> e = FiberIdExhausted \<and> sm_next_fiber_id w = - 1 \<and> w' = w
     | Panic \<Rightarrow> False)"
proof (cases "u64_checked_succ (sm_next_fiber_id w)")
  case None
  then have "create_fiber n c config w = (Err FiberIdExhausted, w)"
    using assms(3) by (simp add: create_fiber_def Let_def)
  with None show ?thesis by (simp add: u64_checked_succ_None)
next
  case (Some k)
  obtain f w' where w': "create_fiber n c config w = (Ok f, w')"
    using assms(3) Some by (simp add: create_fiber_def Let_def split_beta)
  note new = create_fiber_Ok [OF w' assms(2)]
  have "\<not> has_key (sm_fibers w) f" using assms(1) by (auto simp: new(3) ids_below_def)
  moreover have "ids_below w'"
    using assms(1) unfolding ids_below_def new(4) by (subst new(6)) (auto simp: new(3) less_Suc_eq)
  ultimately show ?thesis using new w' by simp
qed

theorem fiber_ids_never_reused_witness:
  "ids_below demo_pending \<and> fiber_ok demo_fiber demo_pending"
proof -
  have "ids_below demo_runtime_world" by (simp add: ids_below_def demo_runtime_world_def plugin_runtime_new_def)
  moreover have "pd_validator (pr_definition (runtime_at demo_runtime_world 0)) ''cfg'' = Ok ()"
    by (simp add: demo_runtime_world_def fiber_eval demo_plugin_def)
  ultimately show ?thesis
    using fiber_ids_never_reused [of demo_runtime_world 0 "''cfg''" demo_context] demo_runtime_heap_ok
    by (simp add: demo_created)
qed

lemma dispose_fiber_result:
  assumes "\<And>f. respects_lock_call f call" "fiber_ok f w" "dispose_fiber call f w = Some (r, w')" "r \<noteq> Panic"
  shows "fiber_state w' f = FiberDisposed" "fiber_ok g w \<Longrightarrow> fiber_ok g w'"
    "fiber_ok g w \<Longrightarrow> fiber_state w g = FiberDisposed \<Longrightarrow> fiber_state w' g = FiberDisposed"
proof -
  let ?w = "dispose_request f w"
  have run: "dispose_locked call f ?w = Some (r, w')" using assms(3) by (simp add: dispose_fiber_def)
  have w: "fiber_ok f ?w" by (rule fiber_ok_keeps [OF requests_keep(4) assms(2)])
  have req: "fb_dispose_requested (fiber_at ?w f)"
    by (simp add: dispose_request_def notify_dependency_change_def)
  note own = disposal_result(1,2) [OF assms(1) w req run assms(4)]
  show "fiber_state w' f = FiberDisposed" by (rule own(2))
  have keeps: "keeps g w w'" if "g \<noteq> f"
    using that requests_keep(4) disposal_keeps [OF _ assms(1) w run] by (metis keeps_trans)
  show "fiber_ok g w'" if "fiber_ok g w"
    using own(1) keeps fiber_ok_keeps [OF _ that] by (cases "g = f") auto
  show "fiber_state w' g = FiberDisposed" if "fiber_ok g w" "fiber_state w g = FiberDisposed"
  proof (cases "g = f")
    case False
    then have "fb_state (fiber_at w' g) = fb_state (fiber_at w g)"
      using keepsD(3) [OF keeps] that(1) by (simp add: fiber_ok_def in_place_def)
    with that(2) show ?thesis by (simp add: fiber_state_def)
  qed (use own(2) in simp)
qed

lemma dispose_each_result:
  assumes "\<And>f. respects_lock_call f call" "dispose_each call fs es w = Some (Ok errors, w')"
    "\<And>f. f \<in> set fs \<Longrightarrow> fiber_ok f w"
  shows "(\<forall>g. fiber_ok g w \<longrightarrow> fiber_ok g w') \<and> (\<forall>f \<in> set fs. fiber_state w' f = FiberDisposed) \<and>
    (\<forall>g. fiber_ok g w \<longrightarrow> fiber_state w g = FiberDisposed \<longrightarrow> fiber_state w' g = FiberDisposed)"
  using assms(2,3)
proof (induction fs arbitrary: es w)
  case (Cons f fs)
  from Cons.prems(1) obtain r v es' where v: "dispose_fiber call f w = Some (r, v)" "r \<noteq> Panic"
    "dispose_each call fs es' v = Some (Ok errors, w')"
  proof -
    from Cons.prems(1) obtain q v where q: "dispose_fiber call f w = Some (q, v)"
      "(case q of Ok _ \<Rightarrow> dispose_each call fs es v | Err e \<Rightarrow> dispose_each call fs (es @ [e]) v
        | Panic \<Rightarrow> Some (Panic, v)) = Some (Ok errors, w')"
      by (auto simp: bind_eq_Some_conv)
    then show thesis by (cases q) (auto intro: that)
  qed
  note d = dispose_fiber_result [OF assms(1) Cons.prems(2) v(1,2)]
  have ok: "fiber_ok f w" using Cons.prems(2) by simp
  have "(\<forall>g. fiber_ok g v \<longrightarrow> fiber_ok g w') \<and> (\<forall>f \<in> set fs. fiber_state w' f = FiberDisposed) \<and>
      (\<forall>g. fiber_ok g v \<longrightarrow> fiber_state v g = FiberDisposed \<longrightarrow> fiber_state w' g = FiberDisposed)"
    by (rule Cons.IH [OF v(3)]) (use Cons.prems(2) d(2) in auto)
  with d ok show ?case by auto
qed simp

text \<open>
  Removing a plugin from the registry takes its entry out and, when the call returns, every fiber
  its runtime had is disposed and without a publication, whether or not the cleanup of some of them
  failed, and the runtime has no fiber left.
\<close>

theorem registry_remove_disposes_all:
  assumes "\<And>f. respects_lock_call f call" "fmlookup (rg_runtimes g) i = Some n"
    "\<And>f. f |\<in>| pr_fibers (runtime_at w n) \<Longrightarrow> fiber_ok f w"
    "registry_remove call i g w = Some (r, g', w')" "r \<noteq> Panic"
  shows "\<not> registry_contains g' i \<and> pr_fibers (runtime_at w' n) = {||} \<and>
    fset (pr_fibers (runtime_at w n)) \<subseteq>
      {f. fiber_state w' f = FiberDisposed \<and> fb_handle (fiber_at w' f) = None}"
proof -
  from assms(2,4,5) obtain errors v where v:
    "dispose_each call (bs_list (pr_fibers (runtime_at w n))) [] w = Some (Ok errors, v)"
    "w' = v\<lparr>sm_runtimes := fmupd n (runtime_at v n\<lparr>pr_fibers := {||}\<rparr>) (sm_runtimes v)\<rparr>"
    "g' = g\<lparr>rg_runtimes := fmdrop i (rg_runtimes g)\<rparr>"
  proof -
    from assms(2,4) obtain q v where q: "dispose_each call (bs_list (pr_fibers (runtime_at w n))) [] w = Some (q, v)"
      by (auto simp: registry_remove_def dispose_fibers_def Let_def bind_eq_Some_conv)
    with assms(2,4,5) show thesis
      by (cases q) (auto simp: registry_remove_def dispose_fibers_def Let_def intro: that)
  qed
  have state: "fiber_state w' f = fiber_state v f" "fiber_at w' f = fiber_at v f" for f
    by (simp_all add: v(2) fiber_state_def)
  have "fiber_state v f = FiberDisposed \<and> fb_handle (fiber_at v f) = None" if "f |\<in>| pr_fibers (runtime_at w n)" for f
    using dispose_each_result [OF assms(1) v(1)] assms(3) that fiber_okD(5) [of f v] by auto
  then show ?thesis
    by (auto simp: state) (simp_all add: v(2,3) registry_contains_def runtime_at_def)
qed

theorem registry_remove_disposes_all_witness:
  "\<exists>g' w'. registry_remove demo_call (Id ''plugin'') \<lparr>rg_runtimes = fmupd (Id ''plugin'') 0 fmempty\<rparr> demo_pending =
     Some (Ok (Some 0), g', w') \<and> fiber_state w' demo_fiber = FiberDisposed"
proof -
  let ?g = "\<lparr>rg_runtimes = fmupd (Id ''plugin'') 0 fmempty\<rparr>"
  have fibers: "pr_fibers (runtime_at demo_pending 0) = {|demo_fiber|}"
    by (simp add: demo_pending_def demo_runtime_world_def fiber_eval demo_plugin_def Let_def)
  have ok: "fiber_ok demo_fiber demo_pending"
    by (rule fiber_history_ok [OF demo_foreign_code(1,2) demo_history])
  have "\<exists>g' w'. registry_remove demo_call (Id ''plugin'') ?g demo_pending = Some (Ok (Some 0), g', w')"
    by (simp add: registry_remove_def dispose_fibers_def fibers kernis_eval demo_dispose)
  then obtain g' w' where run: "registry_remove demo_call (Id ''plugin'') ?g demo_pending = Some (Ok (Some 0), g', w')"
    by blast
  have "fset (pr_fibers (runtime_at demo_pending 0)) \<subseteq>
      {f. fiber_state w' f = FiberDisposed \<and> fb_handle (fiber_at w' f) = None}"
    using registry_remove_disposes_all [OF demo_foreign_code(1) _ _ run, of 0] ok fibers by auto
  with fibers run show ?thesis by auto
qed

end
