(* ===== verification/Reactive_Properties.thy ===== *)
theory Reactive_Properties
  imports Reactive_Settling Reactive_Dates Fiber_Properties
begin

text \<open>
  What the coordinator promises: a reconciliation that returns leaves every watched fiber settled, and
  it returns where nothing interferes; a withdrawal quiesces exactly the fibers it affects, dependents
  before their providers; and one history after which a reconciliation never returns.
\<close>

subsection \<open>A coordinator over the small world\<close>

definition live_watched :: "reactive_runtime \<Rightarrow> ('d, 'v, 'f) semantic_world \<Rightarrow> fiber_id set" where
  "live_watched rr w = {f. f |\<in>| watched_fibers rr w \<and> fiber_alive w f}"

definition demo_coordinator :: reactive_runtime where
  "demo_coordinator = fst (reactive_runtime_new (context_from_scope (Root 0)) demo_active)"

text \<open>A world with one coordinator that watches one fiber.\<close>

definition demo_watching :: "(nat, nat, nat) semantic_world \<Rightarrow> (nat, nat, nat) semantic_world" where
  "demo_watching w = watched_write demo_coordinator {|demo_fiber|} w"

lemma demo_watching_live:
  "fiber_alive w demo_fiber \<Longrightarrow> live_watched demo_coordinator (demo_watching w) = {demo_fiber}"
  by (auto simp: live_watched_def demo_watching_def)

lemma demo_ok: "fiber_ok demo_fiber demo_active" "fiber_ok demo_fiber demo_pending"
  using fiber_history_ok [OF demo_foreign_code(1,2)] demo_active_history demo_history by blast+

lemma demo_alive: "fiber_alive demo_active demo_fiber" "fiber_alive demo_pending demo_fiber"
  using demo_ok by (simp_all add: fiber_ok_def in_place_def)

lemma demo_calm:
  "calm_call demo_call" "calm_factory demo_factory" "calm_others (\<lambda>_ w. w)" "respectful_others (\<lambda>_ w. w)"
  using demo_foreign_code
  by (simp_all add: calm_call_def calm_factory_def respectful_call_def respectful_factory_def calm_others_def
      respectful_others_def leaves_watched_call_def leaves_watched_factory_def demo_call_def demo_factory_def)

lemma demo_watching_ok: "fiber_ok f w \<Longrightarrow> fiber_ok f (demo_watching w)"
  unfolding demo_watching_def by (rule fiber_ok_keeps [OF keeps_watched_write])

lemma demo_active_settled: "\<not> needs_reconciliation demo_active demo_fiber"
proof -
  have "current_for demo_fiber (fb_handle (fiber_at demo_pending demo_fiber)) demo_active"
    by (rule drive_current [OF demo_foreign_code(1,2) demo_ok(2) demo_drive])
  moreover have "fiber_state demo_active demo_fiber = FiberActive"
    using drive_result(4) [OF demo_foreign_code(1,2) demo_ok(2) demo_drive] by simp
  ultimately show ?thesis by (simp add: current_for_def needs_reconciliation_def)
qed

subsection \<open>Reconciliation\<close>

lemma distinct_singleton:
  assumes "distinct xs" "set xs = {x}"
  shows "xs = [x]"
proof (cases xs)
  case (Cons y ys)
  have "y = x" using assms(2) by (auto simp: Cons)
  moreover have "z \<notin> set ys" for z using assms by (auto simp: Cons)
  ultimately show ?thesis by (cases ys) (auto simp: Cons)
qed (use assms in simp)

text \<open>
  C26: When a reconciliation returns its report, every fiber watched at that moment is alive and settled,
  whatever the factories, the disposers and the other tasks did meanwhile: an active one is loaded for
  exactly the providers its context resolves to, a pending one with dependencies lacks one of them, and
  none is in the middle of a load for other providers.
\<close>

theorem reconcile_settles:
  assumes "reconcile factory call others rr w = Some (Ok report, w')" "f |\<in>| watched_fibers rr w'"
  shows "fiber_alive w' f \<and> \<not> needs_reconciliation w' f \<and>
    (fiber_state w' f = FiberActive \<longrightarrow> fiber_binding w' f = current_binding w' f) \<and>
    (fiber_state w' f = FiberPending \<longrightarrow> cd_dependencies (fiber_capability w' f) \<noteq> {||} \<longrightarrow> current_binding w' f = None) \<and>
    fiber_state w' f \<noteq> FiberUnloading"
  using reconcile_loop_settles [OF assms(1) [unfolded reconcile_def] assms(2)]
  by (auto simp: needs_reconciliation_def split: fiber_state.splits)

lemma demo_reconcile:
  "reconcile demo_factory demo_call (\<lambda>_ w. w) demo_coordinator (demo_watching demo_active) =
   Some (Ok reconcile_report_default, demo_watching demo_active)"
proof -
  obtain fs w1 where s: "snapshot_fibers demo_coordinator (demo_watching demo_active) = (fs, w1)" by fastforce
  note snap = snapshot_fibers_result [OF s]
  have "set fs = {demo_fiber}" using snap(1) demo_alive(1) by (auto simp: demo_watching_def)
  with snap(2) have fs: "fs = [demo_fiber]" by (rule distinct_singleton)
  have w1: "w1 = demo_watching demo_active"
    using snap(4) by (simp add: fs demo_watching_def watched_write_def)
  have "reconcile_pass demo_factory demo_call (\<lambda>_ w. w) fs False reconcile_report_default w1 =
      Some (Ok (False, reconcile_report_default), w1)"
    by (rule reconcile_pass_settled) (use demo_active_settled in \<open>simp add: fs w1 demo_watching_def\<close>)
  then show ?thesis
    unfolding reconcile_def by (subst reconcile_loop.simps) (simp add: s w1)
qed

theorem reconcile_settles_witness:
  "fiber_alive (demo_watching demo_active) demo_fiber \<and> \<not> needs_reconciliation (demo_watching demo_active) demo_fiber"
  using reconcile_settles [OF demo_reconcile, of demo_fiber] by (simp add: demo_watching_def)

text \<open>
  C29: A reconciliation returns under these conditions: the factories and disposers return, leave the scopes,
  the fibers and the watch lists alone and respect the locks; the other tasks do nothing; no disposal of
  a watched fiber was requested, each is in a state its own history can leave, and its context follows
  its scopes; and the capabilities of the watched fibers do not require each other in a circle (they have
  ranks below \<open>n\<close>).  Unless it panics, because the entry or generation numbers of a publication are exhausted, it returns a
  report, still watches the same living fibers, and leaves each of them settled.
\<close>

theorem reconcile_returns_when_quiet:
  assumes "calm_call call" "calm_factory factory" "calm_others others"
    "at_rest (live_watched rr w) w" "ranked rank (live_watched rr w) w"
    "\<And>f. f \<in> live_watched rr w \<Longrightarrow> fiber_rank rank w f < n"
  shows "\<exists>r w'. reconcile factory call others rr w = Some (r, w') \<and>
    (r \<noteq> Panic \<longrightarrow> (\<exists>report. r = Ok report) \<and> live_watched rr w' = live_watched rr w \<and>
       (\<forall>f \<in> live_watched rr w. \<not> needs_reconciliation w' f))"
proof -
  have below: "settled_below rank 0 (live_watched rr w) w" by (simp add: settled_below_def)
  obtain r w' where run: "reconcile_loop factory call others rr reconcile_report_default w = Some (r, w')"
    and ok: "r \<noteq> Panic \<Longrightarrow> (\<exists>report. r = Ok report) \<and> live_watched rr w' = live_watched rr w"
    using reconcile_loop_returns [OF assms(1-3) live_watched_def assms(4,5) below assms(6)]
    unfolding live_watched_def by blast
  have "\<not> needs_reconciliation w' f" if "r \<noteq> Panic" and f: "f \<in> live_watched rr w" for f
  proof -
    from ok [OF that(1)] f obtain report where "r = Ok report" "f |\<in>| watched_fibers rr w'"
      by (auto simp: live_watched_def)
    with reconcile_loop_settles run show ?thesis by blast
  qed
  with run ok show ?thesis by (auto simp: reconcile_def)
qed

lemma demo_ranked:
  "own_names (demo_watching demo_pending) demo_fiber = {Id ''db''}"
  "fiber_capability (demo_watching demo_pending) demo_fiber = demo_api"
  by (simp_all add: own_names_def fiber_capability_def demo_watching_def demo_pending_fiber fiber_new_def
      demo_plugin_def plugin_definition_new_def demo_api_def depends_on_def definition_new_def)

theorem reconcile_returns_when_quiet_witness:
  "\<exists>r w'. reconcile demo_factory demo_call (\<lambda>_ w. w) demo_coordinator (demo_watching demo_pending) = Some (r, w') \<and>
     (r \<noteq> Panic \<longrightarrow> \<not> needs_reconciliation w' demo_fiber)"
proof -
  let ?w = "demo_watching demo_pending"
  let ?rank = "\<lambda>i. if i = Id ''api'' then 1 else 0 :: nat"
  note live = demo_watching_live [OF demo_alive(2)]
  have "aligned (fb_context (fiber_at ?w demo_fiber))"
    by (simp add: demo_watching_def demo_pending_fiber fiber_new_def demo_context_def aligned_constructors(1)
        del: context_from_scope.simps)
  with demo_watching_ok [OF demo_ok(2)] have rest: "at_rest (live_watched demo_coordinator ?w) ?w"
    unfolding live by (simp add: at_rest_def demo_watching_def demo_pending_fiber fiber_new_def)
  have "ranked ?rank (live_watched demo_coordinator ?w) ?w"
    unfolding live by (simp add: ranked_def demo_ranked demo_api_def depends_on_def definition_new_def)
  note returns = reconcile_returns_when_quiet [OF demo_calm(1-3) rest this, of 2]
  have "fiber_rank ?rank ?w f < 2" for f by simp
  from returns [OF this] live show ?thesis by blast
qed

lemma stuck_pass:
  fixes w :: "('d, 'v, 'f) semantic_world"
  assumes s: "snapshot_fibers rr w = (fs, w1)"
    and stuck: "live_watched rr w = {f} \<and> needs_reconciliation w f \<and> fb_dispose_requested (fiber_at w f)"
  shows "(live_watched rr w1 = {f} \<and> needs_reconciliation w1 f \<and> fb_dispose_requested (fiber_at w1 f)) \<and>
    (\<exists>report'. reconcile_pass factory call (\<lambda>_ w. w) fs False report w1 = Some (Ok (True, report'), w1))"
proof -
  note snap = snapshot_fibers_result [OF s]
  have "set fs = {f}" using snap(1) stuck by (simp add: live_watched_def)
  with snap(2) have fs: "fs = [f]" by (rule distinct_singleton)
  have w1: "live_watched rr w1 = {f} \<and> needs_reconciliation w1 f \<and> fb_dispose_requested (fiber_at w1 f)"
    using stuck by (auto simp: snap(4) live_watched_def fset_of_list.rep_eq fs)
  moreover have "await_stable factory call f w1 = Some (Err FiberIsDisposed, w1)"
    using w1 by (simp add: await_stable_def start_fiber_def drive_def)
  ultimately show ?thesis by (simp add: fs Let_def)
qed

text \<open>
  C39: A reconciliation never returns once the disposal of a watched fiber was asked for and given up
  before it got the lock (its future was dropped, for example by a timeout) while the fiber needs
  reconciliation: \<open>drive\<close> then fails at once and changes nothing, so the fiber still needs
  reconciliation, and the loop has no other way to end.
\<close>

theorem reconcile_never_returns:
  fixes w :: "('d, 'v, 'f) semantic_world"
  assumes "live_watched rr w = {f}" "needs_reconciliation w f" "fb_dispose_requested (fiber_at w f)"
  shows "reconcile factory call (\<lambda>_ w. w) rr w = None"
proof (rule ccontr)
  let ?stuck = "\<lambda>w :: ('d, 'v, 'f) semantic_world. live_watched rr w = {f} \<and> needs_reconciliation w f \<and> fb_dispose_requested (fiber_at w f)"
  assume "reconcile factory call (\<lambda>_ w. w) rr w \<noteq> None"
  then obtain r where run: "reconcile_loop factory call (\<lambda>_ w. w) rr reconcile_report_default w = Some r"
    by (auto simp: reconcile_def)
  from run have "\<not> ?stuck w"
  proof (induction rule: reconcile_loop_induct)
    case (stop report w fs w1 p w2)
    show ?case
    proof
      assume stuck: "?stuck w"
      from stuck_pass [OF stop(1) stuck, of factory call report] stop(2,3) show False by auto
    qed
  next
    case (again report w fs w1 report' w2)
    show ?case
    proof
      assume stuck: "?stuck w"
      from stuck_pass [OF again(1) stuck, of factory call report] again(2) have "?stuck w2" by auto
      with again(3) show False by blast
    qed
  qed
  with assms show False by simp
qed

theorem reconcile_never_returns_witness:
  "fiber_history demo_factory demo_call demo_fiber (demo_watching (dispose_request demo_fiber demo_pending)) \<and>
   reconcile demo_factory demo_call (\<lambda>_ w. w) demo_coordinator
     (demo_watching (dispose_request demo_fiber demo_pending)) = None"
proof
  let ?w = "demo_watching (dispose_request demo_fiber demo_pending)"
  show "fiber_history demo_factory demo_call demo_fiber ?w"
    unfolding demo_watching_def
    by (rule fiber_history.step [OF fiber_history.step [OF demo_history
        fiber_step.interference [OF requests_keep(4)]] fiber_step.interference [OF keeps_watched_write]])
  have at: "fiber_at ?w demo_fiber = (fiber_at demo_pending demo_fiber)\<lparr>fb_dispose_requested := True,
      fb_requested_epoch := fb_requested_epoch (fiber_at demo_pending demo_fiber) + 1\<rparr>"
    "sm_scopes ?w = demo_before"
    by (simp_all add: demo_watching_def dispose_request_def notify_dependency_change_def demo_pending_fiber(2))
  show "reconcile demo_factory demo_call (\<lambda>_ w. w) demo_coordinator ?w = None"
  proof (rule reconcile_never_returns)
    show "live_watched demo_coordinator ?w = {demo_fiber}"
      using demo_alive(2)
      by (intro demo_watching_live) (simp add: dispose_request_def notify_dependency_change_def)
    show "needs_reconciliation ?w demo_fiber" "fb_dispose_requested (fiber_at ?w demo_fiber)"
      using demo_resolves
      by (simp_all add: needs_reconciliation_def fiber_state_def at demo_pending_fiber(1) fiber_new_def
          current_binding_def resolve_fiber_def fiber_capability_def demo_plugin_def plugin_definition_new_def)
        (simp add: demo_api_def depends_on_def definition_new_def)
  qed
qed

subsection \<open>Withdrawal\<close>

text \<open>The publication that a withdrawal retires, and the world and the fibers its scan sees.\<close>

definition withdrawn ::
  "reactive_runtime \<Rightarrow> ident \<Rightarrow> generation \<Rightarrow> ('d, 'v, 'f) semantic_world \<Rightarrow> 'v capability_handle \<Rightarrow>
   fiber_id list \<Rightarrow> ('d, 'v, 'f) semantic_world \<Rightarrow> bool" where
  "withdrawn rr i expected w retired fs w1 \<longleftrightarrow>
     (\<exists>scopes. withdraw (reactive_scope rr) i expected (sm_scopes w) = (Ok retired, scopes) \<and>
        snapshot_fibers rr (w\<lparr>sm_scopes := scopes\<rparr>) = (fs, w1))"

lemma withdrawn_world:
  assumes "withdrawn rr i expected w retired fs w1"
  shows "set fs = live_watched rr w" "distinct fs" "sm_fibers w1 = sm_fibers w" "keeps f w w1"
    "fiber_at w1 f = fiber_at w f" "dated w \<Longrightarrow> dated w1"
proof -
  from assms obtain scopes where s: "withdraw (reactive_scope rr) i expected (sm_scopes w) = (Ok retired, scopes)"
    "snapshot_fibers rr (w\<lparr>sm_scopes := scopes\<rparr>) = (fs, w1)" by (auto simp: withdrawn_def)
  note snap = snapshot_fibers_result [OF s(2)]
  have watched: "watched_fibers rr (w\<lparr>sm_scopes := scopes\<rparr>) = watched_fibers rr w" by (simp add: watched_fibers_def)
  show "set fs = live_watched rr w" "distinct fs" "sm_fibers w1 = sm_fibers w"
    using snap watched by (simp_all add: live_watched_def)
  then show "keeps f w w1" by (intro keeps_same_fibers heap_grows_cong) (simp_all add: snap(4))
  show "fiber_at w1 f = fiber_at w f" by (simp add: snap(4))
  show "dated w1" if "dated w" using withdraw_scopes_dated [OF that s(1)] by (simp add: snap(4))
qed

lemma withdrawal_returns_Ok:
  assumes "quiet_call call" "respectful_call call" "respectful_others others"
    "\<And>f. f \<in> live_watched rr w \<Longrightarrow> fiber_ok f w"
    "get_local (sm_scopes w) (reactive_scope rr) i = Some h"
  obtains fs w1 report w' where "withdrawn rr i (h_generation h) w h fs w1"
    "get_local (sm_scopes w1) (reactive_scope rr) i = None"
    "withdraw_and_reconcile call others rr i (h_generation h) w = Some (Ok report, w')"
    "(\<And>f u. sm_scopes (others f u) = sm_scopes u) \<Longrightarrow> get_local (sm_scopes w') (reactive_scope rr) i = None"
proof -
  from assms(5) obtain e where e: "is_open (sm_scopes w) (reactive_scope rr)"
    "entry_at (sm_scopes w) (reactive_scope rr) i = Some e" "h = entry_handle e"
    by (auto simp: get_local_def split: if_splits)
  then obtain scopes where s: "withdraw (reactive_scope rr) i (h_generation h) (sm_scopes w) = (Ok h, scopes)"
    by (simp add: withdraw_def entry_handle_def)
  obtain fs w1 where snap: "snapshot_fibers rr (w\<lparr>sm_scopes := scopes\<rparr>) = (fs, w1)" by fastforce
  then have wd: "withdrawn rr i (h_generation h) w h fs w1" using s by (auto simp: withdrawn_def)
  note world = withdrawn_world [OF wd]
  let ?ids = "provider_identities w1 fs"
  let ?order = "withdrawal_order w1 fs (withdrawal_closure w1 fs h ?ids) ?ids"
  have gone: "get_local (sm_scopes w1) (reactive_scope rr) i = None"
    using withdraw_unpublishes(2) [OF s] snapshot_fibers_result(4) [OF snap] by simp
  have ok: "fiber_ok f w1" if "f \<in> set fs" for f
    using fiber_ok_keeps [OF world(4) assms(4)] that world(1) by blast
  have watched: "set ?order \<subseteq> set fs" using set_withdrawal_order by blast
  obtain report' w' where
    each: "withdraw_each call others h ?order reconcile_report_default w1 = Some (Ok report', w')"
    using withdraw_each_returns [OF assms(1-3) ok watched] by blast
  with assms(5) s snap have "withdraw_and_reconcile call others rr i (h_generation h) w =
      Some (Ok (report'\<lparr>rp_provider_finalized := True\<rparr>), w')"
    by (simp add: withdraw_and_reconcile_def Let_def)
  from that [OF wd gone this] withdraw_each_unpublishes [OF assms(1-3) _ each ok watched gone] show thesis by blast
qed

lemma demo_withdraw:
  "\<exists>scopes. withdraw (reactive_scope demo_coordinator) (Id ''db'') (Generation 1) (sm_scopes (demo_watching demo_active)) =
     (Ok demo_db_handle, scopes)"
proof -
  have "reactive_scope demo_coordinator = Root 0"
    by (simp add: reactive_scope_def demo_coordinator_def reactive_runtime_new_def)
  moreover have "sm_scopes (demo_watching demo_active) = demo_world"
    by (simp add: demo_watching_def demo_active_facts(1))
  ultimately show ?thesis
    unfolding demo_world_def demo_before_def by (simp add: withdraw_def scope_eval demo_defs)
qed

text \<open>The outcome of a withdrawal that returns, with the order in which it drove the fibers.\<close>

lemma withdrawal_outcome:
  assumes "respectful_call call" "respectful_others others" "\<And>f. f \<in> live_watched rr w \<Longrightarrow> fiber_ok f w"
    "withdrawn rr i expected w retired fs w1"
    "withdraw_and_reconcile call others rr i expected w = Some (Ok report, w')"
  shows "rp_driven report =
      withdrawal_order w1 fs (withdrawal_closure w1 fs retired (provider_identities w1 fs)) (provider_identities w1 fs) \<and>
    set (rp_driven report) = Collect (affected w1 fs retired (provider_identities w1 fs)) \<and>
    distinct (rp_driven report) \<and> rp_errors report = [] \<and> rp_provider_finalized report \<and>
    (\<forall>f \<in> live_watched rr w. fiber_ok f w' \<and>
       (fiber_state w' f = FiberActive \<longrightarrow> \<not> directly_affected w' retired f \<and>
          \<not> affected w1 fs retired (provider_identities w1 fs) f)) \<and>
    (\<forall>g. \<not> affected w1 fs retired (provider_identities w1 fs) g \<longrightarrow> keeps g w w')"
proof -
  let ?ids = "provider_identities w1 fs"
  let ?order = "withdrawal_order w1 fs (withdrawal_closure w1 fs retired ?ids) ?ids"
  note world = withdrawn_world [OF assms(4)]
  from assms(4) obtain scopes where s: "withdraw (reactive_scope rr) i expected (sm_scopes w) = (Ok retired, scopes)"
    "snapshot_fibers rr (w\<lparr>sm_scopes := scopes\<rparr>) = (fs, w1)" by (auto simp: withdrawn_def)
  have "get_local (sm_scopes w) (reactive_scope rr) i \<noteq> None"
    using s(1) by (auto simp: withdraw_def get_local_def split: if_splits option.splits)
  from withdraw_and_reconcile_Ok [OF assms(5) this] obtain report' where
    run: "withdraw_each call others retired ?order reconcile_report_default w1 = Some (Ok report', w')"
      "report = report'\<lparr>rp_provider_finalized := True\<rparr>"
    using s by (metis Pair_inject res.inject(1))
  have driven: "set ?order = Collect (affected w1 fs retired ?ids)" "distinct ?order"
    using set_withdrawal_order [where w = w1 and fs = fs] affected_watched [of w1 fs retired ?ids]
    by (auto simp: withdrawal_closure_exact)
  have ok: "fiber_ok f w1" if "f \<in> live_watched rr w" for f
    using fiber_ok_keeps [OF world(4) assms(3) [OF that]] .
  have "set ?order \<subseteq> live_watched rr w" using driven(1) affected_watched world(1) by blast
  from withdraw_each_result [OF assms(1,2) run(1) ok this]
  have result: "\<And>f. f \<in> live_watched rr w \<Longrightarrow> fiber_ok f w'" "\<And>f. f \<in> set ?order \<Longrightarrow> fiber_state w' f \<noteq> FiberActive"
    "\<And>g. g \<notin> set ?order \<Longrightarrow> keeps g w1 w'" "rp_driven report' = ?order" "rp_errors report' = []"
    by (auto simp: reconcile_report_default_def)
  have unaffected: "\<not> directly_affected w' retired f"
    if "f \<in> live_watched rr w" "\<not> affected w1 fs retired ?ids f" for f
  proof -
    have "keeps f w1 w'" using result(3) driven(1) that(2) by blast
    moreover have "has_key (sm_fibers w1) f" using that(1) world(3) by (simp add: live_watched_def)
    ultimately have "directly_affected w' retired f = directly_affected w1 retired f"
      using keepsD(4,5,6) [of f w1 w']
      by (simp add: directly_affected_def fiber_dependency_binding_def fiber_binding_def cong: option.case_cong)
    moreover have "f \<in> set fs" using that(1) world(1) by simp
    ultimately show ?thesis using that(2) affected.direct by blast
  qed
  have alone: "keeps g w w'" if "\<not> affected w1 fs retired ?ids g" for g
    using keeps_trans [OF world(4)] result(3) driven(1) that by blast
  have "\<not> affected w1 fs retired ?ids f" if "fiber_state w' f = FiberActive" for f
    using result(2) driven(1) that by blast
  then show ?thesis using driven result(1,4,5) run(2) unaffected alone by simp
qed

text \<open>
  C27: A withdrawal that returns has quiesced exactly the fibers that depend on the withdrawn
  publication, directly or through what other watched fibers publish: each of them was driven once and
  is no longer active, no active fiber is left that published the entry or is bound to it, and the
  report has no lifecycle error.  Every other fiber is left alone, up to the requests anybody may make.
\<close>

theorem withdrawal_quiesces_dependents:
  assumes "respectful_call call" "respectful_others others" "\<And>f. f \<in> live_watched rr w \<Longrightarrow> fiber_ok f w"
    "withdrawn rr i expected w retired fs w1"
    "withdraw_and_reconcile call others rr i expected w = Some (Ok report, w')"
  shows "set (rp_driven report) = Collect (affected w1 fs retired (provider_identities w1 fs)) \<and>
    distinct (rp_driven report) \<and> rp_errors report = [] \<and> rp_provider_finalized report \<and>
    (\<forall>f \<in> live_watched rr w. fiber_ok f w' \<and>
       (fiber_state w' f = FiberActive \<longrightarrow> \<not> directly_affected w' retired f \<and>
          \<not> affected w1 fs retired (provider_identities w1 fs) f)) \<and>
    (\<forall>g. \<not> affected w1 fs retired (provider_identities w1 fs) g \<longrightarrow> keeps g w w')"
  using withdrawal_outcome [OF assms] by blast

theorem withdrawal_quiesces_dependents_witness:
  "\<exists>report w'. withdraw_and_reconcile demo_call (\<lambda>_ w. w) demo_coordinator (Id ''db'') (Generation 1)
       (demo_watching demo_active) = Some (Ok report, w') \<and>
     demo_fiber \<in> set (rp_driven report) \<and> fiber_state w' demo_fiber \<noteq> FiberActive"
proof -
  let ?w = "demo_watching demo_active"
  have ok: "fiber_ok f ?w" if "f \<in> live_watched demo_coordinator ?w" for f
    using that demo_watching_ok [OF demo_ok(1)] demo_watching_live [OF demo_alive(1)] by simp
  obtain scopes where s: "withdraw (reactive_scope demo_coordinator) (Id ''db'') (Generation 1) (sm_scopes ?w) =
      (Ok demo_db_handle, scopes)"
    using demo_withdraw by auto
  obtain fs w1 where snap: "snapshot_fibers demo_coordinator (?w\<lparr>sm_scopes := scopes\<rparr>) = (fs, w1)" by fastforce
  with s have wd: "withdrawn demo_coordinator (Id ''db'') (Generation 1) ?w demo_db_handle fs w1"
    by (auto simp: withdrawn_def)
  note world = withdrawn_world [OF wd]
  have "get_local (sm_scopes ?w) (reactive_scope demo_coordinator) (Id ''db'') = Some demo_db_handle"
    using s by (auto simp: withdraw_def get_local_def split: if_splits option.splits)
  moreover have respectful: "respectful_call demo_call" using demo_calm(1) by (simp add: calm_call_def)
  moreover have "h_generation demo_db_handle = Generation 1" by (simp add: demo_db_handle_def)
  ultimately obtain report w' where
    run: "withdraw_and_reconcile demo_call (\<lambda>_ w. w) demo_coordinator (Id ''db'') (Generation 1) ?w = Some (Ok report, w')"
    by (metis withdrawal_returns_Ok [OF demo_foreign_code(3) _ demo_calm(4) ok])
  note result = withdrawal_quiesces_dependents [OF respectful demo_calm(4) ok wd run]
  have fiber: "demo_fiber \<in> live_watched demo_coordinator ?w" using demo_watching_live [OF demo_alive(1)] by simp
  have "fiber_binding demo_active demo_fiber = Some (binding_of [(Id ''db'', demo_db_handle)])"
  proof -
    have "published (fiber_at demo_active demo_fiber)"
      using demo_ok(1) fiber_okD(5) [OF demo_ok(1)] demo_active_facts(2) by (simp add: fiber_ok_def Let_def)
    with demo_active_facts(2) show ?thesis
      by (auto simp: published_def fiber_binding_def demo_api_handle_def split: option.splits)
  qed
  then have "directly_affected w1 demo_db_handle demo_fiber"
    using world(5) [of demo_fiber]
    by (auto simp: directly_affected_def fiber_dependency_binding_def fiber_binding_def demo_watching_def
        binding_contains_iff binding_of_lookup deps_get_def identity_of_pin_def identity_of_handle_def
        demo_db_handle_def demo_db_def definition_new_def h_id_def)
  then have "affected w1 fs demo_db_handle (provider_identities w1 fs) demo_fiber"
    using fiber world(1) by (intro affected.direct) simp_all
  with result fiber have "demo_fiber \<in> set (rp_driven report)" "fiber_state w' demo_fiber \<noteq> FiberActive" by auto
  with run show ?thesis by blast
qed

text \<open>
  C28: A withdrawal drives dependents before their providers: of two fibers in its order, one bound to
  what the other publishes comes first, whatever the shape of the bindings; for publications are dated,
  so the bindings form no cycle.
\<close>

theorem dependents_withdrawn_first:
  assumes "\<And>f. f \<in> set fs \<Longrightarrow> fiber_ok f w" "dated w"
    "f |\<in>| A" "f \<in> set fs" "fiber_dependency_binding w f = Some b" "p |\<in>| A" "p \<noteq> f"
    "p \<in> set (binding_providers (provider_identities w fs) b)"
  shows "comes_before (withdrawal_order w fs A (provider_identities w fs)) f p"
proof (rule withdrawal_order_dependents_first [OF assms(2,1)])
  show "(f, p) \<in> provider_edges (affected_bindings w fs A) A (provider_identities w fs)"
    using assms(3-8) by (auto simp: provider_edges_def affected_bindings_lookup)
qed

text \<open>Two active fibers; the second is bound to what the first publishes.\<close>

definition demo_loaded :: "nat capability_handle \<Rightarrow> nat \<Rightarrow> (nat, nat) fiber" where
  "demo_loaded h k =
     (fiber_new 0 demo_context (plugin_definition_new (Id ''plugin'') (h_definition h) 0) [] (EffectScope k))
       \<lparr>fb_state := fiber_state_as_raw FiberActive, fb_handle := Some h,
        fb_dependency_epoch := Some (epoch_of 0 (h_dependencies h))\<rparr>"

definition demo_pair :: "(nat, nat, nat) semantic_world" where
  "demo_pair =
     \<lparr>eh_stacks = fmempty, eh_next = 2, sm_scopes = scope_start,
      sm_fibers = fmupd (FiberId 2) (demo_loaded demo_api_handle 1) (fmupd demo_fiber (demo_loaded demo_db_handle 0) fmempty),
      sm_runtimes = fmempty, sm_next_runtime = 1, sm_next_fiber_id = 3, sm_watched = fmempty, sm_next_coordinator = 0\<rparr>"

lemma demo_pair_fibers:
  "fiber_at demo_pair demo_fiber = demo_loaded demo_db_handle 0"
  "fiber_at demo_pair (FiberId 2) = demo_loaded demo_api_handle 1"
  by (simp_all add: demo_pair_def fiber_at_def)

lemma demo_pair_ok: "fiber_ok demo_fiber demo_pair" "fiber_ok (FiberId 2) demo_pair"
proof -
  have heap: "heap_ok demo_pair" by (simp add: heap_ok_def owns_def stack_at_def demo_pair_def effect_stack_new_def)
  have "in_place demo_fiber demo_pair" "in_place (FiberId 2) demo_pair"
    using heap by (simp_all add: in_place_def demo_pair_fibers demo_loaded_def fiber_new_def)
      (simp_all add: demo_pair_def)
  then show "fiber_ok demo_fiber demo_pair" "fiber_ok (FiberId 2) demo_pair"
    by (auto simp: demo_pair_fibers demo_loaded_def fiber_new_def published_def epoch_of_def
        plugin_definition_new_def intro!: fiber_ok_active [THEN conjunct1])
qed

lemma demo_pair_dated: "dated demo_pair"
proof -
  have "old_pins demo_db_handle" "old_pins demo_api_handle"
    by (auto simp: old_pins_def demo_db_handle_def demo_api_handle_def binding_of_lookup deps_get_def split: if_splits)
  then show ?thesis
    by (auto simp: dated_def demo_pair_def demo_loaded_def fiber_new_def scope_inv_start split: if_splits)
qed

theorem dependents_withdrawn_first_witness:
  "comes_before (withdrawal_order demo_pair [demo_fiber, FiberId 2] {|demo_fiber, FiberId 2|}
      (provider_identities demo_pair [demo_fiber, FiberId 2])) (FiberId 2) demo_fiber"
proof (rule dependents_withdrawn_first)
  show "fiber_ok f demo_pair" if "f \<in> set [demo_fiber, FiberId 2]" for f
    using that demo_pair_ok by auto
  show "dated demo_pair" by (rule demo_pair_dated)
  show "fiber_dependency_binding demo_pair (FiberId 2) = Some (binding_of [(Id ''db'', demo_db_handle)])"
    by (simp add: fiber_dependency_binding_def fiber_binding_def demo_pair_fibers demo_loaded_def demo_api_handle_def
        epoch_of_def)
  show "demo_fiber \<in> set (binding_providers (provider_identities demo_pair [demo_fiber, FiberId 2])
      (binding_of [(Id ''db'', demo_db_handle)]))"
    by (simp add: set_binding_providers binding_of_lookup deps_get_def provider_identities_def demo_pair_fibers
        demo_loaded_def identity_of_pin_def identity_of_handle_def demo_db_handle_def demo_api_handle_def h_id_def
        demo_db_def demo_api_def depends_on_def definition_new_def)
qed simp_all

lemma demo_pending_only: "fmlookup (sm_fibers demo_pending) f = Some x \<Longrightarrow> fb_handle x = None"
  by (auto simp: demo_pending_def demo_runtime_world_def fiber_eval demo_plugin_def Let_def split: if_splits)

text \<open>
  The entry identities of publications stay in order: if every fiber's publication has a larger
  entry identity than the providers it was loaded for, this is so after any drive, withdrawal or
  disposal of any fiber, while foreign code and other tasks keep it.
\<close>

theorem publications_stay_dated:
  assumes "respects_lock_call f call" "dates_call call" "respects_lock_factory f factory" "dates_factory factory"
    "fiber_ok f w" "dated w"
    "drive factory call f force w = Some (r, w') \<or> withdrawal_locked call f detached w = Some (r', w') \<or>
     dispose_locked call f w = Some (r'', w')"
  shows "dated w'"
  using assms(7)
proof (elim disjE)
  show "dated w'" if "drive factory call f force w = Some (r, w')" by (rule drive_dated [OF assms(1-6) that])
  show "dated w'" if "withdrawal_locked call f detached w = Some (r', w')"
    by (rule withdrawal_dated [OF assms(1,2,5,6) that])
  show "dated w'" if "dispose_locked call f w = Some (r'', w')" by (rule disposal_dated [OF assms(1,2,5,6) that])
qed

theorem publications_stay_dated_witness: "dated demo_active"
proof -
  have "dates_call demo_call" "dates_factory demo_factory"
    by (simp_all add: dates_call_def dates_factory_def demo_call_def demo_factory_def)
  moreover have "dated demo_pending"
    by (auto simp: dated_def demo_pending_fiber(2) demo_scope_inv(1) demo_pending_only)
  ultimately show ?thesis
    using publications_stay_dated [OF demo_foreign_code(1) _ demo_foreign_code(2) _ demo_ok(2)] demo_drive by blast
qed

text \<open>
  C30: Let the disposers return without a panic, leave the scopes and the fibers alone and respect the locks, let
  the other tasks respect the locks, and let every watched fiber be in a state its own history can leave.
  Then a withdrawal of the current publication is accepted, returns and completes: the entry is gone
  before the first fiber is driven, and still when the call returns unless another task published it
  again; every fiber that depends on it, directly or through others, was driven, in the order of the
  withdrawal, and is not active; there is no lifecycle error, and the provider is reported finalized.
\<close>

theorem withdrawal_completes:
  assumes "quiet_call call" "respectful_call call" "respectful_others others"
    "\<And>f. f \<in> live_watched rr w \<Longrightarrow> fiber_ok f w"
    "get_local (sm_scopes w) (reactive_scope rr) i = Some h"
  shows "\<exists>fs w1 report w'. withdrawn rr i (h_generation h) w h fs w1 \<and>
    get_local (sm_scopes w1) (reactive_scope rr) i = None \<and>
    withdraw_and_reconcile call others rr i (h_generation h) w = Some (Ok report, w') \<and>
    ((\<forall>f u. sm_scopes (others f u) = sm_scopes u) \<longrightarrow> get_local (sm_scopes w') (reactive_scope rr) i = None) \<and>
    rp_driven report =
      withdrawal_order w1 fs (withdrawal_closure w1 fs h (provider_identities w1 fs)) (provider_identities w1 fs) \<and>
    set (rp_driven report) = Collect (affected w1 fs h (provider_identities w1 fs)) \<and>
    (\<forall>f \<in> set (rp_driven report). fiber_state w' f \<noteq> FiberActive) \<and>
    rp_errors report = [] \<and> rp_provider_finalized report"
proof (rule withdrawal_returns_Ok [OF assms])
  fix fs w1 report w'
  assume wd: "withdrawn rr i (h_generation h) w h fs w1" "get_local (sm_scopes w1) (reactive_scope rr) i = None"
    and run: "withdraw_and_reconcile call others rr i (h_generation h) w = Some (Ok report, w')"
    and gone: "(\<And>f u. sm_scopes (others f u) = sm_scopes u) \<Longrightarrow> get_local (sm_scopes w') (reactive_scope rr) i = None"
  note outcome = withdrawal_outcome [OF assms(2-4) wd(1) run]
  then have "set (rp_driven report) \<subseteq> live_watched rr w"
    using affected_watched withdrawn_world(1) [OF wd(1)] by blast
  with outcome have "\<forall>f \<in> set (rp_driven report). fiber_state w' f \<noteq> FiberActive" by blast
  with outcome wd run gone show ?thesis by blast
qed

theorem withdrawal_completes_witness:
  "\<exists>report w'. withdraw_and_reconcile demo_call (\<lambda>_ w. w) demo_coordinator (Id ''db'') (Generation 1)
       (demo_watching demo_active) = Some (Ok report, w') \<and>
     get_local (sm_scopes w') (reactive_scope demo_coordinator) (Id ''db'') = None \<and>
     (\<forall>f \<in> set (rp_driven report). fiber_state w' f \<noteq> FiberActive)"
proof -
  let ?w = "demo_watching demo_active"
  have ok: "fiber_ok f ?w" if "f \<in> live_watched demo_coordinator ?w" for f
    using that demo_watching_ok [OF demo_ok(1)] demo_watching_live [OF demo_alive(1)] by simp
  have respectful: "respectful_call demo_call" using demo_calm(1) by (simp add: calm_call_def)
  have db: "get_local (sm_scopes ?w) (reactive_scope demo_coordinator) (Id ''db'') = Some demo_db_handle"
    using demo_withdraw by (auto simp: withdraw_def get_local_def split: if_splits option.splits)
  have "h_generation demo_db_handle = Generation 1" by (simp add: demo_db_handle_def)
  with withdrawal_completes [OF demo_foreign_code(3) respectful demo_calm(4) ok db] show ?thesis by auto
qed

end
