(* ===== verification/Graph_Lab.thy ===== *)
theory Graph_Lab
  imports Runtime_Core
begin

text \<open>
  The laboratory program \<open>crates/graph-lab/src/main.rs\<close>, which the continuous integration runs: it puts
  the crates together, from the resolver of capabilities to the coordinator, and prints what it sees.

  Its process has two parts that its functions share, the scopes and the lines printed; a value of a
  capability is a string.  The other objects are local variables, which an early return drops.  Every
  error is boxed; \<open>lab_error\<close> keeps it, and the value that a message would show.  What is dropped when
  a function returns is not followed, since no later step of the program sees it.
\<close>

subsection \<open>The process\<close>

datatype lab_error =
    LE_Id invalid_id
  | LE_Graph capability_graph_error
  | LE_Scope scope_error
  | LE_Workflow workflow_graph_error
  | LE_Journal journal_error
  | LE_Buffer buffer_error
  | LE_Stream stream_error
  | LE_Runtime runtime_error
  | LE_UnexpectedFirstStep step_result
  | LE_UnexpectedAction recovery_action
  | LE_SameAttempt
  | LE_StreamPolicy

record lab_process =
  lp_scopes :: "string scope_world"
  lp_output :: "string list"

type_synonym u32 = "32 word"
type_synonym 'a lab = "(lab_process, 'a, lab_error) act"

definition lab_start :: lab_process where
  "lab_start = \<lparr>lp_scopes = \<lparr>sw_scopes = fmempty, sw_roots = 0, sw_next_entry_id = 1\<rparr>, lp_output = []\<rparr>"

definition println :: "string \<Rightarrow> unit lab" where
  "println line p = (Ok (), p\<lparr>lp_output := lp_output p @ [line]\<rparr>)"

definition lab_return :: "'a \<Rightarrow> 'a lab" where
  "lab_return a p = (Ok a, p)"

definition lab_throw :: "lab_error \<Rightarrow> 'a lab" where
  "lab_throw e p = (Err e, p)"

text \<open>The operator \<open>?\<close> on a result, on a call on the scopes, and on a call on a local object.\<close>

definition attempt :: "('e \<Rightarrow> lab_error) \<Rightarrow> ('a, 'e) res \<Rightarrow> 'a lab" where
  "attempt f r p = (map_err f r, p)"

definition on_scopes :: "(string scope_world, 'a, scope_error) act \<Rightarrow> 'a lab" where
  "on_scopes m p = (case m (lp_scopes p) of (r, w) \<Rightarrow> (map_err LE_Scope r, p\<lparr>lp_scopes := w\<rparr>))"

definition on_local :: "('e \<Rightarrow> lab_error) \<Rightarrow> ('s, 'a, 'e) act \<Rightarrow> 's \<Rightarrow> ('a \<times> 's) lab" where
  "on_local f m s p = (case m s of (r, s') \<Rightarrow> (map_err f (res_bind r (\<lambda>a. Ok (a, s'))), p))"

definition on_runtime ::
  "(string scope_world \<Rightarrow> (string runtime, 'a, runtime_error) act) \<Rightarrow> string runtime \<Rightarrow>
   ('a \<times> string runtime) lab" where
  "on_runtime m r p = on_local LE_Runtime (m (lp_scopes p)) r p"

text \<open>\<open>Option::expect\<close>.\<close>

definition expect_some :: "'a option \<Rightarrow> 'a lab" where
  "expect_some x p = (case x of Some a \<Rightarrow> (Ok a, p) | None \<Rightarrow> (Panic, p))"

definition lab_new_root :: "scope_ref lab" where
  "lab_new_root p = (case scope_root (lp_scopes p) of (s, w) \<Rightarrow> (Ok s, p\<lparr>lp_scopes := w\<rparr>))"

definition show_bool :: "bool \<Rightarrow> string" where
  "show_bool b = (if b then ''true'' else ''false'')"

definition is_gap :: "sequence_observation \<Rightarrow> bool" where
  "is_gap x = (case x of Gap _ _ \<Rightarrow> True | _ \<Rightarrow> False)"

subsection \<open>Capabilities\<close>

text \<open>A graph of two capabilities, and the order in which they are constructed.\<close>

definition lab_resolution :: "ident \<Rightarrow> ident \<Rightarrow> (capability_graph \<times> string) lab" where
  "lab_resolution model_id runtime_id =
     (let inserted = snd (graph_insert (definition_of_capability (capability_new runtime_id ''runtime''))
            (snd (graph_insert (definition_of_capability (capability_new model_id ''model'')) graph_empty)))
      in act_bind (on_local LE_Graph (graph_require runtime_id model_id) inserted) (\<lambda>(_, capabilities).
         act_bind (attempt LE_Graph (resolve capabilities)) (\<lambda>resolution.
         lab_return (capabilities,
           join_with '' -> '' (map show_ident (rg_construction_order resolution))))))"

definition bound_service :: "ident \<Rightarrow> string resolved_dependencies \<Rightarrow> (string, string) res" where
  "bound_service model_id dependencies =
     (case deps_get dependencies model_id of
        None \<Rightarrow> Panic
      | Some model \<Rightarrow> Ok (''service bound to '' @ h_instance model))"

text \<open>A service, the replacement of the model it is bound to, and what both sides see then.\<close>

definition lab_replacement :: "ident \<Rightarrow> ident \<Rightarrow> (scope_ref \<times> string \<times> string) lab" where
  "lab_replacement model_id runtime_id =
     act_bind lab_new_root (\<lambda>runtime.
     act_bind (on_scopes (provide runtime (definition_new model_id ''model'') (\<lambda>_. Ok ''model-v1''))) (\<lambda>model_v1.
     act_bind (on_scopes (provide runtime (depends_on model_id (definition_new runtime_id ''runtime''))
                            (bound_service model_id))) (\<lambda>service.
     act_bind (on_scopes (replace runtime (definition_new model_id ''model'') (h_generation model_v1)
                            (\<lambda>_. Ok ''model-v2''))) (\<lambda>_.
     act_bind (\<lambda>p. expect_some (scope_get (lp_scopes p) runtime model_id) p) (\<lambda>new_model.
     lab_return (runtime, h_instance service, h_instance new_model))))))"

subsection \<open>A workflow that a planner extends\<close>

definition lab_batch :: "mutation_batch \<Rightarrow> workflow_graph \<Rightarrow> (workflow_mutation_record \<times> workflow_graph) lab" where
  "lab_batch b g = on_local LE_Workflow (apply_batch (wg_revision g) b) g"

definition lab_plan :: "task \<Rightarrow> task \<Rightarrow> task \<Rightarrow> mutation_batch" where
  "lab_plan plan research execute = batch_from_mutations
     [AddTask plan, AddTask research, AddTask execute,
      AddDependency (tk_id research) (tk_id plan), AddDependency (tk_id execute) (tk_id research)]"

definition lab_extension :: "task \<Rightarrow> task \<Rightarrow> task \<Rightarrow> task \<Rightarrow> mutation_batch" where
  "lab_extension research execute validate review = batch_from_mutations
     [AddTask validate, AddTask review,
      AddDependency (tk_id validate) (tk_id research), AddDependency (tk_id review) (tk_id research),
      AddDependency (tk_id execute) (tk_id validate), AddDependency (tk_id execute) (tk_id review)]"

definition lab_task :: "string \<Rightarrow> string \<Rightarrow> task lab" where
  "lab_task i label = act_bind (attempt LE_Id (id_new i)) (\<lambda>i. lab_return \<lparr>tk_id = i, tk_label = label\<rparr>)"

definition lab_workflow :: "(revision \<times> workflow_graph) lab" where
  "lab_workflow =
     act_bind (lab_task ''plan'' ''Plan work'') (\<lambda>plan.
     act_bind (lab_task ''research'' ''Research work'') (\<lambda>research.
     act_bind (lab_task ''execute'' ''Execute work'') (\<lambda>execute.
     act_bind (lab_batch (lab_plan plan research execute) graph_default) (\<lambda>(_, g1).
     act_bind (on_local LE_Workflow (complete_task (tk_id plan)) g1) (\<lambda>(_, g2).
     act_bind (on_local LE_Workflow (complete_task (tk_id research)) g2) (\<lambda>(_, g3).
     act_bind (lab_task ''validate'' ''Validate work'') (\<lambda>validate.
     act_bind (lab_task ''review'' ''Review work'') (\<lambda>review.
     act_bind (lab_batch (lab_extension research execute validate review) g3) (\<lambda>(_, g4).
     lab_return (wg_revision g3, g4))))))))))"

subsection \<open>Recovery of an effect\<close>

definition lab_recovery :: "unit lab" where
  "lab_recovery =
     act_bind (attempt LE_Id (id_new ''send-contract'')) (\<lambda>effect_task.
     act_bind (attempt LE_Id (operation_id_new ''send-contract/contract-123/v1'')) (\<lambda>operation_id.
     act_bind (attempt LE_Id (attempt_id_new ''attempt-1'')) (\<lambda>attempt_id.
     act_bind (lab_batch (batch_from_mutations [AddTask \<lparr>tk_id = effect_task, tk_label = ''Send contract''\<rparr>])
                 graph_default) (\<lambda>(_, workflow).
     act_bind (attempt LE_Id (id_new ''send-contract'')) (\<lambda>task_id.
     act_bind (on_local LE_Journal (persist_intent
                 \<lparr>ei_task = task_id, ei_operation = operation_id, ei_semantics = NonIdempotent\<rparr>) journal_new) (\<lambda>(_, j1).
     act_bind (on_local LE_Journal (persist_dispatch
                 \<lparr>dr_operation = operation_id, dr_attempt = attempt_id\<rparr>) j1) (\<lambda>(_, j2).
     act_bind (attempt LE_Journal (classify_recovery workflow j2 operation_id)) (\<lambda>decision.
     if rd_action decision \<noteq> Reconcile then (\<lambda>p. (Panic, p))
     else println (''e04: non-idempotent outcome unknown -> '' @ show_recovery_action (rd_action decision) @
            '', external_commits='' @ show_nat 1)))))))))"

subsection \<open>Three buffers of one item\<close>

definition lab_item :: "ident \<Rightarrow> sequence \<Rightarrow> 't \<Rightarrow> 't stream_item" where
  "lab_item stream s x = \<lparr>si_stream = stream, si_sequence = s, si_payload = x\<rparr>"

text \<open>A push that must succeed, and a push that may be refused and is retried after a pop.\<close>

definition expect_push :: "('b, unit, 'e) act \<Rightarrow> 'b \<Rightarrow> 'b lab" where
  "expect_push push b p =
     (case push b of
        (Ok _, b') \<Rightarrow> (Ok b', p)
      | (Err _, _) \<Rightarrow> (Panic, p)
      | (Panic, _) \<Rightarrow> (Panic, p))"

definition lossless_status ::
  "'t stream_item \<Rightarrow> 't lossless_buffer \<Rightarrow> string lab" where
  "lossless_status item b p =
     (case lossless_try_push item b of
        (Err (Backpressure refused), b1) \<Rightarrow>
          act_bind (expect_push (lossless_try_push refused) (snd (lossless_pop b1)))
            (\<lambda>_. lab_return ''backpressured'') p
      | (Ok _, b1) \<Rightarrow> (Ok ''accepted'', p)
      | (Panic, b1) \<Rightarrow> (Panic, p))"

definition lab_coalescing :: "u32 stream_item \<Rightarrow> u32 stream_item \<Rightarrow> ident \<Rightarrow> bool lab" where
  "lab_coalescing it1 it2 stream =
     act_bind (attempt LE_Buffer (coalescing_new 1)) (\<lambda>b0.
     act_bind (expect_push (coalescing_try_push \<lparr>ki_key = ''progress'', ki_item = it1\<rparr>) b0) (\<lambda>b1.
     act_bind (expect_push (coalescing_try_push \<lparr>ki_key = ''progress'', ki_item = it2\<rparr>) b1) (\<lambda>b2.
     act_bind (expect_some (fst (coalescing_pop b2))) (\<lambda>coalesced.
     act_bind (on_local LE_Stream (tracker_observe (ki_item coalesced)) (tracker_new stream)) (\<lambda>(x, _).
     lab_return (is_gap x))))))"

definition lab_lossy :: "u32 stream_item \<Rightarrow> u32 stream_item \<Rightarrow> ident \<Rightarrow> bool lab" where
  "lab_lossy it1 it2 stream =
     act_bind (attempt LE_Buffer (lossy_new 1)) (\<lambda>b0.
     act_bind (expect_some (fst (lossy_pop (snd (lossy_push it2 (snd (lossy_push it1 b0))))))) (\<lambda>telemetry.
     act_bind (on_local LE_Stream (tracker_observe telemetry) (tracker_new stream)) (\<lambda>(x, _).
     lab_return (is_gap x))))"

definition lab_streams :: "unit lab" where
  "lab_streams =
     act_bind (attempt LE_Id (id_new ''e05-events'')) (\<lambda>stream.
     let it1 = lab_item stream sequence_first 10 in
     act_bind (\<lambda>p. (case sequence_next (si_sequence it1) of Ok s \<Rightarrow> (Ok s, p) | _ \<Rightarrow> (Panic, p))) (\<lambda>s2.
     let it2 = lab_item stream s2 20 in
     act_bind (attempt LE_Buffer (lossless_new 1)) (\<lambda>b0.
     act_bind (expect_push (lossless_try_push it1) b0) (\<lambda>b1.
     act_bind (lossless_status it2 b1) (\<lambda>status.
     act_bind (lab_coalescing it1 it2 stream) (\<lambda>coalesced_gap.
     act_bind (lab_lossy it1 it2 stream) (\<lambda>telemetry_gap.
     println (''e05: lossless='' @ status @ '', coalesced_gap='' @ show_bool coalesced_gap @
       '', telemetry_gap='' @ show_bool telemetry_gap))))))))"

subsection \<open>A run of the coordinator\<close>

definition smoke_plan :: "task \<Rightarrow> task \<Rightarrow> task \<Rightarrow> mutation_batch" where
  "smoke_plan a b c = batch_from_mutations
     [AddTask a, AddTask b, AddTask c, AddDependency (tk_id b) (tk_id a), AddDependency (tk_id c) (tk_id b)]"

definition first_pending :: "step_result \<Rightarrow> attempt_id lab" where
  "first_pending result =
     (case result of
        EffectPending _ a _ \<Rightarrow> lab_return a
      | _ \<Rightarrow> lab_throw (LE_UnexpectedFirstStep result))"

definition attempts_bound_to :: "ident \<Rightarrow> entry_id \<Rightarrow> string runtime \<Rightarrow> nat" where
  "attempts_bound_to i e r =
     length (filter (\<lambda>a. case attempt_capability a i of Some pin \<Rightarrow> cp_entry_id pin = e | None \<Rightarrow> False)
       (rt_attempts r))"

text \<open>The effect of the first task is dispatched, its outcome is unknown, and it is dispatched again
  under a new provider; then the outcome arrives and the run goes on.\<close>

definition smoke_effect ::
  "scope_ref \<Rightarrow> ident \<Rightarrow> operation_id \<Rightarrow> string runtime \<Rightarrow> (string capability_handle \<times> string runtime) lab" where
  "smoke_effect scope provider_id operation_id r0 =
     act_bind (on_runtime runtime_step r0) (\<lambda>(result, r1).
     act_bind (first_pending result) (\<lambda>first_attempt.
     act_bind (on_runtime (\<lambda>w. dispatch_effect w operation_id) r1) (\<lambda>(_, r2).
     act_bind (on_runtime (\<lambda>_. recover operation_id) r2) (\<lambda>(recovery, r3).
     if rd_action recovery \<noteq> RetrySameOperation then lab_throw (LE_UnexpectedAction (rd_action recovery))
     else
     act_bind (\<lambda>p. expect_some (scope_generation (lp_scopes p) scope provider_id) p) (\<lambda>generation.
     act_bind (on_scopes (replace scope (definition_new provider_id ''provider'') generation
                            (\<lambda>_. Ok ''provider-v2''))) (\<lambda>provider_v2.
     act_bind (on_runtime (\<lambda>w. dispatch_effect w operation_id) r3) (\<lambda>(retry_attempt, r4).
     act_bind (on_runtime (\<lambda>_. record_effect_outcome operation_id retry_attempt Succeeded) r4) (\<lambda>(_, r5).
     act_bind (on_runtime (\<lambda>_. recover operation_id) r5) (\<lambda>(_, r6).
     if first_attempt = retry_attempt then lab_throw LE_SameAttempt
     else lab_return (provider_v2, r6))))))))))"

text \<open>Two progress and two telemetry messages, of which one each is left to drain.\<close>

definition smoke_streams :: "ident \<Rightarrow> string runtime \<Rightarrow> string runtime lab" where
  "smoke_streams t r0 =
     act_bind (on_runtime (\<lambda>_. emit_progress t 10) r0) (\<lambda>(_, r1).
     act_bind (on_runtime (\<lambda>_. emit_progress t 20) r1) (\<lambda>(_, r2).
     act_bind (on_runtime (\<lambda>_. emit_telemetry ''m1-first'') r2) (\<lambda>(_, r3).
     act_bind (on_runtime (\<lambda>_. emit_telemetry ''m1-latest'') r3) (\<lambda>(_, r4).
     case drain_progress_events r4 of (progress, r5) \<Rightarrow>
     case drain_telemetry_events r5 of (telemetry, r6) \<Rightarrow>
     if length progress \<noteq> 1 \<or> length telemetry \<noteq> 1 then lab_throw LE_StreamPolicy
     else lab_return r6))))"

definition smoke_report :: "ident \<Rightarrow> entry_id \<Rightarrow> entry_id \<Rightarrow> string runtime \<Rightarrow> unit lab" where
  "smoke_report provider_id v1 v2 r =
     println (''m1: run='' @
       (if length (graph_completed_tasks (rt_workflow r)) = 3 then ''completed'' else ''blocked'') @
       '' tasks='' @ show_nat (length (graph_tasks (rt_workflow r))) @
       '' attempts='' @ show_nat (length (rt_attempts r)) @
       '' provider_v1_attempts='' @ show_nat (attempts_bound_to provider_id v1 r) @
       '' provider_v2_attempts='' @ show_nat (attempts_bound_to provider_id v2 r) @
       '' recovery=idempotent-retry-ok stream_loss=non_authoritative'')"

definition run_m1_smoke :: "unit lab" where
  "run_m1_smoke =
     act_bind (attempt LE_Id (id_new ''smoke-provider'')) (\<lambda>provider_id.
     act_bind lab_new_root (\<lambda>scope.
     act_bind (on_scopes (provide scope (definition_new provider_id ''provider'') (\<lambda>_. Ok ''provider-v1''))) (\<lambda>provider_v1.
     act_bind (lab_task ''m1-a'' ''M1 A'') (\<lambda>a.
     act_bind (lab_task ''m1-b'' ''M1 B'') (\<lambda>b.
     act_bind (lab_task ''m1-c'' ''M1 C'') (\<lambda>c.
     act_bind (lab_batch (smoke_plan a b c) graph_default) (\<lambda>(_, workflow).
     act_bind (attempt LE_Id (operation_id_new ''m1-idempotent-effect'')) (\<lambda>operation_id.
     act_bind (attempt LE_Id (run_id_new ''m1-smoke'')) (\<lambda>run.
     act_bind (attempt LE_Runtime (start_run run workflow scope
       [(tk_id a, with_effect operation_id Idempotent (require_capability provider_id config_new)),
        (tk_id b, require_capability provider_id config_new)])) (\<lambda>r0.
     act_bind (smoke_effect scope provider_id operation_id r0) (\<lambda>(provider_v2, r1).
     act_bind (on_runtime run_until_blocked r1) (\<lambda>(_, r2).
     act_bind (smoke_streams (tk_id a) r2) (\<lambda>r3.
     smoke_report provider_id (h_entry_id provider_v1) (h_entry_id provider_v2) r3)))))))))))))"

subsection \<open>The program\<close>

definition graph_lab_main :: "unit lab" where
  "graph_lab_main =
     act_bind (attempt LE_Id (id_new ''model'')) (\<lambda>model_id.
     act_bind (attempt LE_Id (id_new ''runtime'')) (\<lambda>runtime_id.
     act_bind (lab_resolution model_id runtime_id) (\<lambda>(capabilities, construction_order).
     act_bind (lab_replacement model_id runtime_id) (\<lambda>(runtime, old_service, new_model).
     act_bind lab_workflow (\<lambda>(before, workflow).
     act_bind (attempt LE_Id (id_new ''runtime-events'')) (\<lambda>stream_id.
     act_bind (println (''capabilities='' @ show_nat (graph_len capabilities) @
       '', construction_order='' @ construction_order @
       '', workflow_revision='' @ show_u64 (revision_get (wg_revision workflow)) @
       '', stream='' @ show_ident stream_id @ ''#'' @ show_u64 (sequence_get sequence_first) @
       '':baseline-ready'')) (\<lambda>_.
     act_bind (println (''e02r: '' @ old_service @ '' -> replacement -> new lookup '' @ new_model)) (\<lambda>_.
     act_bind (println (''e03: topology_revision='' @ show_u64 (revision_get before) @ '' -> '' @
       show_u64 (revision_get (wg_revision workflow)) @ '', completed=plan,research, ready='' @
       join_with '','' (map show_ident (ready_tasks workflow)))) (\<lambda>_.
     act_bind lab_recovery (\<lambda>_.
     act_bind lab_streams (\<lambda>_.
     act_bind run_m1_smoke (\<lambda>_.
     act_bind (\<lambda>p. case teardown runtime (lp_scopes p) of
                   (Ok _, w) \<Rightarrow> (Ok (), p\<lparr>lp_scopes := w\<rparr>)
                 | (_, w) \<Rightarrow> (Panic, p\<lparr>lp_scopes := w\<rparr>)) (\<lambda>_.
     lab_return ())))))))))))))"

end
