(* ===== verification/Graph_Lab_Properties.thy ===== *)
theory Graph_Lab_Properties
  imports Graph_Lab Runtime_Scheduler_Properties Capability_Scope_Properties Stream_Properties
begin

text \<open>
  The laboratory program is evaluated in the kernel, part by part: the resolver and the replacement,
  the planner's extension, the recovery decision, the three buffers, and the run of the coordinator
  whose effect is retried under a new provider.
\<close>

subsection \<open>Evaluation\<close>

lemmas lab_ops = act_bind_def attempt_def on_scopes_def on_local_def on_runtime_def lab_return_def
  lab_throw_def println_def expect_some_def lab_new_root_def lab_task_def lab_batch_def batch_from_mutations_def

lemmas lab_scope_eval = scope_eval provide_def replace_def publish_def publish_prepare_def
  validate_definition_def check_expectation_def bound_service_def get_local_def

lemma show_digits:
  "show_nat (Suc 0) = ''1''" "show_nat 1 = ''1''" "show_nat 2 = ''2''" "show_nat 3 = ''3''" "show_nat 4 = ''4''"
  by (simp_all add: show_nat_unfold digit_char_def char_of_def bit_Suc_0_iff)

lemma show_lengths:
  "show_nat (Suc (Suc 0)) = ''2''" "show_nat (Suc (Suc (Suc 0))) = ''3''" "show_nat (Suc (Suc (Suc (Suc 0)))) = ''4''"
  using show_digits(3-5) by (simp_all add: numeral_eq_Suc)

lemma show_attempt_inject [simp]: "show_attempt a = show_attempt b \<longleftrightarrow> a = b"
  by (cases a; cases b) (simp add: show_attempt_def)

lemma lab_resolution_eval:
  "\<exists>g. lab_resolution (Id ''model'') (Id ''runtime'') p = (Ok (g, ''model -> runtime''), p) \<and> graph_len g = 2"
  by (simp add: lab_resolution_def lab_ops cap_eval Let_def definition_of_capability_def capability_new_def
      graph_require_def add_dependency_def graph_len_def fcard_finsert_if)

lemma lab_workflow_eval:
  "\<exists>g. lab_workflow p = (Ok (Revision 1, g), p) \<and> wg_revision g = Revision 2 \<and>
     ready_tasks g = [Id ''review'', Id ''validate'']"
  by (simp add: lab_workflow_def lab_ops graph_eval id_new_visible lab_plan_def lab_extension_def
      graph_default_def topo_empty_def revision_zero_def complete_task_def ready_tasks_def)

lemma lab_recovery_eval:
  "lab_recovery p = (Ok (), p\<lparr>lp_output := lp_output p @
     [''e04: non-idempotent outcome unknown -> reconcile, external_commits=1'']\<rparr>)"
  by (simp add: lab_recovery_def lab_ops graph_eval id_new_visible operation_id_new_def attempt_id_new_def
      graph_default_def topo_empty_def revision_zero_def persist_intent_def persist_dispatch_def journal_new_def
      classify_recovery_def journal_intent_def attempts_of_def journal_state_def known_outcome_def
      latest_dispatch_def graph_task_def topo_task_def graph_is_completed_def last_opt_def show_digits
      del: show_nat_unfold)

lemma lab_streams_eval:
  "lab_streams p = (Ok (), p\<lparr>lp_output := lp_output p @
     [''e05: lossless=backpressured, coalesced_gap=true, telemetry_gap=true'']\<rparr>)"
  by (simp add: lab_streams_def lab_ops id_new_visible lab_item_def sequence_first_def sequence_next_def
      sequence_checked_next_def u64_checked_succ_def lossless_new_def expect_push_def lossless_try_push_def
      lossless_status_def lossless_pop_def lab_coalescing_def coalescing_new_def coalescing_try_push_def
      same_target_def coalescing_pop_def tracker_observe_def tracker_new_def classify_sequence_def Let_def
      is_gap_def lab_lossy_def lossy_new_def lossy_push_def lossy_pop_def show_bool_def)

subsection \<open>The scopes\<close>

definition lab_world :: "string scope_world" where
  "lab_world = lp_scopes (snd (lab_replacement (Id ''model'') (Id ''runtime'') lab_start))"

lemma lab_replacement_eval:
  "lab_replacement (Id ''model'') (Id ''runtime'') lab_start =
     (Ok (Root 0, ''service bound to model-v1'', ''model-v2''), \<lparr>lp_scopes = lab_world, lp_output = []\<rparr>)"
  by (simp add: lab_world_def lab_replacement_def lab_ops lab_start_def lab_scope_eval)

abbreviation smoke_scope :: scope_ref where "smoke_scope \<equiv> Root (Suc 0)"
abbreviation smoke_provider :: ident where "smoke_provider \<equiv> Id ''smoke-provider''"
abbreviation smoke_definition :: capability_definition where
  "smoke_definition \<equiv> definition_new smoke_provider ''provider''"

definition smoke_v1 :: "string capability_handle" where
  "smoke_v1 = Handle smoke_definition ''provider-v1'' [] (Generation 1) (EntryId 4)"

definition smoke_v2 :: "string capability_handle" where
  "smoke_v2 = Handle smoke_definition ''provider-v2'' [] (Generation 2) (EntryId 5)"

definition smoke_world0 :: "string scope_world" where
  "smoke_world0 = snd (scope_root lab_world)"

definition smoke_world1 :: "string scope_world" where
  "smoke_world1 = snd (provide smoke_scope smoke_definition (\<lambda>_. Ok ''provider-v1'') smoke_world0)"

definition smoke_world2 :: "string scope_world" where
  "smoke_world2 = snd (replace smoke_scope smoke_definition (Generation 1) (\<lambda>_. Ok ''provider-v2'') smoke_world1)"

lemmas smoke_worlds = smoke_world2_def smoke_world1_def smoke_world0_def smoke_v1_def smoke_v2_def lab_world_def
  lab_replacement_def lab_ops lab_start_def lab_scope_eval

lemma smoke_scopes:
  "scope_root lab_world = (smoke_scope, smoke_world0)"
  "provide smoke_scope smoke_definition (\<lambda>_. Ok ''provider-v1'') smoke_world0 = (Ok smoke_v1, smoke_world1)"
  "replace smoke_scope smoke_definition (Generation 1) (\<lambda>_. Ok ''provider-v2'') smoke_world1 = (Ok smoke_v2, smoke_world2)"
  by (simp_all add: smoke_worlds)

lemma smoke_lookup:
  "has_local smoke_world1 smoke_scope smoke_provider" "scope_get smoke_world1 smoke_scope smoke_provider = Some smoke_v1"
  "has_local smoke_world2 smoke_scope smoke_provider" "scope_get smoke_world2 smoke_scope smoke_provider = Some smoke_v2"
  by (simp_all add: smoke_worlds has_local_def has_local_entry_def)

lemma smoke_generation: "scope_generation smoke_world1 smoke_scope smoke_provider = Some (Generation 1)"
  using smoke_lookup(2) by (simp add: scope_generation_def smoke_v1_def)

lemma smoke_context:
  "context_get smoke_world1 (Context smoke_scope None {||} fmempty) smoke_provider = Some smoke_v1"
  "context_get smoke_world2 (Context smoke_scope None {||} fmempty) smoke_provider = Some smoke_v2"
  using smoke_lookup by simp_all

text \<open>At the end the first scope is closed; nothing that happened in the second one hinders it.\<close>

lemma lab_teardown: "\<exists>es w. teardown (Root 0) smoke_world2 = (Ok es, w) \<and> \<not> is_open w (Root 0) \<and> is_open w smoke_scope"
  by (simp add: smoke_worlds teardown_eval)
subsection \<open>The run\<close>

definition smoke_task :: "string \<Rightarrow> string \<Rightarrow> task" where
  "smoke_task i label = \<lparr>tk_id = Id i, tk_label = label\<rparr>"

definition smoke_batch :: mutation_batch where
  "smoke_batch = smoke_plan (smoke_task ''m1-a'' ''M1 A'') (smoke_task ''m1-b'' ''M1 B'') (smoke_task ''m1-c'' ''M1 C'')"

definition smoke_graph :: workflow_graph where
  "smoke_graph =
     \<lparr>wg_topology =
        \<lparr>wt_tasks = fmupd (Id ''m1-c'') (smoke_task ''m1-c'' ''M1 C'') (fmupd (Id ''m1-b'') (smoke_task ''m1-b'' ''M1 B'')
           (fmupd (Id ''m1-a'') (smoke_task ''m1-a'' ''M1 A'') fmempty)),
         wt_deps = fmupd (Id ''m1-c'') {|Id ''m1-b''|} (fmupd (Id ''m1-b'') {|Id ''m1-a''|} fmempty)\<rparr>,
      wg_facts = \<lparr>ef_completed = {||}, ef_log = []\<rparr>, wg_revision = Revision 1,
      wg_log = [\<lparr>wr_base = Revision 0, wr_result = Revision 1, wr_mutations = batch_as_slice smoke_batch\<rparr>]\<rparr>"

lemma smoke_graph_built:
  "\<exists>rc. apply_batch (wg_revision graph_default) smoke_batch graph_default = (Ok rc, smoke_graph)"
  by (simp add: smoke_graph_def smoke_batch_def smoke_plan_def batch_from_mutations_def graph_eval smoke_task_def graph_default_def
      topo_empty_def revision_zero_def)

definition smoke_op :: operation_id where "smoke_op = OperationId (Id ''m1-idempotent-effect'')"
definition smoke_run :: run_id where "smoke_run = RunId (Id ''m1-smoke'')"

definition smoke_configs :: "(ident \<times> task_config) list" where
  "smoke_configs =
     [(Id ''m1-a'', with_effect smoke_op Idempotent (require_capability smoke_provider config_new)),
      (Id ''m1-b'', require_capability smoke_provider config_new)]"

definition smoke_started :: "string runtime" where
  "smoke_started =
     \<lparr>rt_run = smoke_run, rt_workflow = smoke_graph, rt_context = Context smoke_scope None {||} fmempty,
      rt_journal = journal_new, rt_store = snd (create_run smoke_run store_new),
      rt_store_revision = StoreRevision 0,
      rt_configs = fmupd (Id ''m1-b'') (snd (smoke_configs ! 1)) (fmupd (Id ''m1-a'') (snd (smoke_configs ! 0)) fmempty),
      rt_attempts = [], rt_pending = None, rt_cancelled = {||}, rt_next_attempt = 1,
      rt_execution_sequencer = sequencer_new (Id ''runtime-events''),
      rt_progress_sequencer = sequencer_new (Id ''runtime-progress''),
      rt_telemetry_sequencer = sequencer_new (Id ''runtime-telemetry''),
      rt_execution = \<lparr>lb_capacity = 128, lb_items = []\<rparr>, rt_progress = \<lparr>cb_capacity = 8, cb_items = []\<rparr>,
      rt_telemetry = \<lparr>yb_capacity = 1, yb_items = []\<rparr>\<rparr>"

lemma smoke_starts: "start_run smoke_run smoke_graph smoke_scope smoke_configs = Ok smoke_started"
  by (simp add: start_run_def build_def smoke_started_def smoke_configs_def stream_id_def expect_def id_new_visible
      lossless_new_def coalescing_new_def lossy_new_def store_new_def create_run_def
      store_revision_initial_def smoke_run_def graph_task_def topo_task_def smoke_graph_def)

text \<open>The coordinator once the effect is settled: two attempts of the first task, bound to the two
  publications, two dispatches, and the outcome of the second.\<close>

definition smoke_pin :: "string capability_handle \<Rightarrow> string capability_pin" where
  "smoke_pin h =
     \<lparr>cp_capability = smoke_provider, cp_generation = h_generation h, cp_entry_id = h_entry_id h,
      cp_replay_identity = \<lparr>cri_capability = smoke_provider, cri_definition = h_replay_identity h\<rparr>, cp_handle = h\<rparr>"

definition smoke_attempt ::
  "nat \<Rightarrow> ident \<Rightarrow> operation_id option \<Rightarrow> string capability_handle list \<Rightarrow> string task_attempt" where
  "smoke_attempt n t op hs =
     \<lparr>ta_run = smoke_run, ta_task = t, ta_attempt = attempt_nth smoke_run n, ta_operation = op, ta_pins = map smoke_pin hs\<rparr>"

definition smoke_retries :: "string task_attempt list" where
  "smoke_retries =
     [smoke_attempt 1 (Id ''m1-a'') (Some smoke_op) [smoke_v1], smoke_attempt 2 (Id ''m1-a'') (Some smoke_op) [smoke_v2]]"

definition smoke_intent :: effect_intent where
  "smoke_intent = \<lparr>ei_task = Id ''m1-a'', ei_operation = smoke_op, ei_semantics = Idempotent\<rparr>"

definition smoke_dispatch :: "nat \<Rightarrow> dispatch_record" where
  "smoke_dispatch n = \<lparr>dr_operation = smoke_op, dr_attempt = attempt_nth smoke_run n\<rparr>"

definition smoke_outcome :: outcome_record where
  "smoke_outcome = \<lparr>oc_operation = smoke_op, oc_attempt = attempt_nth smoke_run 2, oc_outcome = Succeeded\<rparr>"

definition smoke_commits :: "(string \<times> durable_mutation) list" where
  "smoke_commits =
     [(''intent:'' @ show_operation smoke_op, RecordIntent smoke_intent),
      (''admit:'' @ show_attempt (attempt_nth smoke_run 1), AdmitAttempt (admission_of (smoke_retries ! 0))),
      (''dispatch:'' @ show_attempt (attempt_nth smoke_run 1), RecordDispatch (smoke_dispatch 1)),
      (''admit:'' @ show_attempt (attempt_nth smoke_run 2), AdmitAttempt (admission_of (smoke_retries ! 1))),
      (''dispatch:'' @ show_attempt (attempt_nth smoke_run 2), RecordDispatch (smoke_dispatch 2)),
      (''outcome:'' @ show_attempt (attempt_nth smoke_run 2), RecordOutcome smoke_outcome)]"
definition smoke_store :: in_memory_store where
  "smoke_store =
     fold (\<lambda>(n, key, m) s. snd (commit \<lparr>cq_run = smoke_run, cq_expected = StoreRevision n, cq_key = IdempotencyKey key,
                                       cq_mutations = [m]\<rparr> s))
       (zip [0, 1, 2, 3, 4, 5] smoke_commits) (snd (create_run smoke_run store_new))"

definition smoke_event :: "u64 \<Rightarrow> runtime_event \<Rightarrow> runtime_event stream_item" where
  "smoke_event n x = \<lparr>si_stream = Id ''runtime-events'', si_sequence = Sequence n, si_payload = x\<rparr>"

definition smoke_settled :: "string runtime" where
  "smoke_settled = smoke_started
     \<lparr>rt_workflow := smoke_graph\<lparr>wg_facts := \<lparr>ef_completed = {|Id ''m1-a''|}, ef_log = [\<lparr>cr_task = Id ''m1-a''\<rparr>]\<rparr>\<rparr>,
      rt_journal :=
        \<lparr>dj_intents = fmupd smoke_op smoke_intent fmempty,
         dj_task_operations = fmupd (Id ''m1-a'') smoke_op fmempty,
         dj_dispatches = fmupd (attempt_nth smoke_run 2) (smoke_dispatch 2)
           (fmupd (attempt_nth smoke_run 1) (smoke_dispatch 1) fmempty),
         dj_operation_attempts = fmupd smoke_op [attempt_nth smoke_run 1, attempt_nth smoke_run 2] fmempty,
         dj_outcomes = fmupd (attempt_nth smoke_run 2) smoke_outcome fmempty\<rparr>,
      rt_store := smoke_store, rt_store_revision := StoreRevision 6,
      rt_attempts := smoke_retries, rt_next_attempt := 3,
      rt_execution_sequencer := \<lparr>sq_stream = Id ''runtime-events'', sq_next = Sequence 4, sq_exhausted = False\<rparr>,
      rt_execution := \<lparr>lb_capacity = 128, lb_items =
        [smoke_event 1 (TaskStarted smoke_run (Id ''m1-a'') (attempt_nth smoke_run 1)),
         smoke_event 2 (TaskStarted smoke_run (Id ''m1-a'') (attempt_nth smoke_run 2)),
         smoke_event 3 (TaskCompleted smoke_run (Id ''m1-a'') (attempt_nth smoke_run 2))]\<rparr>\<rparr>"

lemmas smoke_objects = smoke_started_def smoke_configs_def smoke_graph_def smoke_task_def smoke_op_def smoke_run_def
  smoke_retries_def smoke_attempt_def smoke_pin_def smoke_intent_def smoke_dispatch_def smoke_outcome_def smoke_event_def

lemmas smoke_eval =
  smoke_objects graph_eval runtime_step_def step_task_def ensure_configured_effect_def journal_operation_for_task_def
  record_effect_intent_def admit_and_commit_def commit_durable_def idempotency_key_new_def
  keys_visible [simplified] Let_def persist_intent_def persist_dispatch_def persist_outcome_def
  journal_new_def attempts_of_def commit_def commit_state_def store_eval store_new_def journal_state_def
  known_outcome_def latest_dispatch_def with_effect_def config_new_def graph_task_def topo_task_def
  graph_is_completed_def step_effect_def resume_or_begin_def begin_attempt_def attempt_for_task_def
  capture_capability_pins_def required_of_def attempt_id_new_name start_attempt_def announce_start_def
  emit_execution_def enqueue_execution_def sequencer_emit_def sequencer_new_def lossless_try_push_def
  sequence_first_def sequence_checked_next_def admission_of_def dispatch_effect_def journal_intent_def
  dispatch_attempt_def record_effect_outcome_def last_opt_def ready_tasks_def require_capability_def
  recover_def classify_recovery_def complete_with_def complete_in_workflow_def complete_task_def emit_completed_def
  smoke_context

lemma smoke_effect_eval:
  "smoke_effect smoke_scope smoke_provider smoke_op smoke_started \<lparr>lp_scopes = smoke_world1, lp_output = out\<rparr> =
     (Ok (smoke_v2, smoke_settled), \<lparr>lp_scopes = smoke_world2, lp_output = out\<rparr>)"
  by (simp add: smoke_settled_def smoke_store_def smoke_commits_def smoke_effect_def lab_ops smoke_eval
      first_pending_def smoke_generation smoke_scopes(3) del: context_get.simps)

lemma smoke_runs:
  "\<exists>r. run_until_blocked smoke_world2 smoke_settled =
     (Ok [StepCompleted (Id ''m1-b'') (attempt_nth smoke_run 3), StepCompleted (Id ''m1-c'') (attempt_nth smoke_run 4), Idle], r) \<and>
     ef_completed (wg_facts (rt_workflow r)) = {|Id ''m1-c'', Id ''m1-b'', Id ''m1-a''|} \<and>
     wg_topology (rt_workflow r) = wg_topology smoke_graph \<and>
     rt_attempts r = smoke_retries @
       [smoke_attempt 3 (Id ''m1-b'') None [smoke_v2], smoke_attempt 4 (Id ''m1-c'') None []] \<and>
     rt_progress_sequencer r = sequencer_new (Id ''runtime-progress'') \<and>
     rt_telemetry_sequencer r = sequencer_new (Id ''runtime-telemetry'') \<and>
     rt_progress r = \<lparr>cb_capacity = 8, cb_items = []\<rparr> \<and> rt_telemetry r = \<lparr>yb_capacity = 1, yb_items = []\<rparr>"
  by (simp add: smoke_settled_def smoke_store_def smoke_commits_def smoke_eval run_until_blocked.simps
    del: context_get.simps)

text \<open>The two messages each of the observation streams.\<close>

lemma smoke_streams_eval:
  assumes "rt_progress_sequencer r = sequencer_new (Id ''runtime-progress'')"
    "rt_telemetry_sequencer r = sequencer_new (Id ''runtime-telemetry'')"
    "rt_progress r = \<lparr>cb_capacity = 8, cb_items = []\<rparr>" "rt_telemetry r = \<lparr>yb_capacity = 1, yb_items = []\<rparr>"
  shows "\<exists>r'. smoke_streams t r p = (Ok r', p) \<and> rt_workflow r' = rt_workflow r \<and> rt_attempts r' = rt_attempts r"
  using assms
  by (simp add: smoke_streams_def lab_ops emit_progress_def sequencer_emit_def sequencer_new_def
      sequence_first_def sequence_checked_next_def u64_checked_succ_def coalescing_try_push_def same_target_def
      emit_telemetry_def lossy_push_def lossy_pop_def drain_progress_events_def drain_telemetry_events_def
      drain_coalescing.simps drain_lossy.simps coalescing_pop_def)

lemma smoke_report_eval:
  assumes "ef_completed (wg_facts (rt_workflow r)) = {|Id ''m1-c'', Id ''m1-b'', Id ''m1-a''|}"
    "wg_topology (rt_workflow r) = wg_topology smoke_graph"
    "rt_attempts r = smoke_retries @
       [smoke_attempt 3 (Id ''m1-b'') None [smoke_v2], smoke_attempt 4 (Id ''m1-c'') None []]"
  shows "smoke_report smoke_provider (EntryId 4) (EntryId 5) r p = (Ok (), p\<lparr>lp_output := lp_output p @
    [''m1: run=completed tasks=3 attempts=4 provider_v1_attempts=1 provider_v2_attempts=2 recovery=idempotent-retry-ok stream_loss=non_authoritative'']\<rparr>)"
  using assms
  by (simp add: smoke_report_def println_def graph_completed_tasks_def graph_tasks_def completed_tasks_of_def topo_tasks_def smoke_graph_def kernis_eval
      attempts_bound_to_def attempt_capability_def smoke_retries_def smoke_attempt_def smoke_pin_def
      smoke_v1_def smoke_v2_def bt_values_def bt_keys_def show_digits show_lengths del: show_nat_unfold)

lemma run_m1_smoke_eval:
  "run_m1_smoke \<lparr>lp_scopes = lab_world, lp_output = out\<rparr> = (Ok (), \<lparr>lp_scopes = smoke_world2, lp_output = out @
    [''m1: run=completed tasks=3 attempts=4 provider_v1_attempts=1 provider_v2_attempts=2 recovery=idempotent-retry-ok stream_loss=non_authoritative'']\<rparr>)"
proof -
  obtain rs r where run: "run_until_blocked smoke_world2 smoke_settled = (Ok rs, r)"
    and r: "ef_completed (wg_facts (rt_workflow r)) = {|Id ''m1-c'', Id ''m1-b'', Id ''m1-a''|}"
      "wg_topology (rt_workflow r) = wg_topology smoke_graph"
      "rt_attempts r = smoke_retries @
         [smoke_attempt 3 (Id ''m1-b'') None [smoke_v2], smoke_attempt 4 (Id ''m1-c'') None []]"
    and streams: "rt_progress_sequencer r = sequencer_new (Id ''runtime-progress'')"
      "rt_telemetry_sequencer r = sequencer_new (Id ''runtime-telemetry'')"
      "rt_progress r = \<lparr>cb_capacity = 8, cb_items = []\<rparr>" "rt_telemetry r = \<lparr>yb_capacity = 1, yb_items = []\<rparr>"
    using smoke_runs by blast
  let ?p = "\<lparr>lp_scopes = smoke_world2, lp_output = out\<rparr>"
  obtain r' where "smoke_streams (Id ''m1-a'') r ?p = (Ok r', ?p)" "rt_workflow r' = rt_workflow r"
    "rt_attempts r' = rt_attempts r"
    using smoke_streams_eval [OF streams] by blast
  moreover from this r have "smoke_report smoke_provider (EntryId 4) (EntryId 5) r' ?p = (Ok (), ?p\<lparr>lp_output := lp_output ?p @
    [''m1: run=completed tasks=3 attempts=4 provider_v1_attempts=1 provider_v2_attempts=2 recovery=idempotent-retry-ok stream_loss=non_authoritative'']\<rparr>)"
    by (intro smoke_report_eval) simp_all
  moreover obtain rc where "lab_batch smoke_batch graph_default p = (Ok (rc, smoke_graph), p)" for p
    using smoke_graph_built by (auto simp: lab_batch_def on_local_def)
  moreover have "lab_task i label p = (Ok (smoke_task i label), p)" if "id_new i = Ok (Id i)" for i label p
    using that by (simp add: lab_task_def smoke_task_def act_bind_def attempt_def lab_return_def)
  moreover have "operation_id_new ''m1-idempotent-effect'' = Ok smoke_op" "run_id_new ''m1-smoke'' = Ok smoke_run"
    "tk_id (smoke_task i label) = Id i" for i label
    by (simp_all add: operation_id_new_def run_id_new_def id_new_visible smoke_op_def smoke_run_def smoke_task_def)
  moreover have "h_entry_id smoke_v1 = EntryId 4" "h_entry_id smoke_v2 = EntryId 5"
    by (simp_all add: smoke_v1_def smoke_v2_def)
  ultimately show ?thesis
    by (simp add: run_m1_smoke_def act_bind_Ok attempt_def lab_new_root_def on_scopes_def on_runtime_def on_local_def
        id_new_visible smoke_scopes smoke_batch_def [symmetric] smoke_configs_def [symmetric] smoke_starts
        smoke_effect_eval run)
qed

subsection \<open>The program\<close>

text \<open>
  The whole program, evaluated: it returns without an error or a panic and leaves its scope closed.  Its
  fourth and fifth lines are the ones quoted in \<open>docs/research/results\<close> (E04, E05); the others record
  what the model computes.  Like the unit tests, this is a check of the model on one input, not a property
  of the program.
\<close>

lemma graph_lab_evaluates:
  "\<exists>w. graph_lab_main lab_start = (Ok (), \<lparr>lp_scopes = w, lp_output =
     [''capabilities=2, construction_order=model -> runtime, workflow_revision=2, stream=runtime-events#1:baseline-ready'',
      ''e02r: service bound to model-v1 -> replacement -> new lookup model-v2'',
      ''e03: topology_revision=1 -> 2, completed=plan,research, ready=review,validate'',
      ''e04: non-idempotent outcome unknown -> reconcile, external_commits=1'',
      ''e05: lossless=backpressured, coalesced_gap=true, telemetry_gap=true'',
      ''m1: run=completed tasks=3 attempts=4 provider_v1_attempts=1 provider_v2_attempts=2 recovery=idempotent-retry-ok stream_loss=non_authoritative'']\<rparr>) \<and>
     \<not> is_open w (Root 0)"
proof -
  obtain g where g: "lab_resolution (Id ''model'') (Id ''runtime'') lab_start = (Ok (g, ''model -> runtime''), lab_start)"
    "graph_len g = 2"
    using lab_resolution_eval [of lab_start] by blast
  let ?p = "\<lparr>lp_scopes = lab_world, lp_output = []\<rparr>"
  obtain wf where wf: "lab_workflow ?p = (Ok (Revision 1, wf), ?p)" "wg_revision wf = Revision 2"
    "ready_tasks wf = [Id ''review'', Id ''validate'']"
    using lab_workflow_eval [of ?p] by blast
  obtain es w where w: "teardown (Root 0) smoke_world2 = (Ok es, w)" "\<not> is_open w (Root 0)"
    using lab_teardown by blast
  note start = lab_replacement_eval g wf(1) println_def lab_recovery_eval lab_streams_eval run_m1_smoke_eval w(1)
  show ?thesis
    using g(2) wf(2,3) w(2)
    by (simp add: graph_lab_main_def act_bind_Ok attempt_def id_new_visible start lab_return_def show_u64_def
        sequence_first_def show_digits del: show_nat_unfold)
qed

end
