(* ===== verification/Test_Harness.thy ===== *)
theory Test_Harness
  imports Kernis_Prelude
begin

text \<open>
  The unit tests inside the crates, as bool-valued definitions: a test passes when its definition is
  true.  \<open>expect_ok\<close> and \<open>expect_err\<close> are \<open>expect\<close> and \<open>expect_err\<close> followed by the rest of the test,
  which is not reached when they panic.
\<close>

definition expect_ok :: "('a, 'e) res \<times> 's \<Rightarrow> ('a \<Rightarrow> 's \<Rightarrow> bool) \<Rightarrow> bool" where
  "expect_ok r rest = (case r of (Ok a, s) \<Rightarrow> rest a s | _ \<Rightarrow> False)"

definition expect_err :: "('a, 'e) res \<times> 's \<Rightarrow> ('e \<Rightarrow> 's \<Rightarrow> bool) \<Rightarrow> bool" where
  "expect_err r rest = (case r of (Err e, s) \<Rightarrow> rest e s | _ \<Rightarrow> False)"

definition expect_value :: "'a option \<Rightarrow> ('a \<Rightarrow> bool) \<Rightarrow> bool" where
  "expect_value x rest = (case x of Some a \<Rightarrow> rest a | None \<Rightarrow> False)"

definition value_ok :: "('a, 'e) res \<Rightarrow> ('a \<Rightarrow> bool) \<Rightarrow> bool" where
  "value_ok r rest = (case r of Ok a \<Rightarrow> rest a | _ \<Rightarrow> False)"

definition value_err :: "('a, 'e) res \<Rightarrow> ('e \<Rightarrow> bool) \<Rightarrow> bool" where
  "value_err r rest = (case r of Err e \<Rightarrow> rest e | _ \<Rightarrow> False)"

definition some_value :: "('a, 'e) res \<Rightarrow> 'a option" where
  "some_value r = (case r of Ok a \<Rightarrow> Some a | _ \<Rightarrow> None)"

lemma expect_simps [simp]:
  "expect_ok (Ok a, s) rest = rest a s" "expect_err (Err e, s) rest' = rest' e s"
  "expect_value (Some a) rest'' = rest'' a" "value_ok (Ok a) rest'' = rest'' a" "value_err (Err e) rest3 = rest3 e"
  "some_value (Ok a) = Some a"
  by (simp_all add: expect_ok_def expect_err_def expect_value_def value_ok_def value_err_def some_value_def)

text \<open>The rest of a test is evaluated only when the call before it has been.\<close>

lemma expect_cong [cong]:
  "r = r' \<Longrightarrow> expect_ok r rest = expect_ok r' rest" "q = q' \<Longrightarrow> expect_err q rest' = expect_err q' rest'"
  "x = x' \<Longrightarrow> expect_value x rest'' = expect_value x' rest''" "p = p' \<Longrightarrow> value_ok p rest'' = value_ok p' rest''"
  "p = p' \<Longrightarrow> value_err p rest3 = value_err p' rest3"
  by simp_all

end
