(* ===== verification/Workflow_Tests.thy ===== *)
theory Workflow_Tests
  imports Test_Harness Workflow_Properties
begin

text \<open>The unit tests of \<open>crates/workflow-graph/src/lib.rs\<close>: the model passes each of them.\<close>

subsection \<open>Helpers\<close>

definition test_id :: "string \<Rightarrow> ident" where
  "test_id v = the (some_value (id_new v))"

definition test_task :: "string \<Rightarrow> task" where
  "test_task v = \<lparr>tk_id = test_id v, tk_label = v\<rparr>"

definition add_task :: "string \<Rightarrow> workflow_mutation" where
  "add_task v = AddTask (test_task v)"

definition add_dependency_on :: "string \<Rightarrow> string \<Rightarrow> workflow_mutation" where
  "add_dependency_on t d = AddDependency (test_id t) (test_id d)"

definition test_apply :: "workflow_graph \<Rightarrow> workflow_mutation list \<Rightarrow> (workflow_graph \<Rightarrow> bool) \<Rightarrow> bool" where
  "test_apply g ms rest = expect_ok (apply_batch (wg_revision g) (batch_from_mutations ms) g) (\<lambda>_. rest)"

definition graph_at_revision :: "revision \<Rightarrow> workflow_graph" where
  "graph_at_revision r = graph_default\<lparr>wg_revision := r\<rparr>"

definition plan_research_execute :: "(workflow_graph \<Rightarrow> ident \<Rightarrow> ident \<Rightarrow> ident \<Rightarrow> bool) \<Rightarrow> bool" where
  "plan_research_execute rest =
     test_apply graph_default
       [add_task ''plan'', add_task ''research'', add_task ''execute'',
        add_dependency_on ''research'' ''plan'', add_dependency_on ''execute'' ''research'']
       (\<lambda>graph. rest graph (test_id ''plan'') (test_id ''research'') (test_id ''execute''))"

lemmas workflow_test_helpers = test_task_def add_task_def add_dependency_on_def test_apply_def graph_at_revision_def
  batch_from_mutations_def graph_default_def topo_empty_def revision_zero_def revision_max_def

subsection \<open>Mutations\<close>

definition successful_mutation_advances_revision :: bool where
  "successful_mutation_advances_revision =
     expect_ok (apply_batch revision_zero (batch_from_mutations [add_task ''plan'']) graph_default) (\<lambda>record graph.
       wr_base record = revision_zero \<and> Ok (wr_result record) = revision_next revision_zero \<and>
       Ok (wg_revision graph) = revision_next revision_zero)"

definition failed_mutation_does_not_advance_revision :: bool where
  "failed_mutation_does_not_advance_revision =
     test_apply graph_default [add_task ''plan''] (\<lambda>before.
     expect_err (apply_batch (wg_revision before) (batch_from_mutations [add_dependency_on ''execute'' ''plan'']) before)
       (\<lambda>error graph. error = UnknownTask (test_id ''execute'') \<and> graph = before))"

definition successful_batch_advances_revision_once :: bool where
  "successful_batch_advances_revision_once =
     expect_ok (apply_batch revision_zero (batch_from_mutations [add_task ''a'', add_task ''b'']) graph_default)
       (\<lambda>record graph. length (wr_mutations record) = 2 \<and> revision_get (wr_result record) = 1 \<and>
          revision_get (wg_revision graph) = 1)"

definition revision_exhaustion_does_not_mutate_workflow :: bool where
  "revision_exhaustion_does_not_mutate_workflow =
     (let before = graph_at_revision revision_max in
      expect_err (apply_batch revision_max (batch_from_mutations [add_task ''after-max'']) before) (\<lambda>error graph.
        error = RevisionExhausted revision_max \<and> graph = before))"

definition dependency_cycle_is_rejected :: bool where
  "dependency_cycle_is_rejected =
     test_apply graph_default [add_task ''a'', add_task ''b''] (\<lambda>graph.
     test_apply graph [add_dependency_on ''b'' ''a''] (\<lambda>graph.
     let revision = wg_revision graph in
     expect_err (apply_batch revision (batch_from_mutations [add_dependency_on ''a'' ''b'']) graph) (\<lambda>error graph.
       (case error of Cycle _ \<Rightarrow> True | _ \<Rightarrow> False) \<and> wg_revision graph = revision \<and>
       graph_dependencies graph (test_id ''a'') = [])))"

definition cycle_rejection_is_atomic :: bool where
  "cycle_rejection_is_atomic =
     test_apply graph_default [add_task ''a'', add_task ''b'', add_dependency_on ''b'' ''a''] (\<lambda>before.
     expect_err (apply_batch (wg_revision before) (batch_from_mutations
         [add_task ''c'', add_dependency_on ''a'' ''c'', add_dependency_on ''c'' ''b'']) before) (\<lambda>error graph.
       (case error of Cycle _ \<Rightarrow> True | _ \<Rightarrow> False) \<and> graph = before))"

lemma mutation_tests:
  successful_mutation_advances_revision failed_mutation_does_not_advance_revision
  successful_batch_advances_revision_once revision_exhaustion_does_not_mutate_workflow
  unfolding successful_mutation_advances_revision_def failed_mutation_does_not_advance_revision_def
    successful_batch_advances_revision_once_def revision_exhaustion_does_not_mutate_workflow_def Let_def
  by (simp_all add: workflow_test_helpers test_id_def id_new_visible graph_eval revision_next_def unat_max_u64)

lemma cycle_tests: dependency_cycle_is_rejected cycle_rejection_is_atomic
  unfolding dependency_cycle_is_rejected_def cycle_rejection_is_atomic_def
  by (simp_all add: workflow_test_helpers test_id_def id_new_visible graph_eval graph_dependencies_def)

subsection \<open>Completions\<close>

definition cannot_complete_task_before_prerequisites :: bool where
  "cannot_complete_task_before_prerequisites =
     plan_research_execute (\<lambda>graph plan research _.
     let revision = wg_revision graph in
     expect_err (complete_task research graph) (\<lambda>error graph.
       error = IncompletePrerequisite research plan \<and> wg_revision graph = revision \<and>
       graph_completed_tasks graph = []))"

definition completed_task_identity_cannot_be_rewritten :: bool where
  "completed_task_identity_cannot_be_rewritten =
     plan_research_execute (\<lambda>graph plan _ _.
     expect_ok (complete_task plan graph) (\<lambda>_ before.
     expect_err (apply_batch (wg_revision before)
         (batch_from_mutations [AddTask \<lparr>tk_id = plan, tk_label = ''rewritten''\<rparr>]) before) (\<lambda>error graph.
       error = DuplicateTask plan \<and> graph = before)))"

definition completed_task_prerequisites_cannot_be_rewritten :: bool where
  "completed_task_prerequisites_cannot_be_rewritten =
     plan_research_execute (\<lambda>graph plan research _.
     expect_ok (complete_task plan graph) (\<lambda>_ graph.
     expect_ok (complete_task research graph) (\<lambda>_ before.
     expect_err (apply_batch (wg_revision before)
         (batch_from_mutations [add_task ''extra'', add_dependency_on ''research'' ''extra'']) before) (\<lambda>error graph.
       error = CompletedTaskMutation research \<and> graph = before))))"

definition completed_fact_does_not_advance_topology_revision :: bool where
  "completed_fact_does_not_advance_topology_revision =
     plan_research_execute (\<lambda>graph plan _ _.
     let revision = wg_revision graph in
     expect_ok (complete_task plan graph) (\<lambda>_ graph.
       wg_revision graph = revision \<and> graph_is_completed graph plan))"

definition planner_can_append_future_branch :: bool where
  "planner_can_append_future_branch =
     plan_research_execute (\<lambda>graph plan research execute.
     expect_ok (complete_task plan graph) (\<lambda>_ graph.
     expect_ok (complete_task research graph) (\<lambda>_ graph.
     let before = wg_revision graph in
     expect_ok (apply_batch before (batch_from_mutations
         [add_task ''validate'', add_task ''review'', add_dependency_on ''validate'' ''research'',
          add_dependency_on ''review'' ''research'', add_dependency_on ''execute'' ''validate'',
          add_dependency_on ''execute'' ''review'']) graph) (\<lambda>_ graph.
       Ok (wg_revision graph) = revision_next before \<and> graph_is_completed graph plan \<and>
       graph_is_completed graph research \<and> \<not> graph_is_completed graph execute \<and>
       ready_tasks graph = [test_id ''review'', test_id ''validate'']))))"

definition mutation_batch_is_atomic :: bool where
  "mutation_batch_is_atomic =
     plan_research_execute (\<lambda>graph plan research _.
     expect_ok (complete_task plan graph) (\<lambda>_ graph.
     expect_ok (complete_task research graph) (\<lambda>_ before.
     expect_err (apply_batch (wg_revision before)
         (batch_from_mutations [add_task ''validate'', add_dependency_on ''missing'' ''research'']) before) (\<lambda>error graph.
       error = UnknownTask (test_id ''missing'') \<and> graph = before))))"

definition invalid_operation_rolls_back_entire_batch :: bool where
  "invalid_operation_rolls_back_entire_batch =
     test_apply graph_default [add_task ''a'', add_task ''b''] (\<lambda>graph.
     let revision = wg_revision graph in
     expect_err (apply_batch revision
         (batch_from_mutations [add_dependency_on ''b'' ''a'', add_dependency_on ''b'' ''a'']) graph) (\<lambda>error graph.
       error = DuplicateDependency (test_id ''b'') (test_id ''a'') \<and> wg_revision graph = revision \<and>
       graph_edges graph = []))"

definition stale_planner_revision_is_rejected :: bool where
  "stale_planner_revision_is_rejected =
     test_apply graph_default [add_task ''a''] (\<lambda>graph.
     let planner_revision = wg_revision graph in
     test_apply graph [add_task ''b''] (\<lambda>before.
     expect_err (apply_batch planner_revision (batch_from_mutations [add_task ''c'']) before) (\<lambda>error graph.
       error = RevisionConflict planner_revision (wg_revision before) \<and> graph = before)))"

lemmas workflow_test_eval = workflow_test_helpers plan_research_execute_def test_id_def id_new_visible graph_eval
  revision_next_def complete_task_def graph_is_completed_def ready_tasks_def graph_completed_tasks_def
  completed_tasks_of_def graph_edges_def topo_edges_def graph_dependencies_def

lemma completion_tests:
  cannot_complete_task_before_prerequisites completed_task_identity_cannot_be_rewritten
  completed_task_prerequisites_cannot_be_rewritten completed_fact_does_not_advance_topology_revision
  unfolding cannot_complete_task_before_prerequisites_def completed_task_identity_cannot_be_rewritten_def
    completed_task_prerequisites_cannot_be_rewritten_def completed_fact_does_not_advance_topology_revision_def
    plan_research_execute_def
  by (simp_all add: workflow_test_eval)

lemma batch_tests:
  planner_can_append_future_branch mutation_batch_is_atomic invalid_operation_rolls_back_entire_batch
  stale_planner_revision_is_rejected
  unfolding planner_can_append_future_branch_def mutation_batch_is_atomic_def
    invalid_operation_rolls_back_entire_batch_def stale_planner_revision_is_rejected_def plan_research_execute_def
  by (simp_all add: workflow_test_eval)

subsection \<open>Replay\<close>

definition replay_reconstructs_same_topology :: bool where
  "replay_reconstructs_same_topology =
     plan_research_execute (\<lambda>graph plan research _.
     expect_ok (complete_task plan graph) (\<lambda>_ graph.
     expect_ok (complete_task research graph) (\<lambda>_ graph.
     test_apply graph [add_task ''validate'', add_task ''review''] (\<lambda>graph.
     value_ok (replay (wg_log graph)) (\<lambda>replayed.
       wg_topology replayed = wg_topology graph \<and> graph_edges replayed = graph_edges graph \<and>
       graph_completed_tasks replayed = [])))))"

definition replay_reconstructs_same_revision :: bool where
  "replay_reconstructs_same_revision =
     plan_research_execute (\<lambda>graph _ _ _.
     test_apply graph [add_task ''validate''] (\<lambda>graph.
     value_ok (replay (wg_log graph)) (\<lambda>replayed. wg_revision replayed = wg_revision graph)))"

definition replay_reconstructs_same_scheduler_view :: bool where
  "replay_reconstructs_same_scheduler_view =
     plan_research_execute (\<lambda>graph plan research execute.
     expect_ok (complete_task plan graph) (\<lambda>_ graph.
     expect_ok (complete_task research graph) (\<lambda>_ graph.
     test_apply graph
         [add_task ''validate'', add_task ''review'', add_dependency_on ''validate'' ''research'',
          add_dependency_on ''review'' ''research'', add_dependency_on ''execute'' ''validate'',
          add_dependency_on ''execute'' ''review''] (\<lambda>graph.
     value_ok (replay_with_facts (wg_log graph) (completion_log graph)) (\<lambda>replayed.
       wg_topology replayed = wg_topology graph \<and> wg_facts replayed = wg_facts graph \<and>
       wg_revision replayed = wg_revision graph \<and> ready_tasks replayed = ready_tasks graph \<and>
       execute \<notin> set (ready_tasks replayed))))))"

definition replay_rejects_revision_overflow :: bool where
  "replay_rejects_revision_overflow =
     (let seed = graph_at_revision revision_max;
          record = \<lparr>wr_base = revision_max, wr_result = revision_max, wr_mutations = [add_task ''after-max'']\<rparr>
      in value_err (replay_from seed [record]) (\<lambda>error. error = RevisionExhausted revision_max))"

definition invalid_replay_revision_does_not_wrap :: bool where
  "invalid_replay_revision_does_not_wrap =
     (let record = \<lparr>wr_base = revision_zero, wr_result = revision_zero, wr_mutations = [add_task ''invalid'']\<rparr>
      in value_err (replay [record]) (\<lambda>error.
           value_ok (revision_next revision_zero) (\<lambda>one. error = ReplayRevisionMismatch one revision_zero)))"

lemma replay_tests:
  replay_reconstructs_same_topology replay_reconstructs_same_revision replay_reconstructs_same_scheduler_view
  unfolding replay_reconstructs_same_topology_def replay_reconstructs_same_revision_def
    replay_reconstructs_same_scheduler_view_def plan_research_execute_def
  by (simp_all add: workflow_test_eval replay_def replay_with_facts_def completion_log_def)

lemma replay_error_tests: replay_rejects_revision_overflow invalid_replay_revision_does_not_wrap
  by (simp_all add: replay_rejects_revision_overflow_def invalid_replay_revision_does_not_wrap_def
      workflow_test_eval replay_def unat_max_u64)

subsection \<open>Readiness\<close>

definition ready_tasks_are_deterministic :: bool where
  "ready_tasks_are_deterministic =
     test_apply graph_default [add_task ''c'', add_task ''a'', add_task ''b'', add_dependency_on ''c'' ''a''] (\<lambda>graph.
     expect_ok (complete_task (test_id ''a'') graph) (\<lambda>_ graph.
       ready_tasks graph = [test_id ''b'', test_id ''c'']))"

definition completed_tasks_are_not_ready :: bool where
  "completed_tasks_are_not_ready =
     test_apply graph_default [add_task ''a''] (\<lambda>graph.
     expect_ok (complete_task (test_id ''a'') graph) (\<lambda>_ graph. ready_tasks graph = []))"

definition task_is_ready_only_after_all_prerequisites_complete :: bool where
  "task_is_ready_only_after_all_prerequisites_complete =
     test_apply graph_default [add_task ''a'', add_task ''b'', add_task ''c'', add_dependency_on ''c'' ''a'',
         add_dependency_on ''c'' ''b''] (\<lambda>graph.
     expect_ok (complete_task (test_id ''a'') graph) (\<lambda>_ graph.
       test_id ''c'' \<notin> set (ready_tasks graph) \<and>
       expect_ok (complete_task (test_id ''b'') graph) (\<lambda>_ graph. ready_tasks graph = [test_id ''c''])))"

definition insertion_order_does_not_change_topology_or_ready_view :: bool where
  "insertion_order_does_not_change_topology_or_ready_view =
     test_apply graph_default [add_task ''a'', add_task ''b'', add_task ''c'', add_dependency_on ''c'' ''a'',
         add_dependency_on ''c'' ''b''] (\<lambda>first.
     expect_ok (complete_task (test_id ''a'') first) (\<lambda>_ first.
     expect_ok (complete_task (test_id ''b'') first) (\<lambda>_ first.
     test_apply graph_default [add_task ''c'', add_task ''b'', add_task ''a'', add_dependency_on ''c'' ''b'',
         add_dependency_on ''c'' ''a''] (\<lambda>second.
     expect_ok (complete_task (test_id ''a'') second) (\<lambda>_ second.
     expect_ok (complete_task (test_id ''b'') second) (\<lambda>_ second.
       wg_topology first = wg_topology second \<and> graph_edges first = graph_edges second \<and>
       ready_tasks first = ready_tasks second))))))"

lemma readiness_tests:
  ready_tasks_are_deterministic completed_tasks_are_not_ready task_is_ready_only_after_all_prerequisites_complete
  by (simp_all add: ready_tasks_are_deterministic_def completed_tasks_are_not_ready_def
      task_is_ready_only_after_all_prerequisites_complete_def workflow_test_eval)

lemma insertion_order_test: insertion_order_does_not_change_topology_or_ready_view
proof -
  have "fmupd k1 v1 (fmupd k2 v2 (fmupd k3 v3 m)) = fmupd k3 v3 (fmupd k2 v2 (fmupd k1 v1 m))"
    if "k1 \<noteq> k2" "k1 \<noteq> k3" "k2 \<noteq> k3" for k1 k2 k3 :: ident and v1 v2 v3 :: task and m
    using that by (intro fmap_ext) auto
  then show ?thesis
    by (simp add: insertion_order_does_not_change_topology_or_ready_view_def workflow_test_eval finsert_commute)
qed

end
