(* ===== verification/Capability_Tests.thy ===== *)
theory Capability_Tests
  imports Test_Harness Instance_Lifetime_Properties
begin

text \<open>
  The unit tests of \<open>crates/capability-graph/src/runtime.rs\<close>: the model passes each of them.  A value is its
  label; the counters and the event list of the tests are read off the released instances.  A handle that
  a test binds is held until the test drops it; one that it only looks at is taken and given back at once.
  A factory that must not run panics here.  The threads of a test meet at barriers, which fix the order of
  their calls.
\<close>

subsection \<open>The resolver\<close>

definition cap_id_of :: "string \<Rightarrow> ident" where
  "cap_id_of v = the (some_value (id_new v))"

definition test_capability :: "string \<Rightarrow> capability_definition" where
  "test_capability v = definition_of_capability (capability_new (cap_id_of v) ''service'')"

definition test_definition :: "string \<Rightarrow> capability_definition" where
  "test_definition v = definition_new (cap_id_of v) ''service''"

definition inserted :: "capability_definition list \<Rightarrow> capability_graph" where
  "inserted ds = fold (\<lambda>d g. snd (graph_insert d g)) ds graph_empty"

definition resolve_simple_dependency :: bool where
  "resolve_simple_dependency =
     expect_ok (graph_require (cap_id_of ''a'') (cap_id_of ''b'') (inserted [test_capability ''a'', test_capability ''b'']))
       (\<lambda>_ graph. value_ok (resolve graph) (\<lambda>resolved.
          map show_ident (rg_construction_order resolved) = [''b'', ''a'']))"

definition chain_of_three :: capability_graph where
  "chain_of_three =
     inserted [depends_on (cap_id_of ''b'') (test_definition ''a''), depends_on (cap_id_of ''c'') (test_definition ''b''),
       test_definition ''c'']"

definition resolve_multi_level_dependency :: bool where
  "resolve_multi_level_dependency =
     value_ok (resolve chain_of_three) (\<lambda>resolved.
       map show_ident (rg_construction_order resolved) = [''c'', ''b'', ''a''] \<and>
       map show_ident (teardown_order resolved) = [''a'', ''b'', ''c''])"

definition resolution_is_deterministic :: bool where
  "resolution_is_deterministic =
     value_ok (resolve (inserted
         [depends_on (cap_id_of ''c'') (depends_on (cap_id_of ''b'') (test_definition ''a'')),
          depends_on (cap_id_of ''d'') (test_definition ''b''), depends_on (cap_id_of ''d'') (test_definition ''c''),
          test_definition ''d''])) (\<lambda>forward.
     value_ok (resolve (inserted
         [test_definition ''d'', depends_on (cap_id_of ''d'') (test_definition ''c''),
          depends_on (cap_id_of ''d'') (test_definition ''b''),
          depends_on (cap_id_of ''b'') (depends_on (cap_id_of ''c'') (test_definition ''a''))])) (\<lambda>reverse.
       forward = reverse))"

definition missing_dependency_is_rejected :: bool where
  "missing_dependency_is_rejected =
     value_err (resolve (inserted [depends_on (cap_id_of ''missing'') (test_definition ''a'')])) (\<lambda>error.
       error = MissingDependency (cap_id_of ''a'') (cap_id_of ''missing''))"

definition cycle_of_three :: capability_graph where
  "cycle_of_three =
     inserted [depends_on (cap_id_of ''b'') (test_definition ''a''), depends_on (cap_id_of ''c'') (test_definition ''b''),
       depends_on (cap_id_of ''a'') (test_definition ''c'')]"

definition cycle_is_rejected :: bool where
  "cycle_is_rejected =
     value_err (resolve cycle_of_three) (\<lambda>error. case error of CapabilityCycle _ \<Rightarrow> True | _ \<Rightarrow> False)"

definition cycle_error_contains_path :: bool where
  "cycle_error_contains_path =
     value_err (resolve cycle_of_three) (\<lambda>error.
       error = CapabilityCycle [cap_id_of ''a'', cap_id_of ''b'', cap_id_of ''c'', cap_id_of ''a''] \<and>
       show_capability_graph_error error = ''capability dependency cycle: a -> b -> c -> a'')"

definition teardown_order_is_reverse_resolution_order :: bool where
  "teardown_order_is_reverse_resolution_order =
     value_ok (resolve chain_of_three) (\<lambda>resolved.
       map show_ident (teardown_order resolved) = [''a'', ''b'', ''c''])"

lemmas resolver_test_eval = cap_id_of_def id_new_visible test_capability_def test_definition_def inserted_def
  definition_of_capability_def capability_new_def graph_require_def add_dependency_def teardown_order_def
  chain_of_three_def cycle_of_three_def cap_eval Let_def

lemma resolver_tests:
  resolve_simple_dependency resolve_multi_level_dependency resolution_is_deterministic
  teardown_order_is_reverse_resolution_order
  by (simp_all add: resolve_simple_dependency_def resolve_multi_level_dependency_def resolution_is_deterministic_def
      teardown_order_is_reverse_resolution_order_def resolver_test_eval)

lemma resolver_error_tests: missing_dependency_is_rejected cycle_is_rejected cycle_error_contains_path
  by (simp_all add: missing_dependency_is_rejected_def cycle_is_rejected_def cycle_error_contains_path_def
      resolver_test_eval)

subsection \<open>Helpers of the scope tests\<close>

type_synonym owned = "string ownership"

definition new_root :: "(scope_ref \<Rightarrow> owned \<Rightarrow> bool) \<Rightarrow> bool" where
  "new_root rest =
     (case scope_root (ow_scopes own_start) of (s, w) \<Rightarrow> rest s (own_start\<lparr>ow_scopes := w\<rparr>))"

definition new_child :: "scope_ref \<Rightarrow> owned \<Rightarrow> (scope_ref \<Rightarrow> owned \<Rightarrow> bool) \<Rightarrow> bool" where
  "new_child s q rest = (case scope_child s (ow_scopes q) of (t, w) \<Rightarrow> rest t (q\<lparr>ow_scopes := w\<rparr>))"

definition provide_owned ::
  "scope_ref \<Rightarrow> capability_definition \<Rightarrow> (string resolved_dependencies \<Rightarrow> (string, string) res) \<Rightarrow> owned \<Rightarrow>
   (string capability_handle, scope_error) res \<times> owned" where
  "provide_owned s d construct = own_publish s d New construct"

definition replace_owned ::
  "scope_ref \<Rightarrow> capability_definition \<Rightarrow> generation \<Rightarrow> (string resolved_dependencies \<Rightarrow> (string, string) res) \<Rightarrow>
   owned \<Rightarrow> (string capability_handle, scope_error) res \<times> owned" where
  "replace_owned s d expected construct = own_publish s d (Replace expected) construct"

text \<open>A result that is not bound is dropped at the end of its statement.\<close>

definition and_drop :: "(string capability_handle, scope_error) res \<times> owned \<Rightarrow> (owned \<Rightarrow> bool) \<Rightarrow> bool" where
  "and_drop r rest = expect_ok r (\<lambda>h q. rest (own_drop [h] q))"

definition test_teardown :: "scope_ref \<Rightarrow> owned \<Rightarrow> (owned \<Rightarrow> bool) \<Rightarrow> bool" where
  "test_teardown s q rest = expect_value (own_exec (Own_teardown s) q) rest"

definition found :: "scope_ref \<Rightarrow> string \<Rightarrow> owned \<Rightarrow> (string capability_handle \<Rightarrow> bool) \<Rightarrow> bool" where
  "found s v q rest = expect_value (scope_get (ow_scopes q) s (cap_id_of v)) rest"

definition taken :: "scope_ref \<Rightarrow> string \<Rightarrow> owned \<Rightarrow> (string capability_handle \<Rightarrow> owned \<Rightarrow> bool) \<Rightarrow> bool" where
  "taken s v q rest = found s v q (\<lambda>h. rest h (own_receive h q))"

definition events :: "owned \<Rightarrow> string list" where
  "events q = map h_instance (snd (ow_slots q))"

definition disposed :: "string \<Rightarrow> owned \<Rightarrow> nat" where
  "disposed v q = count_list (events q) v"

lemma and_drop_Ok [simp]: "and_drop (Ok h, q) rest = rest (own_drop [h] q)"
  by (simp add: and_drop_def)

lemma and_drop_cong [cong]: "r = r' \<Longrightarrow> and_drop r rest = and_drop r' rest"
  by simp

lemma scope_test_congs [cong]:
  "s = s' \<Longrightarrow> q = q' \<Longrightarrow> new_child s q rest = new_child s' q' rest"
  "s = s' \<Longrightarrow> q = q' \<Longrightarrow> test_teardown s q rest1 = test_teardown s' q' rest1"
  "s = s' \<Longrightarrow> q = q' \<Longrightarrow> found s v q rest2 = found s' v q' rest2"
  "s = s' \<Longrightarrow> q = q' \<Longrightarrow> taken s v q rest3 = taken s' v q' rest3"
  by simp_all

abbreviation model :: capability_definition where "model \<equiv> test_definition ''model''"
abbreviation model_id :: ident where "model_id \<equiv> cap_id_of ''model''"
abbreviation service :: capability_definition where "service \<equiv> depends_on model_id (test_definition ''service'')"

lemmas scope_test_eval = new_root_def new_child_def provide_owned_def replace_owned_def test_teardown_def found_def
  taken_def events_def disposed_def own_publish_def own_publication_def own_receive_def own_drop_def own_start_def
  drop_handles_def drop_handle_eq dependency_handles_def clone_handle_def new_slot_def publish_prepare_def
  check_expectation_def cap_id_of_def id_new_visible test_definition_def teardown_eval scope_generation_def
  generation_next_def

subsection \<open>Lookup and replacement\<close>

definition child_inherits_parent_capability :: bool where
  "child_inherits_parent_capability =
     new_root (\<lambda>root q.
     and_drop (provide_owned root model (\<lambda>_. Ok ''openai'') q) (\<lambda>q.
     new_child root q (\<lambda>child q.
     found child ''model'' q (\<lambda>h. h_instance h = ''openai''))))"

definition child_override_does_not_mutate_parent :: bool where
  "child_override_does_not_mutate_parent =
     new_root (\<lambda>root q.
     and_drop (provide_owned root model (\<lambda>_. Ok ''openai'') q) (\<lambda>q.
     new_child root q (\<lambda>child q.
     and_drop (provide_owned child model (\<lambda>_. Ok ''deepseek'') q) (\<lambda>q.
       found root ''model'' q (\<lambda>h. h_instance h = ''openai'') \<and>
       found child ''model'' q (\<lambda>h. h_instance h = ''deepseek'') \<and>
       disposed ''openai'' q = 0))))"

definition sibling_scope_isolation :: bool where
  "sibling_scope_isolation =
     new_root (\<lambda>root q.
     and_drop (provide_owned root model (\<lambda>_. Ok ''openai'') q) (\<lambda>q.
     new_child root q (\<lambda>first q.
     new_child root q (\<lambda>second q.
     and_drop (provide_owned first model (\<lambda>_. Ok ''deepseek'') q) (\<lambda>q.
     and_drop (provide_owned second model (\<lambda>_. Ok ''anthropic'') q) (\<lambda>q.
       found first ''model'' q (\<lambda>h. h_instance h = ''deepseek'') \<and>
       found second ''model'' q (\<lambda>h. h_instance h = ''anthropic'') \<and>
       found root ''model'' q (\<lambda>h. h_instance h = ''openai'') \<and>
       disposed ''openai'' q = 0))))))"

definition replacement_changes_new_reads_and_advances_generation :: bool where
  "replacement_changes_new_reads_and_advances_generation =
     new_root (\<lambda>scope q.
     expect_ok (provide_owned scope model (\<lambda>_. Ok ''v1'') q) (\<lambda>first q.
       h_generation first = generation_first \<and>
       and_drop (replace_owned scope model (h_generation first) (\<lambda>_. Ok ''v2'') q) (\<lambda>q.
       taken scope ''model'' q (\<lambda>current q.
         h_instance current = ''v2'' \<and>
         Ok (h_generation current) = generation_next (h_generation first) \<and>
         disposed ''v1'' (own_drop [first] q) = 1))))"

definition in_flight_reader_survives_replacement :: bool where
  "in_flight_reader_survives_replacement =
     new_root (\<lambda>scope q.
     and_drop (provide_owned scope model (\<lambda>_. Ok ''v1'') q) (\<lambda>q.
     taken scope ''model'' q (\<lambda>reader q.
       h_instance reader = ''v1'' \<and>
       and_drop (replace_owned scope model (h_generation reader) (\<lambda>_. Ok ''v2'') q) (\<lambda>q.
         found scope ''model'' q (\<lambda>h. h_instance h = ''v2'') \<and>
         disposed ''v1'' q = 0 \<and> disposed ''v1'' (own_drop [reader] q) = 1))))"

definition failed_replacement_keeps_old_capability :: bool where
  "failed_replacement_keeps_old_capability =
     new_root (\<lambda>scope q.
     expect_ok (provide_owned scope model (\<lambda>_. Ok ''v1'') q) (\<lambda>old q.
     expect_err (replace_owned scope model (h_generation old) (\<lambda>_. Err ''constructor failed'') q) (\<lambda>error q.
       error = ConstructionFailed model_id ''constructor failed'' \<and>
       found scope ''model'' q (\<lambda>h. h_instance h = ''v1'') \<and> disposed ''v1'' q = 0)))"

definition consumer_cannot_dispose_live_instance :: bool where
  "consumer_cannot_dispose_live_instance =
     new_root (\<lambda>scope q.
     expect_ok (provide_owned scope model (\<lambda>_. Ok ''live'') q) (\<lambda>handle q. h_instance handle = ''live''))"

lemma scope_lookup_tests:
  child_inherits_parent_capability child_override_does_not_mutate_parent sibling_scope_isolation
  unfolding child_inherits_parent_capability_def child_override_does_not_mutate_parent_def
    sibling_scope_isolation_def new_root_def
  by (simp_all add: scope_test_eval)

lemma replacement_tests:
  replacement_changes_new_reads_and_advances_generation in_flight_reader_survives_replacement
  failed_replacement_keeps_old_capability consumer_cannot_dispose_live_instance
  unfolding replacement_changes_new_reads_and_advances_generation_def in_flight_reader_survives_replacement_def
    failed_replacement_keeps_old_capability_def consumer_cannot_dispose_live_instance_def new_root_def
  by (simp_all add: scope_test_eval)

subsection \<open>Admission\<close>

definition self_dependency_is_rejected_at_runtime_admission :: bool where
  "self_dependency_is_rejected_at_runtime_admission =
     new_root (\<lambda>scope q.
     expect_err (provide_owned scope (depends_on (cap_id_of ''a'') (test_definition ''a'')) (\<lambda>_. Panic) q) (\<lambda>error _.
       case error of GraphAdmission (CapabilityCycle _) \<Rightarrow> True | _ \<Rightarrow> False))"

definition runtime_cycle_is_rejected :: bool where
  "runtime_cycle_is_rejected =
     new_root (\<lambda>scope q.
     expect_ok (provide_owned scope (test_definition ''a'') (\<lambda>_. Ok ''a'') q) (\<lambda>a q.
     and_drop (provide_owned scope (depends_on (cap_id_of ''a'') (test_definition ''b'')) (\<lambda>_. Ok ''b'') q) (\<lambda>q.
     expect_err (replace_owned scope (depends_on (cap_id_of ''b'') (test_definition ''a'')) (h_generation a)
         (\<lambda>_. Ok ''new-a'') q) (\<lambda>error q.
       (case error of GraphAdmission (CapabilityCycle _) \<Rightarrow> True | _ \<Rightarrow> False) \<and>
       found scope ''a'' q (\<lambda>h. h_instance h = ''a'')))))"

definition candidate_replacement_that_introduces_cycle_is_rejected :: bool where
  "candidate_replacement_that_introduces_cycle_is_rejected =
     new_root (\<lambda>scope q.
     expect_ok (provide_owned scope (test_definition ''a'') (\<lambda>_. Ok ''a'') q) (\<lambda>a q.
     and_drop (provide_owned scope (depends_on (cap_id_of ''a'') (test_definition ''b'')) (\<lambda>_. Ok ''b'') q) (\<lambda>q.
     expect_err (replace_owned scope (depends_on (cap_id_of ''b'') (test_definition ''a'')) (h_generation a)
         (\<lambda>_. Panic) q) (\<lambda>error _.
       case error of GraphAdmission (CapabilityCycle _) \<Rightarrow> True | _ \<Rightarrow> False))))"

definition missing_dependency_is_rejected_before_construction :: bool where
  "missing_dependency_is_rejected_before_construction =
     new_root (\<lambda>scope q.
     expect_err (provide_owned scope (depends_on (cap_id_of ''missing'') (test_definition ''a'')) (\<lambda>_. Panic) q) (\<lambda>error _.
       error = ScopeMissingDependency (cap_id_of ''a'') (cap_id_of ''missing'')))"

definition value_of_model :: "string resolved_dependencies \<Rightarrow> (string, string) res" where
  "value_of_model dependencies =
     (case deps_get dependencies model_id of Some h \<Rightarrow> Ok (h_instance h) | None \<Rightarrow> Panic)"

definition constructor_receives_resolved_dependency_snapshot :: bool where
  "constructor_receives_resolved_dependency_snapshot =
     new_root (\<lambda>scope q.
     and_drop (provide_owned scope model (\<lambda>_. Ok ''model-v1'') q) (\<lambda>q.
     expect_ok (provide_owned scope service value_of_model q) (\<lambda>bound q.
       h_instance bound = ''model-v1'' \<and>
       expect_value (deps_get (h_dependencies bound) model_id) (\<lambda>h.
         h_instance h = ''model-v1'' \<and> h_generation h = generation_first))))"

definition dependency_snapshot_survives_provider_replacement :: bool where
  "dependency_snapshot_survives_provider_replacement =
     new_root (\<lambda>scope q.
     and_drop (provide_owned scope model (\<lambda>_. Ok ''model-v1'') q) (\<lambda>q.
     expect_ok (provide_owned scope service value_of_model q) (\<lambda>bound q.
     expect_value (scope_generation (ow_scopes q) scope model_id) (\<lambda>model_generation.
     and_drop (replace_owned scope model model_generation (\<lambda>_. Ok ''model-v2'') q) (\<lambda>q.
       h_instance bound = ''model-v1'' \<and>
       expect_value (deps_get (h_dependencies bound) model_id) (\<lambda>h. h_instance h = ''model-v1'') \<and>
       found scope ''model'' q (\<lambda>h. h_instance h = ''model-v2''))))))"

definition published_entry_pins_exact_dependency_generation :: bool where
  "published_entry_pins_exact_dependency_generation =
     new_root (\<lambda>scope q.
     and_drop (provide_owned scope model (\<lambda>_. Ok ''model-v1'') q) (\<lambda>q.
     expect_ok (provide_owned scope service (\<lambda>_. Ok ''service'') q) (\<lambda>bound q.
     expect_value (deps_get (h_dependencies bound) model_id) (\<lambda>old_model.
     and_drop (replace_owned scope model (h_generation old_model) (\<lambda>_. Ok ''model-v2'') (own_receive old_model q)) (\<lambda>q.
       disposed ''model-v1'' q = 0 \<and>
       test_teardown scope (own_drop [bound] q) (\<lambda>q.
         disposed ''model-v1'' (own_drop [old_model] q) = 1))))))"

definition failed_conflicting_replacement_does_not_change_current_entry :: bool where
  "failed_conflicting_replacement_does_not_change_current_entry =
     new_root (\<lambda>scope q.
     expect_ok (provide_owned scope model (\<lambda>_. Ok ''v1'') q) (\<lambda>first q.
     expect_ok (replace_owned scope model (h_generation first) (\<lambda>_. Ok ''v2'') q) (\<lambda>current q.
     expect_err (replace_owned scope model (h_generation first) (\<lambda>_. Ok ''stale'') q) (\<lambda>error q.
       error = ReplacementConflict model_id (h_generation first) (h_generation current) \<and>
       found scope ''model'' q (\<lambda>h. h_instance h = ''v2'')))))"

definition stale_reader_cannot_remove_new_entry_identity :: bool where
  "stale_reader_cannot_remove_new_entry_identity =
     new_root (\<lambda>scope q.
     expect_ok (provide_owned scope model (\<lambda>_. Ok ''v1'') q) (\<lambda>old q.
     expect_ok (replace_owned scope model (h_generation old) (\<lambda>_. Ok ''v2'') q) (\<lambda>v2 q.
     expect_ok (replace_owned scope model (h_generation v2) (\<lambda>_. Ok ''v3'') q) (\<lambda>v3 q.
       h_entry_id old \<noteq> h_entry_id v3 \<and>
       found scope ''model'' (own_drop [old] q) (\<lambda>h. h_instance h = ''v3'') \<and>
       scope_generation (ow_scopes (own_drop [old] q)) scope model_id = Some (h_generation v3)))))"

lemma admission_tests:
  self_dependency_is_rejected_at_runtime_admission runtime_cycle_is_rejected
  candidate_replacement_that_introduces_cycle_is_rejected missing_dependency_is_rejected_before_construction
  unfolding self_dependency_is_rejected_at_runtime_admission_def runtime_cycle_is_rejected_def
    candidate_replacement_that_introduces_cycle_is_rejected_def
    missing_dependency_is_rejected_before_construction_def new_root_def
  by (simp_all add: scope_test_eval)

lemma snapshot_tests:
  constructor_receives_resolved_dependency_snapshot dependency_snapshot_survives_provider_replacement
  published_entry_pins_exact_dependency_generation
  unfolding constructor_receives_resolved_dependency_snapshot_def dependency_snapshot_survives_provider_replacement_def
    published_entry_pins_exact_dependency_generation_def new_root_def
  by (simp_all add: scope_test_eval value_of_model_def)

lemma stale_tests:
  failed_conflicting_replacement_does_not_change_current_entry stale_reader_cannot_remove_new_entry_identity
  unfolding failed_conflicting_replacement_does_not_change_current_entry_def
    stale_reader_cannot_remove_new_entry_identity_def new_root_def
  by (simp_all add: scope_test_eval)

subsection \<open>Teardown and release\<close>

definition teardown_respects_dependency_order :: bool where
  "teardown_respects_dependency_order =
     new_root (\<lambda>scope q.
     and_drop (provide_owned scope (test_definition ''c'') (\<lambda>_. Ok ''c'') q) (\<lambda>q.
     and_drop (provide_owned scope (depends_on (cap_id_of ''c'') (test_definition ''b'')) (\<lambda>_. Ok ''b'') q) (\<lambda>q.
     and_drop (provide_owned scope (depends_on (cap_id_of ''b'') (test_definition ''a'')) (\<lambda>_. Ok ''a'') q) (\<lambda>q.
     test_teardown scope q (\<lambda>q. events q = [''a'', ''b'', ''c''])))))"

definition teardown_rejects_new_mutations :: bool where
  "teardown_rejects_new_mutations =
     new_root (\<lambda>scope q.
     test_teardown scope q (\<lambda>q.
       fst (provide_owned scope (test_definition ''a'') (\<lambda>_. Ok ''a'') q) = Err ScopeClosed))"

definition cleanup_occurs_exactly_once :: bool where
  "cleanup_occurs_exactly_once =
     new_root (\<lambda>scope q.
     expect_ok (provide_owned scope (test_definition ''a'') (\<lambda>_. Ok ''a'') q) (\<lambda>handle q.
     test_teardown scope q (\<lambda>q.
     test_teardown scope q (\<lambda>q.
       disposed ''a'' q = 0 \<and> disposed ''a'' (own_drop [handle] q) = 1 \<and>
       test_teardown scope (own_drop [handle] q) (\<lambda>q. disposed ''a'' q = 1)))))"

definition teardown_is_idempotent :: bool where
  "teardown_is_idempotent =
     new_root (\<lambda>scope q.
     and_drop (provide_owned scope (test_definition ''a'') (\<lambda>_. Ok ''a'') q) (\<lambda>q.
     test_teardown scope q (\<lambda>q.
     test_teardown scope q (\<lambda>q. disposed ''a'' q = 1))))"

definition in_flight_dependent_pins_dependency_until_release :: bool where
  "in_flight_dependent_pins_dependency_until_release =
     new_root (\<lambda>scope q.
     and_drop (provide_owned scope model (\<lambda>_. Ok ''model'') q) (\<lambda>q.
     expect_ok (provide_owned scope service (\<lambda>_. Ok ''service'') q) (\<lambda>bound q.
     test_teardown scope q (\<lambda>q.
       disposed ''model'' q = 0 \<and> disposed ''model'' (own_drop [bound] q) = 1))))"

definition parent_scope_remains_alive_after_child_teardown :: bool where
  "parent_scope_remains_alive_after_child_teardown =
     new_root (\<lambda>root q.
     and_drop (provide_owned root model (\<lambda>_. Ok ''parent'') q) (\<lambda>q.
     new_child root q (\<lambda>child q.
     and_drop (provide_owned child service (\<lambda>_. Ok ''child-service'') q) (\<lambda>q.
     test_teardown child q (\<lambda>q.
       scope_get (ow_scopes q) child (cap_id_of ''service'') = None \<and>
       found root ''model'' q (\<lambda>h. h_instance h = ''parent'') \<and> disposed ''parent'' q = 0)))))"

definition parent_teardown_does_not_leave_open_invalid_child :: bool where
  "parent_teardown_does_not_leave_open_invalid_child =
     new_root (\<lambda>root q.
     and_drop (provide_owned root model (\<lambda>_. Ok ''model'') q) (\<lambda>q.
     new_child root q (\<lambda>child q.
     expect_ok (provide_owned child service (\<lambda>_. Ok ''service'') q) (\<lambda>bound q.
     test_teardown root q (\<lambda>q.
       h_instance bound = ''service'' \<and>
       scope_get (ow_scopes q) child (cap_id_of ''service'') = None \<and>
       fst (provide_owned child (test_definition ''new'') (\<lambda>_. Ok ''new'') q) = Err ScopeClosed)))))"

definition parent_teardown_preserves_in_flight_child_handles :: bool where
  "parent_teardown_preserves_in_flight_child_handles =
     new_root (\<lambda>root q.
     and_drop (provide_owned root model (\<lambda>_. Ok ''model'') q) (\<lambda>q.
     new_child root q (\<lambda>child q.
     expect_ok (provide_owned child service (\<lambda>_. Ok ''service'') q) (\<lambda>bound q.
     expect_value (deps_get (h_dependencies bound) model_id) (\<lambda>pinned_model.
     test_teardown root (own_receive pinned_model q) (\<lambda>q.
       h_instance bound = ''service'' \<and> h_instance pinned_model = ''model'' \<and>
       disposed ''model'' q = 0 \<and> disposed ''model'' (own_drop [bound] q) = 0 \<and>
       disposed ''model'' (own_drop [pinned_model] (own_drop [bound] q)) = 1))))))"

definition root_with_child :: "(scope_ref \<Rightarrow> scope_ref \<Rightarrow> owned \<Rightarrow> bool) \<Rightarrow> bool" where
  "root_with_child rest =
     new_root (\<lambda>root q.
     and_drop (provide_owned root model (\<lambda>_. Ok ''model'') q) (\<lambda>q.
     new_child root q (\<lambda>child q. rest root child q)))"

definition closed_descendant_rejects_lookup :: bool where
  "closed_descendant_rejects_lookup =
     root_with_child (\<lambda>root child q.
     test_teardown root q (\<lambda>q.
       scope_get (ow_scopes q) child model_id = None \<and>
       new_child child q (\<lambda>nested q. scope_get (ow_scopes q) nested model_id = None)))"

definition closed_descendant_rejects_mutation :: bool where
  "closed_descendant_rejects_mutation =
     root_with_child (\<lambda>root child q.
     test_teardown root q (\<lambda>q.
       validate_definition (ow_scopes q) child (test_definition ''new'') = Err ScopeClosed \<and>
       fst (provide_owned child (test_definition ''new'') (\<lambda>_. Ok ''new'') q) = Err ScopeClosed \<and>
       fst (replace_owned child model generation_first (\<lambda>_. Ok ''new'') q) = Err ScopeClosed \<and>
       new_child child q (\<lambda>nested q.
         fst (provide_owned nested (test_definition ''nested'') (\<lambda>_. Ok ''nested'') q) = Err ScopeClosed)))"

definition nested_scope_teardown_is_child_first :: bool where
  "nested_scope_teardown_is_child_first =
     new_root (\<lambda>root q.
     and_drop (provide_owned root model (\<lambda>_. Ok ''root'') q) (\<lambda>q.
     new_child root q (\<lambda>child q.
     and_drop (provide_owned child service (\<lambda>_. Ok ''child'') q) (\<lambda>q.
     new_child child q (\<lambda>grandchild q.
     and_drop (provide_owned grandchild (depends_on (cap_id_of ''service'') (test_definition ''task''))
         (\<lambda>_. Ok ''grandchild'') q) (\<lambda>q.
     test_teardown root q (\<lambda>q. events q = [''grandchild'', ''child'', ''root''])))))))"

definition parent_teardown_is_idempotent_with_closed_children :: bool where
  "parent_teardown_is_idempotent_with_closed_children =
     new_root (\<lambda>root q.
     and_drop (provide_owned root (test_definition ''root'') (\<lambda>_. Ok ''root'') q) (\<lambda>q.
     new_child root q (\<lambda>child q.
     and_drop (provide_owned child (test_definition ''child'') (\<lambda>_. Ok ''child'') q) (\<lambda>q.
     test_teardown child q (\<lambda>q.
     test_teardown root q (\<lambda>q.
     test_teardown child q (\<lambda>q.
     test_teardown root q (\<lambda>q. disposed ''child'' q = 1 \<and> disposed ''root'' q = 1))))))))"

lemma teardown_tests:
  teardown_respects_dependency_order teardown_rejects_new_mutations cleanup_occurs_exactly_once
  teardown_is_idempotent
  unfolding teardown_respects_dependency_order_def teardown_rejects_new_mutations_def
    cleanup_occurs_exactly_once_def teardown_is_idempotent_def new_root_def
  by (simp_all add: scope_test_eval)

lemma retention_tests:
  in_flight_dependent_pins_dependency_until_release parent_scope_remains_alive_after_child_teardown
  parent_teardown_does_not_leave_open_invalid_child parent_teardown_preserves_in_flight_child_handles
  unfolding in_flight_dependent_pins_dependency_until_release_def parent_scope_remains_alive_after_child_teardown_def
    parent_teardown_does_not_leave_open_invalid_child_def parent_teardown_preserves_in_flight_child_handles_def
    new_root_def
  by (simp_all add: scope_test_eval)

lemma closing_tests:
  closed_descendant_rejects_lookup closed_descendant_rejects_mutation nested_scope_teardown_is_child_first
  parent_teardown_is_idempotent_with_closed_children
  unfolding closed_descendant_rejects_lookup_def closed_descendant_rejects_mutation_def
    nested_scope_teardown_is_child_first_def parent_teardown_is_idempotent_with_closed_children_def
    root_with_child_def new_root_def
  by (simp_all add: scope_test_eval validate_definition_def)

subsection \<open>Exhaustion and races\<close>

definition generation_overflow_is_not_silent :: bool where
  "generation_overflow_is_not_silent \<longleftrightarrow>
     generation_checked_next generation_max = None \<and> generation_next generation_max = Panic \<and>
     new_root (\<lambda>scope q.
     expect_value (allocate_entry_id (sw_next_entry_id (ow_scopes q))) (\<lambda>(n, counter).
     let entry = \<lparr>ce_definition = model, ce_instance = ''model'', ce_dependencies = [],
                  ce_generation = generation_max, ce_entry_id = n\<rparr>;
         w = entry_write scope model_id entry ((ow_scopes q)\<lparr>sw_next_entry_id := counter\<rparr>)
     in expect_err (replace scope model generation_max (\<lambda>_. Ok ''next'') w) (\<lambda>error _.
          error = GenerationExhausted model_id)))"

definition entry_id_overflow_is_not_silent :: bool where
  "entry_id_overflow_is_not_silent \<longleftrightarrow> allocate_entry_id (- 1) = None"

definition teardown_planning_does_not_silently_fallback :: bool where
  "teardown_planning_does_not_silently_fallback \<longleftrightarrow>
     runtime_teardown_order (fmupd (cap_id_of ''invalid'')
       \<lparr>ce_definition = depends_on (cap_id_of ''missing'') (test_definition ''invalid''),
        ce_instance = ''invalid'', ce_dependencies = [], ce_generation = generation_first,
        ce_entry_id = EntryId 1\<rparr> fmempty) = Panic"

text \<open>The worker has prepared its replacement, and its factory waits, when the main thread replaces.\<close>

definition concurrent_stale_replacement_returns_conflict :: bool where
  "concurrent_stale_replacement_returns_conflict =
     new_root (\<lambda>scope q.
     expect_ok (provide scope model (\<lambda>_. Ok ''v1'') (ow_scopes q)) (\<lambda>initial w.
     let generation = h_generation initial in
     value_ok (publish_prepare w scope model (Replace generation)) (\<lambda>snapshot.
     expect_ok (replace scope model generation (\<lambda>_. Ok ''winner'') w) (\<lambda>winner w.
     expect_err (publish_preconstructed scope model (Replace generation) snapshot ''worker'' w) (\<lambda>loser w.
       loser = ReplacementConflict model_id generation (h_generation winner) \<and>
       expect_value (scope_get w scope model_id) (\<lambda>h. h_instance h = ''winner''))))))"

lemma overflow_tests: entry_id_overflow_is_not_silent teardown_planning_does_not_silently_fallback
  by (simp_all add: entry_id_overflow_is_not_silent_def teardown_planning_does_not_silently_fallback_def
      scope_test_eval unat_max_u64)

lemma race_tests: generation_overflow_is_not_silent concurrent_stale_replacement_returns_conflict
  unfolding generation_overflow_is_not_silent_def concurrent_stale_replacement_returns_conflict_def new_root_def
  by (simp_all add: scope_test_eval replace_def provide_def publish_def entry_write_def generation_max_def unat_max_u64)

end
