(* ===== verification/Crate_Tests.thy ===== *)
theory Crate_Tests
  imports Workflow_Tests Capability_Tests Runtime_Scheduler_Properties Stream_Properties
begin

text \<open>
  The unit tests of \<open>crates/core\<close>, \<open>crates/execution-stream\<close> and \<open>crates/runtime-core\<close> that stand in their
  sources: the model passes each of them.
\<close>

subsection \<open>Identifiers and revisions\<close>

definition rejects_blank_ids :: bool where
  "rejects_blank_ids \<longleftrightarrow> id_new ''   '' = Err InvalidId"

definition revision_is_monotonic :: bool where
  "revision_is_monotonic =
     value_ok (revision_next revision_zero) (\<lambda>r. revision_get revision_zero < revision_get r)"

definition revision_overflow_is_not_silent :: bool where
  "revision_overflow_is_not_silent \<longleftrightarrow>
     revision_checked_next revision_max = None \<and> revision_next revision_max = Panic"

lemma core_tests: rejects_blank_ids revision_is_monotonic revision_overflow_is_not_silent
  by (simp_all add: rejects_blank_ids_def revision_is_monotonic_def revision_overflow_is_not_silent_def id_new_def
      trim_is_empty_def revision_zero_def revision_max_def revision_next_def revision_checked_next_def
      u64_checked_succ_def unat_max_u64)

subsection \<open>Streams\<close>

definition sequencer_exhaustion_is_explicit :: bool where
  "sequencer_exhaustion_is_explicit =
     expect_value (some_value (id_new ''test'')) (\<lambda>stream.
     let sequencer = \<lparr>sq_stream = stream, sq_next = sequence_max, sq_exhausted = False\<rparr> in
     expect_ok (sequencer_emit (1 :: 8 word) sequencer) (\<lambda>item sequencer.
       si_sequence item = sequence_max \<and>
       fst (sequencer_emit (2 :: 8 word) sequencer) = Err (Exhausted stream sequence_max)))"

definition payload_mapping_preserves_order_metadata :: bool where
  "payload_mapping_preserves_order_metadata =
     expect_value (some_value (id_new ''model-output'')) (\<lambda>stream.
     let item = \<lparr>si_stream = stream, si_sequence = sequence_first, si_payload = ''42''\<rparr>;
         mapped = stream_item_map length item
     in si_stream mapped = stream \<and> si_sequence mapped = sequence_first \<and> si_payload mapped = 2)"

lemma stream_tests: sequencer_exhaustion_is_explicit payload_mapping_preserves_order_metadata
  by (simp_all add: sequencer_exhaustion_is_explicit_def payload_mapping_preserves_order_metadata_def id_new_visible
      sequencer_emit_def sequence_max_def sequence_checked_next_def u64_checked_succ_def unat_max_u64
      stream_item_map_def Let_def)

subsection \<open>The durable head of a runtime\<close>

definition admitted :: "run_id \<Rightarrow> string \<Rightarrow> attempt_admission" where
  "admitted run a =
     \<lparr>aa_run = run, aa_task = the (some_value (id_new ''task'')), aa_attempt = the (some_value (attempt_id_new a)),
      aa_operation = None, aa_capabilities = []\<rparr>"

definition runtime_durable_head_does_not_regress_on_old_replay :: bool where
  "runtime_durable_head_does_not_regress_on_old_replay =
     (let run = RunId (the (some_value (id_new ''runtime-replay''))) in
      value_ok (start_run run graph_default (fst (scope_root (scope_start :: string scope_world))) []) (\<lambda>runtime.
      let first = AdmitAttempt (admitted run ''attempt-1'') in
      expect_ok (commit_durable ''first'' [first] (runtime :: string runtime)) (\<lambda>first_revision runtime.
      expect_ok (commit_durable ''newer'' [AdmitAttempt (admitted run ''attempt-2'')] runtime) (\<lambda>newer_revision runtime.
      expect_ok (commit_durable ''first'' [first] runtime) (\<lambda>replay_revision runtime.
        store_revision_get first_revision + 1 = store_revision_get newer_revision \<and>
        replay_revision = newer_revision \<and>
        is_ok (fst (commit_durable ''after-replay'' [AdmitAttempt (admitted run ''attempt-3'')] runtime)))))))"

lemma visible_not_blank: "32 < (of_char c :: nat) \<Longrightarrow> (of_char c :: nat) < 0x80 \<Longrightarrow> \<not> trim_is_empty (c # s)"
  using id_new_visible [of c s] by (simp add: id_new_def split: if_splits)

lemma runtime_tests: runtime_durable_head_does_not_regress_on_old_replay
  unfolding runtime_durable_head_does_not_regress_on_old_replay_def Let_def
  by (simp add: admitted_def id_new_visible attempt_id_new_def start_run_def build_def stream_id_def expect_def
      lossless_new_def coalescing_new_def lossy_new_def store_new_def create_run_def store_revision_initial_def
      commit_durable_def idempotency_key_new_def visible_not_blank commit_def commit_state_def
      store_eval scope_root_def scope_start_def)

end
