(* ===== verification/Spec2Isabelle.thy ===== *)
theory Spec2Isabelle
  imports Workflow_Properties Stream_Properties Durable_Properties Capability_Scope_Properties
    Capability_Context_Properties Instance_Lifetime_Properties
    Runtime_Scheduler_Properties Reactive_Properties Graph_Lab_Properties Crate_Tests
begin

text \<open>
  A verification library for the Kernis workspace (\<open>src/crates\<close>), a deterministic workflow runtime:
  a versioned task graph, durable facts about external effects with recovery after a restart, bounded
  event streams, capability scopes, and a coordinator that ties them together.

  \<^bold>\<open>Parts of the program and theories.\<close>
  \<^item> \<open>crates/core\<close> (\<open>Id\<close>, \<open>Revision\<close>): \<open>Core_Primitives\<close>.
  \<^item> \<open>crates/workflow-graph\<close>: \<open>Workflow_Topology\<close> (tasks, dependencies, the depth-first search
    \<open>cycle_path\<close>), \<open>Workflow_Graph\<close> (batches, completion, readiness, replay), \<open>Workflow_Laws\<close> (the
    invariant \<open>graph_inv\<close> and the effect of each operation), \<open>Workflow_Properties\<close>.
  \<^item> \<open>crates/execution-stream\<close>: \<open>Execution_Stream\<close> (sequencer, tracker), \<open>Stream_Buffers\<close> (the three
    bounded buffers and the locales \<open>fifo_buffer\<close>, \<open>lossless_fifo\<close>), \<open>Stream_Properties\<close>.
  \<^item> \<open>crates/workflow-recovery\<close>: \<open>Recovery_Model\<close> (facts and decisions, locale \<open>effect_view\<close>),
    \<open>Durable_Journal\<close>, \<open>Durable_Store\<close> (run state, mutations, in-memory store), \<open>Durable_Laws\<close> (lineage,
    locale \<open>durable_port\<close>), \<open>Recovery_Classify\<close> (journal rebuilt after a restart, decision),
    \<open>Durable_Properties\<close>.
  \<^item> \<open>crates/capability-graph\<close>: \<open>Capability_Resolver\<close> (definitions, resolver), \<open>Capability_Properties\<close>;
    \<open>Capability_Scope\<close> (scopes of \<open>runtime.rs\<close>: lookup, publication, withdrawal, teardown),
    \<open>Capability_Scope_Laws\<close> (the tree of scopes, frame rules, histories, invariants),
    \<open>Capability_Scope_Teardown\<close> (the order of release), \<open>Capability_Scope_Properties\<close>;
    \<open>Instance_Lifetime\<close> (the reference counts of the instances and what their last \<open>drop\<close> releases),
    \<open>Instance_Lifetime_Laws\<close>, \<open>Instance_References\<close> (every count is the number of references),
    \<open>Instance_Lifetime_Properties\<close>; \<open>Capability_Context\<close> (the contexts, bindings and epochs of
    \<open>semantic.rs\<close>), \<open>Capability_Context_Properties\<close> (isolation).
  \<^item> the rest of \<open>semantic.rs\<close>: \<open>Effect_Scope\<close> (effect stacks, nested scopes, disposal),
    \<open>Effect_Laws\<close>, \<open>Effect_Properties\<close>; \<open>Fiber_Runtime\<close> (plugin definitions, runtimes, the registry,
    and every call of a fiber), \<open>Fiber_Laws\<close> (the invariant \<open>fiber_ok\<close> and what each call keeps),
    \<open>Fiber_Currency\<close> (when a loaded fiber is up to date, when a drive returns), \<open>Fiber_Properties\<close>.
  \<^item> \<open>reactive.rs\<close>: \<open>Reactive_Runtime\<close> (the coordinator of watched fibers), \<open>Reactive_Laws\<close> (the exact
    closure of a withdrawal, the depths, the report of a pass), \<open>Reactive_Settling\<close> (what a drive
    leaves settled, ranks, termination), \<open>Reactive_Dates\<close> (publications are dated by their entry
    identities, so bindings form no cycle), \<open>Reactive_Properties\<close>.
  \<^item> \<open>crates/runtime-core\<close>: \<open>Runtime_Core\<close> (the coordinator's state and every operation),
    \<open>Runtime_Laws\<close> (the primitive transitions \<open>coord_step\<close> and the invariant \<open>rt_ok\<close> they keep),
    \<open>Runtime_Calls\<close> (every public call and restart as a sequence of transitions),
    \<open>Runtime_Properties\<close> and \<open>Runtime_Scheduler_Properties\<close>.
  \<^item> \<open>crates/graph-lab\<close>: \<open>Graph_Lab\<close> (the laboratory program, which puts the crates together and prints),
    \<open>Graph_Lab_Properties\<close> (its evaluation in the kernel, part by part).
  \<^item> the unit tests inside these crates, one definition each: \<open>Test_Harness\<close>, \<open>Workflow_Tests\<close>,
    \<open>Capability_Tests\<close> (with what each test observes of the release of values), \<open>Crate_Tests\<close> (the
    other crates); the model passes all of them.
  \<^item> shared: \<open>Kernis_Prelude\<close> (results, 64-bit counters, ordered maps, printing) and \<open>Digraph\<close> (paths,
    cycles, the locale \<open>dep_graph\<close> of the two depth-first searches).

  \<^bold>\<open>How the code is modelled.\<close>  A \<open>struct\<close> is a record, an \<open>enum\<close> a datatype.  \<open>Result\<close> is \<open>res\<close>, whose
  third constructor \<open>Panic\<close> is the outcome of a failed \<open>expect\<close>, of \<open>unreachable!\<close> and of an
  overflowing \<open>next\<close>; a method on \<open>&mut self\<close> is an \<open>act\<close>, which also gives the object left behind by an
  error.  A \<open>BTreeMap\<close> is a finite map and a \<open>BTreeSet\<close> a finite set, iterated in key order
  (\<open>bt_keys\<close>, \<open>bt_values\<close>, \<open>bs_list\<close>).  A \<open>u64\<close> is a 64-bit word; a \<open>String\<close> is its list of UTF-8 bytes.
  The searches of the two graphs, the closure and the depths of a withdrawal are total functions (the
  measure is the number of unvisited nodes); so is the scheduler loop (the measure is the number of
  unfinished tasks).  The coordinator reads the shared scopes, so its operations take the world of
  scopes as an argument; a property quantifies over the world that each call finds.

  \<^bold>\<open>Asynchronous code.\<close>  Factories, disposers and validators are foreign code: parameters that map a world to
  a result (a panic included) and the world they leave; that a single call of them returns is taken for
  granted.  What other tasks do to a fiber while such code runs under its lock is bounded by the
  relation \<open>keeps\<close>: the fields that the lock protects stay, everything else may change.
  Where a call waits for a lock, it is two definitions (the request and the locked
  half), or takes what the others do meanwhile as the parameter \<open>others\<close>.  A call that may not return is
  an \<open>option\<close>: \<open>run_effects\<close>, \<open>drive_loop\<close> and \<open>reconcile_loop\<close> are partial functions without fuel, and that
  they return is proved as such (\<open>disposal_exact\<close>, \<open>drive_returns_when_quiet\<close>,
  \<open>reconcile_returns_when_quiet\<close>, \<open>withdrawal_completes\<close>), under hypotheses on the foreign code only where
  the loop depends on it.

  \<^bold>\<open>Interfaces.\<close>  \<open>u64_counter\<close> is the contract of the newtype counters and is interpreted on
  \<open>Revision\<close>, \<open>Sequence\<close>, \<open>StoreRevision\<close> and \<open>Generation\<close>; \<open>dep_graph\<close> on the workflow topology and on the
  capability graph; \<open>fifo_buffer\<close> on the lossless, the coalescing and the lossy buffer, and its
  extension \<open>lossless_fifo\<close> on the first; \<open>effect_view\<close> on the journal and on the durable run state;
  \<open>durable_port\<close>, the contract of the trait \<open>DurableStore\<close>, on the in-memory store;
  \<open>capability_view\<close>, lookup and dependency resolution, on scopes and on contexts.

  \<^bold>\<open>What is shown.\<close>  For the workflow: the search is exact, batches are atomic, history is immutable,
  no reachable workflow is stuck, and replay is a round trip in both directions.  For the streams:
  gapless numbering, exact gap accounting, and what each buffer keeps under any interleaving.  For
  recovery: atomic compare-and-swap with idempotent retry, append-only lineage of facts, no dispatch
  after cancellation, exact reconstruction of the journal, and a total and safe recovery decision.
  For capabilities: an exact resolver with a topological construction order; scopes whose visible
  definitions stay closed and acyclic under any interleaving of publications and teardowns, no
  publication on an outdated snapshot, a teardown that releases dependents first; instances that are
  released exactly once, exactly when nothing reaches them, and before what they were built on; isolation
  boundaries that no later publication outside of them crosses; and two histories in
  which the scopes do less than their comments say (a teardown that panics, a stale replacement that is
  accepted).  For the coordinator: the view in memory is the durable one in every reachable runtime, no
  call panics, attempts are numbered without gap or reuse over all restarts, a non-idempotent effect is
  dispatched once, cancellations and known outcomes are final, a task is completed only on a recorded
  success, the scheduler loop stops, a restart resumes the run; and two ways in which the announcement
  of an attempt is lost under backpressure.  For effects: a disposal calls every callback of the scope
  and its nested scopes exactly once, in reverse order.  For fibers: their state agrees with their
  publication, epoch and effects under any interleaving of calls and requests, a disposed fiber stays
  disposed, an active one is loaded for the providers its context resolves to at that moment, a
  drive of quiet code takes at most two iterations; and a history that leaves a disposed fiber registered for ever.  For the
  reactive coordinator: a reconciliation that returns leaves every watched fiber settled, and returns
  where nothing interferes, no disposal is waiting and the capabilities have ranks; a withdrawal quiesces
  exactly the dependents, completes when the disposers are quiet, and drives each before what it is
  bound to; and a history after which a reconciliation never returns.  The laboratory program and the unit
  tests are evaluated in the kernel, as a check of the model.

  \<^bold>\<open>What is not modelled.\<close>  The integration tests under \<open>tests/\<close>, the crate roots (re-exports only), and the derived \<open>Debug\<close> forms
  that no message prints; the derived \<open>Debug\<close> form of a store invariant, which the compiler generates, is
  a parameter of the printing of store errors.  A value is opaque, except in the laboratory program,
  where it is a string: downcasts, the cleanup of a value that was refused and never published, and a
  cleanup that itself calls the runtime are not followed.
  A panic ends a history, so the poisoning of a lock is not followed further.  Of futures that are
  dropped before they finish only the abandoned disposal is considered.  The scans of the reactive
  coordinator that only read the fields of fibers are one step: other tasks run between the fibers that
  it drives, not within a scan.
\<close>

end
